(* ===== verification/Prelude.thy ===== *)
theory Prelude
  imports Main "HOL-Library.Word"
begin

text \<open>
  Shared vocabulary of the development.

  \<^item> Machine integers: \<open>u8\<close> .. \<open>u64\<close> are words of that width.
  \<^item> C executions that can stop: a value of \<open>'a res\<close> is \<open>Inr x\<close> when the C function
    returns \<open>x\<close> and \<open>Inl f\<close> when the process stops in it: a failed \<open>assert\<close>, a NULL
    dereference, the use of a freed object, an access outside an allocated block, a division by
    zero, the use of a variable that was never set, a signed overflow or a call of \<open>exit\<close>. \<open>rbind\<close> sequences two such executions.
  \<^item> C strings: a \<open>string\<close> is the characters before the terminating NUL; a buffer is a list
    of characters, \<open>cstr_at b off\<close> is the C string that starts at offset \<open>off\<close> of it and
    \<open>write_at\<close> stores a run of characters into it.
\<close>

unbundle bit_operations_syntax

type_synonym u8 = "8 word"
type_synonym u16 = "16 word"
type_synonym u32 = "32 word"
type_synonym u64 = "64 word"

named_theorems res_simps \<open>equations of the result monad\<close>

section \<open>Results of C functions\<close>

datatype fault =
    Assert_failed
  | Null_deref
  | Use_after_free
  | Out_of_bounds
  | Div_zero
  | Uninit_read
  | Int_overflow
  | Exit_process int
  | Out_of_fuel

type_synonym 'a res = "fault + 'a"

definition rbind :: "'a res \<Rightarrow> ('a \<Rightarrow> 'b res) \<Rightarrow> 'b res" where
  "rbind m f = (case m of Inl e \<Rightarrow> Inl e | Inr x \<Rightarrow> f x)"

lemma rbind_Inl [simp, res_simps]: "rbind (Inl e) f = Inl e"
  by (simp add: rbind_def)

lemma rbind_Inr [simp, res_simps]: "rbind (Inr x) f = f x"
  by (simp add: rbind_def)

lemma rbind_eq_Inr [res_simps]: "rbind m f = Inr y \<longleftrightarrow> (\<exists>x. m = Inr x \<and> f x = Inr y)"
  by (cases m) simp_all

lemma rbind_eq_Inl [res_simps]:
  "rbind m f = Inl e \<longleftrightarrow> m = Inl e \<or> (\<exists>x. m = Inr x \<and> f x = Inl e)"
  by (cases m) auto

lemma rbind_assoc: "rbind (rbind m f) g = rbind m (\<lambda>x. rbind (f x) g)"
  by (cases m) simp_all

lemma rbind_cong [fundef_cong]:
  "m = m' \<Longrightarrow> (\<And>x. m' = Inr x \<Longrightarrow> f x = f' x) \<Longrightarrow> rbind m f = rbind m' f'"
  by (cases m') simp_all

section \<open>Constants of the platform\<close>

definition EINTR :: int where "EINTR = 4"
definition EAGAIN :: int where "EAGAIN = 11"
definition ENOMEM :: int where "ENOMEM = 12"
definition EINVAL :: int where "EINVAL = 22"

definition EPOLLIN :: u32 where "EPOLLIN = 0x001"
definition EPOLLERR :: u32 where "EPOLLERR = 0x008"
definition EPOLLHUP :: u32 where "EPOLLHUP = 0x010"

definition INT_MIN :: int where "INT_MIN = - (2 ^ 31)"
definition INT_MAX :: int where "INT_MAX = 2 ^ 31 - 1"
definition LONG_MIN :: int where "LONG_MIN = - (2 ^ 63)"
definition LONG_MAX :: int where "LONG_MAX = 2 ^ 63 - 1"

text \<open>The sum of two values of type \<open>int\<close>.\<close>

definition int_add :: "int \<Rightarrow> int \<Rightarrow> int res" where
  "int_add a b = (if INT_MIN \<le> a + b \<and> a + b \<le> INT_MAX then Inr (a + b) else Inl Int_overflow)"

section \<open>C strings and buffers\<close>

abbreviation NUL :: char where
  "NUL \<equiv> CHR 0x00"

definition cstr :: "char list \<Rightarrow> string" where
  "cstr b = takeWhile (\<lambda>c. c \<noteq> NUL) b"

definition cstr_at :: "char list \<Rightarrow> nat \<Rightarrow> string" where
  "cstr_at b off = cstr (drop off b)"

definition write_at :: "'a list \<Rightarrow> nat \<Rightarrow> 'a list \<Rightarrow> 'a list" where
  "write_at b off xs = take off b @ xs @ drop (off + length xs) b"

lemma length_write_at [simp]:
  "off + length xs \<le> length b \<Longrightarrow> length (write_at b off xs) = length b"
  by (simp add: write_at_def)

lemma cstr_terminated: "NUL \<notin> set s \<Longrightarrow> cstr (s @ NUL # t) = s"
  by (induction s) (auto simp: cstr_def)

lemma cstr_no_NUL [simp]: "NUL \<notin> set s \<Longrightarrow> cstr s = s"
  by (auto simp: cstr_def)

lemma NUL_notin_cstr [simp]: "NUL \<notin> set (cstr b)"
  by (induction b) (auto simp: cstr_def)

lemma cstr_append_NUL: "NUL \<in> set b \<Longrightarrow> cstr (b @ t) = cstr b"
  by (induction b) (auto simp: cstr_def)

lemma cstr_at_write_at:
  assumes "NUL \<notin> set s" and "off + length s < length b"
  shows "cstr_at (write_at b off (s @ [NUL])) off = s"
proof -
  have "drop off (write_at b off (s @ [NUL])) = s @ NUL # drop (off + length s + 1) b"
    using assms(2) by (simp add: write_at_def)
  then show ?thesis using assms(1) by (simp add: cstr_at_def cstr_terminated)
qed

text \<open>A later store past a terminated string leaves that string as it is.\<close>

lemma cstr_at_write_at_other:
  assumes "NUL \<in> set (drop i (take off b))" and "off \<le> length b"
  shows "cstr_at (write_at b off xs) i = cstr_at b i"
proof -
  let ?m = "drop i (take off b)"
  have i: "i \<le> off" using assms(1) by (cases "i \<le> off") simp_all
  have w: "drop i (write_at b off xs) = ?m @ xs @ drop (off + length xs) b"
    using i assms(2) by (simp add: write_at_def)
  have b: "drop i b = ?m @ drop off b"
    using i assms(2) by (metis append_take_drop_id drop_append length_take min.absorb2
        diff_is_0_eq drop0)
  show ?thesis
    using cstr_append_NUL[OF assms(1)] by (simp add: cstr_at_def w b)
qed

section \<open>Lists\<close>

lemma nth_list_update_cases:
  "i < length xs \<Longrightarrow> xs[j := v] ! i = (if i = j then v else xs ! i)"
  by simp

lemma map_of_append_single:
  "k \<notin> fst ` set xs \<Longrightarrow> map_of (xs @ [(k, v)]) = (map_of xs)(k \<mapsto> v)"
  by (induction xs) (auto simp: fun_upd_twist)

lemma distinct_fst_filter: "distinct (map fst xs) \<Longrightarrow> distinct (map fst (filter P xs))"
  by (induction xs) auto

lemma map_option_eq_SomeE:
  assumes "map_option f x = Some y"
  obtains z where "x = Some z" and "f z = y"
  using assms by (cases x) auto

lemma mem_snd_image: "b \<in> snd ` X \<longleftrightarrow> (\<exists>k. (k, b) \<in> X)"
  by force

lemma mem_fst_image: "k \<in> fst ` X \<longleftrightarrow> (\<exists>b. (k, b) \<in> X)"
  by force

lemma map_of_distinct_eq:
  "distinct (map fst xs) \<Longrightarrow> map_of xs k = Some v \<longleftrightarrow> (k, v) \<in> set xs"
  by (rule map_of_eq_Some_iff)

lemma take_min_length: "take (min (length xs) k) xs = take k xs"
  by (simp add: min_def)

lemma take_drop_cover: "take k (drop i xs) @ drop (i + length (take k (drop i xs))) xs = drop i xs"
proof -
  have "drop (length (take k ys)) ys = drop k ys" for ys :: "'a list"
    by (simp add: min_def)
  then show ?thesis by (metis append_take_drop_id drop_drop add.commute)
qed

section \<open>Words\<close>

lemma unat_of_nat_small: "n < 2 ^ LENGTH('a) \<Longrightarrow> unat (of_nat n :: 'a::len word) = n"
  by (simp add: unat_of_nat take_bit_nat_eq_self)

lemma unat_bound64: "unat (w :: u64) < 2 ^ 64"
  using unsigned_less[where 'a = nat and 'b = 64, of w] by simp

lemma unat_diff_le: "b \<le> a \<Longrightarrow> unat (a - b :: 'a::len word) = unat a - unat b"
  by (rule unat_sub)

end
