(* ===== verification/Uthash.thy ===== *)
theory Uthash
  imports Prelude
begin

text \<open>
  The interface of the \<open>uthash\<close> macros. \<open>uthash.h\<close> is fetched from its own repository when
  \<open>kld\<close> is built, so the hash table is a parameter of the model: a record of the operations
  the source uses (\<open>HASH_FIND\<close>, \<open>HASH_ADD\<close> / \<open>HASH_ADD_KEYPTR\<close>, \<open>HASH_DELETE\<close>,
  \<open>HASH_CNT\<close> / \<open>HASH_COUNT\<close>, \<open>HASH_ITER\<close>), with a NULL head as the empty table. The locale
  \<open>uthash\<close> states what its user guide documents: iteration visits the items in the order they
  were added, a lookup finds the item stored under a key, a count is the number of items.
  \<open>alist_uthash\<close> is an implementation with an association list; it evaluates the model on
  concrete inputs and shows that the laws can hold together.
\<close>

record ('k, 'v, 't) uthash_ops =
  hash_null :: 't
  hash_find :: "'t \<Rightarrow> 'k \<Rightarrow> 'v option"
  hash_add :: "'t \<Rightarrow> 'k \<Rightarrow> 'v \<Rightarrow> 't"
  hash_delete :: "'t \<Rightarrow> 'v \<Rightarrow> 't"
  hash_count :: "'t \<Rightarrow> nat"
  hash_iter :: "'t \<Rightarrow> ('k \<times> 'v) list"

text \<open>Keys of a table, as \<open>HASH_ITER\<close> meets them.\<close>

definition hash_keys :: "('k, 'v, 't) uthash_ops \<Rightarrow> 't \<Rightarrow> 'k list" where
  "hash_keys H t = map fst (hash_iter H t)"

locale uthash =
  fixes H :: "('k, 'v, 't) uthash_ops"
  assumes iter_null: "hash_iter H (hash_null H) = []"
    and iter_add: "k \<notin> set (hash_keys H t) \<Longrightarrow>
      hash_iter H (hash_add H t k v) = hash_iter H t @ [(k, v)]"
    and iter_delete: "v \<in> snd ` set (hash_iter H t) \<Longrightarrow>
      hash_iter H (hash_delete H t v) = filter (\<lambda>p. snd p \<noteq> v) (hash_iter H t)"
    and find_iter: "distinct (hash_keys H t) \<Longrightarrow> hash_find H t k = map_of (hash_iter H t) k"
    and count_iter: "hash_count H t = length (hash_iter H t)"
begin

lemma keys_null [simp]: "hash_keys H (hash_null H) = []"
  by (simp add: hash_keys_def iter_null)

lemma find_null: "hash_find H (hash_null H) k = None"
  by (simp add: find_iter iter_null hash_keys_def)

lemma keys_add:
  "k \<notin> set (hash_keys H t) \<Longrightarrow> hash_keys H (hash_add H t k v) = hash_keys H t @ [k]"
  by (simp add: hash_keys_def iter_add)

lemma distinct_add:
  "distinct (hash_keys H t) \<Longrightarrow> k \<notin> set (hash_keys H t) \<Longrightarrow> distinct (hash_keys H (hash_add H t k v))"
  by (simp add: keys_add)

lemma find_None_iff:
  "distinct (hash_keys H t) \<Longrightarrow> hash_find H t k = None \<longleftrightarrow> k \<notin> set (hash_keys H t)"
  by (simp add: find_iter map_of_eq_None_iff hash_keys_def)

lemma find_Some_iff:
  "distinct (hash_keys H t) \<Longrightarrow> hash_find H t k = Some v \<longleftrightarrow> (k, v) \<in> set (hash_iter H t)"
  by (simp add: find_iter map_of_distinct_eq hash_keys_def)

lemma find_add:
  assumes "distinct (hash_keys H t)" and "k \<notin> set (hash_keys H t)"
  shows "hash_find H (hash_add H t k v) = (hash_find H t)(k \<mapsto> v)"
proof
  fix j
  show "hash_find H (hash_add H t k v) j = ((hash_find H t)(k \<mapsto> v)) j"
    using assms map_of_append_single[of k "hash_iter H t" v]
    by (simp add: find_iter distinct_add iter_add hash_keys_def)
qed

lemma distinct_delete:
  "distinct (hash_keys H t) \<Longrightarrow> v \<in> snd ` set (hash_iter H t) \<Longrightarrow>
    distinct (hash_keys H (hash_delete H t v))"
  by (simp add: hash_keys_def iter_delete distinct_fst_filter)

lemma count_zero: "hash_count H t = 0 \<longleftrightarrow> hash_iter H t = []"
  by (simp add: count_iter)

end

text \<open>An association list in the order of insertion.\<close>

definition alist_uthash :: "('k, 'v, ('k \<times> 'v) list) uthash_ops" where
  "alist_uthash = \<lparr>
     hash_null = [],
     hash_find = map_of,
     hash_add = (\<lambda>t k v. t @ [(k, v)]),
     hash_delete = (\<lambda>t v. filter (\<lambda>p. snd p \<noteq> v) t),
     hash_count = length,
     hash_iter = (\<lambda>t. t)\<rparr>"

interpretation alist: uthash alist_uthash
  by unfold_locales (auto simp: alist_uthash_def hash_keys_def)

lemma uthash_alist: "uthash alist_uthash"
  by (rule alist.uthash_axioms)

lemma alist_uthash_sel [simp]:
  "hash_null alist_uthash = []"
  "hash_find alist_uthash = map_of"
  "hash_add alist_uthash t k v = t @ [(k, v)]"
  "hash_delete alist_uthash t v = filter (\<lambda>p. snd p \<noteq> v) t"
  "hash_count alist_uthash = length"
  "hash_iter alist_uthash t = t"
  by (simp_all add: alist_uthash_def)

end
