(* ===== verification/Fs_Types.thy ===== *)
theory Fs_Types
  imports Uthash
begin

text \<open>
  The data of the synthetic file system of \<open>kld\<close> (\<open>fs.h\<close>). A file is a heap object: a
  \<open>fs_file_t *\<close> is an address, NULL is \<open>None\<close>, \<open>malloc\<close> takes the next address and
  \<open>free\<close> removes the object, so that reading it afterwards is a fault. A
  \<open>fs_inodesc_t *\<close> always points into the inode table and is the index of its entry. The two
  hash tables of a directory have types of their own (\<open>'i\<close> keyed by inode, \<open>'n\<close> keyed by name).
\<close>

type_synonym fs_ino_t = nat
type_synonym addr = nat

definition INVALID_INO :: fs_ino_t where "INVALID_INO = 0"
definition ROOT_INO :: fs_ino_t where "ROOT_INO = 1"

datatype fs_filetype_t = NONE | REGULAR | SYMLINK | DIRECTORY

text \<open>
  The operation tables of the program: \<open>fs_dir_ops\<close> of \<open>fs.c\<close> and \<open>fs_libkernel_ops\<close>
  of \<open>kldfs.c\<close>. A \<open>const fs_fileops_t *\<close> names one of them.
\<close>

datatype fs_fileops_t = Fs_dir_ops | Fs_libkernel_ops

record ('i, 'n) fs_dir_t =
  ino_files :: 'i
  nm_files :: 'n

text \<open>
  What the \<open>void *data\<close> of a file points to: nothing, the \<open>fs_dir_t\<close> of a directory or the
  target of a symbolic link.
\<close>

datatype ('i, 'n) fs_data = Data_null | Data_dir "('i, 'n) fs_dir_t" | Data_link string

record ('i, 'n) fs_file_t =
  f_ops :: "fs_fileops_t option"
  f_data :: "('i, 'n) fs_data"
  f_name :: "string option"
  f_ino :: fs_ino_t
  f_dir :: fs_ino_t
  f_type :: fs_filetype_t
  f_malloced :: bool

record fs_inodesc_t =
  id_file :: "addr option"
  id_next :: "nat option"

text \<open>
  The file system object. \<open>ino_table\<close> is the empty list while the C pointer is NULL; the libfuse
  session is only tested against NULL, so \<open>fuse_se\<close> says whether there is one. \<open>fs_heap\<close> and
  \<open>fs_brk\<close> are the objects allocated with \<open>malloc\<close> and the next free address; \<open>fs_calls\<close> is the
  trace of the calls that change the world outside (the mount point and the libfuse session).
\<close>

datatype fs_call =
    Call_mkdir string
  | Call_session_new "string list"
  | Call_session_mount string
  | Call_session_unmount
  | Call_session_destroy
  | Call_rmdir string

text \<open>
  The two event handlers of the program; an \<open>evntdesc_t\<close> pairs one of them with the object it
  belongs to (there is one file system and one signal processor), \<open>None\<close> is the zeroed descriptor.
\<close>

datatype evnthdlr_t = FsEvent | SigEvent

record ('i, 'n) fs_t =
  fuse_args :: "string list"
  fuse_buf_mem :: bool
  fs_ed :: "evnthdlr_t option"
  fuse_se :: bool
  mntpt :: "string option"
  ino_table :: "fs_inodesc_t list"
  ino_freelist :: "nat option"
  ino_num :: int
  ino_numfree :: int
  fuse_fd :: int
  fs_mkdir :: bool
  fs_heap :: "addr \<Rightarrow> ('i, 'n) fs_file_t option"
  fs_brk :: addr
  fs_calls :: "fs_call list"

text \<open>Reading and writing through a \<open>fs_file_t *\<close>.\<close>

definition file_get :: "('i, 'n) fs_t \<Rightarrow> addr option \<Rightarrow> ('i, 'n) fs_file_t res" where
  "file_get s p = (case p of
     None \<Rightarrow> Inl Null_deref
   | Some a \<Rightarrow> (case fs_heap s a of None \<Rightarrow> Inl Use_after_free | Some f \<Rightarrow> Inr f))"

definition file_put :: "('i, 'n) fs_t \<Rightarrow> addr \<Rightarrow> ('i, 'n) fs_file_t \<Rightarrow> ('i, 'n) fs_t" where
  "file_put s a f = s\<lparr>fs_heap := (fs_heap s)(a := Some f)\<rparr>"

definition file_free :: "('i, 'n) fs_t \<Rightarrow> addr \<Rightarrow> ('i, 'n) fs_t" where
  "file_free s a = s\<lparr>fs_heap := (fs_heap s)(a := None)\<rparr>"

lemma file_get_Some [simp]: "fs_heap s a = Some f \<Longrightarrow> file_get s (Some a) = Inr f"
  by (simp add: file_get_def)

lemma file_get_eq_Inr:
  "file_get s p = Inr f \<longleftrightarrow> (\<exists>a. p = Some a \<and> fs_heap s a = Some f)"
  by (auto simp: file_get_def split: option.splits)

lemma fs_heap_file_put [simp]: "fs_heap (file_put s a f) = (fs_heap s)(a := Some f)"
  by (simp add: file_put_def)

lemma fs_heap_file_free [simp]: "fs_heap (file_free s a) = (fs_heap s)(a := None)"
  by (simp add: file_free_def)

lemma file_put_frame [simp]:
  "ino_table (file_put s a f) = ino_table s"
  "ino_freelist (file_put s a f) = ino_freelist s"
  "ino_num (file_put s a f) = ino_num s"
  "ino_numfree (file_put s a f) = ino_numfree s"
  "fs_brk (file_put s a f) = fs_brk s"
  "mntpt (file_put s a f) = mntpt s"
  "fs_mkdir (file_put s a f) = fs_mkdir s"
  "fuse_se (file_put s a f) = fuse_se s"
  "fs_calls (file_put s a f) = fs_calls s"
  by (simp_all add: file_put_def)

lemma file_free_frame [simp]:
  "ino_table (file_free s a) = ino_table s"
  "ino_freelist (file_free s a) = ino_freelist s"
  "ino_num (file_free s a) = ino_num s"
  "ino_numfree (file_free s a) = ino_numfree s"
  "fs_brk (file_free s a) = fs_brk s"
  "mntpt (file_free s a) = mntpt s"
  "fs_mkdir (file_free s a) = fs_mkdir s"
  "fuse_se (file_free s a) = fuse_se s"
  "fs_calls (file_free s a) = fs_calls s"
  by (simp_all add: file_free_def)

end
