(* ===== verification/Fs_Inode.thy ===== *)
theory Fs_Inode
  imports Fs_Types
begin

text \<open>
  The inode table of \<open>fs.c\<close>: one page of \<open>fs_inodesc_t\<close> whose free entries are linked through
  \<open>next\<close>. The operations come first, in the order of the source; then the contract \<open>ino_pool\<close>
  that says which list of inodes is free, and the proof that \<open>inoalloc\<close> and \<open>inofree\<close>
  implement a stack of inodes (interface locale \<open>ino_stack\<close>).
\<close>

named_theorems ino_defs \<open>definitions of the inode table operations\<close>

section \<open>Operations\<close>

text \<open>\<open>4096/sizeof(fs_inodesc_t)\<close>: the descriptor is two pointers of eight bytes.\<close>

definition INODESC_SIZE :: nat where "INODESC_SIZE = 16"

definition inodesc2ino :: "('i, 'n) fs_t \<Rightarrow> nat \<Rightarrow> fs_ino_t res" where
  "inodesc2ino s k = (if int k \<le> ino_num s - 1 then Inr k else Inl Assert_failed)"

definition ino2inodesc :: "('i, 'n) fs_t \<Rightarrow> fs_ino_t \<Rightarrow> nat res" where
  "ino2inodesc s ino = (if int ino < ino_num s then Inr ino else Inl Assert_failed)"

definition init_inotable :: "('i, 'n) fs_t \<Rightarrow> ('i, 'n) fs_t res" where
  "init_inotable s =
     (if \<not> (ino_table s = [] \<and> ino_num s = 0) then Inl Assert_failed
      else let n = 4096 div INODESC_SIZE;
               t = map (\<lambda>i. \<lparr>id_file = None,
                              id_next = (if i < n - 1 then Some (i + 1) else None)\<rparr>) [0..<n]
           in Inr (s\<lparr>ino_table := t, ino_num := int n, ino_freelist := Some 0,
                     ino_numfree := int n\<rparr>))"

text \<open>\<open>NYI\<close> prints a message and fails an assertion.\<close>

definition grow_inotable :: "('i, 'n) fs_t \<Rightarrow> ('i, 'n) fs_t res" where
  "grow_inotable s = Inl Assert_failed"

text \<open>
  The entry that \<open>ino_freelist\<close> points to is taken off the list. Reading it is a fault when the
  list is still empty after \<open>grow_inotable\<close>, or when the pointer does not lie in the table.
\<close>

definition inoalloc :: "('i, 'n) fs_t \<Rightarrow> (fs_ino_t \<times> ('i, 'n) fs_t) res" where
  "inoalloc s =
     rbind (if ino_table s = [] then init_inotable s else Inr s) (\<lambda>s.
     rbind (if ino_freelist s = None
            then (if ino_numfree s \<noteq> 0 then Inl Assert_failed else grow_inotable s)
            else Inr s) (\<lambda>s.
     case ino_freelist s of
       None \<Rightarrow> Inl Null_deref
     | Some k \<Rightarrow>
         if length (ino_table s) \<le> k then Inl Out_of_bounds
         else let d = ino_table s ! k;
                  s = s\<lparr>ino_freelist := id_next d,
                        ino_table := (ino_table s)[k := d\<lparr>id_next := None\<rparr>],
                        ino_numfree := ino_numfree s - 1\<rparr>
              in if ino_numfree s < 0 then Inl Assert_failed
                 else if id_file d \<noteq> None then Inl Assert_failed
                 else rbind (inodesc2ino s k) (\<lambda>ino. Inr (ino, s))))"

definition inofree :: "('i, 'n) fs_t \<Rightarrow> fs_ino_t \<Rightarrow> ('i, 'n) fs_t res" where
  "inofree s ino =
     rbind (ino2inodesc s ino) (\<lambda>k.
     if length (ino_table s) \<le> k then Inl Out_of_bounds
     else let d = ino_table s ! k
          in if id_next d \<noteq> None then Inl Assert_failed
             else Inr (s\<lparr>ino_table := (ino_table s)[k := d\<lparr>id_next := ino_freelist s\<rparr>],
                         ino_freelist := Some k,
                         ino_numfree := ino_numfree s + 1\<rparr>))"

lemmas [ino_defs] = inodesc2ino_def ino2inodesc_def grow_inotable_def

section \<open>The contract: a stack of free inodes\<close>

text \<open>\<open>free_chain t p is\<close>: following \<open>next\<close> from \<open>p\<close> in table \<open>t\<close> visits exactly \<open>is\<close>.\<close>

fun free_chain :: "fs_inodesc_t list \<Rightarrow> nat option \<Rightarrow> nat list \<Rightarrow> bool" where
  "free_chain t None [] = True"
| "free_chain t (Some k) (j # js) = (k = j \<and> k < length t \<and> free_chain t (id_next (t ! k)) js)"
| "free_chain t _ _ = False"

text \<open>
  \<open>ino_pool s is\<close>: the table is allocated, its free list is \<open>is\<close> and every other entry is
  unlinked, as the assertions \<open>next == NULL\<close> of the callers require.
\<close>

definition ino_pool :: "('i, 'n) fs_t \<Rightarrow> nat list \<Rightarrow> bool" where
  "ino_pool s is \<longleftrightarrow>
     ino_table s \<noteq> [] \<and> int (length (ino_table s)) = ino_num s \<and>
     free_chain (ino_table s) (ino_freelist s) is \<and> distinct is \<and>
     ino_numfree s = int (length is) \<and>
     (\<forall>k < length (ino_table s). k \<notin> set is \<longrightarrow> id_next (ino_table s ! k) = None)"

text \<open>An entry of the table that no file is recorded in.\<close>

definition ino_clean :: "('i, 'n) fs_t \<Rightarrow> nat \<Rightarrow> bool" where
  "ino_clean s k \<longleftrightarrow> k < length (ino_table s) \<and> id_file (ino_table s ! k) = None"

lemma free_chain_bound: "free_chain t p is \<Longrightarrow> k \<in> set is \<Longrightarrow> k < length t"
  by (induction t p "is" rule: free_chain.induct) auto

lemma free_chain_head: "free_chain t p (k # is) \<Longrightarrow> p = Some k"
  by (cases p) auto

lemma free_chain_None [simp]: "free_chain t None is \<longleftrightarrow> is = []"
  by (cases "is") auto

text \<open>Only the \<open>next\<close> fields of the entries on the chain matter.\<close>

lemma free_chain_frame:
  assumes "length t' = length t" and "\<forall>k \<in> set is. id_next (t' ! k) = id_next (t ! k)"
  shows "free_chain t' p is = free_chain t p is"
  using assms by (induction t p "is" rule: free_chain.induct) auto

lemma free_chain_update:
  "k \<notin> set is \<Longrightarrow> free_chain (t[k := d]) p is = free_chain t p is"
  by (rule free_chain_frame) (simp, metis nth_list_update_neq)

lemma free_chain_upt:
  assumes "\<And>i. i < n \<Longrightarrow> id_next (t ! i) = (if i < n - 1 then Some (i + 1) else None)"
    and "length t = n" and "m < n"
  shows "free_chain t (Some m) [m..<n]"
  using assms(3)
proof (induction "n - m" arbitrary: m)
  case 0
  then show ?case by simp
next
  case (Suc d)
  show ?case
  proof (cases "m = n - 1")
    case True
    then have n: "n = Suc m" using Suc.prems by simp
    then show ?thesis using assms(1)[of m] assms(2) by simp
  next
    case False
    then have m: "m + 1 < n" using Suc.prems by simp
    then have "free_chain t (Some (m + 1)) [m + 1..<n]"
      using Suc.hyps by simp
    moreover have "[m..<n] = m # [m + 1..<n]" using Suc.prems by (simp add: upt_conv_Cons)
    ultimately show ?thesis using m assms(1)[of m] assms(2) by simp
  qed
qed

text \<open>The contract depends on the links of the table and on the list head and counters only.\<close>

lemma ino_pool_cong:
  assumes "ino_freelist s' = ino_freelist s" and "ino_num s' = ino_num s"
    and "ino_numfree s' = ino_numfree s" and len: "length (ino_table s') = length (ino_table s)"
    and nx: "\<And>k. k < length (ino_table s) \<Longrightarrow> id_next (ino_table s' ! k) = id_next (ino_table s ! k)"
  shows "ino_pool s' is = ino_pool s is"
proof -
  have ne: "ino_table s' \<noteq> [] \<longleftrightarrow> ino_table s \<noteq> []" using len by (metis length_0_conv)
  have "free_chain (ino_table s') p is = free_chain (ino_table s) p is"
    if "\<forall>k \<in> set is. k < length (ino_table s)" for p
    using that nx len by (intro free_chain_frame) auto
  moreover have "\<forall>k \<in> set is. k < length (ino_table s)"
    if "free_chain (ino_table s) p is \<or> free_chain (ino_table s') p is" for p
    using that free_chain_bound len by metis
  ultimately have "free_chain (ino_table s') p is = free_chain (ino_table s) p is" for p by blast
  then show ?thesis using assms(1-3) len nx ne by (simp add: ino_pool_def)
qed

section \<open>The operations implement the contract\<close>

lemma length_inotable_page: "4096 div INODESC_SIZE = 256"
  by (simp add: INODESC_SIZE_def)

lemma init_inotable_pool:
  assumes "ino_table s = []" and "ino_num s = 0"
  obtains s' where "init_inotable s = Inr s'" and "ino_pool s' [0..<256]"
    and "\<And>k. k < 256 \<Longrightarrow> ino_clean s' k" and "length (ino_table s') = 256"
    and "s' = s\<lparr>ino_table := ino_table s', ino_num := 256, ino_freelist := Some 0, ino_numfree := 256\<rparr>"
proof -
  let ?t = "map (\<lambda>i. \<lparr>id_file = None,
      id_next = (if i < 256 - 1 then Some (i + 1) else None)\<rparr>) [0..<256::nat]"
  let ?s = "s\<lparr>ino_table := ?t, ino_num := 256, ino_freelist := Some 0, ino_numfree := 256\<rparr>"
  have "init_inotable s = Inr ?s"
    using assms by (simp add: init_inotable_def length_inotable_page Let_def del: upt_rec_numeral)
  moreover have "free_chain ?t (Some 0) [0..<256]"
    by (rule free_chain_upt) (simp_all del: upt_rec_numeral)
  then have "ino_pool ?s [0..<256]"
    by (simp add: ino_pool_def del: upt_rec_numeral)
  moreover have "ino_clean ?s k" if "k < 256" for k
    using that by (simp add: ino_clean_def del: upt_rec_numeral)
  ultimately show thesis using that by (simp del: upt_rec_numeral)
qed

text \<open>Effect of taking the head of the free list, and what it leaves alone.\<close>

lemma inoalloc_pool:
  assumes pool: "ino_pool s (k # is)" and clean: "ino_clean s k"
  obtains s' where "inoalloc s = Inr (k, s')" and "ino_pool s' is"
    and "s' = s\<lparr>ino_freelist := ino_freelist s', ino_table := (ino_table s)[k := \<lparr>id_file = None, id_next = None\<rparr>],
               ino_numfree := ino_numfree s'\<rparr>"
proof -
  let ?d = "ino_table s ! k"
  let ?s = "s\<lparr>ino_freelist := id_next ?d, ino_table := (ino_table s)[k := ?d\<lparr>id_next := None\<rparr>],
              ino_numfree := ino_numfree s - 1\<rparr>"
  from pool have t: "ino_table s \<noteq> []" and num: "int (length (ino_table s)) = ino_num s"
    and ch: "free_chain (ino_table s) (ino_freelist s) (k # is)" and dist: "distinct (k # is)"
    and nf: "ino_numfree s = int (length (k # is))"
    and other: "\<forall>j < length (ino_table s). j \<notin> set (k # is) \<longrightarrow> id_next (ino_table s ! j) = None"
    by (auto simp: ino_pool_def)
  have fl: "ino_freelist s = Some k" using ch by (rule free_chain_head)
  have k: "k < length (ino_table s)" using ch by (rule free_chain_bound) simp
  have d: "id_file ?d = None" using clean by (simp add: ino_clean_def)
  have "inoalloc s = Inr (k, ?s)"
    using t fl k d nf num by (simp add: inoalloc_def inodesc2ino_def Let_def)
  moreover have "ino_pool ?s is"
    using t num ch dist nf other k fl
    by (auto simp: ino_pool_def free_chain_update nth_list_update)
  moreover have "?d\<lparr>id_next := None\<rparr> = \<lparr>id_file = None, id_next = None\<rparr>"
    using d by (cases ?d) simp
  ultimately show thesis using that[of ?s] by simp
qed

text \<open>An entry that still records a file makes the allocation fail its assertion.\<close>

lemma inoalloc_dirty:
  assumes pool: "ino_pool s (k # is)" and dirty: "\<not> ino_clean s k"
  shows "inoalloc s = Inl Assert_failed"
proof -
  from pool have t: "ino_table s \<noteq> []" and ch: "free_chain (ino_table s) (ino_freelist s) (k # is)"
    and nf: "ino_numfree s = int (length (k # is))" by (auto simp: ino_pool_def)
  have "ino_freelist s = Some k" using ch by (rule free_chain_head)
  moreover have "k < length (ino_table s)" using ch by (rule free_chain_bound) simp
  ultimately show ?thesis using t nf dirty by (simp add: inoalloc_def ino_clean_def Let_def)
qed

lemma inoalloc_exhausted:
  assumes "ino_pool s []"
  shows "inoalloc s = Inl Assert_failed"
proof -
  have "ino_freelist s = None" and "ino_numfree s = 0" and "ino_table s \<noteq> []"
    using assms by (cases "ino_freelist s"; simp add: ino_pool_def)+
  then show ?thesis by (simp add: inoalloc_def grow_inotable_def)
qed

lemma inofree_pool:
  assumes pool: "ino_pool s is" and k: "k < length (ino_table s)" and alloc: "k \<notin> set is"
  obtains s' where "inofree s k = Inr s'" and "ino_pool s' (k # is)"
    and "s' = s\<lparr>ino_table := (ino_table s)[k := (ino_table s ! k)\<lparr>id_next := ino_freelist s\<rparr>],
               ino_freelist := Some k, ino_numfree := ino_numfree s + 1\<rparr>"
proof -
  let ?s = "s\<lparr>ino_table := (ino_table s)[k := (ino_table s ! k)\<lparr>id_next := ino_freelist s\<rparr>],
               ino_freelist := Some k, ino_numfree := ino_numfree s + 1\<rparr>"
  from pool have num: "int (length (ino_table s)) = ino_num s"
    and nx: "id_next (ino_table s ! k) = None"
    using k alloc by (auto simp: ino_pool_def)
  have "inofree s k = Inr ?s"
    using num nx k by (simp add: inofree_def ino2inodesc_def Let_def)
  moreover have "ino_pool ?s (k # is)"
    using pool k alloc by (auto simp: ino_pool_def free_chain_update nth_list_update)
  ultimately show thesis using that[of ?s] by simp
qed

section \<open>The interface the rest of the file system relies on\<close>

text \<open>
  A stack of inodes: \<open>pool s is\<close> says that \<open>is\<close> are the free inodes, the next to be handed out
  first; \<open>usable s k\<close> that inode \<open>k\<close> may be handed out; \<open>owned s k\<close> that \<open>k\<close> is an inode of
  the table.
\<close>

locale ino_stack =
  fixes take_ino :: "'s \<Rightarrow> (fs_ino_t \<times> 's) res"
    and give_ino :: "'s \<Rightarrow> fs_ino_t \<Rightarrow> 's res"
    and pool :: "'s \<Rightarrow> fs_ino_t list \<Rightarrow> bool"
    and usable :: "'s \<Rightarrow> fs_ino_t \<Rightarrow> bool"
    and owned :: "'s \<Rightarrow> fs_ino_t \<Rightarrow> bool"
  assumes take_law: "pool s (k # is) \<Longrightarrow> usable s k \<Longrightarrow>
      \<exists>s'. take_ino s = Inr (k, s') \<and> pool s' is \<and> (\<forall>j. owned s' j = owned s j) \<and>
           (\<forall>j. usable s' j = usable s j)"
    and take_stuck: "pool s is \<Longrightarrow> (case is of [] \<Rightarrow> True | k # _ \<Rightarrow> \<not> usable s k) \<Longrightarrow>
      take_ino s = Inl Assert_failed"
    and give_law: "pool s is \<Longrightarrow> owned s k \<Longrightarrow> k \<notin> set is \<Longrightarrow>
      \<exists>s'. give_ino s k = Inr s' \<and> pool s' (k # is) \<and> (\<forall>j. owned s' j = owned s j) \<and>
           (\<forall>j. usable s' j = usable s j)"
begin

text \<open>An inode that is given back is the next one handed out, and the pool is as before.\<close>

lemma give_take:
  assumes "pool s is" and "owned s k" and "k \<notin> set is" and "usable s k"
  shows "\<exists>s' s''. give_ino s k = Inr s' \<and> take_ino s' = Inr (k, s'') \<and> pool s'' is"
  using give_law[OF assms(1-3)] take_law assms(4) by blast

lemma give_take_stuck:
  assumes "pool s is" and "owned s k" and "k \<notin> set is" and "\<not> usable s k"
  shows "\<exists>s'. give_ino s k = Inr s' \<and> take_ino s' = Inl Assert_failed"
proof -
  obtain s' where s': "give_ino s k = Inr s'" "pool s' (k # is)" "\<forall>j. usable s' j = usable s j"
    using give_law[OF assms(1-3)] by blast
  then have "take_ino s' = Inl Assert_failed"
    using take_stuck[of s' "k # is"] assms(4) by simp
  then show ?thesis using s'(1) by blast
qed

text \<open>Handing out never repeats an inode that is still in use.\<close>

fun take_all :: "nat \<Rightarrow> 's \<Rightarrow> (fs_ino_t list \<times> 's) res" where
  "take_all 0 s = Inr ([], s)"
| "take_all (Suc n) s = rbind (take_ino s) (\<lambda>(k, s). rbind (take_all n s) (\<lambda>(ks, s). Inr (k # ks, s)))"

lemma take_all_law:
  assumes "pool s is" and "n \<le> length is" and "\<forall>k \<in> set is. usable s k"
  shows "\<exists>s'. take_all n s = Inr (take n is, s') \<and> pool s' (drop n is) \<and>
    (\<forall>j. usable s' j = usable s j)"
  using assms
proof (induction n arbitrary: s "is")
  case 0
  then show ?case by simp
next
  case (Suc n)
  then obtain k js where "is": "is = k # js" by (cases "is") auto
  obtain s1 where s1: "take_ino s = Inr (k, s1)" "pool s1 js" "\<forall>j. usable s1 j = usable s j"
    using take_law[of s k js] Suc.prems "is" by auto
  obtain s' where s': "take_all n s1 = Inr (take n js, s')" "pool s' (drop n js)"
      "\<forall>j. usable s' j = usable s1 j"
    using Suc.IH[OF s1(2)] Suc.prems "is" s1(3) by auto
  then show ?case using s1 "is" by simp
qed

end

text \<open>The operations of \<open>fs.c\<close> provide that interface.\<close>

interpretation fs_ino: ino_stack inoalloc inofree ino_pool ino_clean
  "\<lambda>s k. k < length (ino_table s)"
proof unfold_locales
  fix s :: "('a, 'b) fs_t" and k "is"
  assume *: "ino_pool s (k # is)" "ino_clean s k"
  then obtain s' where s': "inoalloc s = Inr (k, s')" "ino_pool s' is"
    and eq: "s' = s\<lparr>ino_freelist := ino_freelist s', ino_table := (ino_table s)[k := \<lparr>id_file = None, id_next = None\<rparr>],
               ino_numfree := ino_numfree s'\<rparr>"
    by (rule inoalloc_pool)
  have t: "ino_table s' = (ino_table s)[k := \<lparr>id_file = None, id_next = None\<rparr>]"
    by (subst eq) simp
  have "ino_clean s' j = ino_clean s j" for j
    using *(2) by (auto simp: ino_clean_def t nth_list_update)
  with s' t show "\<exists>s'. inoalloc s = Inr (k, s') \<and> ino_pool s' is \<and>
      (\<forall>j. (j < length (ino_table s')) = (j < length (ino_table s))) \<and>
      (\<forall>j. ino_clean s' j = ino_clean s j)" by auto
next
  fix s :: "('a, 'b) fs_t" and "is"
  assume "ino_pool s is" "case is of [] \<Rightarrow> True | k # _ \<Rightarrow> \<not> ino_clean s k"
  then show "inoalloc s = Inl Assert_failed"
    by (cases "is") (auto simp: inoalloc_exhausted inoalloc_dirty)
next
  fix s :: "('a, 'b) fs_t" and "is" k
  assume *: "ino_pool s is" "k < length (ino_table s)" "k \<notin> set is"
  then obtain s' where s': "inofree s k = Inr s'" "ino_pool s' (k # is)"
    and eq: "s' = s\<lparr>ino_table := (ino_table s)[k := (ino_table s ! k)\<lparr>id_next := ino_freelist s\<rparr>],
               ino_freelist := Some k, ino_numfree := ino_numfree s + 1\<rparr>"
    by (rule inofree_pool)
  have "ino_clean s' j = ino_clean s j" for j
    using *(2) by (auto simp: ino_clean_def eq nth_list_update)
  with s' eq show "\<exists>s'. inofree s k = Inr s' \<and> ino_pool s' (k # is) \<and>
      (\<forall>j. (j < length (ino_table s')) = (j < length (ino_table s))) \<and>
      (\<forall>j. ino_clean s' j = ino_clean s j)" by auto
qed

end
