(* ===== verification/Fs_Tree.thy ===== *)
theory Fs_Tree
  imports Fs_Inode
begin

text \<open>
  Files and directories of \<open>fs.c\<close>: \<open>file_init\<close>, \<open>dir_add\<close>, \<open>fsCreatedir\<close>,
  \<open>fsCreatefile\<close> and \<open>fsRemoveitem\<close>. \<open>HI\<close> and \<open>HN\<close> are the hash tables of a directory,
  keyed by inode and by name.

  \<open>fsRemoveitem\<close> calls itself on the containing directory when that became empty. Its body up to
  that call is \<open>fsRemoveitem_step\<close>; the recursion is \<open>fsRemoveitem_fuel\<close>, and
  \<open>fsRemoveitem\<close> gives it one unit more than objects were ever allocated, which is enough because
  every call frees one of them.
\<close>

type_synonym 'i ino_hash = "(fs_ino_t, addr, 'i) uthash_ops"
type_synonym 'n name_hash = "(string, addr, 'n) uthash_ops"

named_theorems tree_defs \<open>definitions of the helpers of the tree operations\<close>

section \<open>Operations\<close>

text \<open>\<open>file_init\<close> on a block from \<open>malloc\<close>: every field is set, \<open>name\<close> is duplicated.\<close>

definition file_init ::
  "fs_ino_t \<Rightarrow> fs_ino_t \<Rightarrow> ('i, 'n) fs_data \<Rightarrow> string \<Rightarrow> fs_filetype_t \<Rightarrow> bool \<Rightarrow>
   fs_fileops_t \<Rightarrow> ('i, 'n) fs_file_t" where
  "file_init ino dir data name type malloced ops =
     \<lparr>f_ops = Some ops, f_data = data, f_name = Some name, f_ino = ino, f_dir = dir,
      f_type = type, f_malloced = malloced\<rparr>"

text \<open>Reading an entry of the inode table through a descriptor pointer.\<close>

definition inodesc_at :: "('i, 'n) fs_t \<Rightarrow> nat \<Rightarrow> fs_inodesc_t res" where
  "inodesc_at s k = (if k < length (ino_table s) then Inr (ino_table s ! k) else Inl Out_of_bounds)"

text \<open>\<open>fs_dir_t *dd = dir->data\<close>: NULL faults, a link target is not a directory.\<close>

definition dir_data :: "('i, 'n) fs_file_t \<Rightarrow> ('i, 'n) fs_dir_t res" where
  "dir_data f = (case f_data f of
     Data_null \<Rightarrow> Inl Null_deref
   | Data_dir dd \<Rightarrow> Inr dd
   | Data_link _ \<Rightarrow> Inl Out_of_bounds)"

definition dir_add ::
  "'i ino_hash \<Rightarrow> 'n name_hash \<Rightarrow> ('i, 'n) fs_t \<Rightarrow> addr \<Rightarrow> addr \<Rightarrow> (bool \<times> ('i, 'n) fs_t) res" where
  "dir_add HI HN s da ia =
     rbind (file_get s (Some da)) (\<lambda>dir.
     rbind (file_get s (Some ia)) (\<lambda>item.
     if f_type dir \<noteq> DIRECTORY \<or> f_data dir = Data_null then Inl Assert_failed
     else rbind (dir_data dir) (\<lambda>dd.
       case f_name item of
         None \<Rightarrow> Inr (False, s)
       | Some name \<Rightarrow>
           if hash_find HI (ino_files dd) (f_ino item) \<noteq> None then Inr (False, s)
           else if hash_find HN (nm_files dd) name \<noteq> None then Inr (False, s)
           else Inr (True, file_put s da (dir\<lparr>f_data := Data_dir
                  \<lparr>ino_files = hash_add HI (ino_files dd) (f_ino item) ia,
                   nm_files = hash_add HN (nm_files dd) name ia\<rparr>\<rparr>)))))"

text \<open>The directory an inode names, as \<open>fsCreatedir\<close> and \<open>fsCreatefile\<close> look it up.\<close>

definition parent_file :: "('i, 'n) fs_t \<Rightarrow> fs_ino_t \<Rightarrow> addr res" where
  "parent_file s ino =
     rbind (ino2inodesc s ino) (\<lambda>k.
     rbind (inodesc_at s k) (\<lambda>d.
     if id_next d \<noteq> None then Inl Assert_failed
     else rbind (file_get s (id_file d)) (\<lambda>f.
     if f_type f \<noteq> DIRECTORY then Inl Assert_failed else Inr (the (id_file d)))))"

text \<open>\<open>malloc\<close> of a \<open>fs_file_t\<close> followed by \<open>file_init\<close>.\<close>

definition file_new :: "('i, 'n) fs_t \<Rightarrow> ('i, 'n) fs_file_t \<Rightarrow> addr \<times> ('i, 'n) fs_t" where
  "file_new s f = (fs_brk s, (file_put s (fs_brk s) f)\<lparr>fs_brk := Suc (fs_brk s)\<rparr>)"

text \<open>\<open>id->file = file\<close>.\<close>

definition set_id_file :: "('i, 'n) fs_t \<Rightarrow> nat \<Rightarrow> addr \<Rightarrow> ('i, 'n) fs_t" where
  "set_id_file s k a = s\<lparr>ino_table := (ino_table s)[k := (ino_table s ! k)\<lparr>id_file := Some a\<rparr>]\<rparr>"

definition fsCreatedir ::
  "'i ino_hash \<Rightarrow> 'n name_hash \<Rightarrow> ('i, 'n) fs_t \<Rightarrow> fs_ino_t \<Rightarrow> string \<Rightarrow> fs_fileops_t \<Rightarrow>
   (addr \<times> ('i, 'n) fs_t) res" where
  "fsCreatedir HI HN s parentino name ops =
     rbind (inoalloc s) (\<lambda>(ino, s).
     rbind (ino2inodesc s ino) (\<lambda>k.
     rbind (inodesc_at s k) (\<lambda>d.
     if \<not> (id_file d = None \<and> id_next d = None) then Inl Assert_failed
     else rbind (if parentino \<noteq> INVALID_INO then rbind (parent_file s parentino) (\<lambda>p. Inr (Some p))
                 else Inr None) (\<lambda>parent.
       let dirdata = Data_dir \<lparr>ino_files = hash_null HI, nm_files = hash_null HN\<rparr>;
           (dir, s) = file_new s (file_init ino parentino dirdata name DIRECTORY True ops)
       in rbind (case parent of None \<Rightarrow> Inr s
                 | Some p \<Rightarrow> rbind (dir_add HI HN s p dir) (\<lambda>(_, s). Inr s)) (\<lambda>s.
          Inr (dir, set_id_file s k dir))))))"

definition fsCreatefile ::
  "'i ino_hash \<Rightarrow> 'n name_hash \<Rightarrow> ('i, 'n) fs_t \<Rightarrow> fs_ino_t \<Rightarrow> string \<Rightarrow> string option \<Rightarrow>
   fs_fileops_t \<Rightarrow> (addr \<times> ('i, 'n) fs_t) res" where
  "fsCreatefile HI HN s dirino name symlink ops =
     rbind (inoalloc s) (\<lambda>(ino, s).
     rbind (ino2inodesc s ino) (\<lambda>k.
     rbind (inodesc_at s k) (\<lambda>d.
     if \<not> (id_file d = None \<and> id_next d = None) then Inl Assert_failed
     else if dirino = INVALID_INO then Inl Assert_failed
     else rbind (parent_file s dirino) (\<lambda>dir.
       let (filedata, type) = (case symlink of None \<Rightarrow> (Data_null, REGULAR)
                                             | Some t \<Rightarrow> (Data_link t, SYMLINK));
           (file, s) = file_new s (file_init ino dirino filedata name type True ops)
       in rbind (dir_add HI HN s dir file) (\<lambda>(_, s).
          Inr (file, set_id_file s k file))))))"

text \<open>The containing directory of an item, with the assertions of \<open>fsRemoveitem\<close>.\<close>

definition containing_dir :: "('i, 'n) fs_t \<Rightarrow> ('i, 'n) fs_file_t \<Rightarrow> addr res" where
  "containing_dir s item =
     rbind (ino2inodesc s (f_dir item)) (\<lambda>k.
     rbind (inodesc_at s k) (\<lambda>d.
     if \<not> (id_next d = None \<and> id_file d \<noteq> None) then Inl Assert_failed
     else rbind (file_get s (id_file d)) (\<lambda>c.
     if f_type c \<noteq> DIRECTORY then Inl Assert_failed else Inr (the (id_file d)))))"

text \<open>
  The first part of \<open>fsRemoveitem\<close>: \<open>None\<close> for a directory that is not empty (the call returns
  false), otherwise the containing directory, NULL for the root.
\<close>

definition remove_check ::
  "'i ino_hash \<Rightarrow> 'n name_hash \<Rightarrow> ('i, 'n) fs_t \<Rightarrow> ('i, 'n) fs_file_t \<Rightarrow> addr option option res" where
  "remove_check HI HN s item =
     (if f_type item = DIRECTORY then
        rbind (dir_data item) (\<lambda>dir.
        if hash_count HI (ino_files dir) \<noteq> hash_count HN (nm_files dir) then Inl Assert_failed
        else if hash_count HI (ino_files dir) \<noteq> 0 then Inr None
        else if f_ino item \<noteq> ROOT_INO then rbind (containing_dir s item) (\<lambda>c. Inr (Some (Some c)))
        else if f_dir item \<noteq> INVALID_INO then Inl Assert_failed
        else Inr (Some None))
      else if \<not> (f_ino item \<noteq> ROOT_INO \<and> f_dir item \<noteq> INVALID_INO) then Inl Assert_failed
      else rbind (containing_dir s item) (\<lambda>c. Inr (Some (Some c))))"

text \<open>Taking the item out of both tables of its directory; says whether that is empty now.\<close>

definition remove_unlink ::
  "'i ino_hash \<Rightarrow> 'n name_hash \<Rightarrow> ('i, 'n) fs_t \<Rightarrow> addr \<Rightarrow> addr \<Rightarrow> ('i, 'n) fs_file_t \<Rightarrow>
   (bool \<times> ('i, 'n) fs_t) res" where
  "remove_unlink HI HN s ca ia item =
     rbind (file_get s (Some ca)) (\<lambda>c.
     rbind (dir_data c) (\<lambda>dir.
     if hash_count HI (ino_files dir) \<noteq> hash_count HN (nm_files dir) then Inl Assert_failed
     else if hash_count HI (ino_files dir) = 0 then Inl Assert_failed
     else if hash_find HI (ino_files dir) (f_ino item) \<noteq> Some ia then Inl Assert_failed
     else case f_name item of
       None \<Rightarrow> Inl Null_deref
     | Some name \<Rightarrow>
         if hash_find HN (nm_files dir) name \<noteq> Some ia then Inl Assert_failed
         else let dir = \<lparr>ino_files = hash_delete HI (ino_files dir) ia,
                         nm_files = hash_delete HN (nm_files dir) ia\<rparr>
              in if hash_count HI (ino_files dir) \<noteq> hash_count HN (nm_files dir)
                 then Inl Assert_failed
                 else Inr (hash_count HI (ino_files dir) = 0,
                           file_put s ca (c\<lparr>f_data := Data_dir dir\<rparr>))))"

text \<open>Clearing the fields of a removed item, and freeing it when it was allocated.\<close>

definition remove_release :: "('i, 'n) fs_t \<Rightarrow> addr \<Rightarrow> ('i, 'n) fs_t res" where
  "remove_release s ia =
     rbind (file_get s (Some ia)) (\<lambda>item.
     rbind (inofree s (f_ino item)) (\<lambda>s.
     Inr (if f_malloced item then file_free s ia
          else file_put s ia (item\<lparr>f_ops := None, f_ino := INVALID_INO, f_dir := INVALID_INO,
                                   f_type := NONE, f_data := Data_null, f_name := None\<rparr>))))"

text \<open>
  One call without its recursive call: the value returned, the directory the call is repeated on
  (if any) and the state.
\<close>

definition fsRemoveitem_step ::
  "'i ino_hash \<Rightarrow> 'n name_hash \<Rightarrow> ('i, 'n) fs_t \<Rightarrow> addr \<Rightarrow> bool \<Rightarrow>
   (bool \<times> addr option \<times> ('i, 'n) fs_t) res" where
  "fsRemoveitem_step HI HN s ia purge =
     rbind (file_get s (Some ia)) (\<lambda>item.
     rbind (remove_check HI HN s item) (\<lambda>chk.
     case chk of
       None \<Rightarrow> Inr (False, None, s)
     | Some cdir \<Rightarrow>
         rbind (case cdir of None \<Rightarrow> Inr (False, s)
                | Some c \<Rightarrow> remove_unlink HI HN s c ia item) (\<lambda>(cempty, s).
         rbind (remove_release s ia) (\<lambda>s.
         Inr (True, if cempty \<and> purge then cdir else None, s)))))"

fun fsRemoveitem_fuel ::
  "nat \<Rightarrow> 'i ino_hash \<Rightarrow> 'n name_hash \<Rightarrow> ('i, 'n) fs_t \<Rightarrow> addr \<Rightarrow> bool \<Rightarrow>
   (bool \<times> ('i, 'n) fs_t) res" where
  "fsRemoveitem_fuel 0 HI HN s ia purge = Inl Out_of_fuel"
| "fsRemoveitem_fuel (Suc n) HI HN s ia purge =
     rbind (fsRemoveitem_step HI HN s ia purge) (\<lambda>(r, next, s).
     case next of
       None \<Rightarrow> Inr (r, s)
     | Some c \<Rightarrow> rbind (fsRemoveitem_fuel n HI HN s c purge) (\<lambda>(_, s). Inr (True, s)))"

definition fsRemoveitem ::
  "'i ino_hash \<Rightarrow> 'n name_hash \<Rightarrow> ('i, 'n) fs_t \<Rightarrow> addr \<Rightarrow> bool \<Rightarrow> (bool \<times> ('i, 'n) fs_t) res" where
  "fsRemoveitem HI HN s ia purge = fsRemoveitem_fuel (Suc (fs_brk s)) HI HN s ia purge"

lemmas [tree_defs] = inodesc_at_def dir_data_def file_new_def set_id_file_def file_init_def

end
