(* ===== verification/Fs_Inv.thy ===== *)
theory Fs_Inv
  imports Fs_Tree
begin

text \<open>
  The well-formedness invariant of the file system and its preservation by the tree operations.
  \<open>fs_wf HI HN s is\<close>: \<open>is\<close> are the free inodes, allocated inodes other than the reserved one and
  live file objects correspond one to one, the two tables of a directory list exactly its
  children, and every object but the root lies in a live directory.
\<close>

section \<open>The invariant\<close>

definition dir_ok ::
  "'i ino_hash \<Rightarrow> 'n name_hash \<Rightarrow> ('i, 'n) fs_t \<Rightarrow> fs_ino_t \<Rightarrow> ('i, 'n) fs_dir_t \<Rightarrow> bool" where
  "dir_ok HI HN s d dd \<longleftrightarrow>
     distinct (hash_keys HI (ino_files dd)) \<and> distinct (hash_keys HN (nm_files dd)) \<and>
     (\<forall>k b. (k, b) \<in> set (hash_iter HI (ino_files dd)) \<longleftrightarrow>
        (\<exists>g. fs_heap s b = Some g \<and> f_dir g = d \<and> f_ino g = k)) \<and>
     (\<forall>n b. (n, b) \<in> set (hash_iter HN (nm_files dd)) \<longleftrightarrow>
        (\<exists>g. fs_heap s b = Some g \<and> f_dir g = d \<and> f_name g = Some n))"

text \<open>What must hold of a live object \<open>f\<close> at address \<open>a\<close>.\<close>

definition file_ok ::
  "'i ino_hash \<Rightarrow> 'n name_hash \<Rightarrow> ('i, 'n) fs_t \<Rightarrow> nat list \<Rightarrow> addr \<Rightarrow> ('i, 'n) fs_file_t \<Rightarrow> bool" where
  "file_ok HI HN s is a f \<longleftrightarrow>
     a < fs_brk s \<and> 0 < f_ino f \<and> f_ino f < length (ino_table s) \<and> f_ino f \<notin> set is \<and>
     id_file (ino_table s ! f_ino f) = Some a \<and> f_name f \<noteq> None \<and> f_ops f \<noteq> None \<and> f_malloced f \<and>
     (f_type f = DIRECTORY \<longrightarrow> (\<exists>dd. f_data f = Data_dir dd \<and> dir_ok HI HN s (f_ino f) dd)) \<and>
     (if f_ino f = ROOT_INO then f_dir f = INVALID_INO \<and> f_type f = DIRECTORY
      else f_dir f \<noteq> INVALID_INO \<and>
           (\<exists>p pf. fs_heap s p = Some pf \<and> f_ino pf = f_dir f \<and> f_type pf = DIRECTORY))"

definition fs_wf :: "'i ino_hash \<Rightarrow> 'n name_hash \<Rightarrow> ('i, 'n) fs_t \<Rightarrow> nat list \<Rightarrow> bool" where
  "fs_wf HI HN s is \<longleftrightarrow>
     ino_pool s is \<and> 0 \<notin> set is \<and>
     (\<forall>k < length (ino_table s). k \<notin> set is \<longrightarrow> k \<noteq> 0 \<longrightarrow>
        (\<exists>a f. id_file (ino_table s ! k) = Some a \<and> fs_heap s a = Some f \<and> f_ino f = k)) \<and>
     (\<forall>a f. fs_heap s a = Some f \<longrightarrow> file_ok HI HN s is a f)"

text \<open>An object without its \<open>data\<close>: what no operation on another object changes.\<close>

definition skel :: "('i, 'n) fs_file_t \<Rightarrow> ('i, 'n) fs_file_t" where
  "skel f = f\<lparr>f_data := Data_null\<rparr>"

definition has_child :: "('i, 'n) fs_t \<Rightarrow> fs_ino_t \<Rightarrow> bool" where
  "has_child s d \<longleftrightarrow> (\<exists>b g. fs_heap s b = Some g \<and> f_dir g = d)"

lemma skel_eqD:
  "skel f = skel g \<Longrightarrow> f_ops f = f_ops g \<and> f_name f = f_name g \<and> f_ino f = f_ino g \<and>
    f_dir f = f_dir g \<and> f_type f = f_type g \<and> f_malloced f = f_malloced g"
  by (cases f; cases g) (simp add: skel_def)

lemma skel_data_update [simp]: "skel (f\<lparr>f_data := x\<rparr>) = skel f"
  by (simp add: skel_def)

lemma fs_wf_pool: "fs_wf HI HN s is \<Longrightarrow> ino_pool s is"
  by (simp add: fs_wf_def)

lemma fs_wf_file: "fs_wf HI HN s is \<Longrightarrow> fs_heap s a = Some f \<Longrightarrow> file_ok HI HN s is a f"
  by (simp add: fs_wf_def)

lemma file_ok_id: "file_ok HI HN s is a f \<Longrightarrow> id_file (ino_table s ! f_ino f) = Some a"
  by (simp add: file_ok_def)

lemma file_ok_ino:
  "file_ok HI HN s is a f \<Longrightarrow> 0 < f_ino f \<and> f_ino f < length (ino_table s) \<and> f_ino f \<notin> set is"
  by (simp add: file_ok_def)

lemma file_ok_name: "file_ok HI HN s is a f \<Longrightarrow> \<exists>n. f_name f = Some n"
  by (auto simp: file_ok_def)

lemma file_ok_parent:
  assumes "file_ok HI HN s is a f" and "f_ino f \<noteq> ROOT_INO"
  obtains p pf where "fs_heap s p = Some pf" and "f_ino pf = f_dir f" and "f_type pf = DIRECTORY"
  using assms by (auto simp: file_ok_def)

lemma file_ok_root:
  "file_ok HI HN s is a f \<Longrightarrow> f_dir f = INVALID_INO \<longleftrightarrow> f_ino f = ROOT_INO"
  by (simp add: file_ok_def split: if_splits)

lemma dir_ok_distinct:
  "dir_ok HI HN s d dd \<Longrightarrow> distinct (hash_keys HI (ino_files dd)) \<and> distinct (hash_keys HN (nm_files dd))"
  by (simp add: dir_ok_def)

lemma dir_ok_ino_iter:
  "dir_ok HI HN s d dd \<Longrightarrow> (k, b) \<in> set (hash_iter HI (ino_files dd)) \<longleftrightarrow>
     (\<exists>g. fs_heap s b = Some g \<and> f_dir g = d \<and> f_ino g = k)"
  unfolding dir_ok_def by blast

lemma dir_ok_name_iter:
  "dir_ok HI HN s d dd \<Longrightarrow> (n, b) \<in> set (hash_iter HN (nm_files dd)) \<longleftrightarrow>
     (\<exists>g. fs_heap s b = Some g \<and> f_dir g = d \<and> f_name g = Some n)"
  unfolding dir_ok_def by blast

lemma dir_okI:
  assumes "distinct (hash_keys HI (ino_files dd))" and "distinct (hash_keys HN (nm_files dd))"
    and "\<And>k b. (k, b) \<in> set (hash_iter HI (ino_files dd)) \<longleftrightarrow>
        (\<exists>g. fs_heap s b = Some g \<and> f_dir g = d \<and> f_ino g = k)"
    and "\<And>n b. (n, b) \<in> set (hash_iter HN (nm_files dd)) \<longleftrightarrow>
        (\<exists>g. fs_heap s b = Some g \<and> f_dir g = d \<and> f_name g = Some n)"
  shows "dir_ok HI HN s d dd"
  using assms by (simp add: dir_ok_def)

lemma fs_wf_ino_unique:
  "fs_wf HI HN s is \<Longrightarrow> fs_heap s a = Some f \<Longrightarrow> fs_heap s b = Some g \<Longrightarrow> f_ino f = f_ino g \<Longrightarrow> a = b"
  by (metis fs_wf_file file_ok_id option.inject)

lemma fs_wf_alloc:
  assumes "fs_wf HI HN s is" and "k < length (ino_table s)" and "k \<notin> set is" and "k \<noteq> 0"
  obtains a f where "id_file (ino_table s ! k) = Some a" and "fs_heap s a = Some f" and "f_ino f = k"
  using assms by (auto simp: fs_wf_def)

lemma fs_wf_next:
  "fs_wf HI HN s is \<Longrightarrow> k < length (ino_table s) \<Longrightarrow> k \<notin> set is \<Longrightarrow> id_next (ino_table s ! k) = None"
  by (simp add: fs_wf_def ino_pool_def)

lemma fs_wf_ino_num: "fs_wf HI HN s is \<Longrightarrow> ino_num s = int (length (ino_table s))"
  by (simp add: fs_wf_def ino_pool_def)

text \<open>The free inodes are exactly those that are neither reserved nor of a live object.\<close>

lemma fs_wf_free_iff:
  assumes wf: "fs_wf HI HN s is" and k: "k < length (ino_table s)"
  shows "k \<in> set is \<longleftrightarrow> k \<noteq> 0 \<and> \<not> (\<exists>a f. fs_heap s a = Some f \<and> f_ino f = k)"
proof
  assume "k \<in> set is"
  then show "k \<noteq> 0 \<and> \<not> (\<exists>a f. fs_heap s a = Some f \<and> f_ino f = k)"
    using wf fs_wf_file[OF wf, THEN file_ok_ino] unfolding fs_wf_def by metis
next
  assume "k \<noteq> 0 \<and> \<not> (\<exists>a f. fs_heap s a = Some f \<and> f_ino f = k)"
  then show "k \<in> set is" using fs_wf_alloc[OF wf k] by blast
qed

section \<open>Directories\<close>

text \<open>The directory object an inode of the tree names.\<close>

lemma fs_wf_dir:
  assumes "fs_wf HI HN s is" and "fs_heap s a = Some f" and "f_type f = DIRECTORY"
  obtains dd where "f_data f = Data_dir dd" and "dir_ok HI HN s (f_ino f) dd"
  using fs_wf_file[OF assms(1,2)] assms(3) by (auto simp: file_ok_def)

lemma parent_file_wf:
  assumes wf: "fs_wf HI HN s is" and f: "fs_heap s a = Some f" and t: "f_type f = DIRECTORY"
  shows "parent_file s (f_ino f) = Inr a"
  using fs_wf_file[OF wf f] fs_wf_next[OF wf, of "f_ino f"] fs_wf_ino_num[OF wf] f t
  by (auto simp: parent_file_def ino2inodesc_def inodesc_at_def file_ok_def)

lemma containing_dir_wf:
  assumes wf: "fs_wf HI HN s is" and p: "fs_heap s p = Some pf" and t: "f_type pf = DIRECTORY"
    and d: "f_dir f = f_ino pf"
  shows "containing_dir s f = Inr p"
  using fs_wf_file[OF wf p] fs_wf_next[OF wf, of "f_ino pf"] fs_wf_ino_num[OF wf] p t d
  by (auto simp: containing_dir_def ino2inodesc_def inodesc_at_def file_ok_def)

text \<open>Both tables of a directory list its children, so they have the same length.\<close>

definition children :: "('i, 'n) fs_t \<Rightarrow> fs_ino_t \<Rightarrow> addr set" where
  "children s d = {b. \<exists>g. fs_heap s b = Some g \<and> f_dir g = d}"

lemma dir_ok_ino_count:
  assumes "uthash HI" and ok: "dir_ok HI HN s d dd"
  shows "hash_count HI (ino_files dd) = card (children s d)"
proof -
  let ?I = "set (hash_iter HI (ino_files dd))"
  have "snd ` ?I = children s d"
    by (rule set_eqI) (auto simp: mem_snd_image dir_ok_ino_iter[OF ok] children_def)
  moreover have "inj_on snd ?I"
    by (auto simp: inj_on_def dir_ok_ino_iter[OF ok])
  moreover have "distinct (hash_iter HI (ino_files dd))"
    using dir_ok_distinct[OF ok] by (simp add: hash_keys_def distinct_map)
  ultimately show ?thesis
    by (metis uthash.count_iter[OF assms(1)] card_image distinct_card)
qed

lemma dir_ok_name_count':
  assumes "uthash HN" and nm: "\<And>b g. fs_heap s b = Some g \<Longrightarrow> \<exists>n. f_name g = Some n"
    and ok: "dir_ok HI HN s d dd"
  shows "hash_count HN (nm_files dd) = card (children s d)"
proof -
  let ?N = "set (hash_iter HN (nm_files dd))"
  have "snd ` ?N = children s d"
    using nm by (intro set_eqI) (fastforce simp: mem_snd_image dir_ok_name_iter[OF ok] children_def)
  moreover have "inj_on snd ?N"
    by (auto simp: inj_on_def dir_ok_name_iter[OF ok])
  moreover have "distinct (hash_iter HN (nm_files dd))"
    using dir_ok_distinct[OF ok] by (simp add: hash_keys_def distinct_map)
  ultimately show ?thesis
    by (metis uthash.count_iter[OF assms(1)] card_image distinct_card)
qed

lemma dir_ok_name_count:
  assumes "uthash HN" and wf: "fs_wf HI HN s is" and ok: "dir_ok HI HN s d dd"
  shows "hash_count HN (nm_files dd) = card (children s d)"
  using assms(1) file_ok_name[OF fs_wf_file[OF wf]] ok by (rule dir_ok_name_count')

lemma dir_ok_empty:
  assumes "uthash HI" and "dir_ok HI HN s d dd"
  shows "hash_count HI (ino_files dd) = 0 \<longleftrightarrow> \<not> has_child s d"
proof -
  have "hash_count HI (ino_files dd) = 0 \<longleftrightarrow> hash_iter HI (ino_files dd) = []"
    by (rule uthash.count_zero[OF assms(1)])
  also have "\<dots> \<longleftrightarrow> (\<forall>k b. (k, b) \<notin> set (hash_iter HI (ino_files dd)))"
    by (cases "hash_iter HI (ino_files dd)") auto
  also have "\<dots> \<longleftrightarrow> \<not> has_child s d"
    by (auto simp: dir_ok_ino_iter[OF assms(2)] has_child_def)
  finally show ?thesis .
qed

lemma dir_ok_find:
  assumes "uthash HI" and "uthash HN" and "dir_ok HI HN s d dd"
  shows "hash_find HI (ino_files dd) k = Some b \<longleftrightarrow>
      (\<exists>g. fs_heap s b = Some g \<and> f_dir g = d \<and> f_ino g = k)"
    and "hash_find HN (nm_files dd) n = Some b \<longleftrightarrow>
      (\<exists>g. fs_heap s b = Some g \<and> f_dir g = d \<and> f_name g = Some n)"
  using dir_ok_distinct[OF assms(3)]
  by (simp_all add: uthash.find_Some_iff[OF assms(1)] uthash.find_Some_iff[OF assms(2)]
      dir_ok_ino_iter[OF assms(3)] dir_ok_name_iter[OF assms(3)])

text \<open>Objects that agree up to their data are the same children.\<close>

lemma skel_same_children:
  assumes "map_option skel (fs_heap s' b) = map_option skel (fs_heap s b)"
  shows "(\<exists>h. fs_heap s' b = Some h \<and> f_dir h = d \<and> f_ino h = j) \<longleftrightarrow>
        (\<exists>h. fs_heap s b = Some h \<and> f_dir h = d \<and> f_ino h = j)"
    and "(\<exists>h. fs_heap s' b = Some h \<and> f_dir h = d \<and> f_name h = Some m) \<longleftrightarrow>
        (\<exists>h. fs_heap s b = Some h \<and> f_dir h = d \<and> f_name h = Some m)"
  using assms by (cases "fs_heap s b"; cases "fs_heap s' b"; auto dest: skel_eqD)+

text \<open>A new object in the directory is added to both tables.\<close>

lemma dir_ok_add:
  assumes H: "uthash HI" "uthash HN" and ok: "dir_ok HI HN s d dd"
    and new: "fs_heap s a = None" and g: "f_dir g = d" "f_ino g = k" "f_name g = Some n"
    and k: "\<And>b h. fs_heap s b = Some h \<Longrightarrow> f_ino h \<noteq> k"
    and n: "\<And>b h. fs_heap s b = Some h \<Longrightarrow> f_dir h = d \<Longrightarrow> f_name h \<noteq> Some n"
    and heap: "fs_heap s' a = Some g"
      "\<And>b. b \<noteq> a \<Longrightarrow> map_option skel (fs_heap s' b) = map_option skel (fs_heap s b)"
  shows "dir_ok HI HN s' d \<lparr>ino_files = hash_add HI (ino_files dd) k a,
                           nm_files = hash_add HN (nm_files dd) n a\<rparr>"
proof -
  let ?dd = "\<lparr>ino_files = hash_add HI (ino_files dd) k a, nm_files = hash_add HN (nm_files dd) n a\<rparr>"
  have kI: "k \<notin> set (hash_keys HI (ino_files dd))"
    using k by (auto simp: hash_keys_def mem_fst_image dir_ok_ino_iter[OF ok])
  have nN: "n \<notin> set (hash_keys HN (nm_files dd))"
    using n by (auto simp: hash_keys_def mem_fst_image dir_ok_name_iter[OF ok])
  have same: "(\<exists>h. fs_heap s' b = Some h \<and> f_dir h = d \<and> f_ino h = j) \<longleftrightarrow>
        (\<exists>h. fs_heap s b = Some h \<and> f_dir h = d \<and> f_ino h = j)"
      "(\<exists>h. fs_heap s' b = Some h \<and> f_dir h = d \<and> f_name h = Some m) \<longleftrightarrow>
        (\<exists>h. fs_heap s b = Some h \<and> f_dir h = d \<and> f_name h = Some m)" if "b \<noteq> a" for b j m
    using heap(2)[OF that] by (rule skel_same_children)+
  show ?thesis
  proof (rule dir_okI)
    show "distinct (hash_keys HI (ino_files ?dd))" "distinct (hash_keys HN (nm_files ?dd))"
      using dir_ok_distinct[OF ok] kI nN
      by (simp_all add: uthash.distinct_add[OF H(1)] uthash.distinct_add[OF H(2)])
    show "(j, b) \<in> set (hash_iter HI (ino_files ?dd)) \<longleftrightarrow>
        (\<exists>h. fs_heap s' b = Some h \<and> f_dir h = d \<and> f_ino h = j)" for j b
      using kI g heap(1) new
      by (cases "b = a") (auto simp: uthash.iter_add[OF H(1)] same dir_ok_ino_iter[OF ok])
    show "(m, b) \<in> set (hash_iter HN (nm_files ?dd)) \<longleftrightarrow>
        (\<exists>h. fs_heap s' b = Some h \<and> f_dir h = d \<and> f_name h = Some m)" for m b
      using nN g heap(1) new
      by (cases "b = a") (auto simp: uthash.iter_add[OF H(2)] same dir_ok_name_iter[OF ok])
  qed
qed

text \<open>A directory none of whose children changed.\<close>

lemma dir_ok_frame:
  assumes "dir_ok HI HN s d dd"
    and "\<And>b. map_option skel (fs_heap s' b) = map_option skel (fs_heap s b) \<or>
       (\<forall>g. fs_heap s b = Some g \<longrightarrow> f_dir g \<noteq> d) \<and> (\<forall>g. fs_heap s' b = Some g \<longrightarrow> f_dir g \<noteq> d)"
  shows "dir_ok HI HN s' d dd"
proof (rule dir_okI)
  show "distinct (hash_keys HI (ino_files dd))" "distinct (hash_keys HN (nm_files dd))"
    using dir_ok_distinct[OF assms(1)] by simp_all
  show "(j, b) \<in> set (hash_iter HI (ino_files dd)) \<longleftrightarrow>
      (\<exists>g. fs_heap s' b = Some g \<and> f_dir g = d \<and> f_ino g = j)" for j b
    using assms(2)[of b] skel_same_children(1)[of s' b s] by (auto simp: dir_ok_ino_iter[OF assms(1)])
  show "(m, b) \<in> set (hash_iter HN (nm_files dd)) \<longleftrightarrow>
      (\<exists>g. fs_heap s' b = Some g \<and> f_dir g = d \<and> f_name g = Some m)" for m b
    using assms(2)[of b] skel_same_children(2)[of s' b s] by (auto simp: dir_ok_name_iter[OF assms(1)])
qed

text \<open>A child that is gone is deleted from both tables.\<close>

lemma dir_ok_delete:
  assumes H: "uthash HI" "uthash HN" and wf: "fs_wf HI HN s is" and ok: "dir_ok HI HN s d dd"
    and a: "fs_heap s a = Some f" "f_dir f = d"
    and heap: "fs_heap s' a = None"
      "\<And>b. b \<noteq> a \<Longrightarrow> map_option skel (fs_heap s' b) = map_option skel (fs_heap s b)"
  shows "dir_ok HI HN s' d \<lparr>ino_files = hash_delete HI (ino_files dd) a,
                           nm_files = hash_delete HN (nm_files dd) a\<rparr>"
proof -
  let ?dd = "\<lparr>ino_files = hash_delete HI (ino_files dd) a, nm_files = hash_delete HN (nm_files dd) a\<rparr>"
  obtain n where n: "f_name f = Some n" using fs_wf_file[OF wf a(1)] file_ok_name by blast
  have aI: "a \<in> snd ` set (hash_iter HI (ino_files dd))"
    using a by (auto simp: mem_snd_image dir_ok_ino_iter[OF ok])
  have aN: "a \<in> snd ` set (hash_iter HN (nm_files dd))"
    using a n by (auto simp: mem_snd_image dir_ok_name_iter[OF ok])
  have same: "(\<exists>h. fs_heap s' b = Some h \<and> f_dir h = d \<and> f_ino h = j) \<longleftrightarrow>
        (\<exists>h. fs_heap s b = Some h \<and> f_dir h = d \<and> f_ino h = j)"
      "(\<exists>h. fs_heap s' b = Some h \<and> f_dir h = d \<and> f_name h = Some m) \<longleftrightarrow>
        (\<exists>h. fs_heap s b = Some h \<and> f_dir h = d \<and> f_name h = Some m)" if "b \<noteq> a" for b j m
    using heap(2)[OF that] by (rule skel_same_children)+
  show ?thesis
  proof (rule dir_okI)
    show "distinct (hash_keys HI (ino_files ?dd))" "distinct (hash_keys HN (nm_files ?dd))"
      using dir_ok_distinct[OF ok] aI aN
      by (simp_all add: uthash.distinct_delete[OF H(1)] uthash.distinct_delete[OF H(2)])
    show "(j, b) \<in> set (hash_iter HI (ino_files ?dd)) \<longleftrightarrow>
        (\<exists>h. fs_heap s' b = Some h \<and> f_dir h = d \<and> f_ino h = j)" for j b
      using aI heap(1)
      by (cases "b = a") (simp_all add: uthash.iter_delete[OF H(1)] same dir_ok_ino_iter[OF ok])
    show "(m, b) \<in> set (hash_iter HN (nm_files ?dd)) \<longleftrightarrow>
        (\<exists>h. fs_heap s' b = Some h \<and> f_dir h = d \<and> f_name h = Some m)" for m b
      using aN heap(1)
      by (cases "b = a") (simp_all add: uthash.iter_delete[OF H(2)] same dir_ok_name_iter[OF ok])
  qed
qed

text \<open>
  Moving the invariant of one object to another state: its own fields are kept up to the data, its
  inode stays allocated and recorded, its parent is still there.
\<close>

lemma file_ok_transfer:
  assumes ok: "file_ok HI HN s is b f" and sk: "skel f' = skel f"
    and brk: "fs_brk s \<le> fs_brk s'" and len: "length (ino_table s') = length (ino_table s)"
    and free: "f_ino f \<notin> set js"
    and id: "id_file (ino_table s' ! f_ino f) = id_file (ino_table s ! f_ino f)"
    and par: "\<And>p pf. fs_heap s p = Some pf \<Longrightarrow> f_ino pf = f_dir f \<Longrightarrow>
        map_option skel (fs_heap s' p) = Some (skel pf)"
    and dir: "f_type f = DIRECTORY \<Longrightarrow> \<exists>dd. f_data f' = Data_dir dd \<and> dir_ok HI HN s' (f_ino f) dd"
  shows "file_ok HI HN s' js b f'"
proof -
  note sk' = skel_eqD[OF sk]
  have par': "\<exists>p pf. fs_heap s' p = Some pf \<and> f_ino pf = f_dir f \<and> f_type pf = DIRECTORY"
    if nr: "f_ino f \<noteq> ROOT_INO"
  proof -
    obtain p pf where p: "fs_heap s p = Some pf" "f_ino pf = f_dir f" "f_type pf = DIRECTORY"
      using ok nr by (rule file_ok_parent)
    obtain z where "fs_heap s' p = Some z" "skel z = skel pf"
      using par[OF p(1,2)] by (rule map_option_eq_SomeE)
    then show ?thesis using p skel_eqD[of z pf] by auto
  qed
  show ?thesis
  proof (cases "f_ino f = ROOT_INO")
    case True
    then show ?thesis using ok brk len free id dir sk' by (simp add: file_ok_def)
  next
    case False
    then show ?thesis using ok brk len free id dir sk' par' by (simp add: file_ok_def)
  qed
qed

end
