(* ===== verification/Fs_Create.thy ===== *)
theory Fs_Create
  imports Fs_Inv
begin

text \<open>
  \<open>fsCreatefile\<close> and \<open>fsCreatedir\<close> keep the invariant and make the new object the one its
  directory finds under the name, when the name is new in that directory.
\<close>

section \<open>Adding an object to a well-formed file system\<close>

text \<open>No object of directory \<open>d\<close> has the name \<open>n\<close>.\<close>

definition name_fresh :: "('i, 'n) fs_t \<Rightarrow> fs_ino_t \<Rightarrow> string \<Rightarrow> bool" where
  "name_fresh s d n \<longleftrightarrow> (\<forall>b h. fs_heap s b = Some h \<longrightarrow> f_dir h = d \<longrightarrow> f_name h \<noteq> Some n)"

lemma name_freshD: "name_fresh s d n \<Longrightarrow> fs_heap s b = Some h \<Longrightarrow> f_dir h = d \<Longrightarrow> f_name h \<noteq> Some n"
  by (simp add: name_fresh_def)

lemma no_child_of_free:
  assumes wf: "fs_wf HI HN s (k # is)" and h: "fs_heap s b = Some h"
  shows "f_dir h \<noteq> k"
proof
  assume k: "f_dir h = k"
  have "k \<noteq> INVALID_INO" using wf by (auto simp: fs_wf_def INVALID_INO_def)
  then have "f_ino h \<noteq> ROOT_INO" using k file_ok_root[OF fs_wf_file[OF wf h]] by simp
  then obtain p pf where "fs_heap s p = Some pf" "f_ino pf = k"
    using file_ok_parent[OF fs_wf_file[OF wf h]] k by metis
  then show False using fs_wf_file[OF wf] file_ok_ino by fastforce
qed

text \<open>
  The state after an object \<open>g\<close> with the fresh inode \<open>k\<close> was put at address \<open>fs_brk s\<close> and into
  the tables of its directory \<open>p\<close>.
\<close>

definition added ::
  "'i ino_hash \<Rightarrow> 'n name_hash \<Rightarrow> ('i, 'n) fs_t \<Rightarrow> nat list \<Rightarrow> addr \<Rightarrow> ('i, 'n) fs_file_t \<Rightarrow>
   ('i, 'n) fs_dir_t \<Rightarrow> string \<Rightarrow> ('i, 'n) fs_file_t \<Rightarrow> ('i, 'n) fs_t \<Rightarrow> bool" where
  "added HI HN s is p pf dd n g s' \<longleftrightarrow>
     ino_pool s' is \<and>
     ino_table s' = (ino_table s)[f_ino g := \<lparr>id_file = Some (fs_brk s), id_next = None\<rparr>] \<and>
     fs_heap s' = (fs_heap s)(fs_brk s \<mapsto> g,
        p \<mapsto> pf\<lparr>f_data := Data_dir \<lparr>ino_files = hash_add HI (ino_files dd) (f_ino g) (fs_brk s),
                                    nm_files = hash_add HN (nm_files dd) n (fs_brk s)\<rparr>\<rparr>) \<and>
     fs_brk s' = Suc (fs_brk s)"

lemma brk_unused:
  assumes "fs_wf HI HN s is"
  shows "fs_heap s (fs_brk s) = None"
proof (cases "fs_heap s (fs_brk s)")
  case (Some f)
  then show ?thesis using fs_wf_file[OF assms Some] by (simp add: file_ok_def)
qed simp

text \<open>The head of the free list belongs to no object.\<close>

lemma free_ino:
  assumes "fs_wf HI HN s (k # is)"
  shows "k < length (ino_table s)" and "k \<notin> set is" and "0 \<notin> set is" and "0 < k"
    and "\<And>b h. fs_heap s b = Some h \<Longrightarrow> f_ino h \<noteq> k"
proof -
  show "k < length (ino_table s)" "k \<notin> set is" "0 \<notin> set is" "0 < k"
    using assms free_chain_bound[of "ino_table s" "ino_freelist s" "k # is" k]
    by (auto simp: fs_wf_def ino_pool_def intro: ccontr)
  show "f_ino h \<noteq> k" if "fs_heap s b = Some h" for b h
    using fs_wf_file[OF assms that] file_ok_ino by fastforce
qed

text \<open>What an addition changes: the object is new, every other one is kept up to its data.\<close>

lemma added_heap:
  assumes "added HI HN s is p pf dd n g s'" and "fs_wf HI HN s js" and "fs_heap s p = Some pf"
  shows "fs_heap s' (fs_brk s) = Some g"
    and "\<And>b. b \<noteq> fs_brk s \<Longrightarrow> map_option skel (fs_heap s' b) = map_option skel (fs_heap s b)"
    and "\<And>q qf. fs_heap s q = Some qf \<Longrightarrow> map_option skel (fs_heap s' q) = Some (skel qf)"
proof -
  have a: "fs_heap s (fs_brk s) = None" using assms(2) by (rule brk_unused)
  then show "fs_heap s' (fs_brk s) = Some g" using assms(1,3) by (auto simp: added_def)
  show sk: "map_option skel (fs_heap s' b) = map_option skel (fs_heap s b)" if "b \<noteq> fs_brk s" for b
    using that assms(1,3) by (simp add: added_def)
  show "map_option skel (fs_heap s' q) = Some (skel qf)" if "fs_heap s q = Some qf" for q qf
    using sk[of q] that a by (cases "q = fs_brk s") auto
qed

text \<open>The tables of all directories but the parent fit as before.\<close>

lemma added_dir_frame:
  assumes wf: "fs_wf HI HN s (k # is)" and p: "fs_heap s p = Some pf" and g: "f_dir g = f_ino pf"
    and add: "added HI HN s is p pf dd n g s'"
    and f: "fs_heap s b = Some f" "f_type f = DIRECTORY" "f_data f = Data_dir dd'" "b \<noteq> p"
  shows "dir_ok HI HN s' (f_ino f) dd'"
proof (rule dir_ok_frame)
  show "dir_ok HI HN s (f_ino f) dd'" using fs_wf_dir[OF wf f(1,2)] f(3) by auto
  have "f_ino f \<noteq> f_ino pf" using fs_wf_ino_unique[OF wf f(1) p] f(4) by blast
  then show "map_option skel (fs_heap s' x) = map_option skel (fs_heap s x) \<or>
     (\<forall>h. fs_heap s x = Some h \<longrightarrow> f_dir h \<noteq> f_ino f) \<and>
     (\<forall>h. fs_heap s' x = Some h \<longrightarrow> f_dir h \<noteq> f_ino f)" for x
    using added_heap[OF add wf p] brk_unused[OF wf] g by (cases "x = fs_brk s") auto
qed

text \<open>The new object, an empty directory or a plain file.\<close>

lemma dir_ok_null:
  assumes "uthash HI" "uthash HN" and none: "\<And>x h. fs_heap s x = Some h \<Longrightarrow> f_dir h \<noteq> k"
  shows "dir_ok HI HN s k \<lparr>ino_files = hash_null HI, nm_files = hash_null HN\<rparr>"
  by (rule dir_okI)
    (use none in \<open>auto simp: uthash.iter_null[OF assms(1)] uthash.iter_null[OF assms(2)]
       uthash.keys_null[OF assms(1)] uthash.keys_null[OF assms(2)]\<close>)

lemma added_new_ok:
  assumes H: "uthash HI" "uthash HN"
    and wf: "fs_wf HI HN s (k # is)" and kR: "k \<noteq> ROOT_INO"
    and p: "fs_heap s p = Some pf" "f_type pf = DIRECTORY"
    and g: "f_ino g = k" "f_dir g = f_ino pf" "f_name g = Some n" "f_ops g \<noteq> None" "f_malloced g"
    and gd: "f_type g = DIRECTORY \<Longrightarrow> f_data g = Data_dir \<lparr>ino_files = hash_null HI, nm_files = hash_null HN\<rparr>"
    and add: "added HI HN s is p pf dd n g s'"
  shows "file_ok HI HN s' is (fs_brk s) g"
proof -
  have tab: "ino_table s' = (ino_table s)[k := \<lparr>id_file = Some (fs_brk s), id_next = None\<rparr>]" and brk: "fs_brk s' = Suc (fs_brk s)"
    and heap: "\<exists>x. fs_heap s' = (fs_heap s)(fs_brk s \<mapsto> g, p \<mapsto> pf\<lparr>f_data := x\<rparr>)"
    using add g(1) by (auto simp: added_def)
  have "f_dir h \<noteq> k" if "fs_heap s' x = Some h" for x h
    using no_child_of_free[OF wf, of x h] no_child_of_free[OF wf p(1)] that heap g(2) free_ino(5)[OF wf p(1)]
    by (auto split: if_splits)
  then have "dir_ok HI HN s' k \<lparr>ino_files = hash_null HI, nm_files = hash_null HN\<rparr>" using H by (intro dir_ok_null)
  moreover have "f_dir g \<noteq> INVALID_INO"
    using fs_wf_file[OF wf p(1)] g(2) by (simp add: file_ok_def INVALID_INO_def)
  moreover have "\<exists>q qf. fs_heap s' q = Some qf \<and> f_ino qf = f_dir g \<and> f_type qf = DIRECTORY"
    using heap g(2) p(2) by (intro exI[of _ p]) auto
  ultimately show ?thesis
    using free_ino[OF wf] tab brk g gd kR by (auto simp: file_ok_def)
qed

text \<open>Every object that was there before; the parent has the new one in its tables.\<close>

lemma added_old_ok:
  assumes H: "uthash HI" "uthash HN" and wf: "fs_wf HI HN s (k # is)"
    and p: "fs_heap s p = Some pf" "f_type pf = DIRECTORY" "f_data pf = Data_dir dd"
    and g: "f_ino g = k" "f_dir g = f_ino pf" "f_name g = Some n"
    and fresh: "name_fresh s (f_ino pf) n" and add: "added HI HN s is p pf dd n g s'"
    and f': "fs_heap s' b = Some f'" "b \<noteq> fs_brk s"
  shows "file_ok HI HN s' is b f'"
proof -
  note heap' = added_heap[OF add wf p(1)]
  have tab: "ino_table s' = (ino_table s)[k := \<lparr>id_file = Some (fs_brk s), id_next = None\<rparr>]" and brk: "fs_brk s' = Suc (fs_brk s)"
    using add g(1) by (auto simp: added_def)
  have "map_option skel (fs_heap s b) = Some (skel f')" using heap'(2)[OF f'(2)] f'(1) by simp
  then obtain f where f: "fs_heap s b = Some f" "skel f' = skel f" by (auto elim: map_option_eq_SomeE)
  have pd: "dir_ok HI HN s (f_ino pf) dd" using fs_wf_dir[OF wf p(1,2)] p(3) by auto
  show ?thesis
  proof (rule file_ok_transfer[OF fs_wf_file[OF wf f(1)] f(2)])
    show "f_ino f \<notin> set is" using fs_wf_file[OF wf f(1)] file_ok_ino by fastforce
    show "id_file (ino_table s' ! f_ino f) = id_file (ino_table s ! f_ino f)"
      using free_ino(5)[OF wf f(1)] tab by simp
    show "map_option skel (fs_heap s' q) = Some (skel qf)" if "fs_heap s q = Some qf" for q qf
      using that by (rule heap'(3))
    assume t: "f_type f = DIRECTORY"
    show "\<exists>dd. f_data f' = Data_dir dd \<and> dir_ok HI HN s' (f_ino f) dd"
    proof (cases "b = p")
      case True
      then have "f = pf" "f_data f' = Data_dir \<lparr>ino_files = hash_add HI (ino_files dd) k (fs_brk s), nm_files = hash_add HN (nm_files dd) n (fs_brk s)\<rparr>"
        using f(1) p(1) f'(1) add g(1) by (auto simp: added_def)
      then show ?thesis
        using dir_ok_add[OF H pd brk_unused[OF wf] g(2,1,3) free_ino(5)[OF wf] name_freshD[OF fresh] heap'(1,2)] by simp
    next
      case bp: False
      then have "f' = f" using f(1) f' add by (simp add: added_def)
      then show ?thesis using fs_wf_dir[OF wf f(1) t] added_dir_frame[OF wf p(1) g(2) add f(1) t _ bp] by metis
    qed
  qed (simp_all add: brk tab)
qed

text \<open>Every inode in use still leads to its object.\<close>

lemma added_alloc:
  assumes wf: "fs_wf HI HN s (k # is)" and p: "fs_heap s p = Some pf" and g: "f_ino g = k"
    and add: "added HI HN s is p pf dd n g s'" and j: "j < length (ino_table s')" "j \<notin> set is" "j \<noteq> 0"
  shows "\<exists>b f. id_file (ino_table s' ! j) = Some b \<and> fs_heap s' b = Some f \<and> f_ino f = j"
proof -
  note heap' = added_heap[OF add wf p]
  have tab: "ino_table s' = (ino_table s)[k := \<lparr>id_file = Some (fs_brk s), id_next = None\<rparr>]" using add g by (auto simp: added_def)
  show ?thesis
  proof (cases "j = k")
    case True
    then show ?thesis using tab free_ino[OF wf] heap'(1) g by simp
  next
    case False
    then obtain b f where b: "id_file (ino_table s ! j) = Some b" "fs_heap s b = Some f" "f_ino f = j"
      using fs_wf_alloc[OF wf, of j] j tab by auto
    obtain f' where "fs_heap s' b = Some f'" "skel f' = skel f"
      using heap'(3)[OF b(2)] by (rule map_option_eq_SomeE)
    then show ?thesis using b False tab skel_eqD[of f' f] by auto
  qed
qed

lemma added_wf:
  assumes H: "uthash HI" "uthash HN"
    and wf: "fs_wf HI HN s (k # is)" and kR: "k \<noteq> ROOT_INO"
    and p: "fs_heap s p = Some pf" "f_type pf = DIRECTORY" "f_data pf = Data_dir dd"
    and g: "f_ino g = k" "f_dir g = f_ino pf" "f_name g = Some n" "f_ops g \<noteq> None" "f_malloced g"
    and gd: "f_type g = DIRECTORY \<Longrightarrow> f_data g = Data_dir \<lparr>ino_files = hash_null HI, nm_files = hash_null HN\<rparr>"
    and fresh: "name_fresh s (f_ino pf) n"
    and add: "added HI HN s is p pf dd n g s'"
  shows "fs_wf HI HN s' is"
proof -
  have "file_ok HI HN s' is b f'" if "fs_heap s' b = Some f'" for b f'
    using that added_heap(1)[OF add wf p(1)] added_new_ok[OF H wf kR p(1,2) g gd add]
      added_old_ok[OF H wf p g(1-3) fresh add that] by (cases "b = fs_brk s") auto
  moreover have "ino_pool s' is" using add by (simp add: added_def)
  ultimately show ?thesis
    using free_ino(3)[OF wf] added_alloc[OF wf p(1) g(1) add] by (simp add: fs_wf_def)
qed

section \<open>The creating functions\<close>

lemma parent_fileI:
  assumes "int ino < ino_num s" and "ino < length (ino_table s)"
    and "id_next (ino_table s ! ino) = None" and "id_file (ino_table s ! ino) = Some p"
    and "fs_heap s p = Some pf" and "f_type pf = DIRECTORY"
  shows "parent_file s ino = Inr p"
  using assms by (simp add: parent_file_def ino2inodesc_def inodesc_at_def)

lemma dir_add_fresh:
  assumes "fs_heap s p = Some pf" and "f_type pf = DIRECTORY" and "f_data pf = Data_dir dd"
    and "fs_heap s a = Some g" and "f_name g = Some n"
    and "hash_find HI (ino_files dd) (f_ino g) = None" and "hash_find HN (nm_files dd) n = None"
  shows "dir_add HI HN s p a = Inr (True, file_put s p (pf\<lparr>f_data := Data_dir
      \<lparr>ino_files = hash_add HI (ino_files dd) (f_ino g) a, nm_files = hash_add HN (nm_files dd) n a\<rparr>\<rparr>))"
  using assms by (simp add: dir_add_def dir_data_def)

text \<open>
  The common part of both: allocate the inode, find the directory, allocate the object, enter it.
\<close>

lemma create_steps:
  assumes H: "uthash HI" "uthash HN"
    and wf: "fs_wf HI HN s (k # is)" and clean: "ino_clean s k"
    and p: "fs_heap s p = Some pf" "f_type pf = DIRECTORY" "f_data pf = Data_dir dd"
    and fresh: "name_fresh s (f_ino pf) n"
    and g: "f_ino g = k" "f_name g = Some n"
  obtains s1 s2 where "inoalloc s = Inr (k, s1)"
    and "ino2inodesc s1 k = Inr k" and "inodesc_at s1 k = Inr \<lparr>id_file = None, id_next = None\<rparr>"
    and "parent_file s1 (f_ino pf) = Inr p"
    and "dir_add HI HN (snd (file_new s1 g)) p (fs_brk s) = Inr (True, s2)"
    and "fst (file_new s1 g) = fs_brk s"
    and "added HI HN s is p pf dd n g (set_id_file s2 k (fs_brk s))"
proof -
  let ?a = "fs_brk s"
  obtain s1 where s1: "inoalloc s = Inr (k, s1)" "ino_pool s1 is"
    and eq: "s1 = s\<lparr>ino_freelist := ino_freelist s1, ino_table := (ino_table s)[k := \<lparr>id_file = None, id_next = None\<rparr>],
               ino_numfree := ino_numfree s1\<rparr>"
    using fs_wf_pool[OF wf] clean by (rule inoalloc_pool)
  have fr: "ino_table s1 = (ino_table s)[k := \<lparr>id_file = None, id_next = None\<rparr>]"
      "fs_heap s1 = fs_heap s" "fs_brk s1 = fs_brk s" "ino_num s1 = ino_num s"
    by (subst eq, simp)+
  have k: "k < length (ino_table s)" using clean by (simp add: ino_clean_def)
  note pok = fs_wf_file[OF wf p(1)]
  have pk: "f_ino pf \<noteq> k" using file_ok_ino[OF pok] by auto
  have num: "ino_num s = int (length (ino_table s))" using wf by (rule fs_wf_ino_num)
  have d: "ino2inodesc s1 k = Inr k" "inodesc_at s1 k = Inr \<lparr>id_file = None, id_next = None\<rparr>"
    using k num by (simp_all add: ino2inodesc_def inodesc_at_def fr)
  have pf: "parent_file s1 (f_ino pf) = Inr p"
    using file_ok_ino[OF pok] fs_wf_next[OF wf, of "f_ino pf"] file_ok_id[OF pok] p pk num
    by (intro parent_fileI) (simp_all add: fr)
  have a: "fs_heap s ?a = None" using wf by (rule brk_unused)
  then have pa: "p \<noteq> ?a" using p(1) by auto
  have pd: "dir_ok HI HN s (f_ino pf) dd" using fs_wf_dir[OF wf p(1,2)] p(3) by auto
  have fI: "hash_find HI (ino_files dd) (f_ino g) = None"
  proof (cases "hash_find HI (ino_files dd) (f_ino g)")
    case (Some b)
    then obtain h where "fs_heap s b = Some h" "f_ino h = k"
      using dir_ok_find(1)[OF H pd] g(1) by auto
    then show ?thesis using fs_wf_file[OF wf] file_ok_ino by fastforce
  qed
  have fN: "hash_find HN (nm_files dd) n = None"
    using dir_ok_find(2)[OF H pd] name_freshD[OF fresh] by (cases "hash_find HN (nm_files dd) n") auto
  let ?dd = "\<lparr>ino_files = hash_add HI (ino_files dd) (f_ino g) ?a, nm_files = hash_add HN (nm_files dd) n ?a\<rparr>"
  let ?s2 = "file_put (snd (file_new s1 g)) p (pf\<lparr>f_data := Data_dir ?dd\<rparr>)"
  have "dir_add HI HN (snd (file_new s1 g)) p ?a = Inr (True, ?s2)"
    using p pa g fI fN by (intro dir_add_fresh) (simp_all add: file_new_def fr)
  moreover have "ino_pool (set_id_file ?s2 k ?a) is"
    using s1(2) k by (subst ino_pool_cong[of _ s1])
      (simp_all add: set_id_file_def file_new_def fr nth_list_update)
  then have "added HI HN s is p pf dd n g (set_id_file ?s2 k ?a)"
    using g(1) k pa by (simp add: added_def set_id_file_def file_new_def fr fun_upd_twist)
  ultimately show thesis using that s1(1) d pf by (simp add: file_new_def fr)
qed

text \<open>The object \<open>fsCreatefile\<close> makes.\<close>

definition created_file :: "fs_ino_t \<Rightarrow> fs_ino_t \<Rightarrow> string \<Rightarrow> string option \<Rightarrow> fs_fileops_t \<Rightarrow> ('i, 'n) fs_file_t" where
  "created_file ino dirino name symlink ops =
     file_init ino dirino (case symlink of None \<Rightarrow> Data_null | Some t \<Rightarrow> Data_link t) name
       (case symlink of None \<Rightarrow> REGULAR | Some _ \<Rightarrow> SYMLINK) True ops"

lemma fsCreatefile_added:
  fixes s :: "('i, 'n) fs_t"
  assumes H: "uthash HI" "uthash HN"
    and wf: "fs_wf HI HN s (k # is)" and clean: "ino_clean s k" and kR: "k \<noteq> ROOT_INO"
    and p: "fs_heap s p = Some pf" "f_type pf = DIRECTORY"
    and fresh: "name_fresh s (f_ino pf) name"
  obtains s' dd where "fsCreatefile HI HN s (f_ino pf) name symlink ops = Inr (fs_brk s, s')"
    and "f_data pf = Data_dir dd" and "fs_wf HI HN s' is"
    and "added HI HN s is p pf dd name (created_file k (f_ino pf) name symlink ops) s'"
proof -
  obtain dd where dd: "f_data pf = Data_dir dd" using wf p by (rule fs_wf_dir)
  let ?g = "created_file k (f_ino pf) name symlink ops :: ('i, 'n) fs_file_t"
  have g: "f_ino ?g = k" "f_dir ?g = f_ino pf" "f_name ?g = Some name" "f_ops ?g \<noteq> None"
      "f_malloced ?g" "f_type ?g \<noteq> DIRECTORY"
    by (simp_all add: created_file_def file_init_def split: option.split)
  obtain s1 s2 where s1: "inoalloc s = Inr (k, s1)"
    and d: "ino2inodesc s1 k = Inr k" "inodesc_at s1 k = Inr \<lparr>id_file = None, id_next = None\<rparr>"
    and pf: "parent_file s1 (f_ino pf) = Inr p"
    and da: "dir_add HI HN (snd (file_new s1 ?g)) p (fs_brk s) = Inr (True, s2)"
    and a: "fst (file_new s1 ?g) = fs_brk s"
    and add: "added HI HN s is p pf dd name ?g (set_id_file s2 k (fs_brk s))"
    by (rule create_steps[OF H wf clean p dd fresh g(1,3)])
  have ni: "f_ino pf \<noteq> INVALID_INO"
    using file_ok_ino[OF fs_wf_file[OF wf p(1)]] by (simp add: INVALID_INO_def)
  have "fsCreatefile HI HN s (f_ino pf) name symlink ops = Inr (fs_brk s, set_id_file s2 k (fs_brk s))"
    using s1 d pf da a ni
    by (cases symlink) (auto simp: fsCreatefile_def created_file_def Let_def split: prod.splits)
  moreover have "fs_wf HI HN (set_id_file s2 k (fs_brk s)) is"
    using g(6) by (intro added_wf[OF H wf kR p dd g(1-5) _ fresh add]) simp_all
  ultimately show thesis using that dd add by blast
qed

definition created_dir ::
  "'i ino_hash \<Rightarrow> 'n name_hash \<Rightarrow> fs_ino_t \<Rightarrow> fs_ino_t \<Rightarrow> string \<Rightarrow> fs_fileops_t \<Rightarrow> ('i, 'n) fs_file_t" where
  "created_dir HI HN ino parentino name ops =
     file_init ino parentino (Data_dir \<lparr>ino_files = hash_null HI, nm_files = hash_null HN\<rparr>) name
       DIRECTORY True ops"

lemma fsCreatedir_added:
  assumes H: "uthash HI" "uthash HN"
    and wf: "fs_wf HI HN s (k # is)" and clean: "ino_clean s k" and kR: "k \<noteq> ROOT_INO"
    and p: "fs_heap s p = Some pf" "f_type pf = DIRECTORY"
    and fresh: "name_fresh s (f_ino pf) name"
  obtains s' dd where "fsCreatedir HI HN s (f_ino pf) name ops = Inr (fs_brk s, s')"
    and "f_data pf = Data_dir dd" and "fs_wf HI HN s' is"
    and "added HI HN s is p pf dd name (created_dir HI HN k (f_ino pf) name ops) s'"
proof -
  obtain dd where dd: "f_data pf = Data_dir dd" using wf p by (rule fs_wf_dir)
  let ?g = "created_dir HI HN k (f_ino pf) name ops"
  have g: "f_ino ?g = k" "f_dir ?g = f_ino pf" "f_name ?g = Some name" "f_ops ?g \<noteq> None"
      "f_malloced ?g" "f_data ?g = Data_dir \<lparr>ino_files = hash_null HI, nm_files = hash_null HN\<rparr>"
    by (simp_all add: created_dir_def file_init_def)
  obtain s1 s2 where s1: "inoalloc s = Inr (k, s1)"
    and d: "ino2inodesc s1 k = Inr k" "inodesc_at s1 k = Inr \<lparr>id_file = None, id_next = None\<rparr>"
    and pf: "parent_file s1 (f_ino pf) = Inr p"
    and da: "dir_add HI HN (snd (file_new s1 ?g)) p (fs_brk s) = Inr (True, s2)"
    and a: "fst (file_new s1 ?g) = fs_brk s"
    and add: "added HI HN s is p pf dd name ?g (set_id_file s2 k (fs_brk s))"
    by (rule create_steps[OF H wf clean p dd fresh g(1,3)])
  have ni: "f_ino pf \<noteq> INVALID_INO"
    using file_ok_ino[OF fs_wf_file[OF wf p(1)]] by (simp add: INVALID_INO_def)
  have "fsCreatedir HI HN s (f_ino pf) name ops = Inr (fs_brk s, set_id_file s2 k (fs_brk s))"
    using s1 d pf da a ni
    by (auto simp: fsCreatedir_def created_dir_def Let_def split: prod.splits)
  moreover have "fs_wf HI HN (set_id_file s2 k (fs_brk s)) is"
    using g(6) by (intro added_wf[OF H wf kR p dd g(1-5) _ fresh add]) simp_all
  ultimately show thesis using that dd add by blast
qed

section \<open>What creating leaves alone\<close>

text \<open>The fields that concern the session and the mount point.\<close>

definition session_of :: "('i, 'n) fs_t \<Rightarrow> string option \<times> bool \<times> evnthdlr_t option \<times> fs_call list \<times> bool \<times> string list" where
  "session_of s = (mntpt s, fs_mkdir s, fs_ed s, fs_calls s, fuse_se s, fuse_args s)"

lemma inoalloc_session:
  assumes "inoalloc s = Inr (k, s')"
  shows "session_of s' = session_of s"
proof -
  have init: "session_of t = session_of s" if "init_inotable s = Inr t" for t
    using that by (auto simp: init_inotable_def session_of_def Let_def simp del: upt_rec_numeral split: if_splits)
  show ?thesis
    using assms init
    by (auto simp: inoalloc_def rbind_eq_Inr grow_inotable_def Let_def session_of_def simp del: upt_rec_numeral
        split: if_splits option.splits)
qed

lemma dir_add_session:
  assumes "dir_add HI HN s d i = Inr (r, s')"
  shows "session_of s' = session_of s"
proof -
  obtain dir item where di: "file_get s (Some d) = Inr dir" "file_get s (Some i) = Inr item"
    using assms unfolding dir_add_def rbind_eq_Inr by blast
  show ?thesis
  proof (cases "dir_data dir")
    case (Inr dd)
    then show ?thesis using assms di
      by (cases "f_name item") (auto simp: dir_add_def session_of_def file_put_def split: if_splits)
  qed (use assms di in \<open>simp add: dir_add_def split: if_splits\<close>)
qed

lemma file_new_session [simp]: "session_of (file_put s a f\<lparr>fs_brk := n\<rparr>) = session_of s"
  by (simp add: session_of_def file_put_def)

lemma set_id_file_session [simp]: "session_of (set_id_file s k a) = session_of s"
  by (simp add: set_id_file_def session_of_def)

lemma fsCreatefile_session:
  assumes "fsCreatefile HI HN s d name symlink ops = Inr (a, s')"
  shows "session_of s' = session_of s"
  using assms unfolding fsCreatefile_def
  by (cases symlink)
    (auto simp: rbind_eq_Inr Let_def file_new_def split: if_split_asm prod.splits
      dest!: inoalloc_session dir_add_session)

end
