(* ===== verification/Fs_Remove.thy ===== *)
theory Fs_Remove
  imports Fs_Create
begin

text \<open>
  \<open>fsRemoveitem\<close> on a well-formed file system: the item is gone from the heap, from its directory
  and from the allocated inodes, empty directories above it go with it when asked to, and
  everything else is as before. The descriptor of a freed inode keeps its \<open>file\<close> pointer, so
  that the next allocation fails its assertion.
\<close>

section \<open>Removing one object\<close>

text \<open>\<open>dropped s is a f s'\<close>: \<open>s'\<close> is \<open>s\<close> without the object \<open>f\<close> at address \<open>a\<close>.\<close>

definition frame_eq :: "('i, 'n) fs_t \<Rightarrow> ('i, 'n) fs_t \<Rightarrow> bool" where
  "frame_eq s s' \<longleftrightarrow> fs_brk s' = fs_brk s \<and> ino_num s' = ino_num s \<and> mntpt s' = mntpt s \<and>
     fs_mkdir s' = fs_mkdir s \<and> fuse_se s' = fuse_se s \<and> fs_calls s' = fs_calls s \<and>
     length (ino_table s') = length (ino_table s) \<and>
     (\<forall>k < length (ino_table s). id_file (ino_table s' ! k) = id_file (ino_table s ! k))"

definition dropped ::
  "'i ino_hash \<Rightarrow> 'n name_hash \<Rightarrow> ('i, 'n) fs_t \<Rightarrow> nat list \<Rightarrow> addr \<Rightarrow> ('i, 'n) fs_file_t \<Rightarrow>
   ('i, 'n) fs_t \<Rightarrow> bool" where
  "dropped HI HN s is a f s' \<longleftrightarrow>
     fs_wf HI HN s' (f_ino f # is) \<and> frame_eq s s' \<and> fs_heap s' a = None \<and>
     (\<forall>b. b \<noteq> a \<longrightarrow> map_option skel (fs_heap s' b) = map_option skel (fs_heap s b))"

lemma frame_eq_refl [simp]: "frame_eq s s"
  by (simp add: frame_eq_def)

lemma frame_eq_trans: "frame_eq s t \<Longrightarrow> frame_eq t u \<Longrightarrow> frame_eq s u"
  by (auto simp: frame_eq_def)

lemma plain_no_child:
  assumes wf: "fs_wf HI HN s is" and f: "fs_heap s a = Some f" and t: "f_type f \<noteq> DIRECTORY"
  shows "\<not> has_child s (f_ino f)"
proof
  assume "has_child s (f_ino f)"
  then obtain b g where g: "fs_heap s b = Some g" "f_dir g = f_ino f" by (auto simp: has_child_def)
  note gok = fs_wf_file[OF wf g(1)]
  have "f_ino g \<noteq> ROOT_INO"
    using file_ok_root[OF gok] file_ok_ino[OF fs_wf_file[OF wf f]] g(2) by (simp add: INVALID_INO_def)
  then obtain p pf where p: "fs_heap s p = Some pf" "f_ino pf = f_ino f" "f_type pf = DIRECTORY"
    using file_ok_parent[OF gok] g(2) by metis
  then have "p = a" using fs_wf_ino_unique[OF wf p(1) f] by simp
  then show False using p f t by simp
qed

lemma dropped_wf:
  assumes wf: "fs_wf HI HN s is" and f: "fs_heap s a = Some f" and nc: "\<not> has_child s (f_ino f)"
    and pool: "ino_pool s' (f_ino f # is)" and fr: "frame_eq s s'"
    and a: "fs_heap s' a = None"
    and sk: "\<And>b. b \<noteq> a \<Longrightarrow> map_option skel (fs_heap s' b) = map_option skel (fs_heap s b)"
    and dirs: "\<And>b g. fs_heap s' b = Some g \<Longrightarrow> f_type g = DIRECTORY \<Longrightarrow>
        \<exists>dd. f_data g = Data_dir dd \<and> dir_ok HI HN s' (f_ino g) dd"
  shows "dropped HI HN s is a f s'"
proof -
  note fok = fs_wf_file[OF wf f]
  have files: "file_ok HI HN s' (f_ino f # is) b g'" if g': "fs_heap s' b = Some g'" for b g'
  proof -
    have ba: "b \<noteq> a" using a g' by auto
    then have "map_option skel (fs_heap s b) = Some (skel g')" using sk[OF ba] g' by simp
    then obtain g where g: "fs_heap s b = Some g" "skel g' = skel g" by (auto elim: map_option_eq_SomeE)
    note gok = fs_wf_file[OF wf g(1)]
    show ?thesis
    proof (rule file_ok_transfer[OF gok g(2)])
      show "f_ino g \<notin> set (f_ino f # is)"
        using file_ok_ino[OF gok] fs_wf_ino_unique[OF wf g(1) f] ba by auto
      show "id_file (ino_table s' ! f_ino g) = id_file (ino_table s ! f_ino g)"
        using fr file_ok_ino[OF gok] by (simp add: frame_eq_def)
      show "map_option skel (fs_heap s' p) = Some (skel pf)"
        if p: "fs_heap s p = Some pf" "f_ino pf = f_dir g" for p pf
      proof -
        have "p \<noteq> a" using nc p g f unfolding has_child_def by (metis option.inject)
        then show ?thesis using sk[of p] p by simp
      qed
      show "\<exists>dd. f_data g' = Data_dir dd \<and> dir_ok HI HN s' (f_ino g) dd" if "f_type g = DIRECTORY"
        using dirs[OF g'] skel_eqD[OF g(2)] that by simp
    qed (use fr in \<open>simp_all add: frame_eq_def\<close>)
  qed
  have "\<exists>b g. id_file (ino_table s' ! k) = Some b \<and> fs_heap s' b = Some g \<and> f_ino g = k"
    if k: "k < length (ino_table s')" "k \<notin> set (f_ino f # is)" "k \<noteq> 0" for k
  proof -
    have k': "k < length (ino_table s)" using fr k by (simp add: frame_eq_def)
    obtain b g where b: "id_file (ino_table s ! k) = Some b" "fs_heap s b = Some g" "f_ino g = k"
      using wf k' k(2,3) by (auto elim: fs_wf_alloc)
    then have "b \<noteq> a" using f k by auto
    from sk[OF this] have "map_option skel (fs_heap s' b) = Some (skel g)" using b by simp
    then obtain g' where g': "fs_heap s' b = Some g'" "skel g' = skel g" by (rule map_option_eq_SomeE)
    then show ?thesis using b skel_eqD[OF g'(2)] fr k' by (simp add: frame_eq_def)
  qed
  moreover have "0 \<notin> set (f_ino f # is)"
    using wf file_ok_ino[OF fok] by (auto simp: fs_wf_def)
  ultimately have "fs_wf HI HN s' (f_ino f # is)"
    using pool files by (simp add: fs_wf_def)
  then show ?thesis using fr a sk by (simp add: dropped_def)
qed

text \<open>Freeing the object and its inode.\<close>

lemma remove_release_wf:
  assumes pool: "ino_pool s is" and f: "fs_heap s a = Some f" "f_malloced f"
    and k: "f_ino f < length (ino_table s)" "f_ino f \<notin> set is"
  obtains s' where "remove_release s a = Inr s'" and "ino_pool s' (f_ino f # is)"
    and "frame_eq s s'" and "fs_heap s' = (fs_heap s)(a := None)"
proof -
  obtain s1 where s1: "inofree s (f_ino f) = Inr s1" "ino_pool s1 (f_ino f # is)"
    and eq: "s1 = s\<lparr>ino_table := (ino_table s)[f_ino f := (ino_table s ! f_ino f)\<lparr>id_next := ino_freelist s\<rparr>],
               ino_freelist := Some (f_ino f), ino_numfree := ino_numfree s + 1\<rparr>"
    using pool k by (rule inofree_pool)
  have "remove_release s a = Inr (file_free s1 a)"
    using f s1(1) by (simp add: remove_release_def)
  moreover have "ino_pool (file_free s1 a) (f_ino f # is)"
    using s1(2) by (subst ino_pool_cong[of _ s1]) simp_all
  moreover have "frame_eq s (file_free s1 a)" "fs_heap (file_free s1 a) = (fs_heap s)(a := None)"
    using k(1) by (simp_all add: eq frame_eq_def nth_list_update)
  ultimately show thesis using that by blast
qed

section \<open>One call\<close>

lemma step_nonempty:
  assumes H: "uthash HI" "uthash HN" and wf: "fs_wf HI HN s is" and f: "fs_heap s a = Some f"
    and t: "f_type f = DIRECTORY" and c: "has_child s (f_ino f)"
  shows "fsRemoveitem_step HI HN s a purge = Inr (False, None, s)"
proof -
  obtain dd where dd: "f_data f = Data_dir dd" "dir_ok HI HN s (f_ino f) dd"
    using wf f t by (rule fs_wf_dir)
  have "hash_count HI (ino_files dd) = hash_count HN (nm_files dd)"
    using dir_ok_ino_count[OF H(1) dd(2)] dir_ok_name_count[OF H(2) wf dd(2)] by simp
  moreover have "hash_count HI (ino_files dd) \<noteq> 0"
    using dir_ok_empty[OF H(1) dd(2)] c by simp
  ultimately show ?thesis
    using f t dd(1) by (simp add: fsRemoveitem_step_def remove_check_def dir_data_def)
qed

lemma remove_check_empty:
  assumes H: "uthash HI" "uthash HN" and wf: "fs_wf HI HN s is" and f: "fs_heap s a = Some f"
    and nc: "\<not> has_child s (f_ino f)"
  shows "f_ino f = ROOT_INO \<Longrightarrow> remove_check HI HN s f = Inr (Some None)"
    and "f_ino f \<noteq> ROOT_INO \<Longrightarrow> fs_heap s p = Some pf \<Longrightarrow> f_ino pf = f_dir f \<Longrightarrow>
      f_type pf = DIRECTORY \<Longrightarrow> remove_check HI HN s f = Inr (Some (Some p))"
proof -
  note fok = fs_wf_file[OF wf f]
  have cnt: "\<exists>dd. f_data f = Data_dir dd \<and> hash_count HI (ino_files dd) = 0 \<and> hash_count HN (nm_files dd) = 0"
    if t: "f_type f = DIRECTORY"
  proof -
    obtain dd where dd: "f_data f = Data_dir dd" "dir_ok HI HN s (f_ino f) dd"
      using wf f t by (rule fs_wf_dir)
    then show ?thesis
      using dir_ok_empty[OF H(1) dd(2)] nc dir_ok_ino_count[OF H(1) dd(2)]
        dir_ok_name_count[OF H(2) wf dd(2)] by simp
  qed
  {
    assume r: "f_ino f = ROOT_INO"
    then have "f_dir f = INVALID_INO" "f_type f = DIRECTORY" using fok by (simp_all add: file_ok_def)
    then show "remove_check HI HN s f = Inr (Some None)"
      using cnt r by (auto simp: remove_check_def dir_data_def)
  next
    assume r: "f_ino f \<noteq> ROOT_INO"
      and p: "fs_heap s p = Some pf" "f_ino pf = f_dir f" "f_type pf = DIRECTORY"
    have "containing_dir s f = Inr p" using wf p(1,3) p(2)[symmetric] by (rule containing_dir_wf)
    moreover have "f_dir f \<noteq> INVALID_INO" using file_ok_root[OF fok] r by simp
    ultimately show "remove_check HI HN s f = Inr (Some (Some p))"
      using cnt r by (cases "f_type f = DIRECTORY") (auto simp: remove_check_def dir_data_def)
  }
qed

text \<open>The root, which lies in no directory.\<close>

lemma step_root:
  assumes H: "uthash HI" "uthash HN" and wf: "fs_wf HI HN s is" and f: "fs_heap s a = Some f"
    and r: "f_ino f = ROOT_INO" and nc: "\<not> has_child s (f_ino f)"
  obtains s' where "fsRemoveitem_step HI HN s a purge = Inr (True, None, s')"
    and "dropped HI HN s is a f s'"
proof -
  note fok = fs_wf_file[OF wf f]
  have m: "f_malloced f" using fok by (simp add: file_ok_def)
  obtain s' where s': "remove_release s a = Inr s'" "ino_pool s' (f_ino f # is)"
      "frame_eq s s'" "fs_heap s' = (fs_heap s)(a := None)"
    using remove_release_wf[OF fs_wf_pool[OF wf] f m] file_ok_ino[OF fok] by metis
  have "\<exists>dd. f_data g = Data_dir dd \<and> dir_ok HI HN s' (f_ino g) dd"
    if g: "fs_heap s' b = Some g" "f_type g = DIRECTORY" for b g
  proof -
    have g': "fs_heap s b = Some g" using g s'(4) by (simp split: if_splits)
    obtain dd where dd: "f_data g = Data_dir dd" "dir_ok HI HN s (f_ino g) dd"
      using wf g' g(2) by (rule fs_wf_dir)
    have "f_dir f \<noteq> f_ino g"
      using file_ok_root[OF fok] r file_ok_ino[OF fs_wf_file[OF wf g']] by (simp add: INVALID_INO_def)
    then have "dir_ok HI HN s' (f_ino g) dd"
      using f s'(4) by (intro dir_ok_frame[OF dd(2)]) auto
    then show ?thesis using dd(1) by blast
  qed
  then have "dropped HI HN s is a f s'"
    using s' by (intro dropped_wf[OF wf f nc s'(2,3)]) simp_all
  moreover have "fsRemoveitem_step HI HN s a purge = Inr (True, None, s')"
    using remove_check_empty(1)[OF H wf f nc r] f s'(1) by (simp add: fsRemoveitem_step_def)
  ultimately show thesis using that by blast
qed

text \<open>Taking the item out of the tables of its directory.\<close>

lemma remove_unlink_wf:
  assumes H: "uthash HI" "uthash HN" and wf: "fs_wf HI HN s is" and f: "fs_heap s a = Some f"
    and p: "fs_heap s p = Some pf" "f_ino pf = f_dir f" "f_type pf = DIRECTORY" "f_data pf = Data_dir dd"
  defines "dd' \<equiv> \<lparr>ino_files = hash_delete HI (ino_files dd) a, nm_files = hash_delete HN (nm_files dd) a\<rparr>"
  shows "remove_unlink HI HN s p a f =
    Inr (hash_count HI (ino_files dd') = 0, file_put s p (pf\<lparr>f_data := Data_dir dd'\<rparr>))"
proof -
  obtain n where n: "f_name f = Some n" using fs_wf_file[OF wf f] file_ok_name by blast
  have ok: "dir_ok HI HN s (f_dir f) dd" using fs_wf_dir[OF wf p(1,3)] p(2,4) by auto
  have cnt: "hash_count HI (ino_files dd) = hash_count HN (nm_files dd)"
    using dir_ok_ino_count[OF H(1) ok] dir_ok_name_count[OF H(2) wf ok] by simp
  have ne: "hash_count HI (ino_files dd) \<noteq> 0"
    using dir_ok_empty[OF H(1) ok] f by (auto simp: has_child_def)
  have fI: "hash_find HI (ino_files dd) (f_ino f) = Some a"
    using dir_ok_find(1)[OF H ok] f by simp
  have fN: "hash_find HN (nm_files dd) n = Some a"
    using dir_ok_find(2)[OF H ok] f n by simp
  let ?s = "s\<lparr>fs_heap := (fs_heap s)(a := None)\<rparr>"
  have ok': "dir_ok HI HN ?s (f_dir f) dd'"
    unfolding dd'_def by (rule dir_ok_delete[OF H wf ok f]) simp_all
  have nm: "\<exists>n. f_name g = Some n" if "fs_heap ?s b = Some g" for b g
    using that file_ok_name[OF fs_wf_file[OF wf]] by (auto split: if_splits)
  have "hash_count HI (ino_files dd') = hash_count HN (nm_files dd')"
    using dir_ok_ino_count[OF H(1) ok'] dir_ok_name_count'[OF H(2) nm ok'] by simp
  then show ?thesis
    using p cnt ne fI fN n by (simp add: remove_unlink_def dir_data_def Let_def dd'_def)
qed

text \<open>All directories fit their tables after an object was unlinked from its parent.\<close>

lemma dropped_dirs:
  assumes wf: "fs_wf HI HN s is" and f: "fs_heap s a = Some f" and p: "fs_heap s p = Some pf" "f_ino pf = f_dir f" and pa: "p \<noteq> a"
    and h: "fs_heap s' = (fs_heap s)(p \<mapsto> pf\<lparr>f_data := Data_dir dd'\<rparr>, a := None)" and pd: "dir_ok HI HN s' (f_dir f) dd'"
    and g: "fs_heap s' b = Some g" "f_type g = DIRECTORY"
  shows "\<exists>dd. f_data g = Data_dir dd \<and> dir_ok HI HN s' (f_ino g) dd"
proof (cases "b = p")
  case True
  then have "g = pf\<lparr>f_data := Data_dir dd'\<rparr>" using g(1) h pa by simp
  then show ?thesis using pd p(2) by simp
next
  case False
  have sk: "map_option skel (fs_heap s' b) = map_option skel (fs_heap s b)" if "b \<noteq> a" for b
    using that h p(1) by simp
  have g': "fs_heap s b = Some g" using g h False by (simp split: if_splits)
  obtain dg where dg: "f_data g = Data_dir dg" "dir_ok HI HN s (f_ino g) dg"
    using wf g' g(2) by (rule fs_wf_dir)
  have "f_dir f \<noteq> f_ino g" using fs_wf_ino_unique[OF wf p(1) g'] p(2) False by metis
  then have "dir_ok HI HN s' (f_ino g) dg"
    using f h sk by (intro dir_ok_frame[OF dg(2)]) (metis fun_upd_same option.distinct(1) option.inject)
  then show ?thesis using dg(1) by blast
qed

lemma step_item:
  assumes H: "uthash HI" "uthash HN" and wf: "fs_wf HI HN s is" and f: "fs_heap s a = Some f"
    and r: "f_ino f \<noteq> ROOT_INO" and nc: "\<not> has_child s (f_ino f)"
  obtains s' p pf where "fs_heap s p = Some pf" and "f_ino pf = f_dir f" and "f_type pf = DIRECTORY"
    and "p \<noteq> a" and "dropped HI HN s is a f s'"
    and "fsRemoveitem_step HI HN s a purge =
      Inr (True, if \<not> has_child s' (f_dir f) \<and> purge then Some p else None, s')"
proof -
  note fok = fs_wf_file[OF wf f]
  obtain p pf where p: "fs_heap s p = Some pf" "f_ino pf = f_dir f" "f_type pf = DIRECTORY"
    using fok r by (rule file_ok_parent)
  have pa: "p \<noteq> a" using nc p f unfolding has_child_def by (metis option.inject)
  obtain dd where dd: "f_data pf = Data_dir dd" "dir_ok HI HN s (f_ino pf) dd"
    using wf p(1,3) by (rule fs_wf_dir)
  define dd' where "dd' = \<lparr>ino_files = hash_delete HI (ino_files dd) a, nm_files = hash_delete HN (nm_files dd) a\<rparr>"
  let ?s1 = "file_put s p (pf\<lparr>f_data := Data_dir dd'\<rparr>)"
  have ul: "remove_unlink HI HN s p a f = Inr (hash_count HI (ino_files dd') = 0, ?s1)"
    unfolding dd'_def using H wf f p dd(1) by (rule remove_unlink_wf)
  have pool1: "ino_pool ?s1 is" using fs_wf_pool[OF wf] by (subst ino_pool_cong[of _ s]) simp_all
  have m: "f_malloced f" using fok by (simp add: file_ok_def)
  obtain s' where s': "remove_release ?s1 a = Inr s'" "ino_pool s' (f_ino f # is)"
      "frame_eq ?s1 s'" and h1: "fs_heap s' = (fs_heap ?s1)(a := None)"
    using remove_release_wf[OF pool1, of a f] f m file_ok_ino[OF fok] pa by auto
  have fr: "frame_eq s s'" using s'(3) by (simp add: frame_eq_def)
  have h: "fs_heap s' = (fs_heap s)(p \<mapsto> pf\<lparr>f_data := Data_dir dd'\<rparr>, a := None)" using h1 by simp
  have sk: "map_option skel (fs_heap s' b) = map_option skel (fs_heap s b)" if "b \<noteq> a" for b
    using that h p(1) by simp
  have pd: "dir_ok HI HN s' (f_dir f) dd'"
    unfolding dd'_def using H wf _ f refl
    by (rule dir_ok_delete) (use dd(2) p(2) h sk in \<open>simp_all\<close>)
  note dropped_dirs[OF wf f p(1,2) pa h pd]
  then have dr: "dropped HI HN s is a f s'"
    using h sk by (intro dropped_wf[OF wf f nc s'(2) fr]) simp_all
  have "hash_count HI (ino_files dd') = 0 \<longleftrightarrow> \<not> has_child s' (f_dir f)"
    using H(1) pd by (rule dir_ok_empty)
  then have "fsRemoveitem_step HI HN s a purge =
      Inr (True, if \<not> has_child s' (f_dir f) \<and> purge then Some p else None, s')"
    using remove_check_empty(2)[OF H wf f nc r p] f ul s'(1) by (simp add: fsRemoveitem_step_def)
  with p pa dr show thesis using that by blast
qed

section \<open>The call with its recursion\<close>

text \<open>
  \<open>removed HI HN s is a purge s' js\<close>: \<open>s'\<close> is \<open>s\<close> without the object at \<open>a\<close> and, when \<open>purge\<close>
  is set, without exactly those directories that had children and lost all of them. The inodes of
  what is gone are in front of the free list, as \<open>js\<close>.
\<close>

definition removed ::
  "'i ino_hash \<Rightarrow> 'n name_hash \<Rightarrow> ('i, 'n) fs_t \<Rightarrow> nat list \<Rightarrow> addr \<Rightarrow> bool \<Rightarrow> ('i, 'n) fs_t \<Rightarrow>
   nat list \<Rightarrow> bool" where
  "removed HI HN s is a purge s' js \<longleftrightarrow>
     fs_wf HI HN s' (js @ is) \<and> frame_eq s s' \<and> js \<noteq> [] \<and>
     (\<forall>k \<in> set js. \<exists>b g. fs_heap s b = Some g \<and> f_ino g = k) \<and> fs_heap s' a = None \<and>
     (\<forall>b. fs_heap s' b = None \<or> map_option skel (fs_heap s' b) = map_option skel (fs_heap s b)) \<and>
     (\<forall>b g. b \<noteq> a \<longrightarrow> fs_heap s b = Some g \<longrightarrow>
        (fs_heap s' b = None \<longleftrightarrow> purge \<and> has_child s (f_ino g) \<and>
          (\<forall>c h. fs_heap s c = Some h \<longrightarrow> f_dir h = f_ino g \<longrightarrow> fs_heap s' c = None)))"

definition live :: "('i, 'n) fs_t \<Rightarrow> addr set" where
  "live s = {b. b < fs_brk s \<and> fs_heap s b \<noteq> None}"

lemma live_card: "card (live s) \<le> fs_brk s"
proof -
  have "card (live s) \<le> card {..<fs_brk s}" by (rule card_mono) (auto simp: live_def)
  then show ?thesis by simp
qed

text \<open>Removing one object and nothing else, in terms of what remains.\<close>

lemma dropped_heap:
  assumes "dropped HI HN s is a f s'" and "b \<noteq> a"
  shows "map_option skel (fs_heap s' b) = map_option skel (fs_heap s b)"
    and "fs_heap s' b = None \<longleftrightarrow> fs_heap s b = None"
proof -
  show *: "map_option skel (fs_heap s' b) = map_option skel (fs_heap s b)"
    using assms by (simp add: dropped_def)
  show "fs_heap s' b = None \<longleftrightarrow> fs_heap s b = None"
    using arg_cong[OF *, of "\<lambda>x. x = None"] by simp
qed

lemma dropped_live:
  assumes "dropped HI HN s is a f s'" and "fs_wf HI HN s is" and "fs_heap s a = Some f"
  shows "card (live s') < card (live s)"
proof (rule psubset_card_mono)
  have brk: "fs_brk s' = fs_brk s" and a: "fs_heap s' a = None"
    using assms(1) by (simp_all add: dropped_def frame_eq_def)
  have "b \<in> live s" if "b \<in> live s'" for b
    using that dropped_heap(2)[OF assms(1), of b] a brk by (cases "b = a") (auto simp: live_def)
  moreover have "a \<in> live s" using fs_wf_file[OF assms(2,3)] assms(3) by (simp add: live_def file_ok_def)
  moreover have "a \<notin> live s'" using a by (simp add: live_def)
  ultimately show "live s' \<subset> live s" by blast
qed (simp add: live_def)

lemma dropped_obj:
  assumes "dropped HI HN s is a f s'" and "b \<noteq> a"
  shows "(\<exists>h. fs_heap s' b = Some h \<and> f_dir h = d) \<longleftrightarrow> (\<exists>h. fs_heap s b = Some h \<and> f_dir h = d)"
  using skel_same_children(1)[OF dropped_heap(1)[OF assms], of d] by auto

lemma dropped_has_child:
  assumes "dropped HI HN s is a f s'" and "fs_heap s a = Some f" and "f_dir f \<noteq> d"
  shows "has_child s' d \<longleftrightarrow> has_child s d"
proof -
  have "(\<exists>h. fs_heap s' b = Some h \<and> f_dir h = d) \<longleftrightarrow> (\<exists>h. fs_heap s b = Some h \<and> f_dir h = d)" for b
    using assms dropped_obj[OF assms(1), of b d] by (cases "b = a") (auto simp: dropped_def)
  then show ?thesis unfolding has_child_def by blast
qed

text \<open>The object alone goes: its directory keeps a child, or nothing is to be purged.\<close>

lemma removed_one:
  assumes dr: "dropped HI HN s is a f s'" and f: "fs_heap s a = Some f"
    and keep: "\<And>b g. purge \<Longrightarrow> fs_heap s b = Some g \<Longrightarrow> f_ino g = f_dir f \<Longrightarrow> has_child s' (f_dir f)"
  shows "removed HI HN s is a purge s' [f_ino f]"
proof -
  have "fs_heap s' b = None \<longleftrightarrow> purge \<and> has_child s (f_ino g) \<and>
          (\<forall>c h. fs_heap s c = Some h \<longrightarrow> f_dir h = f_ino g \<longrightarrow> fs_heap s' c = None)"
    if b: "b \<noteq> a" "fs_heap s b = Some g" for b g
  proof -
    have nn: "fs_heap s' b \<noteq> None" using dropped_heap(2)[OF dr b(1)] b(2) by simp
    have "\<exists>c h. fs_heap s c = Some h \<and> f_dir h = f_ino g \<and> fs_heap s' c \<noteq> None"
      if "purge" "has_child s (f_ino g)"
    proof -
      have "has_child s' (f_ino g)"
        using that keep[OF _ b(2)] dropped_has_child[OF dr f] by (cases "f_ino g = f_dir f") auto
      then obtain c h where c: "fs_heap s' c = Some h" "f_dir h = f_ino g" by (auto simp: has_child_def)
      then have "c \<noteq> a" using dr by (auto simp: dropped_def)
      then show ?thesis using dropped_obj[OF dr, of c "f_ino g"] c by auto
    qed
    then show ?thesis using nn by metis
  qed
  moreover have "fs_heap s' b = None \<or> map_option skel (fs_heap s' b) = map_option skel (fs_heap s b)" for b
    using dr by (cases "b = a") (simp_all add: dropped_def)
  moreover have "fs_heap s' a = None" "fs_wf HI HN s' (f_ino f # is)" "frame_eq s s'"
    using dr by (simp_all add: dropped_def)
  ultimately show ?thesis using f by (auto simp: removed_def)
qed

text \<open>The directory of the object became empty and the call is repeated on it.\<close>

lemma removed_chain:
  assumes dr: "dropped HI HN s is a f s1" and f: "fs_heap s a = Some f"
    and p: "fs_heap s p = Some pf" "f_ino pf = f_dir f" "p \<noteq> a" and nc: "\<not> has_child s1 (f_dir f)"
    and wf: "fs_wf HI HN s is"
    and rec: "removed HI HN s1 (f_ino f # is) p True s' js"
  shows "removed HI HN s is a True s' (js @ [f_ino f])"
proof -
  have a1: "fs_heap s1 a = None" using dr by (simp add: dropped_def)
  have keep: "fs_heap s' b = None \<or> map_option skel (fs_heap s' b) = map_option skel (fs_heap s1 b)" for b
    using rec by (simp add: removed_def)
  have a': "fs_heap s' a = None" using keep[of a] a1 by auto
  have p': "fs_heap s' p = None" using rec by (simp add: removed_def)
  have same: "fs_heap s' b = None \<or> map_option skel (fs_heap s' b) = map_option skel (fs_heap s b)" for b
    using keep[of b] dropped_heap(1)[OF dr, of b] a' by (cases "b = a") auto
  have js: "\<exists>b g. fs_heap s b = Some g \<and> f_ino g = k" if "k \<in> set (js @ [f_ino f])" for k
  proof (cases "k = f_ino f")
    case False
    then have "k \<in> set js" using that by simp
    then obtain b g where b: "fs_heap s1 b = Some g" "f_ino g = k"
      using rec unfolding removed_def by blast
    then have ba: "b \<noteq> a" using a1 by auto
    then obtain g' where "fs_heap s b = Some g'" using dropped_heap(2)[OF dr ba] b(1) by auto
    then show ?thesis using b skel_same_children(1)[OF dropped_heap(1)[OF dr ba], of "f_dir g" k] by auto
  qed (use f in auto)
  have "fs_heap s' b = None \<longleftrightarrow> has_child s (f_ino g) \<and>
          (\<forall>c h. fs_heap s c = Some h \<longrightarrow> f_dir h = f_ino g \<longrightarrow> fs_heap s' c = None)"
    if b: "b \<noteq> a" "fs_heap s b = Some g" for b g
  proof (cases "b = p")
    case True
    then have g: "f_ino g = f_dir f" using b p by simp
    have "c = a" if "fs_heap s c = Some h" "f_dir h = f_dir f" for c h
      using that nc dropped_obj[OF dr, of c "f_dir f"] unfolding has_child_def by blast
    then show ?thesis using True p' a' f g unfolding has_child_def by metis
  next
    case False
    have d: "f_dir f \<noteq> f_ino g" using fs_wf_ino_unique[OF wf p(1) b(2)] p(2) False by auto
    have "map_option skel (fs_heap s1 b) = Some (skel g)" using dropped_heap(1)[OF dr b(1)] b(2) by simp
    then obtain g1 where g1: "fs_heap s1 b = Some g1" "skel g1 = skel g" by (rule map_option_eq_SomeE)
    have ch: "(\<exists>h. fs_heap s1 c = Some h \<and> f_dir h = f_ino g) \<longleftrightarrow>
        (\<exists>h. fs_heap s c = Some h \<and> f_dir h = f_ino g)" for c
      using dropped_obj[OF dr, of c "f_ino g"] a1 f d by (cases "c = a") auto
    have "fs_heap s' b = None \<longleftrightarrow> has_child s1 (f_ino g) \<and>
          (\<forall>c h. fs_heap s1 c = Some h \<longrightarrow> f_dir h = f_ino g \<longrightarrow> fs_heap s' c = None)"
      using rec g1 skel_eqD[OF g1(2)] False by (simp add: removed_def)
    then show ?thesis using ch unfolding has_child_def by blast
  qed
  moreover have "frame_eq s s'" using dr rec frame_eq_trans by (auto simp: removed_def dropped_def)
  ultimately show ?thesis using rec a' same js by (simp add: removed_def)
qed

text \<open>
  With as much fuel as there are live objects the call returns, and its effect is \<open>removed\<close>.
\<close>

lemma fsRemoveitem_loop:
  assumes H: "uthash HI" "uthash HN" and "fs_wf HI HN s is" and "fs_heap s a = Some f"
    and "\<not> has_child s (f_ino f)" and "card (live s) < n"
  shows "\<exists>s' js. fsRemoveitem_fuel n HI HN s a purge = Inr (True, s') \<and> removed HI HN s is a purge s' js"
  using assms(3-)
proof (induction n arbitrary: s "is" a f)
  case (Suc n)
  note wf = Suc.prems(1) and f = Suc.prems(2) and nc = Suc.prems(3)
  show ?case
  proof (cases "f_ino f = ROOT_INO")
    case True
    then obtain s' where s': "fsRemoveitem_step HI HN s a purge = Inr (True, None, s')"
        "dropped HI HN s is a f s'"
      using step_root[OF H wf f _ nc] by blast
    have "f_dir f = INVALID_INO" using file_ok_root[OF fs_wf_file[OF wf f]] True by simp
    then have "removed HI HN s is a purge s' [f_ino f]"
      using file_ok_ino[OF fs_wf_file[OF wf]]
      by (intro removed_one[OF s'(2) f]) (fastforce simp: INVALID_INO_def)
    then show ?thesis using s'(1) by auto
  next
    case False
    obtain s1 p pf where p: "fs_heap s p = Some pf" "f_ino pf = f_dir f" "p \<noteq> a"
      and dr: "dropped HI HN s is a f s1"
      and st: "fsRemoveitem_step HI HN s a purge =
        Inr (True, if \<not> has_child s1 (f_dir f) \<and> purge then Some p else None, s1)"
      using step_item[OF H wf f False nc] by metis
    show ?thesis
    proof (cases "\<not> has_child s1 (f_dir f) \<and> purge")
      case True
      have "map_option skel (fs_heap s1 p) = Some (skel pf)" using dropped_heap(1)[OF dr p(3)] p(1) by simp
      then obtain pf1 where pf1: "fs_heap s1 p = Some pf1" "skel pf1 = skel pf" by (rule map_option_eq_SomeE)
      have "f_ino pf1 = f_dir f" using skel_eqD[OF pf1(2)] p(2) by simp
      then have "\<exists>s' js. fsRemoveitem_fuel n HI HN s1 p purge = Inr (True, s') \<and>
          removed HI HN s1 (f_ino f # is) p purge s' js"
        using dr dropped_live[OF dr wf f] Suc.prems(4) True
        by (intro Suc.IH[OF _ pf1(1)]) (simp_all add: dropped_def)
      then obtain s' js where s': "fsRemoveitem_fuel n HI HN s1 p purge = Inr (True, s')"
          "removed HI HN s1 (f_ino f # is) p purge s' js" by blast
      have "removed HI HN s is a purge s' (js @ [f_ino f])"
        using removed_chain[OF dr f p _ wf] s'(2) True by simp
      then show ?thesis using st True s'(1) by auto
    next
      case False
      then have "removed HI HN s is a purge s1 [f_ino f]"
        by (intro removed_one[OF dr f]) simp
      then show ?thesis using st False by auto
    qed
  qed
qed simp

text \<open>The fuel of \<open>fsRemoveitem\<close> is enough: one unit more than addresses were handed out.\<close>

lemma fsRemoveitem_removed:
  assumes "uthash HI" "uthash HN" and "fs_wf HI HN s is" and "fs_heap s a = Some f"
    and "\<not> has_child s (f_ino f)"
  obtains s' js where "fsRemoveitem HI HN s a purge = Inr (True, s')"
    and "removed HI HN s is a purge s' js"
proof -
  have "card (live s) < Suc (fs_brk s)" using live_card[of s] by simp
  then show thesis
    using fsRemoveitem_loop[OF assms, of "Suc (fs_brk s)" purge] that unfolding fsRemoveitem_def by blast
qed

lemma fsRemoveitem_nonempty:
  assumes "uthash HI" "uthash HN" and wf: "fs_wf HI HN s is" and f: "fs_heap s a = Some f"
    and c: "has_child s (f_ino f)"
  shows "fsRemoveitem HI HN s a purge = Inr (False, s)"
proof -
  have "f_type f = DIRECTORY" using plain_no_child[OF wf f] c by blast
  then show ?thesis using step_nonempty[OF assms(1,2) wf f _ c] by (simp add: fsRemoveitem_def)
qed

text \<open>Every inode of a removed object still records its file, so it cannot be handed out again.\<close>

lemma removed_dirty:
  assumes wf: "fs_wf HI HN s is" and r: "removed HI HN s is a purge s' js"
  shows "inoalloc s' = Inl Assert_failed"
proof -
  obtain k ks where js: "js = k # ks" using r by (cases js) (auto simp: removed_def)
  then obtain b g where b: "fs_heap s b = Some g" "f_ino g = k" using r by (auto simp: removed_def)
  have "frame_eq s s'" using r by (simp add: removed_def)
  then have "\<not> ino_clean s' k"
    using fs_wf_file[OF wf b(1)] b(2) by (auto simp: ino_clean_def frame_eq_def file_ok_def)
  moreover have "ino_pool s' (k # ks @ is)"
    using r js by (simp add: removed_def fs_wf_def)
  ultimately show ?thesis by (intro inoalloc_dirty)
qed

end
