(* ===== verification/Fs_Mount.thy ===== *)
theory Fs_Mount
  imports Fs_Remove
begin

text \<open>
  The life of a file system object (\<open>fs.c\<close>): \<open>fsInit\<close>, \<open>fsCreate\<close>, which reserves inode 0,
  makes the root directory and mounts, and \<open>fsCleanup\<close>, which unmounts, removes every file and frees
  the inode table. What the operating system and libfuse answer is a parameter (\<open>fs_env\<close>).
\<close>

declare upt_rec_numeral [simp del]

section \<open>Operations\<close>

text \<open>
  Answers of \<open>mkdir\<close>, \<open>fuse_session_new\<close>, \<open>fuse_session_mount\<close> and \<open>fuse_session_fd\<close>, and
  whether \<open>verbose(2)\<close> holds.
\<close>

record fs_env =
  env_mkdir :: bool
  env_session :: bool
  env_mount :: bool
  env_fd :: int
  env_verbose2 :: bool

type_synonym ('i, 'n) fs_createfsfunc_t = "('i, 'n) fs_t \<Rightarrow> fs_ino_t \<Rightarrow> ('i, 'n) fs_t res"

text \<open>
  \<open>snprintf(mntpt, n, ..)\<close> writes at most \<open>n - 1\<close> characters and returns the length it wanted, so
  the result is the string that was written, or NULL when the function returns false.
\<close>

definition fsMountPoint :: "string \<Rightarrow> nat \<Rightarrow> string option \<Rightarrow> string option" where
  "fsMountPoint fsname n dir =
     (let path = (case dir of Some d \<Rightarrow> d @ ''/'' @ fsname | None \<Rightarrow> fsname)
      in if n \<le> length path then None else Some path)"

definition fsSetMntPt :: "('i, 'n) fs_t \<Rightarrow> string option \<Rightarrow> ('i, 'n) fs_t res" where
  "fsSetMntPt s m = (if mntpt s \<noteq> None then Inl Assert_failed else Inr (s\<lparr>mntpt := m\<rparr>))"

text \<open>\<open>sizeof(tmp)\<close>, where \<open>tmp\<close> is a \<open>char *\<close>.\<close>

definition SIZEOF_TMP :: nat where "SIZEOF_TMP = 8"

text \<open>
  Every field is assigned a fresh value. What the old fields pointed to stays allocated: the heap
  is kept.
\<close>

definition fsInit :: "string \<Rightarrow> ('i, 'n) fs_t \<Rightarrow> bool \<Rightarrow> string option \<Rightarrow> ('i, 'n) fs_t res" where
  "fsInit fsname s initmntpt mntptdir =
     (let s = s\<lparr>fuse_args := [], fuse_buf_mem := False, fs_ed := None, fuse_se := False, mntpt := None,
                ino_table := [], ino_freelist := None, ino_num := 0, ino_numfree := 0,
                fuse_fd := -1, fs_mkdir := False\<rparr>
      in rbind (if initmntpt
                then (case fsMountPoint fsname SIZEOF_TMP mntptdir of
                        None \<Rightarrow> Inl (Exit_process 1)
                      | Some tmp \<Rightarrow> fsSetMntPt s (Some tmp))
                else Inr s) (\<lambda>s.
         Inr (s\<lparr>fs_ed := Some FsEvent\<rparr>)))"

text \<open>The part of \<open>fsCreate\<close> that reserves inode 0 and makes the root directory.\<close>

definition fsCreate_root :: "'i ino_hash \<Rightarrow> 'n name_hash \<Rightarrow> ('i, 'n) fs_t \<Rightarrow> (fs_ino_t \<times> ('i, 'n) fs_t) res" where
  "fsCreate_root HI HN s =
     rbind (inoalloc s) (\<lambda>(ino, s).
     if ino \<noteq> 0 \<or> ino \<noteq> INVALID_INO then Inl Assert_failed
     else rbind (fsCreatedir HI HN s INVALID_INO ''.'' Fs_dir_ops) (\<lambda>(root, s).
       rbind (file_get s (Some root)) (\<lambda>r.
       if f_ino r \<noteq> ROOT_INO then Inl Assert_failed else Inr (f_ino r, s))))"

definition fsCreate ::
  "'i ino_hash \<Rightarrow> 'n name_hash \<Rightarrow> fs_env \<Rightarrow> ('i, 'n) fs_t \<Rightarrow> string \<Rightarrow>
   ('i, 'n) fs_createfsfunc_t option \<Rightarrow> (bool \<times> ('i, 'n) fs_t) res" where
  "fsCreate HI HN E s name createfsfunc =
     (case mntpt s of
        None \<Rightarrow> Inr (False, s)
      | Some m \<Rightarrow>
     if \<not> env_mkdir E then Inr (False, s)
     else let s = s\<lparr>fs_calls := fs_calls s @ [Call_mkdir m], fs_mkdir := True\<rparr> in
     rbind (fsCreate_root HI HN s) (\<lambda>(rootino, s).
     rbind (case createfsfunc of Some f \<Rightarrow> f s rootino | None \<Rightarrow> Inr s) (\<lambda>s.
     let s = s\<lparr>fuse_args := fuse_args s @ [name, ''-o'', ''default_permissions''] @
                  (if env_verbose2 E then [''--debug''] else [])\<rparr>
     in if \<not> env_session E then Inl Assert_failed
        else let s = s\<lparr>fuse_se := True, fs_calls := fs_calls s @ [Call_session_new (fuse_args s)]\<rparr>
        in if \<not> env_mount E then Inr (False, s)
           else let s = s\<lparr>fs_calls := fs_calls s @ [Call_session_mount m], fuse_fd := env_fd E\<rparr>
           in if fuse_fd s = -1 then Inl Assert_failed
              else if fs_ed s \<noteq> Some FsEvent then Inl Assert_failed
              else Inr (True, s))))"

text \<open>
  The loop of \<open>fsCleanup\<close> over the inode table, with its counter; the list holds the indices that
  are still to be visited.
\<close>

primrec cleanup_scan ::
  "'i ino_hash \<Rightarrow> 'n name_hash \<Rightarrow> nat list \<Rightarrow> int \<Rightarrow> ('i, 'n) fs_t \<Rightarrow> (int \<times> ('i, 'n) fs_t) res" where
  "cleanup_scan HI HN [] cnt s = Inr (cnt, s)"
| "cleanup_scan HI HN (i # ix) cnt s =
     rbind (inodesc_at s i) (\<lambda>d.
     case id_file d of
       None \<Rightarrow> cleanup_scan HI HN ix cnt s
     | Some file \<Rightarrow>
         if id_next d \<noteq> None then Inl Assert_failed
         else rbind (fsRemoveitem HI HN s file True) (\<lambda>(_, s). cleanup_scan HI HN ix (cnt + 1) s))"

definition cleanup_inodes :: "'i ino_hash \<Rightarrow> 'n name_hash \<Rightarrow> ('i, 'n) fs_t \<Rightarrow> ('i, 'n) fs_t res" where
  "cleanup_inodes HI HN s =
     (let allocated = ino_num s - ino_numfree s
      in if ino_num s = 0 then Inl Assert_failed
         else rbind (cleanup_scan HI HN [0..<nat (ino_num s)] 0 s) (\<lambda>(cnt, s).
              rbind (inofree s INVALID_INO) (\<lambda>s.
              if cnt + 1 \<noteq> allocated then Inl Assert_failed
              else if ino_num s \<noteq> ino_numfree s then Inl Assert_failed
              else Inr (s\<lparr>ino_table := [], ino_num := 0, ino_freelist := None, ino_numfree := 0\<rparr>))))"

text \<open>The buffer \<open>fuse_buf.mem\<close> is freed and its pointer kept; the flag says that it is not NULL.\<close>

definition fsCleanup :: "'i ino_hash \<Rightarrow> 'n name_hash \<Rightarrow> ('i, 'n) fs_t \<Rightarrow> (bool \<times> ('i, 'n) fs_t) res" where
  "fsCleanup HI HN s =
     (case mntpt s of
        None \<Rightarrow> Inr (True, s)
      | Some m \<Rightarrow>
     if \<not> fs_mkdir s then Inr (True, s)
     else let s = (if fuse_se s
                   then s\<lparr>fs_calls := fs_calls s @ [Call_session_unmount, Call_session_destroy],
                          fuse_se := False, fuse_args := []\<rparr>
                   else s);
              s = s\<lparr>fs_calls := fs_calls s @ [Call_rmdir m], mntpt := None\<rparr>
          in if ino_table s \<noteq> [] then rbind (cleanup_inodes HI HN s) (\<lambda>s. Inr (True, s))
             else Inr (True, s))"

section \<open>Parents are older than their children\<close>

text \<open>In a file system that only grew, an object has a larger inode than its directory.\<close>

definition ino_ordered :: "('i, 'n) fs_t \<Rightarrow> bool" where
  "ino_ordered s \<longleftrightarrow> (\<forall>a g. fs_heap s a = Some g \<longrightarrow> f_dir g < f_ino g)"

lemma ino_orderedD: "ino_ordered s \<Longrightarrow> fs_heap s a = Some g \<Longrightarrow> f_dir g < f_ino g"
  by (simp add: ino_ordered_def)

lemma removed_ino_le:
  assumes ord: "ino_ordered s" and wf: "fs_wf HI HN s is" and r: "removed HI HN s is a purge s' js"
    and f: "fs_heap s a = Some f"
  shows "fs_heap s b = Some g \<Longrightarrow> fs_heap s' b = None \<Longrightarrow> f_ino g \<le> f_ino f"
proof (induction "length (ino_table s) - f_ino g" arbitrary: b g rule: less_induct)
  case less
  show ?case
  proof (cases "b = a")
    case False
    then obtain c h where c: "fs_heap s c = Some h" "f_dir h = f_ino g" "fs_heap s' c = None"
      using r less.prems unfolding removed_def has_child_def by metis
    have "f_ino g < f_ino h" using ino_orderedD[OF ord c(1)] c(2) by simp
    moreover have "f_ino h < length (ino_table s)" using file_ok_ino[OF fs_wf_file[OF wf c(1)]] by simp
    ultimately show ?thesis using less.hyps[OF _ c(1,3)] by linarith
  qed (use f less.prems in simp)
qed

lemma all_have_children_empty:
  assumes ord: "ino_ordered s" and wf: "fs_wf HI HN s is"
    and ch: "\<And>a g. fs_heap s a = Some g \<Longrightarrow> has_child s (f_ino g)"
  shows "fs_heap s a = None"
proof -
  have "fs_heap s a \<noteq> Some g" for g
  proof (induction "length (ino_table s) - f_ino g" arbitrary: a g rule: less_induct)
    case less
    show ?case
    proof
      assume g: "fs_heap s a = Some g"
      then obtain c h where c: "fs_heap s c = Some h" "f_dir h = f_ino g"
        using ch[OF g] unfolding has_child_def by blast
      have "f_ino g < f_ino h" using ino_orderedD[OF ord c(1)] c(2) by simp
      moreover have "f_ino h < length (ino_table s)" using file_ok_ino[OF fs_wf_file[OF wf c(1)]] by simp
      ultimately show False using less.hyps[of h c] c(1) by linarith
    qed
  qed
  then show ?thesis by (cases "fs_heap s a") auto
qed

section \<open>Cleaning up\<close>

text \<open>
  The invariant of the scan that started in \<open>s0\<close>, before index \<open>i\<close>: objects with a smaller inode
  that are still there are directories with children, objects from \<open>i\<close> on were not touched.
\<close>

definition scan_inv ::
  "'i ino_hash \<Rightarrow> 'n name_hash \<Rightarrow> ('i, 'n) fs_t \<Rightarrow> nat \<Rightarrow> ('i, 'n) fs_t \<Rightarrow> nat list \<Rightarrow> bool" where
  "scan_inv HI HN s0 i s is \<longleftrightarrow>
     fs_wf HI HN s is \<and> frame_eq s0 s \<and> ino_ordered s \<and>
     (\<forall>a g. fs_heap s a = Some g \<longrightarrow> f_ino g < i \<longrightarrow> has_child s (f_ino g)) \<and>
     (\<forall>k < length (ino_table s0). i \<le> k \<longrightarrow> id_file (ino_table s0 ! k) \<noteq> None \<longrightarrow>
        (\<exists>g. fs_heap s (the (id_file (ino_table s0 ! k))) = Some g \<and> f_ino g = k))"

lemma removed_same_ino:
  assumes "removed HI HN s is a purge s' js" and "fs_heap s' b = Some g'"
  obtains g where "fs_heap s b = Some g" and "skel g' = skel g"
proof -
  have "map_option skel (fs_heap s' b) = map_option skel (fs_heap s b)"
    using assms unfolding removed_def by (metis option.distinct(1))
  then have "map_option skel (fs_heap s b) = Some (skel g')" using assms(2) by simp
  then show thesis using that by (auto elim: map_option_eq_SomeE)
qed

lemma scan_inv_remove:
  assumes inv: "scan_inv HI HN s0 i s is" and f: "fs_heap s a = Some f" "f_ino f = i"
    and r: "removed HI HN s is a True s' js"
  shows "scan_inv HI HN s0 (Suc i) s' (js @ is)"
proof -
  have wf: "fs_wf HI HN s is" and fr: "frame_eq s0 s" and ord: "ino_ordered s"
    and old: "\<And>a g. fs_heap s a = Some g \<Longrightarrow> f_ino g < i \<Longrightarrow> has_child s (f_ino g)"
    and new: "\<And>k. k < length (ino_table s0) \<Longrightarrow> i \<le> k \<Longrightarrow> id_file (ino_table s0 ! k) \<noteq> None \<Longrightarrow>
        \<exists>g. fs_heap s (the (id_file (ino_table s0 ! k))) = Some g \<and> f_ino g = k"
    using inv by (auto simp: scan_inv_def)
  have a': "fs_heap s' a = None" using r by (simp add: removed_def)
  have "has_child s' (f_ino g')" if g': "fs_heap s' b = Some g'" "f_ino g' < Suc i" for b g'
  proof -
    obtain g where g: "fs_heap s b = Some g" "skel g' = skel g" using r g'(1) by (rule removed_same_ino)
    have ino: "f_ino g' = f_ino g" using skel_eqD[OF g(2)] by simp
    have ba: "b \<noteq> a" using g' a' by auto
    then have "f_ino g \<noteq> i" using fs_wf_ino_unique[OF wf g(1) f(1)] f(2) by auto
    then have "has_child s (f_ino g)" using old[OF g(1)] g'(2) ino by simp
    then obtain c h where c: "fs_heap s c = Some h" "f_dir h = f_ino g" "fs_heap s' c \<noteq> None"
      using r ba g(1) g'(1) unfolding removed_def by (metis option.distinct(1))
    then obtain h' where h': "fs_heap s' c = Some h'" by auto
    obtain h2 where "fs_heap s c = Some h2" "skel h' = skel h2" using r h' by (rule removed_same_ino)
    then have "f_dir h' = f_ino g" using c skel_eqD by (metis option.inject)
    then show ?thesis using h' ino unfolding has_child_def by metis
  qed
  moreover have "\<exists>g. fs_heap s' (the (id_file (ino_table s0 ! k))) = Some g \<and> f_ino g = k"
    if k: "k < length (ino_table s0)" "Suc i \<le> k" "id_file (ino_table s0 ! k) \<noteq> None" for k
  proof -
    obtain g where g: "fs_heap s (the (id_file (ino_table s0 ! k))) = Some g" "f_ino g = k"
      using new[OF k(1) _ k(3)] k(2) by auto
    have "fs_heap s' (the (id_file (ino_table s0 ! k))) \<noteq> None"
      using removed_ino_le[OF ord wf r f(1) g(1)] f(2) g(2) k(2) by auto
    then obtain g' where g': "fs_heap s' (the (id_file (ino_table s0 ! k))) = Some g'" by auto
    obtain g2 where "fs_heap s (the (id_file (ino_table s0 ! k))) = Some g2" "skel g' = skel g2"
      using r g' by (rule removed_same_ino)
    then show ?thesis using g g' skel_eqD[of g' g2] by auto
  qed
  moreover have "ino_ordered s'"
    unfolding ino_ordered_def
    using removed_same_ino[OF r] ino_orderedD[OF ord] skel_eqD by metis
  ultimately show ?thesis
    using r fr frame_eq_trans by (auto simp: scan_inv_def removed_def)
qed

lemma scan_inv_keep:
  assumes "scan_inv HI HN s0 i s is"
    and "\<And>a g. fs_heap s a = Some g \<Longrightarrow> f_ino g = i \<Longrightarrow> has_child s (f_ino g)"
  shows "scan_inv HI HN s0 (Suc i) s is"
  using assms by (auto simp: scan_inv_def less_Suc_eq)

lemma cleanup_scan_step:
  assumes H: "uthash HI" "uthash HN" and inv: "scan_inv HI HN s0 i s is"
    and i: "i < length (ino_table s0)"
  obtains s' js where "scan_inv HI HN s0 (Suc i) s' js"
    and "cleanup_scan HI HN (i # ix) cnt s =
      cleanup_scan HI HN ix (if id_file (ino_table s0 ! i) \<noteq> None then cnt + 1 else cnt) s'"
proof -
  have wf: "fs_wf HI HN s is" and fr: "frame_eq s0 s" using inv by (simp_all add: scan_inv_def)
  have i': "i < length (ino_table s)" and idf: "id_file (ino_table s ! i) = id_file (ino_table s0 ! i)"
    using fr i by (auto simp: frame_eq_def)
  have at: "inodesc_at s i = Inr (ino_table s ! i)" using i' by (simp add: inodesc_at_def)
  show thesis
  proof (cases "id_file (ino_table s0 ! i)")
    case None
    then have "scan_inv HI HN s0 (Suc i) s is"
      using file_ok_id[OF fs_wf_file[OF wf]] idf by (intro scan_inv_keep[OF inv]) fastforce
    then show thesis using that[of s "is"] None at idf by simp
  next
    case (Some a)
    then obtain f where f: "fs_heap s a = Some f" "f_ino f = i"
      using inv i by (auto simp: scan_inv_def)
    have nx: "id_next (ino_table s ! i) = None"
      using fs_wf_next[OF wf i'] file_ok_ino[OF fs_wf_file[OF wf f(1)]] f(2) by simp
    show thesis
    proof (cases "has_child s i")
      case True
      then have "fsRemoveitem HI HN s a True = Inr (False, s)"
        using fsRemoveitem_nonempty[OF H wf f(1)] f(2) by simp
      moreover have "scan_inv HI HN s0 (Suc i) s is"
        using True by (intro scan_inv_keep[OF inv]) simp
      ultimately show thesis using that[of s "is"] at idf Some nx by simp
    next
      case False
      then obtain s' js where s': "fsRemoveitem HI HN s a True = Inr (True, s')"
          "removed HI HN s is a True s' js"
        using fsRemoveitem_removed[OF H wf f(1)] f(2) by metis
      moreover have "scan_inv HI HN s0 (Suc i) s' (js @ is)"
        using inv f s'(2) by (rule scan_inv_remove)
      ultimately show thesis using that[of s' "js @ is"] at idf Some nx by simp
    qed
  qed
qed

lemma cleanup_scan_all:
  assumes H: "uthash HI" "uthash HN" and "scan_inv HI HN s0 i s is"
    and "n = length (ino_table s0)" and "i \<le> n"
  shows "\<exists>s' js. scan_inv HI HN s0 n s' js \<and> cleanup_scan HI HN [i..<n] cnt s =
    Inr (cnt + int (length (filter (\<lambda>k. id_file (ino_table s0 ! k) \<noteq> None) [i..<n])), s')"
  using assms(3-)
proof (induction "n - i" arbitrary: i s "is" cnt)
  case 0
  then show ?case by auto
next
  case (Suc d)
  have i: "i < n" using Suc.hyps(2) by simp
  have ix: "[i..<n] = i # [Suc i..<n]" using i by (simp add: upt_conv_Cons)
  obtain s1 js where s1: "scan_inv HI HN s0 (Suc i) s1 js"
    "cleanup_scan HI HN (i # [Suc i..<n]) cnt s = cleanup_scan HI HN [Suc i..<n]
      (if id_file (ino_table s0 ! i) \<noteq> None then cnt + 1 else cnt) s1"
    using cleanup_scan_step[OF H Suc.prems(1)] i Suc.prems(2) by blast
  have "d = n - Suc i" using Suc.hyps(2) by simp
  from Suc.hyps(1)[OF this s1(1) Suc.prems(2), of "if id_file (ino_table s0 ! i) \<noteq> None then cnt + 1 else cnt"] i
  show ?case unfolding ix s1(2) by (cases "id_file (ino_table s0 ! i)") (simp_all add: algebra_simps)
qed

text \<open>A file system that only grew: the inodes below \<open>k\<close> are in use, the others were never used.\<close>

definition pristine :: "'i ino_hash \<Rightarrow> 'n name_hash \<Rightarrow> ('i, 'n) fs_t \<Rightarrow> nat \<Rightarrow> bool" where
  "pristine HI HN s k \<longleftrightarrow>
     fs_wf HI HN s [k..<256] \<and> length (ino_table s) = 256 \<and> 1 \<le> k \<and> k \<le> 256 \<and> ino_ordered s \<and>
     ino_clean s 0 \<and> (\<forall>j. k \<le> j \<longrightarrow> j < 256 \<longrightarrow> ino_clean s j)"

lemma pristine_file_iff:
  assumes p: "pristine HI HN s k" and j: "j < 256"
  shows "id_file (ino_table s ! j) \<noteq> None \<longleftrightarrow> 1 \<le> j \<and> j < k"
proof
  have wf: "fs_wf HI HN s [k..<256]" and l: "length (ino_table s) = 256" using p by (simp_all add: pristine_def)
  assume "1 \<le> j \<and> j < k"
  then show "id_file (ino_table s ! j) \<noteq> None"
    using fs_wf_alloc[OF wf, of j] l j by fastforce
next
  assume *: "id_file (ino_table s ! j) \<noteq> None"
  have "ino_clean s 0" and "\<And>j. k \<le> j \<Longrightarrow> j < 256 \<Longrightarrow> ino_clean s j" using p by (simp_all add: pristine_def)
  then have "j \<noteq> 0" "\<not> k \<le> j" using * j unfolding ino_clean_def by metis+
  then show "1 \<le> j \<and> j < k" by simp
qed

lemma pristine_scan_inv:
  assumes "pristine HI HN s k"
  shows "scan_inv HI HN s 0 s [k..<256]"
proof -
  have wf: "fs_wf HI HN s [k..<256]" and l: "length (ino_table s) = 256"
    using assms by (simp_all add: pristine_def)
  have "\<exists>g. fs_heap s (the (id_file (ino_table s ! j))) = Some g \<and> f_ino g = j"
    if j: "j < length (ino_table s)" "id_file (ino_table s ! j) \<noteq> None" for j
  proof -
    have "j \<noteq> 0" "j \<notin> set [k..<256]" using pristine_file_iff[OF assms, of j] j l by auto
    then show ?thesis using fs_wf_alloc[OF wf j(1)] by fastforce
  qed
  then show ?thesis using assms by (simp add: scan_inv_def pristine_def)
qed

lemma pristine_count:
  assumes "pristine HI HN s k"
  shows "length (filter (\<lambda>j. id_file (ino_table s ! j) \<noteq> None) [0..<256]) = k - 1"
proof -
  have k: "1 \<le> k" "k \<le> 256" using assms by (simp_all add: pristine_def)
  have nth: "[0..<256] ! j = j" if "j < 256" for j :: nat using that by (simp del: upt_rec_numeral)
  have "{j. j < length [0..<256::nat] \<and> id_file (ino_table s ! ([0..<256] ! j)) \<noteq> None} =
      {j. j < 256 \<and> 1 \<le> j \<and> j < k}"
    using nth pristine_file_iff[OF assms] by (intro Collect_cong) (metis diff_zero length_upt)
  also have "\<dots> = {1..<k}" using k by auto
  finally show ?thesis by (simp only: length_filter_conv_card card_atLeastLessThan)
qed

text \<open>Nothing is left of a file system that only grew, and no assertion fails on the way.\<close>

lemma cleanup_inodes_pristine:
  assumes H: "uthash HI" "uthash HN" and p: "pristine HI HN s k"
  obtains s' where "cleanup_inodes HI HN s = Inr s'" and "fs_heap s' = (\<lambda>_. None)"
    and "ino_table s' = []" and "ino_freelist s' = None" and "ino_num s' = 0" and "ino_numfree s' = 0"
    and "mntpt s' = mntpt s" and "fs_calls s' = fs_calls s"
proof -
  have wf: "fs_wf HI HN s [k..<256]" and l: "length (ino_table s) = 256" and k: "1 \<le> k" "k \<le> 256"
    using p by (simp_all add: pristine_def)
  have num: "ino_num s = 256" using fs_wf_ino_num[OF wf] l by simp
  have nf: "ino_numfree s = 256 - int k" using fs_wf_pool[OF wf] k by (simp add: ino_pool_def)
  obtain s1 js where inv: "scan_inv HI HN s 256 s1 js"
    and sc: "cleanup_scan HI HN [0..<256] 0 s = Inr (int (k - 1), s1)"
    using cleanup_scan_all[OF H pristine_scan_inv[OF p], of 256 0] l pristine_count[OF p] by auto
  have wf1: "fs_wf HI HN s1 js" and fr: "frame_eq s s1" and ord: "ino_ordered s1"
    and ch: "\<And>a g. fs_heap s1 a = Some g \<Longrightarrow> f_ino g < 256 \<Longrightarrow> has_child s1 (f_ino g)"
    using inv by (auto simp: scan_inv_def)
  have l1: "length (ino_table s1) = 256" using fr l by (simp add: frame_eq_def)
  have empty: "fs_heap s1 a = None" for a
    using ch file_ok_ino[OF fs_wf_file[OF wf1]] l1 by (intro all_have_children_empty[OF ord wf1]) simp
  have "set js \<subseteq> {..<256}"
    using fs_wf_pool[OF wf1] l1 unfolding ino_pool_def by (metis free_chain_bound lessThan_iff subsetI)
  then have "set js = {1..<256}"
    using fs_wf_free_iff[OF wf1] l1 empty by (intro set_eqI iffI) fastforce+
  moreover have "distinct js" using fs_wf_pool[OF wf1] by (simp add: ino_pool_def)
  ultimately have len: "length js = 255" "0 \<notin> set js" using distinct_card[of js] by auto
  obtain s2 where s2: "inofree s1 0 = Inr s2" "ino_pool s2 (0 # js)"
    and eq: "s2 = s1\<lparr>ino_table := (ino_table s1)[0 := (ino_table s1 ! 0)\<lparr>id_next := ino_freelist s1\<rparr>],
               ino_freelist := Some 0, ino_numfree := ino_numfree s1 + 1\<rparr>"
    using fs_wf_pool[OF wf1] _ len(2) by (rule inofree_pool) (simp add: l1)
  have n2: "ino_numfree s2 = 256" using s2(2) len(1) by (simp add: ino_pool_def)
  have m2: "ino_num s2 = 256" using fr num by (simp add: eq frame_eq_def)
  have "cleanup_inodes HI HN s =
      Inr (s2\<lparr>ino_table := [], ino_num := 0, ino_freelist := None, ino_numfree := 0\<rparr>)"
    using sc s2(1) n2 m2 num nf k by (simp add: cleanup_inodes_def Let_def INVALID_INO_def)
  then show thesis
    using that empty fr by (simp add: eq frame_eq_def fun_eq_iff)
qed

section \<open>Building up\<close>

text \<open>Creating an object keeps the file system one that only grew.\<close>

lemma added_pristine:
  assumes p: "pristine HI HN s k" and k: "k < 256" and wf': "fs_wf HI HN s' [Suc k..<256]"
    and d: "fs_heap s d = Some df" and g: "f_ino g = k" "f_dir g = f_ino df"
    and add: "added HI HN s [Suc k..<256] d df dd n g s'"
  shows "pristine HI HN s' (Suc k)"
proof -
  have wf: "fs_wf HI HN s [k..<256]" and ord: "ino_ordered s" and l: "length (ino_table s) = 256"
    and k0: "1 \<le> k"
    using p by (simp_all add: pristine_def)
  have tab: "ino_table s' = (ino_table s)[k := \<lparr>id_file = Some (fs_brk s), id_next = None\<rparr>]"
    and heap: "fs_heap s' = (fs_heap s)(fs_brk s \<mapsto> g,
        d \<mapsto> df\<lparr>f_data := Data_dir \<lparr>ino_files = hash_add HI (ino_files dd) k (fs_brk s),
                                    nm_files = hash_add HN (nm_files dd) n (fs_brk s)\<rparr>\<rparr>)"
    using add g(1) by (simp_all add: added_def)
  have "f_ino df \<notin> set [k..<256]" "f_ino df < 256"
    using file_ok_ino[OF fs_wf_file[OF wf d]] l by auto
  then have "f_dir g < f_ino g" using g by simp
  then have "ino_ordered s'"
    using ino_orderedD[OF ord] d unfolding ino_ordered_def heap by (auto split: if_splits)
  moreover have "ino_clean s' j" if "ino_clean s j" "j \<noteq> k" for j
    using that by (simp add: ino_clean_def tab)
  ultimately show ?thesis
    using wf' p k k0 by (auto simp: pristine_def tab)
qed

lemma pristine_Cons:
  assumes "pristine HI HN s k" and "k < 256"
  shows "fs_wf HI HN s (k # [Suc k..<256])" and "ino_clean s k"
  using assms by (simp_all add: pristine_def upt_conv_Cons)

lemma pristine_fsCreatefile:
  assumes H: "uthash HI" "uthash HN" and p: "pristine HI HN s k" and k: "k < 256" "k \<noteq> ROOT_INO"
    and d: "fs_heap s d = Some df" "f_type df = DIRECTORY" and fresh: "name_fresh s (f_ino df) name"
  obtains s' dd where "fsCreatefile HI HN s (f_ino df) name symlink ops = Inr (fs_brk s, s')"
    and "pristine HI HN s' (Suc k)"
    and "added HI HN s [Suc k..<256] d df dd name (created_file k (f_ino df) name symlink ops) s'"
proof -
  obtain s' dd where s': "fsCreatefile HI HN s (f_ino df) name symlink ops = Inr (fs_brk s, s')"
    "fs_wf HI HN s' [Suc k..<256]"
    "added HI HN s [Suc k..<256] d df dd name (created_file k (f_ino df) name symlink ops) s'"
    using fsCreatefile_added[OF H pristine_Cons[OF p k(1)] k(2) d fresh] by metis
  have "pristine HI HN s' (Suc k)"
    using p k(1) s'(2) d(1) _ _ s'(3) by (rule added_pristine) (simp_all add: created_file_def file_init_def)
  then show thesis using that s' by blast
qed

lemma pristine_fsCreatedir:
  assumes H: "uthash HI" "uthash HN" and p: "pristine HI HN s k" and k: "k < 256" "k \<noteq> ROOT_INO"
    and d: "fs_heap s d = Some df" "f_type df = DIRECTORY" and fresh: "name_fresh s (f_ino df) name"
  obtains s' dd where "fsCreatedir HI HN s (f_ino df) name ops = Inr (fs_brk s, s')"
    and "pristine HI HN s' (Suc k)"
    and "added HI HN s [Suc k..<256] d df dd name (created_dir HI HN k (f_ino df) name ops) s'"
proof -
  obtain s' dd where s': "fsCreatedir HI HN s (f_ino df) name ops = Inr (fs_brk s, s')"
    "fs_wf HI HN s' [Suc k..<256]"
    "added HI HN s [Suc k..<256] d df dd name (created_dir HI HN k (f_ino df) name ops) s'"
    using fsCreatedir_added[OF H pristine_Cons[OF p k(1)] k(2) d fresh] by metis
  have "pristine HI HN s' (Suc k)"
    using p k(1) s'(2) d(1) _ _ s'(3) by (rule added_pristine) (simp_all add: created_dir_def file_init_def)
  then show thesis using that s' by blast
qed

text \<open>Reserving inode 0 and making the root in an object that \<open>fsInit\<close> prepared.\<close>

lemma inoalloc_first:
  assumes "init_inotable s = Inr s0" and "ino_table s = []" and "ino_table s0 \<noteq> []"
  shows "inoalloc s = inoalloc s0"
  using assms by (simp add: inoalloc_def)

lemma fsCreatedir_top:
  assumes "inoalloc s = Inr (k, s1)" and "int k < ino_num s1" and "k < length (ino_table s1)"
    and "ino_table s1 ! k = \<lparr>id_file = None, id_next = None\<rparr>"
  shows "fsCreatedir HI HN s INVALID_INO name ops =
    Inr (fs_brk s1, set_id_file (snd (file_new s1 (created_dir HI HN k INVALID_INO name ops))) k (fs_brk s1))"
  using assms
  by (simp add: fsCreatedir_def ino2inodesc_def inodesc_at_def created_dir_def Let_def file_new_def)

lemma two_upt: "[0..<256] = 0 # 1 # [2..<256::nat]"
proof -
  have "[0..<256::nat] = 0 # [Suc 0..<256]" by (rule upt_conv_Cons) simp
  also have "[Suc 0..<256] = Suc 0 # [Suc (Suc 0)..<256]" by (rule upt_conv_Cons) simp
  finally show ?thesis by (simp only: One_nat_def numeral_2_eq_2)
qed

text \<open>A file system whose only object is the root directory.\<close>

lemma pristine_root:
  fixes s :: "('i, 'n) fs_t"
  assumes H: "uthash HI" "uthash HN" and pool: "ino_pool s [2..<256]"
    and l: "length (ino_table s) = 256"
    and tab: "\<And>k. k < 256 \<Longrightarrow> k \<noteq> 1 \<Longrightarrow> id_file (ino_table s ! k) = None"
    and r: "id_file (ino_table s ! 1) = Some a" and a: "a < fs_brk s"
    and heap: "fs_heap s = (\<lambda>_. None)(a \<mapsto> created_dir HI HN ROOT_INO INVALID_INO name ops)"
  shows "pristine HI HN s 2"
proof -
  let ?r = "created_dir HI HN ROOT_INO INVALID_INO name ops :: ('i, 'n) fs_file_t"
  let ?dd = "\<lparr>ino_files = hash_null HI, nm_files = hash_null HN\<rparr> :: ('i, 'n) fs_dir_t"
  have root: "f_ino ?r = 1" "f_dir ?r = 0" "f_type ?r = DIRECTORY" "f_data ?r = Data_dir ?dd"
      "f_name ?r = Some name" "f_ops ?r = Some ops" "f_malloced ?r"
    by (simp_all add: created_dir_def file_init_def ROOT_INO_def INVALID_INO_def)
  have "dir_ok HI HN s 1 ?dd"
    by (rule dir_okI) (simp_all add: uthash.keys_null[OF H(1)] uthash.keys_null[OF H(2)]
        uthash.iter_null[OF H(1)] uthash.iter_null[OF H(2)] heap root(2))
  then have "file_ok HI HN s [2..<256] a ?r"
    using root a l r by (simp add: file_ok_def ROOT_INO_def INVALID_INO_def)
  moreover have "id_file (ino_table s ! k) = Some a" if "k < 256" "\<not> 2 \<le> k" "0 < k" for k
  proof -
    have "k = 1" using that by simp
    then show ?thesis using r by simp
  qed
  ultimately have "fs_wf HI HN s [2..<256]"
    using pool l r root(1) by (simp add: fs_wf_def heap)
  moreover have "ino_ordered s" by (simp add: ino_ordered_def heap root)
  ultimately show ?thesis using l tab by (simp add: pristine_def ino_clean_def)
qed

lemma first_two_inodes:
  assumes s: "ino_table s = []" "ino_num s = 0"
  obtains s1 s2 t fl nf where "inoalloc s = Inr (0, s1)" and "inoalloc s1 = Inr (1, s2)" and "ino_pool s2 [2..<256]"
    and "length t = 256" and "\<And>k. k < 256 \<Longrightarrow> id_file (t ! k) = None"
    and "s2 = s\<lparr>ino_table := t[0 := \<lparr>id_file = None, id_next = None\<rparr>, 1 := \<lparr>id_file = None, id_next = None\<rparr>], ino_num := 256,
           ino_freelist := fl, ino_numfree := nf\<rparr>"
proof -
  let ?clr = "\<lparr>id_file = None, id_next = None\<rparr>"
  obtain s0 where s0: "init_inotable s = Inr s0" "ino_pool s0 [0..<256]"
      "\<And>k. k < 256 \<Longrightarrow> ino_clean s0 k" "length (ino_table s0) = 256"
      "s0 = s\<lparr>ino_table := ino_table s0, ino_num := 256, ino_freelist := Some 0, ino_numfree := 256\<rparr>"
    using init_inotable_pool[OF s] by metis
  define t where "t = ino_table s0"
  have e0: "s0 = s\<lparr>ino_table := t, ino_num := 256, ino_freelist := Some 0, ino_numfree := 256\<rparr>"
    unfolding t_def by (rule s0(5))
  obtain s1 where s1: "inoalloc s0 = Inr (0, s1)" "ino_pool s1 (1 # [2..<256])"
    "s1 = s0\<lparr>ino_freelist := ino_freelist s1, ino_table := (ino_table s0)[0 := ?clr],
             ino_numfree := ino_numfree s1\<rparr>"
    using s0(2) s0(3)[of 0] unfolding two_upt by (metis inoalloc_pool zero_less_numeral)
  define fl1 nf1 where "fl1 = ino_freelist s1" and "nf1 = ino_numfree s1"
  have e1: "s1 = s\<lparr>ino_table := t[0 := ?clr], ino_num := 256, ino_freelist := fl1, ino_numfree := nf1\<rparr>"
    unfolding fl1_def nf1_def by (subst s1(3), subst e0) (simp add: t_def)
  have c1: "ino_clean s1 1" using s0(3)[of 1] by (simp add: e1 ino_clean_def e0)
  obtain s2 where s2: "inoalloc s1 = Inr (1, s2)" "ino_pool s2 [2..<256]"
    "s2 = s1\<lparr>ino_freelist := ino_freelist s2, ino_table := (ino_table s1)[1 := ?clr],
             ino_numfree := ino_numfree s2\<rparr>"
    using s1(2) c1 by (rule inoalloc_pool)
  have "s2 = s\<lparr>ino_table := t[0 := ?clr, 1 := ?clr], ino_num := 256, ino_freelist := ino_freelist s2, ino_numfree := ino_numfree s2\<rparr>"
    by (subst s2(3), subst e1) (simp add: e1)
  moreover have "inoalloc s = Inr (0, s1)" using inoalloc_first[OF s0(1) s(1)] s1(1) s0(4) by fastforce
  moreover have "id_file (t ! k) = None" if "k < 256" for k using s0(3)[OF that] by (simp add: ino_clean_def t_def)
  ultimately show thesis using that s2(1,2) s0(4) unfolding t_def by blast
qed

lemma fsCreate_root_pristine:
  fixes s :: "('i, 'n) fs_t"
  assumes H: "uthash HI" "uthash HN" and s: "ino_table s = []" "ino_num s = 0"
    and h: "fs_heap s = (\<lambda>_. None)"
  obtains s' where "fsCreate_root HI HN s = Inr (ROOT_INO, s')" and "pristine HI HN s' 2"
    and "fs_heap s' = (\<lambda>_. None)(fs_brk s \<mapsto> created_dir HI HN ROOT_INO INVALID_INO ''.'' Fs_dir_ops)"
    and "s' = s\<lparr>ino_table := ino_table s', ino_num := 256, ino_freelist := ino_freelist s',
           ino_numfree := ino_numfree s', fs_heap := fs_heap s', fs_brk := Suc (fs_brk s)\<rparr>"
proof -
  let ?r = "created_dir HI HN ROOT_INO INVALID_INO ''.'' Fs_dir_ops :: ('i, 'n) fs_file_t"
  let ?clr = "\<lparr>id_file = None, id_next = None\<rparr>" and ?a = "fs_brk s"
  obtain s1 s2 t fl nf where s1: "inoalloc s = Inr (0, s1)" and s2: "inoalloc s1 = Inr (1, s2)" "ino_pool s2 [2..<256]"
    and t: "length t = 256" "\<And>k. k < 256 \<Longrightarrow> id_file (t ! k) = None"
    and e2: "s2 = s\<lparr>ino_table := t[0 := ?clr, 1 := ?clr], ino_num := 256, ino_freelist := fl, ino_numfree := nf\<rparr>"
    by (rule first_two_inodes[OF s]) blast
  define s' where "s' = set_id_file (snd (file_new s2 ?r)) 1 ?a"
  have e: "s' = s\<lparr>ino_table := t[0 := ?clr, 1 := \<lparr>id_file = Some ?a, id_next = None\<rparr>], ino_num := 256,
             ino_freelist := fl, ino_numfree := nf, fs_heap := (fs_heap s)(?a \<mapsto> ?r), fs_brk := Suc ?a\<rparr>"
    using t(1) by (simp add: s'_def set_id_file_def file_new_def file_put_def e2)
  have "fsCreatedir HI HN s1 INVALID_INO ''.'' Fs_dir_ops = Inr (?a, s')"
    using fsCreatedir_top[OF s2(1), of HI HN "''.''" Fs_dir_ops] t(1) unfolding s'_def by (simp add: e2 ROOT_INO_def)
  moreover have hp: "fs_heap s' = (\<lambda>_. None)(?a \<mapsto> ?r)" by (simp add: e h)
  ultimately have res: "fsCreate_root HI HN s = Inr (ROOT_INO, s')"
    using s1 by (simp add: fsCreate_root_def INVALID_INO_def file_get_def created_dir_def file_init_def)
  have "pristine HI HN s' 2"
  proof (rule pristine_root[OF H])
    show "ino_pool s' [2..<256]"
      using s2(2) t(1) by (subst ino_pool_cong[of _ s2]) (simp_all add: e e2 nth_list_update)
    show "id_file (ino_table s' ! k) = None" if "k < 256" "k \<noteq> 1" for k
      using t(2)[OF that(1)] that t(1) by (simp add: e nth_list_update)
    show "fs_heap s' = (\<lambda>_. None)(?a \<mapsto> ?r)" by (rule hp)
  qed (simp_all add: e t(1))
  moreover have "s' = s\<lparr>ino_table := ino_table s', ino_num := 256, ino_freelist := ino_freelist s',
           ino_numfree := ino_numfree s', fs_heap := fs_heap s', fs_brk := Suc (fs_brk s)\<rparr>"
    by (simp add: e)
  ultimately show thesis using that res hp by blast
qed

text \<open>
  \<open>fsCreate\<close> on a prepared object, for a function that builds on the root directory: the file system
  it returns is the one the function built, mounted.
\<close>

definition mounted :: "fs_env \<Rightarrow> string \<Rightarrow> string \<Rightarrow> ('i, 'n) fs_t \<Rightarrow> ('i, 'n) fs_t" where
  "mounted E m name s =
     (let s = s\<lparr>fuse_args := fuse_args s @ [name, ''-o'', ''default_permissions''] @
                  (if env_verbose2 E then [''--debug''] else [])\<rparr>
      in s\<lparr>fuse_se := True, fuse_fd := env_fd E,
           fs_calls := fs_calls s @ [Call_session_new (fuse_args s), Call_session_mount m]\<rparr>)"

lemma fsCreate_mounted:
  assumes m: "mntpt s = Some m" and E: "env_mkdir E" "env_session E" "env_mount E" "env_fd E \<noteq> -1"
    and r: "fsCreate_root HI HN (s\<lparr>fs_calls := fs_calls s @ [Call_mkdir m], fs_mkdir := True\<rparr>) = Inr (ROOT_INO, s1)"
    and f: "f s1 ROOT_INO = Inr s2" and ed: "fs_ed s2 = Some FsEvent"
  shows "fsCreate HI HN E s name (Some f) = Inr (True, mounted E m name s2)"
  using assms by (simp add: fsCreate_def mounted_def Let_def)

lemma ino_pool_same:
  "ino_table s' = ino_table s \<Longrightarrow> ino_freelist s' = ino_freelist s \<Longrightarrow> ino_num s' = ino_num s \<Longrightarrow>
   ino_numfree s' = ino_numfree s \<Longrightarrow> ino_pool s' is = ino_pool s is"
  by (simp add: ino_pool_def)

text \<open>The invariant does not look at the fields that concern the session and the mount point.\<close>

lemma fs_wf_same:
  assumes "ino_table s' = ino_table s" and "ino_freelist s' = ino_freelist s" and "ino_num s' = ino_num s"
    and "ino_numfree s' = ino_numfree s" and h: "fs_heap s' = fs_heap s" and b: "fs_brk s' = fs_brk s"
  shows "fs_wf HI HN s' is = fs_wf HI HN s is"
proof -
  have "file_ok HI HN s' is a f = file_ok HI HN s is a f" for a f
    using assms by (simp add: file_ok_def dir_ok_def)
  then show ?thesis using assms ino_pool_same[OF assms(1-4)] by (simp add: fs_wf_def)
qed

lemma pristine_same:
  assumes "ino_table s' = ino_table s" and "ino_freelist s' = ino_freelist s" and "ino_num s' = ino_num s"
    and "ino_numfree s' = ino_numfree s" and "fs_heap s' = fs_heap s" and "fs_brk s' = fs_brk s"
  shows "pristine HI HN s' k = pristine HI HN s k"
  using fs_wf_same[OF assms] assms by (simp add: pristine_def ino_ordered_def ino_clean_def)

lemma pristine_mounted [simp]: "pristine HI HN (mounted E m name s) k = pristine HI HN s k"
  by (rule pristine_same) (simp_all add: mounted_def Let_def)

lemma mounted_sel [simp]:
  "fs_heap (mounted E m name s) = fs_heap s" "ino_table (mounted E m name s) = ino_table s"
  "mntpt (mounted E m name s) = mntpt s" "fs_mkdir (mounted E m name s) = fs_mkdir s"
  "fuse_se (mounted E m name s)" "fuse_fd (mounted E m name s) = env_fd E" "fs_ed (mounted E m name s) = fs_ed s"
  by (simp_all add: mounted_def Let_def)

lemma fsCleanup_pristine:
  assumes H: "uthash HI" "uthash HN" and p: "pristine HI HN s k"
    and m: "mntpt s = Some m" "fs_mkdir s" "fuse_se s"
  obtains s' where "fsCleanup HI HN s = Inr (True, s')" and "fs_heap s' = (\<lambda>_. None)"
    and "ino_table s' = []" and "ino_freelist s' = None" and "ino_num s' = 0" and "ino_numfree s' = 0"
    and "mntpt s' = None"
    and "fs_calls s' = fs_calls s @ [Call_session_unmount, Call_session_destroy, Call_rmdir m]"
proof -
  let ?s = "s\<lparr>fuse_se := False, fuse_args := [],
              fs_calls := fs_calls s @ [Call_session_unmount, Call_session_destroy, Call_rmdir m],
              mntpt := None\<rparr>"
  have "pristine HI HN ?s k" using p by (subst pristine_same[of _ s]) simp_all
  then obtain s' where s': "cleanup_inodes HI HN ?s = Inr s'" "fs_heap s' = (\<lambda>_. None)"
    "ino_table s' = []" "ino_freelist s' = None" "ino_num s' = 0" "ino_numfree s' = 0"
    "mntpt s' = mntpt ?s" "fs_calls s' = fs_calls ?s"
    by (rule cleanup_inodes_pristine[OF H])
  have "ino_table s \<noteq> []" using p by (auto simp: pristine_def)
  then have "fsCleanup HI HN s = Inr (True, s')"
    using m s'(1) by (simp add: fsCleanup_def Let_def)
  then show thesis using that s' by simp
qed

end
