(* ===== verification/Clib.thy ===== *)
theory Clib
  imports Prelude
begin

text \<open>
  The functions of the C library that the command line tools call, on strings without their NUL:
  \<open>basename\<close> and \<open>dirname\<close> of \<open>libgen.h\<close>, the truncation of \<open>snprintf\<close>, \<open>strstr\<close>,
  \<open>strrchr\<close>, tokens separated by one character, and the conversions of \<open>sscanf\<close> that
  \<open>kld\<close> uses.
\<close>

section \<open>Paths\<close>

abbreviation slash :: char where "slash \<equiv> CHR ''/''"

definition PATH_MAX :: nat where "PATH_MAX = 4096"

text \<open>\<open>snprintf(buf, n, ..)\<close> for \<open>n > 0\<close> stores at most \<open>n - 1\<close> characters.\<close>

definition snprintf :: "nat \<Rightarrow> string \<Rightarrow> string" where
  "snprintf n s = take (n - 1) s"

definition rstrip :: "char \<Rightarrow> string \<Rightarrow> string" where
  "rstrip c s = rev (dropWhile (\<lambda>x. x = c) (rev s))"

text \<open>The part after the last occurrence of a character, and the part up to it.\<close>

definition after_last :: "char \<Rightarrow> string \<Rightarrow> string" where
  "after_last c s = rev (takeWhile (\<lambda>x. x \<noteq> c) (rev s))"

definition upto_last :: "char \<Rightarrow> string \<Rightarrow> string" where
  "upto_last c s = rev (dropWhile (\<lambda>x. x \<noteq> c) (rev s))"

definition basename :: "string \<Rightarrow> string" where
  "basename s = (if s = [] then ''.'' else
     let t = rstrip slash s in if t = [] then ''/'' else after_last slash t)"

definition dirname :: "string \<Rightarrow> string" where
  "dirname s = (let t = rstrip slash s in
     if s \<noteq> [] \<and> t = [] then (if s = ''//'' then ''//'' else ''/'')
     else let u = upto_last slash t in
       if u = [] then ''.''
       else if rstrip slash u = [] then (if u = ''//'' then ''//'' else ''/'')
       else rstrip slash u)"

lemma upto_after_last: "upto_last c s @ after_last c s = s"
proof -
  have "rev (dropWhile (\<lambda>x. x \<noteq> c) (rev s)) @ rev (takeWhile (\<lambda>x. x \<noteq> c) (rev s)) = rev (rev s)"
    by (metis rev_append takeWhile_dropWhile_id)
  then show ?thesis by (simp add: upto_last_def after_last_def)
qed

lemma after_last_no: "c \<notin> set (after_last c s)"
  unfolding after_last_def by (auto dest: set_takeWhileD)

section \<open>Searching\<close>

text \<open>\<open>strstr(s, t) != NULL\<close> and \<open>strrchr(s, c)\<close>.\<close>

fun strstr :: "string \<Rightarrow> string \<Rightarrow> bool" where
  "strstr [] t = (t = [])"
| "strstr (c # s) t = (take (length t) (c # s) = t \<or> strstr s t)"

definition strrchr :: "string \<Rightarrow> char \<Rightarrow> string option" where
  "strrchr s c = (if c \<in> set s then Some (c # after_last c s) else None)"

lemma strstr_iff: "strstr s t \<longleftrightarrow> (\<exists>p q. s = p @ t @ q)"
proof (induction s)
  case (Cons c s)
  have "(\<exists>p q. c # s = p @ t @ q) \<longleftrightarrow> (\<exists>q. c # s = t @ q) \<or> (\<exists>p q. s = p @ t @ q)"
    by (metis append_Cons append_Nil neq_Nil_conv list.inject)
  moreover have "take (length t) (c # s) = t \<longleftrightarrow> (\<exists>q. c # s = t @ q)"
    by (metis append_eq_conv_conj)
  ultimately show ?case using Cons.IH by simp
qed simp

text \<open>\<open>strtok\<close> with one separator: the maximal runs of other characters.\<close>

function strtok :: "char \<Rightarrow> string \<Rightarrow> string list" where
  "strtok c s = (case dropWhile (\<lambda>x. x = c) s of
     [] \<Rightarrow> []
   | x # xs \<Rightarrow> (x # takeWhile (\<lambda>y. y \<noteq> c) xs) # strtok c (dropWhile (\<lambda>y. y \<noteq> c) xs))"
  by pat_completeness auto
termination
proof (relation "measure (length \<circ> snd)")
  fix c :: char and s x xs
  assume "dropWhile (\<lambda>x. x = c) s = x # xs"
  then have "Suc (length xs) \<le> length s" by (metis length_Cons length_dropWhile_le)
  then show "((c, dropWhile (\<lambda>y. y \<noteq> c) xs), c, s) \<in> measure (length \<circ> snd)"
    using length_dropWhile_le[of "\<lambda>y. y \<noteq> c" xs] by simp
qed simp

declare strtok.simps [simp del]

section \<open>Numbers and \<open>sscanf\<close>\<close>

definition isspace :: "char \<Rightarrow> bool" where
  "isspace c \<longleftrightarrow> c = CHR '' '' \<or> c = CHR 0x09 \<or> c = CHR 0x0A \<or> c = CHR 0x0B \<or> c = CHR 0x0C \<or> c = CHR 0x0D"

definition hexval :: "char \<Rightarrow> nat option" where
  "hexval c = (let n = of_char c :: nat in
     if 48 \<le> n \<and> n \<le> 57 then Some (n - 48)
     else if 97 \<le> n \<and> n \<le> 102 then Some (10 + (n - 97))
     else if 65 \<le> n \<and> n \<le> 70 then Some (10 + (n - 65))
     else None)"

definition hexdigit :: "nat \<Rightarrow> char" where
  "hexdigit d = char_of (if d < 10 then 48 + d else 87 + d)"

lemma hexval_hexdigit: "d < 16 \<Longrightarrow> hexval (hexdigit d) = Some d"
  by (simp add: hexval_def hexdigit_def Let_def of_char_of)

lemma hexval_bound: "hexval c = Some d \<Longrightarrow> d < 16"
  by (auto simp: hexval_def Let_def split: if_splits)

text \<open>The value of a string of hexadecimal digits.\<close>

definition hexnum :: "string \<Rightarrow> nat" where
  "hexnum s = foldl (\<lambda>v c. 16 * v + the (hexval c)) 0 s"

text \<open>\<open>%0<k>x\<close>: the last \<open>k\<close> hexadecimal digits of a number.\<close>

primrec hexstr :: "nat \<Rightarrow> nat \<Rightarrow> string" where
  "hexstr 0 n = []"
| "hexstr (Suc k) n = hexstr k (n div 16) @ [hexdigit (n mod 16)]"

lemma hexstr_numeral: "hexstr (numeral k) n = hexstr (pred_numeral k) (n div 16) @ [hexdigit (n mod 16)]"
  by (metis hexstr.simps(2) numeral_eq_Suc)

lemma hexdigit_eval:
  "hexdigit 0 = CHR ''0''" "hexdigit (Suc 0) = CHR ''1''" "hexdigit 2 = CHR ''2''" "hexdigit 3 = CHR ''3''"
  "hexdigit 4 = CHR ''4''" "hexdigit 5 = CHR ''5''" "hexdigit 6 = CHR ''6''" "hexdigit 7 = CHR ''7''"
  "hexdigit 8 = CHR ''8''" "hexdigit 9 = CHR ''9''" "hexdigit 10 = CHR ''a''" "hexdigit 11 = CHR ''b''"
  "hexdigit 12 = CHR ''c''" "hexdigit 13 = CHR ''d''" "hexdigit 14 = CHR ''e''" "hexdigit 15 = CHR ''f''"
  by code_simp+

lemmas hexstr_eval = hexstr_numeral hexdigit_eval

lemma length_hexstr [simp]: "length (hexstr k n) = k"
  by (induction k arbitrary: n) simp_all

lemma hexstr_digits: "c \<in> set (hexstr k n) \<Longrightarrow> \<exists>d < 16. c = hexdigit d"
  by (induction k arbitrary: n) (auto intro: exI[of _ "_ mod 16"])

lemma hexnum_hexstr: "hexnum (hexstr k n) = n mod 16 ^ k"
proof (induction k arbitrary: n)
  case (Suc k)
  have "hexnum (hexstr (Suc k) n) = 16 * hexnum (hexstr k (n div 16)) + n mod 16"
    by (simp add: hexnum_def hexval_hexdigit)
  also have "\<dots> = n mod 16 ^ Suc k"
    using Suc.IH by (simp add: mod_mult2_eq)
  finally show ?case .
qed (simp add: hexnum_def)

text \<open>
  \<open>%lx\<close>: white space, a sign, \<open>0x\<close>, digits. The result is the value and the rest of the input, none
  on a matching failure. A value that does not fit becomes the largest one, as \<open>strtoul\<close> gives it.
\<close>

definition scan_hex :: "string \<Rightarrow> (u64 \<times> string) option" where
  "scan_hex s =
     (let s = dropWhile isspace s;
          neg = (s \<noteq> [] \<and> hd s = CHR ''-'');
          s = (if s \<noteq> [] \<and> (hd s = CHR ''-'' \<or> hd s = CHR ''+'') then tl s else s);
          s = (if 2 < length s \<and> hd s = CHR ''0'' \<and> (s ! 1 = CHR ''x'' \<or> s ! 1 = CHR ''X'') \<and> hexval (s ! 2) \<noteq> None
               then drop 2 s else s);
          ds = takeWhile (\<lambda>c. hexval c \<noteq> None) s;
          v = (if 2 ^ 64 \<le> hexnum ds then 2 ^ 64 - 1 else hexnum ds)
      in if ds = [] then None
         else Some (if neg then - of_nat v else of_nat v, dropWhile (\<lambda>c. hexval c \<noteq> None) s))"

text \<open>\<open>%*s\<close>: white space, then at least one other character.\<close>

definition scan_word :: "string \<Rightarrow> string option" where
  "scan_word s = (let s = dropWhile isspace s in if s = [] then None else Some (dropWhile (\<lambda>c. \<not> isspace c) s))"

lemma takeWhile_append_stop:
  "(\<And>x. x \<in> set xs \<Longrightarrow> P x) \<Longrightarrow> \<not> P y \<Longrightarrow> takeWhile P (xs @ y # ys) = xs \<and> dropWhile P (xs @ y # ys) = y # ys"
  by (induction xs) auto

lemma dropWhile_none: "s \<noteq> [] \<Longrightarrow> \<not> P (hd s) \<Longrightarrow> dropWhile P s = s"
  by (cases s) auto

section \<open>Decimal numbers\<close>

text \<open>\<open>%d\<close> and \<open>%jd\<close> of a number: decimal digits, a minus sign for a negative one.\<close>

fun dec_nat :: "nat \<Rightarrow> string" where
  "dec_nat n = (if n < 10 then [char_of (48 + n)] else dec_nat (n div 10) @ [char_of (48 + n mod 10)])"

declare dec_nat.simps [simp del]

definition dec_int :: "int \<Rightarrow> string" where
  "dec_int i = (if i < 0 then CHR ''-'' # dec_nat (nat (- i)) else dec_nat (nat i))"

section \<open>Files\<close>

text \<open>
  The contents of the files, and the answers of the operating system: the file that a path leads to (different paths may
  lead to one file), whether a path can be opened for writing, and the result of a \<open>write\<close> through it, the number of bytes taken or -1.
\<close>

type_synonym files = "string \<Rightarrow> char list option"

record file_env =
  fe_file :: "string \<Rightarrow> string"
  fe_open :: "string \<Rightarrow> bool"
  fe_write :: "string \<Rightarrow> char list \<Rightarrow> int"

text \<open>\<open>open\<close> with \<open>O_CREAT | O_TRUNC\<close> that succeeds, and a \<open>write\<close> at the start of the file through a descriptor of it.\<close>

definition creat :: "(string \<Rightarrow> string) \<Rightarrow> string \<Rightarrow> files \<Rightarrow> files" where
  "creat file path fs = fs(file path \<mapsto> [])"

definition write_start :: "file_env \<Rightarrow> string \<Rightarrow> char list \<Rightarrow> files \<Rightarrow> files" where
  "write_start F path buf fs =
     (let taken = take (nat (fe_write F path buf)) buf;
          old = (case fs (fe_file F path) of None \<Rightarrow> [] | Some c \<Rightarrow> c)
      in fs(fe_file F path \<mapsto> taken @ drop (length taken) old))"

text \<open>What a write of all of \<open>buf\<close> to an empty file leaves in it.\<close>

definition stored :: "file_env \<Rightarrow> string \<Rightarrow> char list \<Rightarrow> char list" where
  "stored F path buf = take (nat (fe_write F path buf)) buf"

lemma write_start_empty: "fs (fe_file F path) = Some [] \<Longrightarrow> write_start F path buf fs = fs(fe_file F path \<mapsto> stored F path buf)"
  by (simp add: write_start_def stored_def Let_def)

lemma write_start_other: "f \<noteq> fe_file F path \<Longrightarrow> write_start F path buf fs f = fs f"
  by (simp add: write_start_def Let_def)

lemma creat_sel [simp]: "creat file path fs (file path) = Some []" "f \<noteq> file path \<Longrightarrow> creat file path fs f = fs f"
  by (simp_all add: creat_def)

lemma stored_all: "int (length buf) \<le> fe_write F path buf \<Longrightarrow> stored F path buf = buf"
  by (simp add: stored_def)

text \<open>
  A run of steps each of which changes one file: a file that one step alone is about ends up as that step makes it of what it was
  before, a file that no step is about stays.
\<close>

definition sole :: "'a list \<Rightarrow> nat \<Rightarrow> bool" where
  "sole xs i \<longleftrightarrow> (\<forall>j < length xs. j \<noteq> i \<longrightarrow> xs ! j \<noteq> xs ! i)"

lemma sole_split:
  assumes "i < length xs" and "sole (map key xs) i"
  shows "key (xs ! i) \<notin> key ` set (take i xs)" "key (xs ! i) \<notin> key ` set (drop (Suc i) xs)"
proof -
  have s: "key (xs ! j) \<noteq> key (xs ! i)" if "j < length xs" "j \<noteq> i" for j using assms that by (simp add: sole_def)
  show "key (xs ! i) \<notin> key ` set (take i xs)"
  proof
    assume "key (xs ! i) \<in> key ` set (take i xs)"
    then obtain j where "j < i" "key (xs ! i) = key (xs ! j)" using assms(1) by (auto simp: in_set_conv_nth)
    then show False using s[of j] assms(1) by simp
  qed
  show "key (xs ! i) \<notin> key ` set (drop (Suc i) xs)"
  proof
    assume "key (xs ! i) \<in> key ` set (drop (Suc i) xs)"
    then obtain x where x: "x \<in> set (drop (Suc i) xs)" "key x = key (xs ! i)" by auto
    then obtain j where "j < length xs - Suc i" "x = xs ! (Suc i + j)" using assms(1) by (auto simp: in_set_conv_nth)
    then show False using s[of "Suc i + j"] x(2) by simp
  qed
qed

locale file_steps =
  fixes step :: "'a \<Rightarrow> files \<Rightarrow> files" and key :: "'a \<Rightarrow> string" and upd :: "'a \<Rightarrow> char list option \<Rightarrow> char list option"
  assumes step_eq: "step x fs = fs(key x := upd x (fs (key x)))"
begin

definition steps :: "'a list \<Rightarrow> files \<Rightarrow> files" where
  "steps xs fs = foldl (\<lambda>fs x. step x fs) fs xs"

lemma steps_simps [simp]: "steps [] fs = fs" "steps (x # xs) fs = steps xs (step x fs)" "steps (xs @ ys) fs = steps ys (steps xs fs)"
  by (simp_all add: steps_def)

lemma steps_other: "f \<notin> key ` set xs \<Longrightarrow> steps xs fs f = fs f"
  by (induction xs arbitrary: fs) (auto simp: step_eq)

lemma steps_sole:
  assumes "i < length xs" and "sole (map key xs) i"
  shows "steps xs fs (key (xs ! i)) = upd (xs ! i) (fs (key (xs ! i)))"
proof -
  have "steps xs fs = steps (drop (Suc i) xs) (step (xs ! i) (steps (take i xs) fs))"
    using id_take_nth_drop[OF assms(1)] by (metis steps_simps(2,3))
  then show ?thesis using sole_split[OF assms] steps_other by (simp add: step_eq)
qed

end

end
