(* ===== verification/Fs_Fuse.thy ===== *)
theory Fs_Fuse
  imports Fs_Mount Clib
begin

text \<open>
  The callbacks libfuse invokes (\<open>fs.c\<close>) and the operations of the files they dispatch to
  (\<open>fs_dir_ops\<close> of \<open>fs.c\<close>, \<open>fs_libkernel_ops\<close> of \<open>kldfs.c\<close>). A callback changes nothing: it
  answers the request, so its model is the answer (\<open>fuse_reply\<close>) or the fault that stops the
  process. \<open>size_t\<close> and \<open>off_t\<close> values are 64-bit words. \<open>fuse_add_direntry\<close> of libfuse is a
  parameter: the size of an entry and its bytes.
\<close>

section \<open>Replies\<close>

record stat =
  st_ino :: nat
  st_mode :: nat
  st_nlink :: nat
  st_size :: nat

datatype fuse_reply =
    Reply_err int
  | Reply_entry fs_ino_t stat
  | Reply_attr stat
  | Reply_open
  | Reply_buf "char list"

definition ENOENT :: int where "ENOENT = 2"
definition EACCES :: int where "EACCES = 13"
definition EISDIR :: int where "EISDIR = 21"
definition ENOTSUP :: int where "ENOTSUP = 95"

definition S_IFDIR :: nat where "S_IFDIR = 0x4000"
definition S_IFREG :: nat where "S_IFREG = 0x8000"

definition stat_zero :: stat where
  "stat_zero = \<lparr>st_ino = 0, st_mode = 0, st_nlink = 0, st_size = 0\<rparr>"

text \<open>
  \<open>off < bufsize\<close> compares the signed offset converted to \<open>size_t\<close>. \<open>bufsize\<close> is the length of
  the buffer in both callers.
\<close>

definition fsFuseReplyBufLimited :: "char list \<Rightarrow> u64 \<Rightarrow> u64 \<Rightarrow> u64 \<Rightarrow> fuse_reply" where
  "fsFuseReplyBufLimited buf bufsize off maxsize =
     (if off < bufsize then Reply_buf (take (unat (min (bufsize - off) maxsize)) (drop (unat off) buf))
      else Reply_buf [])"

section \<open>Directories\<close>

text \<open>
  \<open>fuse_add_direntry(req, buf, n, name, stbuf, off)\<close>: with no buffer it returns the size of the
  entry, with one it stores it. The inode and the offset of the next entry are in the entry.
\<close>

record direntry_ops =
  de_size :: "string \<Rightarrow> nat"
  de_pack :: "string \<Rightarrow> nat \<Rightarrow> nat \<Rightarrow> char list"

definition dirbuf_add :: "direntry_ops \<Rightarrow> char list \<Rightarrow> string \<Rightarrow> fs_ino_t \<Rightarrow> char list" where
  "dirbuf_add D b name ino = b @ de_pack D name ino (length b + de_size D name)"

text \<open>The mode is \<open>S_IFDIR | 0755\<close>; the bits are disjoint and octal 755 is 493.\<close>

definition fs_dir_stat :: "('i, 'n) fs_file_t \<Rightarrow> stat \<Rightarrow> stat" where
  "fs_dir_stat dir st = st\<lparr>st_mode := S_IFDIR + 493, st_nlink := 2\<rparr>"

text \<open>Adding the items of a directory in the order \<open>HASH_ITER\<close> meets them.\<close>

primrec dirbuf_items :: "direntry_ops \<Rightarrow> ('i, 'n) fs_t \<Rightarrow> char list \<Rightarrow> addr list \<Rightarrow> char list res" where
  "dirbuf_items D s b [] = Inr b"
| "dirbuf_items D s b (a # as) =
     rbind (file_get s (Some a)) (\<lambda>item.
     case f_name item of
       None \<Rightarrow> Inl Null_deref
     | Some name \<Rightarrow> dirbuf_items D s (dirbuf_add D b name (f_ino item)) as)"

definition fs_dir_readdir ::
  "'i ino_hash \<Rightarrow> direntry_ops \<Rightarrow> ('i, 'n) fs_t \<Rightarrow> ('i, 'n) fs_file_t \<Rightarrow> u64 \<Rightarrow> u64 \<Rightarrow> (bool \<times> fuse_reply list) res" where
  "fs_dir_readdir HI D s dir sz off =
     rbind (dir_data dir) (\<lambda>dd.
     let b = dirbuf_add D (dirbuf_add D [] ''.'' (f_ino dir)) ''..'' (f_dir dir)
     in rbind (dirbuf_items D s b (map snd (hash_iter HI (ino_files dd)))) (\<lambda>b.
        Inr (True, [fsFuseReplyBufLimited b (of_nat (length b)) off sz])))"

section \<open>The file \<open>libkernel.so\<close> of \<open>kldfs.c\<close>\<close>

text \<open>\<open>snprintf\<close> returns the number of characters it would have printed.\<close>

definition pidSize :: "int \<Rightarrow> nat" where
  "pidSize pid = length (dec_int pid)"

definition fs_libkernel_stat :: "int \<Rightarrow> ('i, 'n) fs_file_t \<Rightarrow> stat \<Rightarrow> stat" where
  "fs_libkernel_stat pid file st =
     st\<lparr>st_ino := f_ino file, st_mode := S_IFREG + 292, st_nlink := 1, st_size := pidSize pid\<rparr>"

text \<open>The buffer has \<open>n + 1\<close> bytes, so \<open>snprintf\<close> stores all digits and the NUL.\<close>

definition fs_libkernel_read ::
  "int \<Rightarrow> ('i, 'n) fs_file_t \<Rightarrow> u64 \<Rightarrow> u64 \<Rightarrow> (bool \<times> fuse_reply list) res" where
  "fs_libkernel_read pid file sz off =
     (let n = pidSize pid; buf = take n (dec_int pid) @ [NUL]
      in Inr (True, [fsFuseReplyBufLimited buf (of_nat n) off sz]))"

definition kldfsCreate :: "'i ino_hash \<Rightarrow> 'n name_hash \<Rightarrow> ('i, 'n) fs_createfsfunc_t" where
  "kldfsCreate HI HN s rootino =
     rbind (fsCreatefile HI HN s rootino ''libkernel.so'' None Fs_libkernel_ops) (\<lambda>(item, s). Inr s)"

section \<open>Dispatch\<close>

text \<open>
  The fields of the two operation tables: \<open>None\<close> is a NULL function pointer. Both \<open>open\<close> fields
  are NULL.
\<close>

definition ops_stat :: "int \<Rightarrow> fs_fileops_t \<Rightarrow> ('i, 'n) fs_file_t \<Rightarrow> stat \<Rightarrow> stat" where
  "ops_stat pid ops = (case ops of Fs_dir_ops \<Rightarrow> fs_dir_stat | Fs_libkernel_ops \<Rightarrow> fs_libkernel_stat pid)"

definition ops_open :: "fs_fileops_t \<Rightarrow> (('i, 'n) fs_file_t \<Rightarrow> fuse_reply list res) option" where
  "ops_open ops = (case ops of Fs_dir_ops \<Rightarrow> None | Fs_libkernel_ops \<Rightarrow> None)"

definition ops_read ::
  "int \<Rightarrow> fs_fileops_t \<Rightarrow> (('i, 'n) fs_file_t \<Rightarrow> u64 \<Rightarrow> u64 \<Rightarrow> (bool \<times> fuse_reply list) res) option" where
  "ops_read pid ops = (case ops of Fs_dir_ops \<Rightarrow> None | Fs_libkernel_ops \<Rightarrow> Some (fs_libkernel_read pid))"

definition ops_readdir ::
  "'i ino_hash \<Rightarrow> direntry_ops \<Rightarrow> ('i, 'n) fs_t \<Rightarrow> fs_fileops_t \<Rightarrow>
   (('i, 'n) fs_file_t \<Rightarrow> u64 \<Rightarrow> u64 \<Rightarrow> (bool \<times> fuse_reply list) res) option" where
  "ops_readdir HI D s ops = (case ops of Fs_dir_ops \<Rightarrow> Some (fs_dir_readdir HI D s) | Fs_libkernel_ops \<Rightarrow> None)"

text \<open>\<open>file->ops\<close>, which is NULL in a cleared object.\<close>

definition file_ops :: "('i, 'n) fs_file_t \<Rightarrow> fs_fileops_t res" where
  "file_ops f = (case f_ops f of None \<Rightarrow> Inl Null_deref | Some ops \<Rightarrow> Inr ops)"

section \<open>Callbacks\<close>

definition FUSE_CAP_ASYNC_READ :: u32 where "FUSE_CAP_ASYNC_READ = 1"

text \<open>The new value of \<open>conn->want\<close>.\<close>

definition fs_fuse_init :: "u32" where
  "fs_fuse_init = FUSE_CAP_ASYNC_READ AND NOT FUSE_CAP_ASYNC_READ"

definition fs_fuse_lookup ::
  "'n name_hash \<Rightarrow> int \<Rightarrow> ('i, 'n) fs_t \<Rightarrow> fs_ino_t \<Rightarrow> string \<Rightarrow> fuse_reply list res" where
  "fs_fuse_lookup HN pid s dirino name =
     rbind (ino2inodesc s dirino) (\<lambda>k.
     rbind (inodesc_at s k) (\<lambda>did.
     if id_next did \<noteq> None then Inr [Reply_err ENOENT]
     else rbind (file_get s (id_file did)) (\<lambda>dfile.
       if f_type dfile \<noteq> DIRECTORY then Inr [Reply_err ENOENT]
       else rbind (dir_data dfile) (\<lambda>dir.
         case hash_find HN (nm_files dir) name of
           None \<Rightarrow> Inr [Reply_err ENOENT]
         | Some a \<Rightarrow>
             rbind (file_get s (Some a)) (\<lambda>file.
             rbind (file_ops file) (\<lambda>ops.
             Inr [Reply_entry (f_ino file) (ops_stat pid ops file stat_zero)]))))))"

definition fs_fuse_getattr :: "int \<Rightarrow> ('i, 'n) fs_t \<Rightarrow> fs_ino_t \<Rightarrow> fuse_reply list res" where
  "fs_fuse_getattr pid s ino =
     rbind (ino2inodesc s ino) (\<lambda>k.
     rbind (inodesc_at s k) (\<lambda>id.
     if id_next id \<noteq> None then Inr [Reply_err ENOENT]
     else if id_file id = None then Inl Assert_failed
     else rbind (file_get s (id_file id)) (\<lambda>file.
          rbind (file_ops file) (\<lambda>ops.
          Inr [Reply_attr (ops_stat pid ops file stat_zero)]))))"

definition fs_fuse_readlink :: "('i, 'n) fs_t \<Rightarrow> fs_ino_t \<Rightarrow> fuse_reply list res" where
  "fs_fuse_readlink s ino = Inl Assert_failed"

text \<open>The entry of an inode, with the assertion of the callbacks that need a file.\<close>

definition desc_of_ino :: "('i, 'n) fs_t \<Rightarrow> fs_ino_t \<Rightarrow> fs_inodesc_t res" where
  "desc_of_ino s ino =
     rbind (ino2inodesc s ino) (\<lambda>k.
     rbind (inodesc_at s k) (\<lambda>id.
     if \<not> (id_file id \<noteq> None \<and> id_next id = None) then Inl Assert_failed else Inr id))"

definition file_of_ino :: "('i, 'n) fs_t \<Rightarrow> fs_ino_t \<Rightarrow> ('i, 'n) fs_file_t res" where
  "file_of_ino s ino = rbind (desc_of_ino s ino) (\<lambda>id. file_get s (id_file id))"

definition fs_fuse_open :: "('i, 'n) fs_t \<Rightarrow> fs_ino_t \<Rightarrow> u32 \<Rightarrow> fuse_reply list res" where
  "fs_fuse_open s ino flags =
     rbind (file_of_ino s ino) (\<lambda>file.
     rbind (file_ops file) (\<lambda>ops.
     case ops_open ops of
       Some f \<Rightarrow> f file
     | None \<Rightarrow>
         if f_type file = DIRECTORY then Inr [Reply_err EISDIR]
         else if flags AND 3 \<noteq> 0 then Inr [Reply_err EACCES]
         else Inr [Reply_open]))"

definition fs_fuse_read :: "int \<Rightarrow> ('i, 'n) fs_t \<Rightarrow> fs_ino_t \<Rightarrow> u64 \<Rightarrow> u64 \<Rightarrow> fuse_reply list res" where
  "fs_fuse_read pid s ino sz off =
     rbind (file_of_ino s ino) (\<lambda>file.
     rbind (file_ops file) (\<lambda>ops.
     case ops_read pid ops of
       None \<Rightarrow> Inl Assert_failed
     | Some f \<Rightarrow> rbind (f file sz off) (\<lambda>(ok, rs).
         Inr (if ok then rs else rs @ [Reply_err EACCES]))))"

definition fs_fuse_write :: "('i, 'n) fs_t \<Rightarrow> fs_ino_t \<Rightarrow> char list \<Rightarrow> fuse_reply list res" where
  "fs_fuse_write s ino buf = Inl Assert_failed"

definition fs_fuse_readdir ::
  "'i ino_hash \<Rightarrow> direntry_ops \<Rightarrow> ('i, 'n) fs_t \<Rightarrow> fs_ino_t \<Rightarrow> u64 \<Rightarrow> u64 \<Rightarrow> fuse_reply list res" where
  "fs_fuse_readdir HI D s dirino sz off =
     rbind (ino2inodesc s dirino) (\<lambda>k.
     rbind (inodesc_at s k) (\<lambda>did.
     if id_next did \<noteq> None then Inr [Reply_err ENOENT]
     else rbind (file_get s (id_file did)) (\<lambda>dir.
       if f_type dir \<noteq> DIRECTORY then Inr [Reply_err ENOENT]
       else rbind (file_ops dir) (\<lambda>ops.
         case ops_readdir HI D s ops of
           None \<Rightarrow> Inl Assert_failed
         | Some f \<Rightarrow> rbind (f dir sz off) (\<lambda>(ok, rs).
             Inr (if ok then rs else rs @ [Reply_err ENOENT]))))))"

text \<open>The extended attributes: only the names of the example the code was derived from exist.\<close>

definition fs_fuse_setxattr ::
  "('i, 'n) fs_t \<Rightarrow> fs_ino_t \<Rightarrow> string \<Rightarrow> char list \<Rightarrow> u64 \<Rightarrow> fuse_reply list res" where
  "fs_fuse_setxattr s ino name val sz =
     rbind (desc_of_ino s ino) (\<lambda>_.
     let exp_val = ''fs_ll_setxattr_value''
     in if name = ''fs_ll_setxattr_name'' \<and> of_nat (length exp_val) = sz \<and>
           take (unat sz) val = take (unat sz) exp_val
        then Inr [Reply_err 0] else Inr [Reply_err ENOTSUP])"

definition fs_fuse_getxattr :: "('i, 'n) fs_t \<Rightarrow> fs_ino_t \<Rightarrow> string \<Rightarrow> fuse_reply list res" where
  "fs_fuse_getxattr s ino name =
     rbind (desc_of_ino s ino) (\<lambda>_.
     if name = ''fs_ll_getxattr_name'' then Inr [Reply_buf ''fs_ll_getxattr_value'']
     else Inr [Reply_err ENOTSUP])"

definition fs_fuse_removexattr :: "('i, 'n) fs_t \<Rightarrow> fs_ino_t \<Rightarrow> string \<Rightarrow> fuse_reply list res" where
  "fs_fuse_removexattr s ino name =
     rbind (desc_of_ino s ino) (\<lambda>_.
     if name = ''fs_ll_removexattr_name'' then Inr [Reply_err 0] else Inr [Reply_err ENOTSUP])"

end
