(* ===== verification/Fs_Spec.thy ===== *)
theory Fs_Spec
  imports Fs_Fuse
begin

text \<open>
  What the file system promises. The abstract state is the set of directory entries (directory
  inode, name, inode). \<open>fs_fuse_lookup\<close> and \<open>fs_fuse_readdir\<close> read that set, \<open>fsCreatefile\<close>,
  \<open>fsCreatedir\<close> and \<open>fsRemoveitem\<close> change it by one entry, and a life from \<open>fsInit\<close> to
  \<open>fsCleanup\<close> leaves nothing behind.
\<close>

section \<open>The abstract state\<close>

definition entries :: "('i, 'n) fs_t \<Rightarrow> (fs_ino_t \<times> string \<times> fs_ino_t) set" where
  "entries s = {(d, n, k). \<exists>b g. fs_heap s b = Some g \<and> f_dir g = d \<and> f_name g = Some n \<and> f_ino g = k}"

lemma entries_iff:
  "(d, n, k) \<in> entries s \<longleftrightarrow>
    (\<exists>b g. fs_heap s b = Some g \<and> f_dir g = d \<and> f_name g = Some n \<and> f_ino g = k)"
  by (simp add: entries_def)

lemma name_fresh_entries: "name_fresh s d n \<longleftrightarrow> (\<forall>k. (d, n, k) \<notin> entries s)"
  by (auto simp: name_fresh_def entries_iff)

lemma skel_entry:
  assumes "skel g' = skel g"
  shows "f_dir g' = f_dir g" "f_name g' = f_name g" "f_ino g' = f_ino g"
  using skel_eqD[OF assms] by simp_all

text \<open>Adding an object adds its entry.\<close>

lemma added_entries:
  assumes add: "added HI HN s is p pf dd n g s'" and p: "fs_heap s p = Some pf"
    and a: "fs_heap s (fs_brk s) = None" and g: "f_name g = Some n"
  shows "entries s' = insert (f_dir g, n, f_ino g) (entries s)"
proof -
  have h: "fs_heap s' = (fs_heap s)(fs_brk s \<mapsto> g,
        p \<mapsto> pf\<lparr>f_data := Data_dir \<lparr>ino_files = hash_add HI (ino_files dd) (f_ino g) (fs_brk s),
                                    nm_files = hash_add HN (nm_files dd) n (fs_brk s)\<rparr>\<rparr>)"
    using add by (simp add: added_def)
  have pa: "p \<noteq> fs_brk s" using p a by auto
  have "(d, m, k) \<in> entries s' \<longleftrightarrow> (d, m, k) = (f_dir g, n, f_ino g) \<or> (d, m, k) \<in> entries s" for d m k
  proof
    assume "(d, m, k) \<in> entries s'"
    then obtain b h where b: "fs_heap s' b = Some h" "f_dir h = d" "f_name h = Some m" "f_ino h = k"
      by (auto simp: entries_iff)
    show "(d, m, k) = (f_dir g, n, f_ino g) \<or> (d, m, k) \<in> entries s"
    proof (cases "b = fs_brk s")
      case True
      then show ?thesis using b h pa g by simp
    next
      case False
      then have "\<exists>h'. fs_heap s b = Some h' \<and> skel h = skel h'" using b(1) h p by (cases "b = p") auto
      then obtain h' where "fs_heap s b = Some h'" "skel h = skel h'" by blast
      then show ?thesis using b skel_entry[of h h'] by (auto simp: entries_iff)
    qed
  next
    assume "(d, m, k) = (f_dir g, n, f_ino g) \<or> (d, m, k) \<in> entries s"
    then show "(d, m, k) \<in> entries s'"
    proof
      assume "(d, m, k) = (f_dir g, n, f_ino g)"
      moreover have "fs_heap s' (fs_brk s) = Some g" using h pa by simp
      ultimately show ?thesis using g by (auto simp: entries_iff)
    next
      assume "(d, m, k) \<in> entries s"
      then obtain b h where b: "fs_heap s b = Some h" "f_dir h = d" "f_name h = Some m" "f_ino h = k"
        by (auto simp: entries_iff)
      have "\<exists>h'. fs_heap s' b = Some h' \<and> skel h' = skel h"
        using b(1) h p a by (cases "b = p"; cases "b = fs_brk s") auto
      then obtain h' where "fs_heap s' b = Some h'" "skel h' = skel h" by blast
      then show ?thesis using b skel_entry[of h' h] by (auto simp: entries_iff)
    qed
  qed
  then show ?thesis by auto
qed

text \<open>An entry determines the object, and the object its inode.\<close>

lemma dropped_entries:
  assumes dr: "removed HI HN s is a False s' js" and f: "fs_heap s a = Some f" "f_name f = Some n"
    and wf: "fs_wf HI HN s is"
  shows "entries s' = entries s - {(f_dir f, n, f_ino f)}"
proof -
  have a': "fs_heap s' a = None" using dr by (simp add: removed_def)
  have keep: "fs_heap s' b \<noteq> None" if "b \<noteq> a" "fs_heap s b = Some g" for b g
    using dr that by (simp add: removed_def)
  have "(d, m, k) \<in> entries s' \<longleftrightarrow> (d, m, k) \<in> entries s \<and> (d, m, k) \<noteq> (f_dir f, n, f_ino f)" for d m k
  proof
    assume "(d, m, k) \<in> entries s'"
    then obtain b h where b: "fs_heap s' b = Some h" "f_dir h = d" "f_name h = Some m" "f_ino h = k"
      by (auto simp: entries_iff)
    obtain g where g: "fs_heap s b = Some g" "skel h = skel g" using dr b(1) by (rule removed_same_ino)
    have "b \<noteq> a" using b(1) a' by auto
    then have "f_ino g \<noteq> f_ino f" using fs_wf_ino_unique[OF wf g(1) f(1)] by blast
    then show "(d, m, k) \<in> entries s \<and> (d, m, k) \<noteq> (f_dir f, n, f_ino f)"
      using g b skel_entry[OF g(2)] by (auto simp: entries_iff)
  next
    assume *: "(d, m, k) \<in> entries s \<and> (d, m, k) \<noteq> (f_dir f, n, f_ino f)"
    then obtain b g where b: "fs_heap s b = Some g" "f_dir g = d" "f_name g = Some m" "f_ino g = k"
      by (auto simp: entries_iff)
    then have "b \<noteq> a" using f * by auto
    then obtain h where h: "fs_heap s' b = Some h" using keep b(1) by auto
    obtain g2 where "fs_heap s b = Some g2" "skel h = skel g2" using dr h by (rule removed_same_ino)
    then show "(d, m, k) \<in> entries s'" using h b skel_entry[of h g2] by (auto simp: entries_iff)
  qed
  then show ?thesis by auto
qed

section \<open>Lookup\<close>

lemma file_ok_desc:
  assumes wf: "fs_wf HI HN s is" and f: "fs_heap s a = Some f"
  shows "ino2inodesc s (f_ino f) = Inr (f_ino f)"
    and "inodesc_at s (f_ino f) = Inr (ino_table s ! f_ino f)"
    and "id_next (ino_table s ! f_ino f) = None" and "id_file (ino_table s ! f_ino f) = Some a"
  using file_ok_ino[OF fs_wf_file[OF wf f]] file_ok_id[OF fs_wf_file[OF wf f]] fs_wf_ino_num[OF wf]
    fs_wf_next[OF wf, of "f_ino f"]
  by (simp_all add: ino2inodesc_def inodesc_at_def)

lemma file_ok_ops: "fs_wf HI HN s is \<Longrightarrow> fs_heap s a = Some f \<Longrightarrow> \<exists>ops. f_ops f = Some ops \<and> file_ops f = Inr ops"
  using fs_wf_file[of HI HN s "is" a f] by (auto simp: file_ok_def file_ops_def)

lemma lookup_wf:
  assumes H: "uthash HI" "uthash HN" and wf: "fs_wf HI HN s is"
    and p: "fs_heap s p = Some pf" "f_type pf = DIRECTORY"
  shows "fs_heap s b = Some g \<Longrightarrow> f_dir g = f_ino pf \<Longrightarrow> f_name g = Some n \<Longrightarrow>
      fs_fuse_lookup HN pid s (f_ino pf) n =
        Inr [Reply_entry (f_ino g) (ops_stat pid (the (f_ops g)) g stat_zero)]"
    and "name_fresh s (f_ino pf) n \<Longrightarrow> fs_fuse_lookup HN pid s (f_ino pf) n = Inr [Reply_err ENOENT]"
proof -
  obtain dd where dd: "f_data pf = Data_dir dd" "dir_ok HI HN s (f_ino pf) dd"
    using wf p by (rule fs_wf_dir)
  note d = file_ok_desc[OF wf p(1)]
  {
    assume g: "fs_heap s b = Some g" "f_dir g = f_ino pf" "f_name g = Some n"
    then have "hash_find HN (nm_files dd) n = Some b" using dir_ok_find(2)[OF H dd(2)] by simp
    then show "fs_fuse_lookup HN pid s (f_ino pf) n =
        Inr [Reply_entry (f_ino g) (ops_stat pid (the (f_ops g)) g stat_zero)]"
      using d p dd(1) g file_ok_ops[OF wf g(1)] by (auto simp: fs_fuse_lookup_def dir_data_def)
  next
    assume "name_fresh s (f_ino pf) n"
    then have "hash_find HN (nm_files dd) n = None"
      using dir_ok_find(2)[OF H dd(2)] name_freshD by (cases "hash_find HN (nm_files dd) n") fastforce+
    then show "fs_fuse_lookup HN pid s (f_ino pf) n = Inr [Reply_err ENOENT]"
      using d p dd(1) by (simp add: fs_fuse_lookup_def dir_data_def)
  }
qed

section \<open>Reading a buffer in pieces\<close>

lemma reply_buf_piece:
  assumes "length buf < 2 ^ 64" and "off < 2 ^ 64"
  shows "fsFuseReplyBufLimited buf (of_nat (length buf)) (of_nat off) sz =
    Reply_buf (take (unat sz) (drop off buf))"
proof (cases "off < length buf")
  case True
  have u: "unat (of_nat (length buf) :: u64) = length buf" "unat (of_nat off :: u64) = off"
    using assms by (simp_all add: unat_of_nat_small)
  have lt: "(of_nat off :: u64) < of_nat (length buf)"
    using True u by (simp add: word_less_nat_alt)
  have sub: "unat (of_nat (length buf) - of_nat off :: u64) = length buf - off"
    using lt u by (simp add: unat_sub order_less_imp_le)
  have "unat (min (of_nat (length buf) - of_nat off) sz) = min (length buf - off) (unat sz)"
    using sub by (simp add: min_def word_le_nat_alt)
  moreover have "take (min (length buf - off) (unat sz)) (drop off buf) = take (unat sz) (drop off buf)"
    using take_min_length[of "drop off buf" "unat sz"] by simp
  ultimately show ?thesis using lt u(2) by (simp add: fsFuseReplyBufLimited_def)
next
  case False
  have u: "unat (of_nat (length buf) :: u64) = length buf" "unat (of_nat off :: u64) = off"
    using assms by (simp_all add: unat_of_nat_small)
  then show ?thesis using False by (simp add: fsFuseReplyBufLimited_def word_less_nat_alt)
qed

text \<open>
  A client that reads pieces of at most \<open>sz\<close> bytes, each where the last one ended, until it gets
  an empty one. The first argument bounds the number of requests.
\<close>

fun client_read :: "nat \<Rightarrow> (u64 \<Rightarrow> fuse_reply) \<Rightarrow> nat \<Rightarrow> char list option" where
  "client_read 0 f off = None"
| "client_read (Suc n) f off =
     (case f (of_nat off) of
        Reply_buf [] \<Rightarrow> Some []
      | Reply_buf (c # cs) \<Rightarrow> map_option ((@) (c # cs)) (client_read n f (off + length (c # cs)))
      | _ \<Rightarrow> None)"

lemma client_read_from:
  assumes len: "length buf < 2 ^ 64" and sz: "0 < sz"
    and f: "f = (\<lambda>off. fsFuseReplyBufLimited buf (of_nat (length buf)) off sz)"
  shows "off \<le> length buf \<Longrightarrow> length buf - off < n \<Longrightarrow> client_read n f off = Some (drop off buf)"
proof (induction n arbitrary: off)
  case (Suc n)
  have off: "off < 2 ^ 64" using Suc.prems(1) len by (rule le_less_trans)
  have r: "f (of_nat off) = Reply_buf (take (unat sz) (drop off buf))"
    using reply_buf_piece[OF len off] by (simp add: f)
  show ?case
  proof (cases "take (unat sz) (drop off buf)")
    case Nil
    have "unat sz \<noteq> 0" using sz by (simp add: unat_gt_0 unat_eq_0)
    then have "drop off buf = []" using Nil by simp
    then show ?thesis using r Nil by simp
  next
    case (Cons c cs)
    let ?l = "length (c # cs)"
    have l: "?l = min (unat sz) (length buf - off)" using arg_cong[OF Cons, of length] by simp
    then have "client_read n f (off + ?l) = Some (drop (off + ?l) buf)"
      using Suc.prems Cons by (intro Suc.IH) auto
    moreover have "(c # cs) @ drop (off + ?l) buf = drop off buf"
      using take_drop_cover[of "unat sz" off buf] unfolding Cons .
    ultimately show ?thesis using r Cons by simp
  qed
qed simp

text \<open>A buffer that is longer than the size given for it: only the front is sent.\<close>

lemma reply_buf_front:
  assumes "n < 2 ^ 64"
  shows "fsFuseReplyBufLimited buf (of_nat n) off sz = fsFuseReplyBufLimited (take n buf) (of_nat n) off sz"
proof (cases "off < of_nat n")
  case True
  have n: "unat (of_nat n :: u64) = n" using assms by (simp add: unat_of_nat_small)
  have "unat (of_nat n - off) = n - unat off"
    using unat_diff_le[of off "of_nat n"] True n by (simp add: order_less_imp_le)
  then have "unat (min (of_nat n - off) sz) \<le> n - unat off"
    by (simp add: min_def word_le_nat_alt)
  then have "take (unat (min (of_nat n - off) sz)) (drop (unat off) buf) =
      take (unat (min (of_nat n - off) sz)) (drop (unat off) (take n buf))"
    by (simp add: drop_take min_absorb1)
  then show ?thesis using True by (simp add: fsFuseReplyBufLimited_def)
qed (simp add: fsFuseReplyBufLimited_def)

lemma dec_nat_length: "0 < k \<Longrightarrow> n < 10 ^ k \<Longrightarrow> length (dec_nat n) \<le> k"
proof (induction k arbitrary: n)
  case (Suc k)
  show ?case
  proof (cases "n < 10")
    case False
    then have "0 < k" using Suc.prems(2) by (cases k) auto
    moreover have "n div 10 < 10 ^ k" using Suc.prems(2) by (simp add: less_mult_imp_div_less mult.commute)
    ultimately show ?thesis using Suc.IH[of "n div 10"] False by (simp add: dec_nat.simps[of n])
  qed (simp add: dec_nat.simps[of n])
qed simp

lemma dec_int_length:
  assumes "- (2 ^ 31) \<le> pid" and "pid < 2 ^ 31"
  shows "length (dec_int pid) \<le> 11"
proof -
  have "nat (- pid) < 10 ^ 10" "nat pid < 10 ^ 10" using assms by auto
  from this[THEN dec_nat_length[rotated]] show ?thesis by (simp add: dec_int_def)
qed

section \<open>Listing a directory\<close>

definition dirbuf_all :: "direntry_ops \<Rightarrow> (string \<times> fs_ino_t) list \<Rightarrow> char list" where
  "dirbuf_all D es = foldl (\<lambda>b (n, k). dirbuf_add D b n k) [] es"

text \<open>The name and inode of an object.\<close>

definition item_entry :: "('i, 'n) fs_t \<Rightarrow> addr \<Rightarrow> string \<times> fs_ino_t" where
  "item_entry s a = (case fs_heap s a of Some g \<Rightarrow> (the (f_name g), f_ino g) | None \<Rightarrow> ([], 0))"

lemma dirbuf_items_all:
  assumes "\<And>a. a \<in> set as \<Longrightarrow> \<exists>g n. fs_heap s a = Some g \<and> f_name g = Some n"
  shows "dirbuf_items D s (dirbuf_all D es) as = Inr (dirbuf_all D (es @ map (item_entry s) as))"
  using assms
proof (induction as arbitrary: es)
  case (Cons a as)
  obtain g n where g: "fs_heap s a = Some g" "f_name g = Some n" using Cons.prems[of a] by auto
  have "dirbuf_add D (dirbuf_all D es) n (f_ino g) = dirbuf_all D (es @ [item_entry s a])"
    using g by (simp add: dirbuf_all_def item_entry_def)
  then show ?case using Cons.IH[of "es @ [item_entry s a]"] Cons.prems g by simp
qed (simp add: dirbuf_all_def)

text \<open>The items of a directory's table are its entries.\<close>

lemma item_entries:
  assumes wf: "fs_wf HI HN s is" and dd: "dir_ok HI HN s d dd"
  defines "es \<equiv> map (item_entry s) (map snd (hash_iter HI (ino_files dd)))"
  shows "set es = {(n, k). (d, n, k) \<in> entries s}" and "distinct es"
proof -
  let ?it = "hash_iter HI (ino_files dd)"
  have it: "item_entry s b = (n, k) \<longleftrightarrow>
      (\<exists>g. fs_heap s b = Some g \<and> f_dir g = d \<and> f_name g = Some n \<and> f_ino g = k)"
    if kb: "(j, b) \<in> set ?it" for j b n k
  proof -
    obtain g where g: "fs_heap s b = Some g" "f_dir g = d" "f_ino g = j"
      using dir_ok_ino_iter[OF dd] kb by blast
    then obtain m where "f_name g = Some m" using file_ok_name[OF fs_wf_file[OF wf]] by blast
    then show ?thesis using g by (auto simp: item_entry_def)
  qed
  have "(n, k) \<in> set es \<longleftrightarrow> (d, n, k) \<in> entries s" for n k
  proof
    assume "(n, k) \<in> set es"
    then obtain j b where "(j, b) \<in> set ?it" "item_entry s b = (n, k)" by (auto simp: es_def)
    then show "(d, n, k) \<in> entries s" using it by (auto simp: entries_iff)
  next
    assume "(d, n, k) \<in> entries s"
    then obtain b g where b: "fs_heap s b = Some g" "f_dir g = d" "f_name g = Some n" "f_ino g = k"
      by (auto simp: entries_iff)
    then have "(k, b) \<in> set ?it" using dir_ok_ino_iter[OF dd] by blast
    then show "(n, k) \<in> set es" using it[of k b n k] b by (force simp: es_def)
  qed
  then show "set es = {(n, k). (d, n, k) \<in> entries s}" by auto
  have "snd (item_entry s b) = j" if "(j, b) \<in> set ?it" for j b
    using that dir_ok_ino_iter[OF dd] by (auto simp: item_entry_def)
  then have "map snd es = hash_keys HI (ino_files dd)" by (auto simp: hash_keys_def es_def)
  then show "distinct es" using dir_ok_distinct[OF dd] by (metis distinct_map)
qed

lemma readdir_wf:
  assumes H: "uthash HI" "uthash HN" and wf: "fs_wf HI HN s is"
    and p: "fs_heap s p = Some pf" "f_type pf = DIRECTORY" "f_ops pf = Some Fs_dir_ops"
  obtains es where "set es = {(n, k). (f_ino pf, n, k) \<in> entries s}" and "distinct es"
    and "fs_fuse_readdir HI D s (f_ino pf) sz off =
      (let b = dirbuf_all D ((''.'', f_ino pf) # (''..'', f_dir pf) # es)
       in Inr [fsFuseReplyBufLimited b (of_nat (length b)) off sz])"
proof -
  obtain dd where dd: "f_data pf = Data_dir dd" "dir_ok HI HN s (f_ino pf) dd"
    using wf p(1,2) by (rule fs_wf_dir)
  let ?it = "hash_iter HI (ino_files dd)"
  let ?es = "map (item_entry s) (map snd ?it)"
  let ?hd = "[(''.'', f_ino pf), (''..'', f_dir pf)]"
  have named: "\<exists>g n. fs_heap s a = Some g \<and> f_name g = Some n" if a: "a \<in> set (map snd ?it)" for a
  proof -
    obtain k where "(k, a) \<in> set ?it" using a by auto
    then obtain g where "fs_heap s a = Some g" using dir_ok_ino_iter[OF dd(2)] by blast
    then show ?thesis using file_ok_name[OF fs_wf_file[OF wf]] by blast
  qed
  have hd: "dirbuf_all D ?hd = dirbuf_add D (dirbuf_add D [] ''.'' (f_ino pf)) ''..'' (f_dir pf)"
    by (simp add: dirbuf_all_def)
  have "fs_fuse_readdir HI D s (f_ino pf) sz off =
      (let b = dirbuf_all D (?hd @ ?es) in Inr [fsFuseReplyBufLimited b (of_nat (length b)) off sz])"
    using file_ok_desc[OF wf p(1)] p dd(1) dirbuf_items_all[OF named, of "map snd ?it" D ?hd]
    by (simp add: fs_fuse_readdir_def file_ops_def ops_readdir_def fs_dir_readdir_def dir_data_def
        hd[symmetric] Let_def)
  then show thesis using that[OF item_entries[OF wf dd(2)]] by simp
qed

end
