(* ===== verification/Fs_Props.thy ===== *)
theory Fs_Props
  imports Fs_Spec
begin

text \<open>
  The properties of the synthetic file system, with a small concrete file system on which each of
  them is applied: a root directory (\<open>demo_root\<close>), then a directory \<open>d\<close> in it (\<open>demo_dir\<close>), then
  a file \<open>f\<close> in that (\<open>demo_file\<close>).
\<close>

section \<open>A concrete file system\<close>

type_synonym alist_fs = "((fs_ino_t \<times> addr) list, (string \<times> addr) list) fs_t"

definition fs_zero :: alist_fs where
  "fs_zero = \<lparr>fuse_args = [], fuse_buf_mem = False, fs_ed = None, fuse_se = False, mntpt = None,
     ino_table = [], ino_freelist = None, ino_num = 0, ino_numfree = 0, fuse_fd = 0, fs_mkdir = False,
     fs_heap = (\<lambda>_. None), fs_brk = 0, fs_calls = []\<rparr>"

definition demo_root :: alist_fs where
  "demo_root = (case fsCreate_root alist_uthash alist_uthash fs_zero of Inr (_, s) \<Rightarrow> s | Inl _ \<Rightarrow> fs_zero)"

definition demo_dir :: alist_fs where
  "demo_dir = (case fsCreatedir alist_uthash alist_uthash demo_root 1 ''d'' Fs_dir_ops of
     Inr (_, s) \<Rightarrow> s | Inl _ \<Rightarrow> fs_zero)"

definition demo_file :: alist_fs where
  "demo_file = (case fsCreatefile alist_uthash alist_uthash demo_dir 2 ''f'' None Fs_libkernel_ops of
     Inr (_, s) \<Rightarrow> s | Inl _ \<Rightarrow> fs_zero)"

lemmas alist2 = uthash_alist uthash_alist

lemma demo_root:
  "fsCreate_root alist_uthash alist_uthash fs_zero = Inr (1, demo_root)"
  "pristine alist_uthash alist_uthash demo_root 2" "fs_brk demo_root = 1"
  "fs_heap demo_root = (\<lambda>_. None)(0 \<mapsto> created_dir alist_uthash alist_uthash 1 0 ''.'' Fs_dir_ops)"
proof -
  obtain s where s: "fsCreate_root alist_uthash alist_uthash fs_zero = Inr (ROOT_INO, s)"
      "pristine alist_uthash alist_uthash s 2"
      "fs_heap s = (\<lambda>_. None)(fs_brk fs_zero \<mapsto> created_dir alist_uthash alist_uthash ROOT_INO INVALID_INO ''.'' Fs_dir_ops)"
      "s = fs_zero\<lparr>ino_table := ino_table s, ino_num := 256, ino_freelist := ino_freelist s,
           ino_numfree := ino_numfree s, fs_heap := fs_heap s, fs_brk := Suc (fs_brk fs_zero)\<rparr>"
    by (rule fsCreate_root_pristine[OF alist2, of fs_zero]) (simp_all add: fs_zero_def)
  have e: "demo_root = s" by (simp add: demo_root_def s(1))
  have "fs_brk s = 1" by (subst s(4)) (simp add: fs_zero_def)
  then show "fsCreate_root alist_uthash alist_uthash fs_zero = Inr (1, demo_root)"
    "pristine alist_uthash alist_uthash demo_root 2" "fs_brk demo_root = 1"
    "fs_heap demo_root = (\<lambda>_. None)(0 \<mapsto> created_dir alist_uthash alist_uthash 1 0 ''.'' Fs_dir_ops)"
    using s(1-3) by (simp_all add: e ROOT_INO_def INVALID_INO_def fs_zero_def)
qed

lemma created_dir_sel [simp]:
  "f_ino (created_dir HI HN k d n ops) = k" "f_dir (created_dir HI HN k d n ops) = d"
  "f_name (created_dir HI HN k d n ops) = Some n" "f_type (created_dir HI HN k d n ops) = DIRECTORY"
  "f_ops (created_dir HI HN k d n ops) = Some ops"
  "f_data (created_dir HI HN k d n ops) = Data_dir \<lparr>ino_files = hash_null HI, nm_files = hash_null HN\<rparr>"
  by (simp_all add: created_dir_def file_init_def)

lemma created_file_sel [simp]:
  "f_ino (created_file k d n sl ops) = k" "f_dir (created_file k d n sl ops) = d"
  "f_name (created_file k d n sl ops) = Some n" "f_type (created_file k d n sl ops) \<noteq> DIRECTORY"
  "f_ops (created_file k d n sl ops) = Some ops"
  by (simp_all add: created_file_def file_init_def split: option.split)

lemma demo_dir:
  "fsCreatedir alist_uthash alist_uthash demo_root 1 ''d'' Fs_dir_ops = Inr (1, demo_dir)"
  "pristine alist_uthash alist_uthash demo_dir 3" "fs_brk demo_dir = 2"
  "\<exists>r. f_ino r = 1 \<and> f_dir r = 0 \<and> f_name r = Some ''.'' \<and> f_type r = DIRECTORY \<and> f_ops r = Some Fs_dir_ops \<and>
     fs_heap demo_dir = (\<lambda>_. None)(0 \<mapsto> r, 1 \<mapsto> created_dir alist_uthash alist_uthash 2 1 ''d'' Fs_dir_ops)"
proof -
  let ?r = "created_dir alist_uthash alist_uthash 1 0 ''.'' Fs_dir_ops :: ((fs_ino_t \<times> addr) list, (string \<times> addr) list) fs_file_t"
  have h: "fs_heap demo_root 0 = Some ?r" by (simp add: demo_root(4))
  have fr: "name_fresh demo_root (f_ino ?r) ''d''" by (simp add: name_fresh_def demo_root(4))
  obtain s dd where s: "fsCreatedir alist_uthash alist_uthash demo_root (f_ino ?r) ''d'' Fs_dir_ops = Inr (fs_brk demo_root, s)"
      "pristine alist_uthash alist_uthash s (Suc 2)"
      "added alist_uthash alist_uthash demo_root [Suc 2..<256] 0 ?r dd ''d''
        (created_dir alist_uthash alist_uthash 2 (f_ino ?r) ''d'' Fs_dir_ops) s"
    by (rule pristine_fsCreatedir[OF alist2 demo_root(2) _ _ h _ fr]) (simp_all add: ROOT_INO_def)
  have e: "demo_dir = s" using s(1) by (simp add: demo_dir_def)
  show "fsCreatedir alist_uthash alist_uthash demo_root 1 ''d'' Fs_dir_ops = Inr (1, demo_dir)"
    "pristine alist_uthash alist_uthash demo_dir 3" "fs_brk demo_dir = 2"
    using s by (simp_all add: e demo_root(3) added_def)
  show "\<exists>r. f_ino r = 1 \<and> f_dir r = 0 \<and> f_name r = Some ''.'' \<and> f_type r = DIRECTORY \<and> f_ops r = Some Fs_dir_ops \<and>
     fs_heap demo_dir = (\<lambda>_. None)(0 \<mapsto> r, 1 \<mapsto> created_dir alist_uthash alist_uthash 2 1 ''d'' Fs_dir_ops)"
    using s(3) by (intro exI[of _ "the (fs_heap s 0)"]) (simp add: e demo_root(3,4) added_def fun_eq_iff)
qed

lemma demo_file:
  "fsCreatefile alist_uthash alist_uthash demo_dir 2 ''f'' None Fs_libkernel_ops = Inr (2, demo_file)"
  "pristine alist_uthash alist_uthash demo_file 4"
  "\<exists>r d. f_ino r = 1 \<and> f_dir r = 0 \<and> f_name r = Some ''.'' \<and> f_type r = DIRECTORY \<and> f_ops r = Some Fs_dir_ops \<and>
     f_ino d = 2 \<and> f_dir d = 1 \<and> f_name d = Some ''d'' \<and> f_type d = DIRECTORY \<and> f_ops d = Some Fs_dir_ops \<and>
     fs_heap demo_file = (\<lambda>_. None)(0 \<mapsto> r, 1 \<mapsto> d, 2 \<mapsto> created_file 3 2 ''f'' None Fs_libkernel_ops)"
proof -
  let ?d = "created_dir alist_uthash alist_uthash 2 1 ''d'' Fs_dir_ops :: ((fs_ino_t \<times> addr) list, (string \<times> addr) list) fs_file_t"
  obtain r where r: "f_ino r = 1" "f_dir r = 0" "f_name r = Some ''.''" "f_type r = DIRECTORY" "f_ops r = Some Fs_dir_ops"
    and hp: "fs_heap demo_dir = (\<lambda>_. None)(0 \<mapsto> r, 1 \<mapsto> ?d)"
    using demo_dir(4) by blast
  have h: "fs_heap demo_dir 1 = Some ?d" by (simp add: hp)
  have fr: "name_fresh demo_dir (f_ino ?d) ''f''" by (simp add: name_fresh_def hp r)
  obtain s dd where s: "fsCreatefile alist_uthash alist_uthash demo_dir (f_ino ?d) ''f'' None Fs_libkernel_ops = Inr (fs_brk demo_dir, s)"
      "pristine alist_uthash alist_uthash s (Suc 3)"
      "added alist_uthash alist_uthash demo_dir [Suc 3..<256] 1 ?d dd ''f''
        (created_file 3 (f_ino ?d) ''f'' None Fs_libkernel_ops) s"
    by (rule pristine_fsCreatefile[OF alist2 demo_dir(2) _ _ h _ fr]) (simp_all add: ROOT_INO_def)
  have e: "demo_file = s" using s(1) by (simp add: demo_file_def)
  show "fsCreatefile alist_uthash alist_uthash demo_dir 2 ''f'' None Fs_libkernel_ops = Inr (2, demo_file)"
    "pristine alist_uthash alist_uthash demo_file 4"
    using s by (simp_all add: e demo_dir(3))
  show "\<exists>r d. f_ino r = 1 \<and> f_dir r = 0 \<and> f_name r = Some ''.'' \<and> f_type r = DIRECTORY \<and> f_ops r = Some Fs_dir_ops \<and>
     f_ino d = 2 \<and> f_dir d = 1 \<and> f_name d = Some ''d'' \<and> f_type d = DIRECTORY \<and> f_ops d = Some Fs_dir_ops \<and>
     fs_heap demo_file = (\<lambda>_. None)(0 \<mapsto> r, 1 \<mapsto> d, 2 \<mapsto> created_file 3 2 ''f'' None Fs_libkernel_ops)"
    using s(3) r
    by (intro exI[of _ r] exI[of _ "the (fs_heap s 1)"]) (simp add: e demo_dir(3) hp added_def fun_eq_iff)
qed

lemma demo_wf:
  "fs_wf alist_uthash alist_uthash demo_root (2 # [3..<256])" "ino_clean demo_root 2"
  "fs_wf alist_uthash alist_uthash demo_dir (3 # [4..<256])" "ino_clean demo_dir 3"
  "fs_wf alist_uthash alist_uthash demo_file [4..<256]"
  using pristine_Cons[OF demo_root(2)] pristine_Cons[OF demo_dir(2)] demo_file(2)
  by (simp_all add: pristine_def)

section \<open>Properties of the tree operations\<close>

text \<open>
  C1. \<open>fsCreatefile\<close> on a well-formed file system, for a name that is new in the directory and while the first free inode has no leftover of a removed object, succeeds,
  keeps the file system well formed, takes the first free inode, adds exactly the new entry and
  makes a later lookup of the name answer with the new inode.
\<close>

theorem fsCreatefile_refines:
  fixes s :: "('i, 'n) fs_t"
  assumes "uthash HI" and "uthash HN" and "fs_wf HI HN s (k # is)" and "ino_clean s k" and "k \<noteq> ROOT_INO"
    and "fs_heap s p = Some pf" and "f_type pf = DIRECTORY" and "name_fresh s (f_ino pf) name"
  shows "\<exists>s'. fsCreatefile HI HN s (f_ino pf) name symlink ops = Inr (fs_brk s, s') \<and>
    fs_wf HI HN s' is \<and> entries s' = insert (f_ino pf, name, k) (entries s) \<and>
    fs_fuse_lookup HN pid s' (f_ino pf) name =
      Inr [Reply_entry k (ops_stat pid ops
        (created_file k (f_ino pf) name symlink ops :: ('i, 'n) fs_file_t) stat_zero)]"
proof -
  let ?g = "created_file k (f_ino pf) name symlink ops :: ('i, 'n) fs_file_t"
  obtain s' dd where s': "fsCreatefile HI HN s (f_ino pf) name symlink ops = Inr (fs_brk s, s')"
      "fs_wf HI HN s' is" "added HI HN s is p pf dd name ?g s'"
    using fsCreatefile_added[OF assms] by metis
  have new: "fs_heap s (fs_brk s) = None" using assms(3) by (rule brk_unused)
  have "entries s' = insert (f_ino pf, name, k) (entries s)"
    using added_entries[OF s'(3) assms(6) new] by simp
  moreover have "fs_heap s' (fs_brk s) = Some ?g" "fs_heap s' p = Some (pf\<lparr>f_data := f_data (the (fs_heap s' p))\<rparr>)"
    using s'(3) assms(6) new by (auto simp: added_def)
  then have "fs_fuse_lookup HN pid s' (f_ino pf) name = Inr [Reply_entry k (ops_stat pid ops ?g stat_zero)]"
    using lookup_wf(1)[OF assms(1,2) s'(2), of p "pf\<lparr>f_data := f_data (the (fs_heap s' p))\<rparr>" "fs_brk s" ?g name]
      assms(7) by simp
  ultimately show ?thesis using s' by blast
qed

theorem fsCreatefile_refines_witness:
  "\<exists>s'. fsCreatefile alist_uthash alist_uthash demo_dir 2 ''f'' None Fs_libkernel_ops = Inr (2, s') \<and>
    fs_wf alist_uthash alist_uthash s' [4..<256] \<and> (2, ''f'', 3) \<in> entries s'"
proof -
  let ?d = "created_dir alist_uthash alist_uthash 2 1 ''d'' Fs_dir_ops :: ((fs_ino_t \<times> addr) list, (string \<times> addr) list) fs_file_t"
  have "fs_heap demo_dir 1 = Some ?d" "name_fresh demo_dir (f_ino ?d) ''f''"
    using demo_dir(4) by (auto simp: name_fresh_def split: if_splits)
  with fsCreatefile_refines[OF alist2 demo_wf(3,4), of 1 ?d "''f''" None Fs_libkernel_ops 7] show ?thesis
    by (auto simp: ROOT_INO_def demo_dir(3))
qed

text \<open>
  \<open>fsCreatedir\<close> below a directory does the same, and the new directory is empty.
\<close>

theorem fsCreatedir_refines:
  assumes "uthash HI" and "uthash HN" and "fs_wf HI HN s (k # is)" and "ino_clean s k" and "k \<noteq> ROOT_INO"
    and "fs_heap s p = Some pf" and "f_type pf = DIRECTORY" and "name_fresh s (f_ino pf) name"
  shows "\<exists>s'. fsCreatedir HI HN s (f_ino pf) name ops = Inr (fs_brk s, s') \<and>
    fs_wf HI HN s' is \<and> entries s' = insert (f_ino pf, name, k) (entries s) \<and> \<not> has_child s' k"
proof -
  let ?g = "created_dir HI HN k (f_ino pf) name ops"
  obtain s' dd where s': "fsCreatedir HI HN s (f_ino pf) name ops = Inr (fs_brk s, s')"
      "fs_wf HI HN s' is" "added HI HN s is p pf dd name ?g s'"
    using fsCreatedir_added[OF assms] by metis
  have new: "fs_heap s (fs_brk s) = None" using assms(3) by (rule brk_unused)
  have e: "entries s' = insert (f_ino pf, name, k) (entries s)"
    using added_entries[OF s'(3) assms(6) new] by simp
  have "f_ino pf \<noteq> k" using file_ok_ino[OF fs_wf_file[OF assms(3,6)]] by auto
  then have "\<not> has_child s' k"
    using no_child_of_free[OF assms(3)] s'(3) assms(6) by (auto simp: has_child_def added_def split: if_splits)
  then show ?thesis using s' e by blast
qed

theorem fsCreatedir_refines_witness:
  "\<exists>s'. fsCreatedir alist_uthash alist_uthash demo_root 1 ''d'' Fs_dir_ops = Inr (1, s') \<and>
    fs_wf alist_uthash alist_uthash s' [3..<256] \<and> (1, ''d'', 2) \<in> entries s' \<and> \<not> has_child s' 2"
proof -
  let ?r = "created_dir alist_uthash alist_uthash 1 0 ''.'' Fs_dir_ops :: ((fs_ino_t \<times> addr) list, (string \<times> addr) list) fs_file_t"
  have "fs_heap demo_root 0 = Some ?r" "name_fresh demo_root (f_ino ?r) ''d''"
    by (simp_all add: name_fresh_def demo_root(4))
  with fsCreatedir_refines[OF alist2 demo_wf(1,2), of 0 ?r "''d''" Fs_dir_ops] show ?thesis
    by (auto simp: ROOT_INO_def demo_root(3))
qed

text \<open>
  C2. \<open>fsRemoveitem\<close> without purging, on an object with nothing in it, returns true, keeps the file
  system well formed, removes exactly the entry of the object and frees its inode.
\<close>

theorem fsRemoveitem_refines:
  assumes "uthash HI" and "uthash HN" and "fs_wf HI HN s is" and "fs_heap s a = Some f"
    and "f_name f = Some n" and "\<not> has_child s (f_ino f)"
  shows "\<exists>s' js. fsRemoveitem HI HN s a False = Inr (True, s') \<and> fs_wf HI HN s' (js @ is) \<and>
    f_ino f \<in> set js \<and> fs_heap s' a = None \<and> entries s' = entries s - {(f_dir f, n, f_ino f)}"
proof -
  obtain s' js where s': "fsRemoveitem HI HN s a False = Inr (True, s')" "removed HI HN s is a False s' js"
    using fsRemoveitem_removed[OF assms(1-4,6)] by blast
  have wf': "fs_wf HI HN s' (js @ is)" and gone: "fs_heap s' a = None" and fr: "frame_eq s s'"
    using s'(2) by (simp_all add: removed_def)
  note e = dropped_entries[OF s'(2) assms(4,5,3)]
  have k: "f_ino f < length (ino_table s')" "f_ino f \<noteq> 0" "f_ino f \<notin> set is"
    using file_ok_ino[OF fs_wf_file[OF assms(3,4)]] fr by (simp_all add: frame_eq_def)
  have "\<not> (\<exists>b g. fs_heap s' b = Some g \<and> f_ino g = f_ino f)"
  proof
    assume "\<exists>b g. fs_heap s' b = Some g \<and> f_ino g = f_ino f"
    then obtain b g where b: "fs_heap s' b = Some g" "f_ino g = f_ino f" by blast
    obtain g' where g': "fs_heap s b = Some g'" "skel g = skel g'" using s'(2) b(1) by (rule removed_same_ino)
    then have "b = a" using fs_wf_ino_unique[OF assms(3) g'(1) assms(4)] b(2) skel_entry(3)[OF g'(2)] by simp
    then show False using b(1) gone by simp
  qed
  then have "f_ino f \<in> set js" using fs_wf_free_iff[OF wf' k(1)] k(2,3) by auto
  then show ?thesis using s'(1) wf' gone e by blast
qed

theorem fsRemoveitem_refines_witness:
  "\<exists>s'. fsRemoveitem alist_uthash alist_uthash demo_file 2 False = Inr (True, s') \<and>
    entries s' = entries demo_file - {(2, ''f'', 3)}"
proof -
  let ?g = "created_file 3 2 ''f'' None Fs_libkernel_ops :: ((fs_ino_t \<times> addr) list, (string \<times> addr) list) fs_file_t"
  have "fs_heap demo_file 2 = Some ?g" "\<not> has_child demo_file (f_ino ?g)"
    using demo_file(3) by (auto simp: has_child_def split: if_splits)
  with fsRemoveitem_refines[OF alist2 demo_wf(5), of 2 ?g "''f''"] show ?thesis by auto
qed

text \<open>
  C20. \<open>fsRemoveitem\<close> with purging: it returns, the object is gone, and besides it exactly those
  directories are gone that had children and lost all of them; every other object is untouched but
  for the tables of the directories.
\<close>

theorem fsRemoveitem_purges:
  assumes "uthash HI" and "uthash HN" and "fs_wf HI HN s is" and "fs_heap s a = Some f"
    and "\<not> has_child s (f_ino f)"
  shows "\<exists>s' js. fsRemoveitem HI HN s a True = Inr (True, s') \<and> fs_wf HI HN s' (js @ is) \<and>
    fs_heap s' a = None \<and>
    (\<forall>b. fs_heap s' b = None \<or> map_option skel (fs_heap s' b) = map_option skel (fs_heap s b)) \<and>
    (\<forall>b g. b \<noteq> a \<longrightarrow> fs_heap s b = Some g \<longrightarrow>
       (fs_heap s' b = None \<longleftrightarrow> has_child s (f_ino g) \<and>
         (\<forall>c h. fs_heap s c = Some h \<longrightarrow> f_dir h = f_ino g \<longrightarrow> fs_heap s' c = None)))"
proof -
  obtain s' js where s': "fsRemoveitem HI HN s a True = Inr (True, s')" "removed HI HN s is a True s' js"
    using fsRemoveitem_removed[OF assms] by blast
  then show ?thesis unfolding removed_def by (intro exI[of _ s'] exI[of _ js]) simp
qed

theorem fsRemoveitem_purges_witness:
  "\<exists>s'. fsRemoveitem alist_uthash alist_uthash demo_file 2 True = Inr (True, s') \<and>
    fs_heap s' 0 = None \<and> fs_heap s' 1 = None \<and> fs_heap s' 2 = None"
proof -
  let ?g = "created_file 3 2 ''f'' None Fs_libkernel_ops :: ((fs_ino_t \<times> addr) list, (string \<times> addr) list) fs_file_t"
  obtain r d where r: "f_ino r = 1" "f_dir r = 0" and d: "f_ino d = 2" "f_dir d = 1"
    and h: "fs_heap demo_file = (\<lambda>_. None)(0 \<mapsto> r, 1 \<mapsto> d, 2 \<mapsto> ?g)"
    using demo_file(3) by blast
  have g: "fs_heap demo_file 2 = Some ?g" "\<not> has_child demo_file (f_ino ?g)"
    using r d by (auto simp: has_child_def h split: if_splits)
  obtain s' where s': "fsRemoveitem alist_uthash alist_uthash demo_file 2 True = Inr (True, s')"
    "fs_heap s' 2 = None"
    and p: "\<forall>b x. b \<noteq> 2 \<longrightarrow> fs_heap demo_file b = Some x \<longrightarrow>
       (fs_heap s' b = None \<longleftrightarrow> has_child demo_file (f_ino x) \<and>
         (\<forall>c h. fs_heap demo_file c = Some h \<longrightarrow> f_dir h = f_ino x \<longrightarrow> fs_heap s' c = None))"
    using fsRemoveitem_purges[OF alist2 demo_wf(5) g] by (elim exE conjE) (rule that)
  have c1: "c = 1" if "fs_heap demo_file c = Some x" "f_dir x = 1" for c x
    using that r d by (auto simp: h split: if_splits)
  have c2: "c = 2" if "fs_heap demo_file c = Some x" "f_dir x = 2" for c x
    using that r d by (auto simp: h split: if_splits)
  have o: "fs_heap demo_file 0 = Some r" "fs_heap demo_file 1 = Some d" by (simp_all add: h)
  have hc: "has_child demo_file 1" "has_child demo_file 2"
    using o(2) g(1) d(2) created_file_sel(2) unfolding has_child_def by blast+
  have "(1::nat) \<noteq> 2" "(0::nat) \<noteq> 2" by simp_all
  then have q: "fs_heap s' 1 = None \<longleftrightarrow> has_child demo_file 2 \<and>
         (\<forall>c h. fs_heap demo_file c = Some h \<longrightarrow> f_dir h = 2 \<longrightarrow> fs_heap s' c = None)"
      "fs_heap s' 0 = None \<longleftrightarrow> has_child demo_file 1 \<and>
         (\<forall>c h. fs_heap demo_file c = Some h \<longrightarrow> f_dir h = 1 \<longrightarrow> fs_heap s' c = None)"
    using p o r(1) d(1) by metis+
  have one: "fs_heap s' 1 = None" unfolding q(1) using hc(2) c2 s'(2) by blast
  have "fs_heap s' 0 = None" unfolding q(2) using hc(1) c1 one by blast
  then show ?thesis using s' one by blast
qed

text \<open>\<open>fsRemoveitem\<close> on a directory that is not empty returns false and changes nothing.\<close>

theorem fsRemoveitem_keeps_nonempty:
  assumes "uthash HI" and "uthash HN" and "fs_wf HI HN s is" and "fs_heap s a = Some f"
    and "has_child s (f_ino f)"
  shows "fsRemoveitem HI HN s a purge = Inr (False, s)"
  using assms by (rule fsRemoveitem_nonempty)

theorem fsRemoveitem_keeps_nonempty_witness:
  "fsRemoveitem alist_uthash alist_uthash demo_dir 0 True = Inr (False, demo_dir)"
proof -
  obtain r where r: "f_ino r = 1" and h: "fs_heap demo_dir =
      (\<lambda>_. None)(0 \<mapsto> r, 1 \<mapsto> created_dir alist_uthash alist_uthash 2 1 ''d'' Fs_dir_ops)"
    using demo_dir(4) by blast
  have "fs_heap demo_dir 0 = Some r" "has_child demo_dir (f_ino r)"
    using r by (auto simp: h has_child_def intro!: exI[of _ 1])
  then show ?thesis by (rule fsRemoveitem_keeps_nonempty[OF alist2 demo_wf(3)])
qed

text \<open>
  After any successful \<open>fsRemoveitem\<close> no further file can be created: the descriptor of the freed
  inode keeps its \<open>file\<close> pointer, and \<open>inoalloc\<close> asserts that this pointer is NULL.
\<close>

theorem create_after_remove_aborts:
  assumes "uthash HI" and "uthash HN" and "fs_wf HI HN s is" and "fs_heap s a = Some f"
    and "\<not> has_child s (f_ino f)"
  shows "\<exists>s'. fsRemoveitem HI HN s a purge = Inr (True, s') \<and>
    fsCreatefile HI HN s' d name symlink ops = Inl Assert_failed \<and>
    fsCreatedir HI HN s' d name ops = Inl Assert_failed"
proof -
  obtain s' js where s': "fsRemoveitem HI HN s a purge = Inr (True, s')" "removed HI HN s is a purge s' js"
    using fsRemoveitem_removed[OF assms] by blast
  have "inoalloc s' = Inl Assert_failed" using assms(3) s'(2) by (rule removed_dirty)
  then show ?thesis using s'(1) by (simp add: fsCreatefile_def fsCreatedir_def)
qed

theorem create_after_remove_aborts_witness:
  "\<exists>s'. fsRemoveitem alist_uthash alist_uthash demo_file 2 False = Inr (True, s') \<and>
    fsCreatefile alist_uthash alist_uthash s' 1 ''g'' None Fs_libkernel_ops = Inl Assert_failed"
proof -
  let ?g = "created_file 3 2 ''f'' None Fs_libkernel_ops :: ((fs_ino_t \<times> addr) list, (string \<times> addr) list) fs_file_t"
  have "fs_heap demo_file 2 = Some ?g" "\<not> has_child demo_file (f_ino ?g)"
    using demo_file(3) by (auto simp: has_child_def split: if_splits)
  from create_after_remove_aborts[OF alist2 demo_wf(5) this] show ?thesis by blast
qed

lemma kldfs_created:
  assumes H: "uthash HI" "uthash HN" and s: "ino_table s = []" "ino_num s = 0" "fs_heap s = (\<lambda>_. None)"
  obtains s1 s2 where "fsCreate_root HI HN s = Inr (ROOT_INO, s1)" and "kldfsCreate HI HN s1 ROOT_INO = Inr s2"
    and "pristine HI HN s2 3" and "entries s2 = {(0, ''.'', 1), (1, ''libkernel.so'', 2)}"
    and "session_of s2 = session_of s"
proof -
  let ?r = "created_dir HI HN ROOT_INO INVALID_INO ''.'' Fs_dir_ops"
  obtain s1 where s1: "fsCreate_root HI HN s = Inr (ROOT_INO, s1)" "pristine HI HN s1 2"
    "fs_heap s1 = (\<lambda>_. None)(fs_brk s \<mapsto> ?r)"
    "s1 = s\<lparr>ino_table := ino_table s1, ino_num := 256, ino_freelist := ino_freelist s1,
           ino_numfree := ino_numfree s1, fs_heap := fs_heap s1, fs_brk := Suc (fs_brk s)\<rparr>"
    by (rule fsCreate_root_pristine[OF H s])
  have r: "fs_heap s1 (fs_brk s) = Some ?r" by (simp add: s1(3))
  have fr: "name_fresh s1 (f_ino ?r) ''libkernel.so''" by (simp add: name_fresh_def s1(3) INVALID_INO_def ROOT_INO_def)
  obtain s2 dd where s2: "fsCreatefile HI HN s1 (f_ino ?r) ''libkernel.so'' None Fs_libkernel_ops = Inr (fs_brk s1, s2)"
    "pristine HI HN s2 (Suc 2)"
    "added HI HN s1 [Suc 2..<256] (fs_brk s) ?r dd ''libkernel.so'' (created_file 2 (f_ino ?r) ''libkernel.so'' None Fs_libkernel_ops) s2"
    by (rule pristine_fsCreatefile[OF H s1(2) _ _ r _ fr]) (simp_all add: ROOT_INO_def)
  have wf1: "fs_wf HI HN s1 [2..<256]" using s1(2) by (simp add: pristine_def)
  have "entries s1 = {(0, ''.'', 1)}"
    by (auto simp: entries_def s1(3) INVALID_INO_def ROOT_INO_def)
  then have "entries s2 = {(0, ''.'', 1), (1, ''libkernel.so'', 2)}"
    using added_entries[OF s2(3) r brk_unused[OF wf1]] by (auto simp: ROOT_INO_def)
  moreover have "session_of s2 = session_of s1" using s2(1) by (rule fsCreatefile_session)
  moreover have "session_of s1 = session_of s" by (subst s1(4)) (simp add: session_of_def)
  ultimately show thesis
    using that[OF s1(1), of s2] s2 by (simp add: kldfsCreate_def)
qed

text \<open>
  C9. The life of the file system of \<open>kld\<close>: \<open>fsInit\<close> on an object without files, \<open>fsCreate\<close> with
  \<open>kldfsCreate\<close> and \<open>fsCleanup\<close> all succeed; in between the root holds \<open>libkernel.so\<close>, in the end no
  file object, inode or mount point is left, and the calls to the outside are properly nested.
\<close>

theorem fs_lifecycle:
  assumes "uthash HI" and "uthash HN" and "fs_heap s = (\<lambda>_. None)" and "length fsname < SIZEOF_TMP"
    and "env_mkdir E" and "env_session E" and "env_mount E" and "env_fd E \<noteq> -1"
  shows "\<exists>s1 s2 s3 args. fsInit fsname s True None = Inr s1 \<and>
    fsCreate HI HN E s1 name (Some (kldfsCreate HI HN)) = Inr (True, s2) \<and>
    entries s2 = {(0, ''.'', 1), (1, ''libkernel.so'', 2)} \<and>
    fsCleanup HI HN s2 = Inr (True, s3) \<and>
    fs_heap s3 = (\<lambda>_. None) \<and> ino_table s3 = [] \<and> mntpt s3 = None \<and>
    fs_calls s3 = fs_calls s @ [Call_mkdir fsname, Call_session_new args, Call_session_mount fsname,
      Call_session_unmount, Call_session_destroy, Call_rmdir fsname]"
proof -
  let ?s1 = "s\<lparr>fuse_args := [], fuse_buf_mem := False, fs_ed := Some FsEvent, fuse_se := False, mntpt := Some fsname,
                ino_table := [], ino_freelist := None, ino_num := 0, ino_numfree := 0,
                fuse_fd := -1, fs_mkdir := False\<rparr>"
  let ?s1' = "?s1\<lparr>fs_calls := fs_calls ?s1 @ [Call_mkdir fsname], fs_mkdir := True\<rparr>"
  have init: "fsInit fsname s True None = Inr ?s1"
    using assms(4) by (simp add: fsInit_def fsMountPoint_def fsSetMntPt_def Let_def)
  obtain r t where t: "fsCreate_root HI HN ?s1' = Inr (ROOT_INO, r)" "kldfsCreate HI HN r ROOT_INO = Inr t"
      "pristine HI HN t 3" "entries t = {(0, ''.'', 1), (1, ''libkernel.so'', 2)}" "session_of t = session_of ?s1'"
    using kldfs_created[OF assms(1,2), of ?s1'] assms(3) by auto
  let ?s2 = "mounted E fsname name t"
  have ses: "mntpt t = Some fsname" "fs_mkdir t" "fs_ed t = Some FsEvent" "fs_calls t = fs_calls s @ [Call_mkdir fsname]"
    using t(5) by (simp_all add: session_of_def)
  have crt: "fsCreate HI HN E ?s1 name (Some (kldfsCreate HI HN)) = Inr (True, ?s2)"
    using t(1,2) ses(3) assms(5-8) by (intro fsCreate_mounted) simp_all
  obtain s3 where s3: "fsCleanup HI HN ?s2 = Inr (True, s3)" "fs_heap s3 = (\<lambda>_. None)" "ino_table s3 = []" "mntpt s3 = None"
      "fs_calls s3 = fs_calls ?s2 @ [Call_session_unmount, Call_session_destroy, Call_rmdir fsname]"
    using fsCleanup_pristine[OF assms(1,2), of ?s2 3 fsname] t(3) ses by auto
  have ent: "entries ?s2 = {(0, ''.'', 1), (1, ''libkernel.so'', 2)}"
    using t(4) by (simp add: entries_def)
  obtain args where "fs_calls ?s2 = fs_calls s @ [Call_mkdir fsname, Call_session_new args, Call_session_mount fsname]"
    using ses(4) by (simp add: mounted_def Let_def)
  then show ?thesis using init crt ent s3 by (intro exI[of _ ?s1] exI[of _ ?s2] exI[of _ s3] exI[of _ args]) simp
qed

theorem fs_lifecycle_witness:
  "\<exists>s1 s2 s3. fsInit ''libk'' fs_zero True None = Inr s1 \<and>
    fsCreate alist_uthash alist_uthash \<lparr>env_mkdir = True, env_session = True, env_mount = True, env_fd = 5, env_verbose2 = False\<rparr>
      s1 ''kld'' (Some (kldfsCreate alist_uthash alist_uthash)) = Inr (True, s2) \<and>
    fsCleanup alist_uthash alist_uthash s2 = Inr (True, s3) \<and> fs_heap s3 = (\<lambda>_. None)"
proof -
  have "fs_heap fs_zero = (\<lambda>_. None)" by (simp add: fs_zero_def)
  moreover have "length ''libk'' < SIZEOF_TMP" by (simp add: SIZEOF_TMP_def)
  ultimately show ?thesis
    using fs_lifecycle[OF alist2, of fs_zero "''libk''" "\<lparr>env_mkdir = True, env_session = True, env_mount = True, env_fd = 5, env_verbose2 = False\<rparr>" "''kld''"]
    by auto
qed

section \<open>Properties of the callbacks\<close>

text \<open>
  C21. \<open>fs_fuse_lookup\<close> in a directory answers with inode \<open>k\<close> exactly when the directory has an entry
  of that name with inode \<open>k\<close>, and with \<open>ENOENT\<close> exactly when it has none.
\<close>

theorem fs_fuse_lookup_refines:
  assumes "uthash HI" and "uthash HN" and "fs_wf HI HN s is" and "fs_heap s p = Some pf"
    and "f_type pf = DIRECTORY"
  shows "((\<exists>st. fs_fuse_lookup HN pid s (f_ino pf) n = Inr [Reply_entry k st]) \<longleftrightarrow> (f_ino pf, n, k) \<in> entries s) \<and>
    (fs_fuse_lookup HN pid s (f_ino pf) n = Inr [Reply_err ENOENT] \<longleftrightarrow> (\<forall>j. (f_ino pf, n, j) \<notin> entries s))"
proof (cases "name_fresh s (f_ino pf) n")
  case True
  then show ?thesis using lookup_wf(2)[OF assms True, of pid] by (simp add: name_fresh_entries)
next
  case False
  then obtain b g where g: "fs_heap s b = Some g" "f_dir g = f_ino pf" "f_name g = Some n"
    by (auto simp: name_fresh_def)
  note l = lookup_wf(1)[OF assms g, of pid]
  obtain dd where dd: "dir_ok HI HN s (f_ino pf) dd" using assms(3-5) by (rule fs_wf_dir)
  have "b' = b" if "fs_heap s b' = Some g'" "f_dir g' = f_ino pf" "f_name g' = Some n" for b' g'
    using that g dir_ok_find(2)[OF assms(1,2) dd, of n] by (metis option.inject)
  then have "(f_ino pf, n, k) \<in> entries s \<longleftrightarrow> f_ino g = k" for k
    using g by (auto simp: entries_iff)
  then show ?thesis using l by auto
qed

theorem fs_fuse_lookup_refines_witness:
  "(\<exists>st. fs_fuse_lookup alist_uthash 7 demo_file 2 ''f'' = Inr [Reply_entry 3 st]) \<and> fs_fuse_lookup alist_uthash 7 demo_file 2 ''g'' = Inr [Reply_err ENOENT]"
proof -
  obtain r d where d: "f_ino d = 2" "f_dir d = 1" "f_name d = Some ''d''" "f_type d = DIRECTORY" "f_dir r = 0"
    and h: "fs_heap demo_file = (\<lambda>_. None)(0 \<mapsto> r, 1 \<mapsto> d, 2 \<mapsto> created_file 3 2 ''f'' None Fs_libkernel_ops)"
    using demo_file(3) by blast
  have p: "fs_heap demo_file 1 = Some d" by (simp add: h)
  have "(2, ''f'', 3) \<in> entries demo_file" "\<forall>j. (2, ''g'', j) \<notin> entries demo_file"
    by (auto simp: entries_iff h d intro!: exI[of _ 2] split: if_splits)
  then show ?thesis
    using fs_fuse_lookup_refines[OF alist2 demo_wf(5) p d(4), of 7 "''f''" 3] fs_fuse_lookup_refines[OF alist2 demo_wf(5) p d(4), of 7 "''g''" 3] d(1) by simp
qed

text \<open>
  C22. \<open>fs_fuse_readdir\<close> on a directory sends a piece of the listing that has \<open>.\<close>, \<open>..\<close> and then one
  entry for each item of the directory.
\<close>

theorem fs_fuse_readdir_refines:
  assumes "uthash HI" and "uthash HN" and "fs_wf HI HN s is" and "fs_heap s p = Some pf"
    and "f_type pf = DIRECTORY" and "f_ops pf = Some Fs_dir_ops"
  shows "\<exists>es. set es = {(n, k). (f_ino pf, n, k) \<in> entries s} \<and> distinct es \<and>
    fs_fuse_readdir HI D s (f_ino pf) sz off =
      (let b = dirbuf_all D ((''.'', f_ino pf) # (''..'', f_dir pf) # es)
       in Inr [fsFuseReplyBufLimited b (of_nat (length b)) off sz])"
  using readdir_wf[OF assms] by metis

theorem fs_fuse_readdir_refines_witness:
  "\<exists>es. set es = {(n, k). (1, n, k) \<in> entries demo_root} \<and> distinct es \<and>
    fs_fuse_readdir alist_uthash \<lparr>de_size = length, de_pack = (\<lambda>n k off. n)\<rparr> demo_root 1 4096 0 =
      (let b = dirbuf_all \<lparr>de_size = length, de_pack = (\<lambda>n k off. n)\<rparr> ((''.'', 1) # (''..'', 0) # es)
       in Inr [fsFuseReplyBufLimited b (of_nat (length b)) 0 4096])"
proof -
  let ?r = "created_dir alist_uthash alist_uthash 1 0 ''.'' Fs_dir_ops :: ((fs_ino_t \<times> addr) list, (string \<times> addr) list) fs_file_t"
  have "fs_heap demo_root 0 = Some ?r" by (simp add: demo_root(4))
  from fs_fuse_readdir_refines[OF alist2 demo_wf(1) this,
      of "\<lparr>de_size = length, de_pack = (\<lambda>n k off. n)\<rparr>" 4096 0] show ?thesis by simp
qed

text \<open>
  Reading \<open>libkernel.so\<close> in pieces of any positive size, each where the last one ended, ends
  after finitely many requests and yields the decimal digits of the process id.
\<close>

theorem fs_fuse_read_libkernel:
  assumes "fs_wf HI HN s is" and "fs_heap s a = Some f" and "f_ops f = Some Fs_libkernel_ops"
    and "- (2 ^ 31) \<le> pid" and "pid < 2 ^ 31" and "0 < sz"
  shows "client_read (Suc (pidSize pid))
    (\<lambda>off. case fs_fuse_read pid s (f_ino f) sz off of Inr [r] \<Rightarrow> r | _ \<Rightarrow> Reply_err 5) 0 = Some (dec_int pid)"
proof -
  have len: "length (dec_int pid) < 2 ^ 64" using dec_int_length[OF assms(4,5)] by simp
  have "fs_fuse_read pid s (f_ino f) sz off =
      Inr [fsFuseReplyBufLimited (dec_int pid) (of_nat (length (dec_int pid))) off sz]" for off
    using file_ok_desc[OF assms(1,2)] assms(2,3) reply_buf_front[OF len, of "dec_int pid @ [NUL]" off sz]
    by (simp add: fs_fuse_read_def file_of_ino_def desc_of_ino_def file_ops_def ops_read_def
        fs_libkernel_read_def pidSize_def Let_def)
  then show ?thesis
    using client_read_from[OF len assms(6) refl, of 0 "Suc (pidSize pid)"] by (simp add: pidSize_def)
qed

theorem fs_fuse_read_libkernel_witness:
  "client_read 4 (\<lambda>off. case fs_fuse_read 123 demo_file 3 2 off of Inr [r] \<Rightarrow> r | _ \<Rightarrow> Reply_err 5) 0 = Some ''123''"
proof -
  let ?g = "created_file 3 2 ''f'' None Fs_libkernel_ops :: ((fs_ino_t \<times> addr) list, (string \<times> addr) list) fs_file_t"
  have "fs_heap demo_file 2 = Some ?g" using demo_file(3) by auto
  moreover have "dec_int 123 = ''123''" by code_simp
  ultimately show ?thesis
    using fs_fuse_read_libkernel[OF demo_wf(5), of 2 ?g 123 2] by (simp add: pidSize_def eval_nat_numeral)
qed

lemma free_chain_links:
  "free_chain t p is \<Longrightarrow> distinct is \<Longrightarrow> is \<noteq> [] \<Longrightarrow>
    (\<forall>k \<in> set (butlast is). id_next (t ! k) \<noteq> None) \<and> id_next (t ! last is) = None"
proof (induction t p "is" rule: free_chain.induct)
  case (2 t k j js)
  then show ?case
  proof (cases js)
    case (Cons i is')
    then have "free_chain t (id_next (t ! k)) (i # is')" using 2(2) by auto
    then have "id_next (t ! k) = Some i" by (rule free_chain_head)
    then show ?thesis using 2 Cons by auto
  qed (cases "id_next (t ! k)"; auto)
qed auto

text \<open>
  \<open>fs_fuse_getattr\<close> answers for every file with its attributes and for a free inode with \<open>ENOENT\<close>,
  with one exception: the last inode of the free list has no successor, looks allocated, and the
  request fails the assertion that it has a file. An inode outside the table fails one too.
\<close>

theorem fs_fuse_getattr_cases:
  assumes "fs_wf HI HN s is"
  shows "(\<forall>a f. fs_heap s a = Some f \<longrightarrow>
      fs_fuse_getattr pid s (f_ino f) = Inr [Reply_attr (ops_stat pid (the (f_ops f)) f stat_zero)]) \<and>
    (\<forall>k \<in> set (butlast is). fs_fuse_getattr pid s k = Inr [Reply_err ENOENT]) \<and>
    (is \<noteq> [] \<longrightarrow> ino_clean s (last is) \<longrightarrow> fs_fuse_getattr pid s (last is) = Inl Assert_failed) \<and>
    (\<forall>k \<ge> length (ino_table s). fs_fuse_getattr pid s k = Inl Assert_failed)"
proof (intro conjI allI ballI impI)
  have pool: "free_chain (ino_table s) (ino_freelist s) is" "distinct is" and num: "ino_num s = int (length (ino_table s))"
    using fs_wf_pool[OF assms] by (simp_all add: ino_pool_def)
  note bound = free_chain_bound[OF pool(1)] and links = free_chain_links[OF pool]
  show "fs_fuse_getattr pid s (f_ino f) = Inr [Reply_attr (ops_stat pid (the (f_ops f)) f stat_zero)]"
    if "fs_heap s a = Some f" for a f
    using file_ok_desc[OF assms that] that file_ok_ops[OF assms that] by (auto simp: fs_fuse_getattr_def)
  show "fs_fuse_getattr pid s k = Inr [Reply_err ENOENT]" if k: "k \<in> set (butlast is)" for k
  proof -
    have "k < length (ino_table s)" using bound in_set_butlastD[OF k] by blast
    moreover have "id_next (ino_table s ! k) \<noteq> None" using links k by fastforce
    ultimately show ?thesis using num by (simp add: fs_fuse_getattr_def ino2inodesc_def inodesc_at_def)
  qed
  show "fs_fuse_getattr pid s (last is) = Inl Assert_failed" if "is \<noteq> []" "ino_clean s (last is)"
    using links that num by (simp add: fs_fuse_getattr_def ino2inodesc_def inodesc_at_def ino_clean_def)
  show "fs_fuse_getattr pid s k = Inl Assert_failed" if "length (ino_table s) \<le> k" for k
    using that num by (simp add: fs_fuse_getattr_def ino2inodesc_def)
qed

theorem fs_fuse_getattr_cases_witness:
  "fs_fuse_getattr 7 demo_file 255 = Inl Assert_failed \<and> fs_fuse_getattr 7 demo_file 254 = Inr [Reply_err ENOENT]"
proof -
  have "ino_clean demo_file (last [4..<256])" using demo_file(2) by (simp add: pristine_def)
  moreover have "[4..<256] = [4..<255] @ [255::nat]" using upt_Suc_append[of 4 255] by simp
  then have "254 \<in> set (butlast [4..<256::nat])" by simp
  ultimately show ?thesis using fs_fuse_getattr_cases[OF demo_wf(5), of 7] by simp
qed

lemma duplicate_created:
  assumes H: "uthash HI" "uthash HN" and wf: "fs_wf HI HN s (k # is)" and clean: "ino_clean s k"
    and p: "fs_heap s p = Some pf" "f_type pf = DIRECTORY" "f_data pf = Data_dir dd"
    and fnd: "hash_find HN (nm_files dd) name = Some b" "\<And>c. hash_find HI (ino_files dd) k \<noteq> Some c"
  obtains s' where "fsCreatefile HI HN s (f_ino pf) name symlink ops = Inr (fs_brk s, s')"
    and "fs_heap s' = (fs_heap s)(fs_brk s \<mapsto> created_file k (f_ino pf) name symlink ops)"
    and "ino_table s' = (ino_table s)[k := \<lparr>id_file = Some (fs_brk s), id_next = None\<rparr>]" and "ino_num s' = ino_num s"
proof -
  let ?a = "fs_brk s" and ?g = "created_file k (f_ino pf) name symlink ops"
  obtain s1 where s1: "inoalloc s = Inr (k, s1)"
    and eq: "s1 = s\<lparr>ino_freelist := ino_freelist s1, ino_table := (ino_table s)[k := \<lparr>id_file = None, id_next = None\<rparr>],
               ino_numfree := ino_numfree s1\<rparr>"
    using fs_wf_pool[OF wf] clean by (rule inoalloc_pool)
  have fr: "ino_table s1 = (ino_table s)[k := \<lparr>id_file = None, id_next = None\<rparr>]"
      "fs_heap s1 = fs_heap s" "fs_brk s1 = fs_brk s" "ino_num s1 = ino_num s"
    by (subst eq, simp)+
  have k: "k < length (ino_table s)" using clean by (simp add: ino_clean_def)
  note d = file_ok_desc[OF wf p(1)] and num = fs_wf_ino_num[OF wf]
  have pk: "f_ino pf \<noteq> k" "f_ino pf < length (ino_table s)" "f_ino pf \<noteq> 0"
    using file_ok_ino[OF fs_wf_file[OF wf p(1)]] by auto
  have ne: "p \<noteq> ?a" using brk_unused[OF wf] p(1) by auto
  have "parent_file s1 (f_ino pf) = Inr p"
    using d p pk num by (intro parent_fileI) (simp_all add: fr)
  moreover have "dir_add HI HN (snd (file_new s1 ?g)) p ?a = Inr (False, snd (file_new s1 ?g))"
    using p ne fnd by (auto simp: dir_add_def file_new_def fr dir_data_def)
  ultimately have "fsCreatefile HI HN s (f_ino pf) name symlink ops = Inr (?a, set_id_file (snd (file_new s1 ?g)) k ?a)"
    using s1 k num pk(3)
    by (cases symlink) (simp_all add: fsCreatefile_def ino2inodesc_def inodesc_at_def fr INVALID_INO_def
        created_file_def Let_def file_new_def)
  then show thesis using that k by (simp add: set_id_file_def file_new_def fr)
qed

text \<open>
  \<open>fsCreatefile\<close> ignores that \<open>dir_add\<close> refuses a name that exists already: it returns a new
  file that the directory does not list, a lookup still finds the old one, and removing the new file
  fails an assertion.
\<close>

theorem fsCreatefile_duplicate:
  assumes "uthash HI" and "uthash HN" and "fs_wf HI HN s (k # is)" and "ino_clean s k" and "k \<noteq> ROOT_INO"
    and "fs_heap s p = Some pf" and "f_type pf = DIRECTORY"
    and "fs_heap s b = Some h" and "f_dir h = f_ino pf" and "f_name h = Some name"
  shows "\<exists>s'. fsCreatefile HI HN s (f_ino pf) name symlink ops = Inr (fs_brk s, s') \<and>
    fs_fuse_lookup HN pid s' (f_ino pf) name = fs_fuse_lookup HN pid s (f_ino pf) name \<and>
    fsRemoveitem HI HN s' (fs_brk s) purge = Inl Assert_failed"
proof -
  note wf = assms(3) and p = assms(6,7) and h = assms(8-10)
  let ?a = "fs_brk s" and ?g = "created_file k (f_ino pf) name symlink ops"
  note d = file_ok_desc[OF wf p(1)] and num = fs_wf_ino_num[OF wf]
  have pk: "f_ino pf \<noteq> k" "f_ino pf < length (ino_table s)" "f_ino pf \<noteq> 0"
    using file_ok_ino[OF fs_wf_file[OF wf p(1)]] by auto
  have ne: "p \<noteq> ?a" "b \<noteq> ?a" using brk_unused[OF wf] p h by auto
  obtain dd where dd: "f_data pf = Data_dir dd" "dir_ok HI HN s (f_ino pf) dd" using wf p by (rule fs_wf_dir)
  have fN: "hash_find HN (nm_files dd) name = Some b" using dir_ok_find(2)[OF assms(1,2) dd(2)] h by simp
  have fI: "hash_find HI (ino_files dd) k \<noteq> Some c" for c
    using dir_ok_find(1)[OF assms(1,2) dd(2), of k c] fs_wf_file[OF wf, THEN file_ok_ino] by fastforce
  obtain s' where s': "fsCreatefile HI HN s (f_ino pf) name symlink ops = Inr (?a, s')"
    "fs_heap s' = (fs_heap s)(?a \<mapsto> ?g)" "ino_table s' = (ino_table s)[k := \<lparr>id_file = Some ?a, id_next = None\<rparr>]" "ino_num s' = ino_num s"
    by (rule duplicate_created[OF assms(1-4) p dd(1) fN fI])
  have "fs_fuse_lookup HN pid s' (f_ino pf) name = fs_fuse_lookup HN pid s (f_ino pf) name"
    using d p pk dd(1) fN h ne num
    by (simp add: fs_fuse_lookup_def ino2inodesc_def inodesc_at_def s'(2-4) dir_data_def)
  moreover have "fsRemoveitem HI HN s' ?a purge = Inl Assert_failed"
  proof -
    have cnt: "hash_count HI (ino_files dd) = hash_count HN (nm_files dd)" "hash_count HI (ino_files dd) \<noteq> 0"
      using dir_ok_ino_count[OF assms(1) dd(2)] dir_ok_name_count[OF assms(2) wf dd(2)]
        dir_ok_empty[OF assms(1) dd(2)] h by (auto simp: has_child_def)
    have "containing_dir s' ?g = Inr p"
      using d p pk num ne by (simp add: containing_dir_def ino2inodesc_def inodesc_at_def s'(2-4))
    then have "remove_check HI HN s' ?g = Inr (Some (Some p))"
      using assms(5) pk(3) by (simp add: remove_check_def INVALID_INO_def)
    moreover have "remove_unlink HI HN s' p ?a ?g = Inl Assert_failed"
      using p ne cnt fI dd(1) by (simp add: remove_unlink_def s'(2) dir_data_def)
    ultimately show ?thesis by (simp add: fsRemoveitem_def fsRemoveitem_step_def file_get_def s'(2))
  qed
  ultimately show ?thesis using s'(1) by blast
qed

theorem fsCreatefile_duplicate_witness:
  "\<exists>s'. fsCreatefile alist_uthash alist_uthash demo_dir 1 ''d'' None Fs_libkernel_ops = Inr (2, s') \<and>
    fsRemoveitem alist_uthash alist_uthash s' 2 False = Inl Assert_failed"
proof -
  let ?d = "created_dir alist_uthash alist_uthash 2 1 ''d'' Fs_dir_ops :: ((fs_ino_t \<times> addr) list, (string \<times> addr) list) fs_file_t"
  obtain r where r: "f_ino r = 1" "f_type r = DIRECTORY" and h: "fs_heap demo_dir = (\<lambda>_. None)(0 \<mapsto> r, 1 \<mapsto> ?d)"
    using demo_dir(4) by blast
  have "fs_heap demo_dir 0 = Some r" "fs_heap demo_dir 1 = Some ?d" by (simp_all add: h)
  with fsCreatefile_duplicate[OF alist2 demo_wf(3,4) _ _ r(2), of 0 1 ?d "''d''" None Fs_libkernel_ops 7 False] r
  show ?thesis by (auto simp: ROOT_INO_def demo_dir(3))
qed

text \<open>
  The inode table is a stack: an inode that is given back is the next one handed out, and the
  free inodes are then as before.
\<close>

theorem inofree_inoalloc:
  assumes "ino_pool s is" and "k < length (ino_table s)" and "k \<notin> set is" and "ino_clean s k"
  shows "\<exists>s' s''. inofree s k = Inr s' \<and> inoalloc s' = Inr (k, s'') \<and> ino_pool s'' is"
  using assms by (rule fs_ino.give_take)

theorem inofree_inoalloc_witness:
  "\<exists>s' s''. inofree demo_root 0 = Inr s' \<and> inoalloc s' = Inr (0, s'') \<and> ino_pool s'' (2 # [3..<256])"
proof -
  have "ino_pool demo_root (2 # [3..<256])" "0 < length (ino_table demo_root)" "0 \<notin> set (2 # [3..<256::nat])" "ino_clean demo_root 0"
    using demo_wf(1) demo_root(2) by (auto simp: fs_wf_def pristine_def)
  then show ?thesis by (rule inofree_inoalloc)
qed

end
