(* ===== verification/Kld_Objects.thy ===== *)
theory Kld_Objects
  imports Clib Uthash Fs_Mount
begin

text \<open>
  The command line of \<open>kld\<close> and its table of binary objects (\<open>main.c\<close>, \<open>globals.h\<close>): the search
  directories, the specifications \<open>kofile[,modnm[,kldopts]]\<close>, opening the kernel object and the
  shared object of each, and releasing them.

  The file system and the descriptors of the process are explicit: \<open>os_env\<close> says which paths can be
  opened and what \<open>realpath\<close> returns, \<open>fds\<close> are the open descriptors, and a new one is the smallest
  that is free. Strings are values, so that \<open>strdup\<close> and \<open>free\<close> do not show.
\<close>

section \<open>Operating system\<close>

record os_env =
  os_rd :: "string \<Rightarrow> bool"
  os_wr :: "string \<Rightarrow> bool"
  os_realpath :: "string \<Rightarrow> string option"
  os_isdir :: "string \<Rightarrow> bool"

definition new_fd :: "int list \<Rightarrow> int" where
  "new_fd fds = (case filter (\<lambda>n. int n \<notin> set fds) [0..<Suc (length fds)] of [] \<Rightarrow> 0 | n # _ \<Rightarrow> int n)"

definition close_fd :: "int \<Rightarrow> int list \<Rightarrow> int list" where
  "close_fd fd fds = filter (\<lambda>x. x \<noteq> fd) fds"

section \<open>Data\<close>

definition KLDOPTS_DFLT :: string where "KLDOPTS_DFLT = ''EXCLUSIVE''"
definition FSNAME_DFLT :: string where "FSNAME_DFLT = ''libk''"
definition PATHPREFIX_DFLT :: string where "PATHPREFIX_DFLT = ''libk''"
definition KOTBL_DFLT :: string where "KOTBL_DFLT = ''kotbl.bin''"

record bo_t =
  bo_kofnm :: string
  bo_sofnm :: "string option"
  bo_modnm :: string
  bo_kldopts :: string
  bo_kofd :: int
  bo_sofd :: int

text \<open>
  The globals that the command line sets. \<open>bos\<close> is the hash table of objects by file name; its
  values are indices into \<open>bo_heap\<close>, the objects in the order of their allocation.
\<close>

record 'b globals_t =
  g_cwd :: string
  g_bos :: 'b
  g_bo_heap :: "bo_t list"
  g_executable :: "string option"
  g_dirs :: "string list"
  g_dirmax :: nat
  g_verbose :: nat
  g_startfs :: bool
  g_prockallsyms :: bool
  g_procbos :: bool

type_synonym 'b bo_hash = "(string, nat, 'b) uthash_ops"

section \<open>Finding and opening the objects\<close>

text \<open>
  The loop of \<open>openko\<close>. Without a search directory \<open>fd\<close> is read without ever having been set.
\<close>

primrec openko_loop :: "os_env \<Rightarrow> string \<Rightarrow> string list \<Rightarrow> string option" where
  "openko_loop E kofnm [] = None"
| "openko_loop E kofnm (d # ds) =
     (let fullpath = snprintf PATH_MAX (d @ ''/'' @ kofnm)
      in if os_rd E fullpath then Some fullpath else openko_loop E kofnm ds)"

definition openko :: "os_env \<Rightarrow> string list \<Rightarrow> int list \<Rightarrow> string \<Rightarrow> (int \<times> string option \<times> int list) res" where
  "openko E dirs fds kofnm =
     (if dirs = [] then Inl Uninit_read
      else case openko_loop E kofnm dirs of
        None \<Rightarrow> Inr (-1, None, fds)
      | Some fullpath \<Rightarrow> Inr (new_fd fds, os_realpath E fullpath, new_fd fds # fds))"

definition openso :: "os_env \<Rightarrow> int list \<Rightarrow> string option \<Rightarrow> string option \<Rightarrow> int \<times> string option \<times> int list" where
  "openso E fds kofnm modnm =
     (case (kofnm, modnm) of
        (Some ko, Some mn) \<Rightarrow>
          let fullpath = snprintf PATH_MAX (dirname ko @ ''/lib'' @ mn @ ''.so'')
          in if os_wr E fullpath then (new_fd fds, Some fullpath, new_fd fds # fds) else (-1, None, fds)
      | _ \<Rightarrow> (-1, None, fds))"

definition modnmfromfnm :: "string \<Rightarrow> string" where
  "modnmfromfnm fnm =
     (let base = basename fnm; i = length base
      in if 3 < i \<and> base ! (i - 3) = CHR ''.'' \<and> base ! (i - 2) = CHR ''k'' \<and> base ! (i - 1) = CHR ''o''
         then take (i - 3) base else base)"

text \<open>
  The loop of \<open>parsekospec\<close> over the copy \<open>tmp\<close>: commas become NUL, \<open>n\<close> and \<open>o\<close> are the offsets
  recorded after the first and the second one. The result is the number of commas, the offsets and the
  changed copy; a third comma is an error.
\<close>

function kospec_loop :: "char list \<Rightarrow> nat \<Rightarrow> nat \<Rightarrow> nat option \<Rightarrow> nat option \<Rightarrow>
    (nat \<times> nat option \<times> nat option \<times> char list) option" where
  "kospec_loop tmp i commas n ko =
     (if length tmp \<le> i then Some (commas, n, ko, tmp)
      else if tmp ! i = CHR '',''
      then if commas = 0 then kospec_loop (tmp[i := NUL]) (i + 1) 1 (Some (i + 1)) ko
           else if commas = 1 then kospec_loop (tmp[i := NUL]) (i + 1) 2 n (Some (i + 1))
           else None
      else kospec_loop tmp (i + 1) commas n ko)"
  by pat_completeness auto
termination
  by (relation "measure (\<lambda>(tmp, i, _). length tmp - i)") auto

declare kospec_loop.simps [simp del]

text \<open>Result: the file name, the kld options and the module name; \<open>None\<close> for the error.\<close>

definition parsekospec :: "string \<Rightarrow> (string \<times> string \<times> string) option" where
  "parsekospec kospec =
     (case kospec_loop kospec 0 0 None None of
        None \<Rightarrow> None
      | Some (commas, n, ko, tmp) \<Rightarrow>
          let f = cstr tmp;
              modnm = (case n of None \<Rightarrow> modnmfromfnm f
                       | Some j \<Rightarrow> if cstr_at tmp j = [] then modnmfromfnm f else cstr_at tmp j);
              kldopts = (case ko of None \<Rightarrow> KLDOPTS_DFLT
                         | Some j \<Rightarrow> if cstr_at tmp j = [] then KLDOPTS_DFLT else cstr_at tmp j)
          in Some (f, kldopts, modnm))"

definition newbo :: "string \<Rightarrow> string \<Rightarrow> string \<Rightarrow> int \<Rightarrow> string option \<Rightarrow> int \<Rightarrow> bo_t" where
  "newbo kofullpath modnm kldopts kofd sofullpath sofd =
     \<lparr>bo_kofnm = kofullpath, bo_sofnm = sofullpath, bo_modnm = modnm, bo_kldopts = kldopts,
      bo_kofd = kofd, bo_sofd = sofd\<rparr>"

text \<open>
  \<open>addbo\<close>. A NULL \<open>kofullpath\<close> (from \<open>realpath\<close>) makes \<open>openso\<close> fail. The last lines close what was
  opened when the result is an error.
\<close>

definition addbo_done :: "int \<Rightarrow> int \<Rightarrow> int \<Rightarrow> int list \<Rightarrow> int list" where
  "addbo_done rc kofd sofd fds =
     (let fds = (if rc < 0 \<and> kofd \<noteq> -1 then close_fd kofd fds else fds)
      in if rc < 0 \<and> sofd \<noteq> -1 then close_fd sofd fds else fds)"

definition addbo ::
  "'b bo_hash \<Rightarrow> os_env \<Rightarrow> 'b globals_t \<Rightarrow> int list \<Rightarrow> string \<Rightarrow> (int \<times> 'b globals_t \<times> int list) res" where
  "addbo H E G fds kospec =
     (case parsekospec kospec of
        None \<Rightarrow> Inr (-1, G, addbo_done (-1) (-1) (-1) fds)
      | Some (kofnm, kldopts, modnm) \<Rightarrow>
          rbind (openko E (g_dirs G) fds kofnm) (\<lambda>(kofd, kofullpath, fds).
          if kofd < 0 then Inr (-1, G, addbo_done (-1) kofd (-1) fds)
          else let (sofd, sofullpath, fds) = openso E fds kofullpath (Some modnm)
            in if sofd < 0 then Inr (-1, G, addbo_done (-1) kofd sofd fds)
               else if hash_find H (g_bos G) (the kofullpath) \<noteq> None
               then Inr (-1, G, addbo_done (-1) kofd sofd fds)
               else let bo = newbo (the kofullpath) modnm kldopts kofd sofullpath sofd
                 in Inr (0, G\<lparr>g_bos := hash_add H (g_bos G) (bo_kofnm bo) (length (g_bo_heap G)),
                              g_bo_heap := g_bo_heap G @ [bo]\<rparr>, addbo_done 0 kofd sofd fds)))"

text \<open>\<open>addDir\<close>: the array is grown when it is full; the store must lie inside it.\<close>

definition addDir :: "os_env \<Rightarrow> 'b globals_t \<Rightarrow> string \<Rightarrow> (int \<times> 'b globals_t) res" where
  "addDir E G dir =
     (if os_isdir E dir
      then let G = (if length (g_dirs G) = g_dirmax G
                    then G\<lparr>g_dirmax := (if g_dirmax G \<noteq> 0 then 2 * g_dirmax G else 256)\<rparr> else G)
           in if g_dirmax G \<le> length (g_dirs G) then Inl Out_of_bounds
              else let G = G\<lparr>g_dirs := g_dirs G @ [dir]\<rparr> in Inr (int (length (g_dirs G)), G)
      else Inr (-1, G))"

section \<open>The command line\<close>

text \<open>What \<open>getopt\<close> returns for \<open>K:k:Nhv\<close>; anything else is \<open>Opt_unknown\<close>.\<close>

datatype opt = Opt_K string | Opt_k string | Opt_N | Opt_h | Opt_v | Opt_unknown

text \<open>The option loop; \<open>False\<close> when the usage is printed and -1 returned.\<close>

fun opt_loop :: "os_env \<Rightarrow> opt list \<Rightarrow> 'b globals_t \<Rightarrow> string list \<Rightarrow> (bool \<times> 'b globals_t \<times> string list) res" where
  "opt_loop E [] G kospec = Inr (True, G, kospec)"
| "opt_loop E (Opt_K dir # opts) G kospec = rbind (addDir E G dir) (\<lambda>(_, G). opt_loop E opts G kospec)"
| "opt_loop E (Opt_k ko # opts) G kospec = opt_loop E opts G (kospec @ [ko])"
| "opt_loop E (Opt_N # opts) G kospec = opt_loop E opts (G\<lparr>g_prockallsyms := False\<rparr>) kospec"
| "opt_loop E (Opt_v # opts) G kospec = opt_loop E opts (G\<lparr>g_verbose := g_verbose G + 1\<rparr>) kospec"
| "opt_loop E (Opt_h # opts) G kospec = Inr (False, G, kospec)"
| "opt_loop E (Opt_unknown # opts) G kospec = Inr (False, G, kospec)"

primrec addbos :: "'b bo_hash \<Rightarrow> os_env \<Rightarrow> string list \<Rightarrow> 'b globals_t \<Rightarrow> int list \<Rightarrow> (int \<times> 'b globals_t \<times> int list) res" where
  "addbos H E [] G fds = Inr (0, G, fds)"
| "addbos H E (ko # kos) G fds =
     rbind (addbo H E G fds ko) (\<lambda>(rc, G, fds). if rc < 0 then Inr (-1, G, fds) else addbos H E kos G fds)"

text \<open>
  \<open>GBLSInit_args\<close>: \<open>cwd\<close> is the result of \<open>getcwd\<close>, \<open>opts\<close> what \<open>getopt\<close> returns and \<open>args\<close> the other
  arguments. The file system object and the signal processor are initialised separately.
\<close>

definition GBLSInit_args ::
  "'b bo_hash \<Rightarrow> os_env \<Rightarrow> string option \<Rightarrow> opt list \<Rightarrow> string list \<Rightarrow> 'b globals_t \<Rightarrow> int list \<Rightarrow>
   (int \<times> 'b globals_t \<times> int list) res" where
  "GBLSInit_args H E cwd opts args G fds =
     (case cwd of
        None \<Rightarrow> Inr (-1, G, fds)
      | Some c \<Rightarrow>
          rbind (addDir E (G\<lparr>g_cwd := c\<rparr>) c) (\<lambda>(_, G).
          rbind (opt_loop E opts G []) (\<lambda>(ok, G, kospec).
          if \<not> ok then Inr (-1, G, fds)
          else rbind (addbos H E kospec G fds) (\<lambda>(rc, G, fds).
               if rc < 0 then Inr (-1, G, fds)
               else Inr (0, (case args of [] \<Rightarrow> G | a # _ \<Rightarrow> G\<lparr>g_executable := Some a\<rparr>), fds)))))"

text \<open>
  What this does to the files: \<open>openso\<close> creates or truncates the shared object of each specification that gets that far, also when \<open>addbo\<close>
  fails after it because the kernel object was named before. \<open>file\<close> is the file that a path leads to.
\<close>

definition addbo_files :: "(string \<Rightarrow> string) \<Rightarrow> os_env \<Rightarrow> 'b globals_t \<Rightarrow> int list \<Rightarrow> string \<Rightarrow> files \<Rightarrow> files" where
  "addbo_files file E G fds kospec fs =
     (case parsekospec kospec of
        None \<Rightarrow> fs
      | Some (kofnm, kldopts, modnm) \<Rightarrow>
          (case openko E (g_dirs G) fds kofnm of
             Inl _ \<Rightarrow> fs
           | Inr (kofd, kofullpath, fds) \<Rightarrow>
               if kofd < 0 then fs
               else (case openso E fds kofullpath (Some modnm) of
                       (_, None, _) \<Rightarrow> fs
                     | (_, Some sofullpath, _) \<Rightarrow> creat file sofullpath fs)))"

primrec addbos_files :: "(string \<Rightarrow> string) \<Rightarrow> 'b bo_hash \<Rightarrow> os_env \<Rightarrow> string list \<Rightarrow> 'b globals_t \<Rightarrow> int list \<Rightarrow> files \<Rightarrow> files" where
  "addbos_files file H E [] G fds fs = fs"
| "addbos_files file H E (ko # kos) G fds fs =
     (let fs = addbo_files file E G fds ko fs
      in case addbo H E G fds ko of
           Inl _ \<Rightarrow> fs
         | Inr (rc, G, fds) \<Rightarrow> if rc < 0 then fs else addbos_files file H E kos G fds fs)"

definition GBLSInit_files ::
  "(string \<Rightarrow> string) \<Rightarrow> 'b bo_hash \<Rightarrow> os_env \<Rightarrow> string option \<Rightarrow> opt list \<Rightarrow> 'b globals_t \<Rightarrow> int list \<Rightarrow> files \<Rightarrow> files" where
  "GBLSInit_files file H E cwd opts G fds fs =
     (case cwd of
        None \<Rightarrow> fs
      | Some c \<Rightarrow>
          (case addDir E (G\<lparr>g_cwd := c\<rparr>) c of
             Inl _ \<Rightarrow> fs
           | Inr (_, G) \<Rightarrow>
               (case opt_loop E opts G [] of
                  Inl _ \<Rightarrow> fs
                | Inr (ok, G, kospec) \<Rightarrow> if ok then addbos_files file H E kospec G fds fs else fs)))"

section \<open>Releasing\<close>

definition deletebo :: "bo_t \<Rightarrow> int list \<Rightarrow> int list" where
  "deletebo bo fds =
     (let fds = (if 0 \<le> bo_kofd bo then close_fd (bo_kofd bo) fds else fds)
      in if 0 \<le> bo_sofd bo then close_fd (bo_sofd bo) fds else fds)"

text \<open>\<open>HASH_ITER\<close> with \<open>HASH_DEL\<close> of each item; \<open>cleanup\<close> then stores NULL.\<close>

definition bosCleanup :: "'b bo_hash \<Rightarrow> 'b globals_t \<Rightarrow> int list \<Rightarrow> 'b globals_t \<times> int list" where
  "bosCleanup H G fds =
     (G\<lparr>g_bos := hash_null H\<rparr>,
      foldl (\<lambda>fds p. deletebo (g_bo_heap G ! snd p) fds) fds (hash_iter H (g_bos G)))"

definition cleanup_bos :: "'b bo_hash \<Rightarrow> 'b globals_t \<Rightarrow> int list \<Rightarrow> 'b globals_t \<times> int list" where
  "cleanup_bos H G fds =
     (let (G, fds) = (if hash_count H (g_bos G) \<noteq> 0 then bosCleanup H G fds else (G, fds))
      in (G\<lparr>g_dirs := [], g_dirmax := 0\<rparr>, fds))"

section \<open>Kernel object specifications\<close>

abbreviation comma :: char where "comma \<equiv> CHR '',''"

lemma kospec_skip:
  "comma \<notin> set f \<Longrightarrow>
    kospec_loop (pre @ f @ r) (length pre) c n ko = kospec_loop (pre @ f @ r) (length pre + length f) c n ko"
proof (induction f arbitrary: pre)
  case (Cons x f)
  have "kospec_loop (pre @ (x # f) @ r) (length pre) c n ko =
      kospec_loop (pre @ (x # f) @ r) (length pre + 1) c n ko"
    using Cons.prems by (subst kospec_loop.simps) (auto simp: nth_append)
  also have "\<dots> = kospec_loop ((pre @ [x]) @ f @ r) (length (pre @ [x])) c n ko" by simp
  also have "\<dots> = kospec_loop ((pre @ [x]) @ f @ r) (length (pre @ [x]) + length f) c n ko"
    using Cons.prems by (intro Cons.IH) simp
  finally show ?case by simp
qed simp

lemma kospec_last:
  assumes "comma \<notin> set f"
  shows "kospec_loop (pre @ f) (length pre) c n ko = Some (c, n, ko, pre @ f)"
  using kospec_skip[OF assms, of pre "[]" c n ko] by (subst (asm) (2) kospec_loop.simps) simp

lemma kospec_comma:
  assumes "comma \<notin> set f"
  shows "kospec_loop (pre @ f @ comma # r) (length pre) c n ko =
    (if c = 0 then kospec_loop ((pre @ f @ [NUL]) @ r) (length (pre @ f @ [NUL])) 1 (Some (length (pre @ f @ [NUL]))) ko
     else if c = 1 then kospec_loop ((pre @ f @ [NUL]) @ r) (length (pre @ f @ [NUL])) 2 n (Some (length (pre @ f @ [NUL])))
     else None)"
proof -
  have "(pre @ f @ comma # r)[length pre + length f := NUL] = (pre @ f @ [NUL]) @ r"
    by (simp add: list_update_append)
  then show ?thesis
    using kospec_skip[OF assms, of pre "comma # r" c n ko]
    by (subst (asm) (2) kospec_loop.simps) (simp add: nth_append)
qed

lemma cstr_at_append: "cstr_at (pre @ s) (length pre) = cstr s"
  by (simp add: cstr_at_def)

text \<open>
  \<open>parsekospec\<close> splits a specification at its commas into file, module name and options, with the
  defaults for what is missing or empty, and rejects a third comma.
\<close>

theorem parsekospec_splits:
  assumes "comma \<notin> set f" and "comma \<notin> set m" and "comma \<notin> set p"
    and "NUL \<notin> set f" and "NUL \<notin> set m" and "NUL \<notin> set p"
  shows "parsekospec f = Some (f, KLDOPTS_DFLT, modnmfromfnm f) \<and>
    parsekospec (f @ comma # m) = Some (f, KLDOPTS_DFLT, if m = [] then modnmfromfnm f else m) \<and>
    parsekospec (f @ comma # m @ comma # p) =
      Some (f, if p = [] then KLDOPTS_DFLT else p, if m = [] then modnmfromfnm f else m) \<and>
    parsekospec (f @ comma # m @ comma # p @ comma # r) = None"
proof (intro conjI)
  note c1 = kospec_comma[OF assms(1), of "[]", simplified]
    and c2 = kospec_comma[OF assms(2), of "f @ [NUL]", simplified]
    and c3 = kospec_comma[OF assms(3), of "f @ NUL # m @ [NUL]", simplified]
    and l1 = kospec_last[OF assms(1), of "[]", simplified]
    and l2 = kospec_last[OF assms(2), of "f @ [NUL]", simplified]
    and l3 = kospec_last[OF assms(3), of "f @ NUL # m @ [NUL]", simplified]
  have f: "cstr (f @ NUL # x) = f" for x using assms(4) by (rule cstr_terminated)
  have m: "cstr_at (f @ NUL # m @ x) (Suc (length f)) = cstr (m @ x)" for x
    using cstr_at_append[of "f @ [NUL]" "m @ x"] by simp
  have p: "cstr_at (f @ NUL # m @ NUL # p) (Suc (Suc (length f + length m))) = p"
    using cstr_at_append[of "f @ NUL # m @ [NUL]" p] assms(6) by simp
  show "parsekospec f = Some (f, KLDOPTS_DFLT, modnmfromfnm f)"
    using assms(4) by (simp add: parsekospec_def l1 Let_def)
  show "parsekospec (f @ comma # m) = Some (f, KLDOPTS_DFLT, if m = [] then modnmfromfnm f else m)"
    using m[of "[]"] assms(5) by (simp add: parsekospec_def c1 l2 f Let_def)
  show "parsekospec (f @ comma # m @ comma # p) =
      Some (f, if p = [] then KLDOPTS_DFLT else p, if m = [] then modnmfromfnm f else m)"
    using m[of "NUL # p"] p assms(5) by (simp add: parsekospec_def c1 c2 l3 f Let_def cstr_terminated)
  show "parsekospec (f @ comma # m @ comma # p @ comma # r) = None"
    by (simp add: parsekospec_def c1 c2 c3)
qed

theorem parsekospec_splits_witness:
  "parsekospec ''a.ko,,fast'' = Some (''a.ko'', ''fast'', ''a'') \<and> parsekospec ''a,b,c,d'' = None"
proof -
  have "modnmfromfnm ''a.ko'' = ''a''" by code_simp
  then show ?thesis
    using parsekospec_splits[of "''a.ko''" "[]" "''fast''" "[]"] parsekospec_splits[of "''a''" "''b''" "''c''" "''d''"] by simp
qed

section \<open>Descriptors\<close>

lemma new_fd_fresh: "new_fd fds \<notin> set fds" and new_fd_nonneg: "0 \<le> new_fd fds"
proof -
  let ?c = "filter (\<lambda>n. int n \<notin> set fds) [0..<Suc (length fds)]"
  have "?c \<noteq> []"
  proof
    assume "?c = []"
    then have "int ` {0..<Suc (length fds)} \<subseteq> set fds" by (auto simp: filter_empty_conv simp del: upt_Suc)
    then have "card (int ` {0..<Suc (length fds)}) \<le> card (set fds)" by (intro card_mono) simp_all
    moreover have "card (int ` {0..<Suc (length fds)}) = Suc (length fds)" by (simp add: card_image)
    ultimately show False using card_length[of fds] by simp
  qed
  then obtain n ns where c: "?c = n # ns" by (cases ?c) auto
  then have "n \<in> set ?c" by (simp del: upt_Suc)
  then have "int n \<notin> set fds" by (simp del: upt_Suc)
  then show "new_fd fds \<notin> set fds" "0 \<le> new_fd fds" using c by (simp_all add: new_fd_def del: upt_Suc)
qed

lemma close_fd_Cons: "x \<notin> set fds \<Longrightarrow> close_fd x (x # fds) = fds"
  by (auto simp: close_fd_def intro: filter_True)

lemma close_fd_Cons_other: "y \<noteq> x \<Longrightarrow> close_fd x (y # fds) = y # close_fd x fds"
  by (simp add: close_fd_def)

text \<open>What a successful \<open>addbo\<close> changes.\<close>

definition bo_added :: "'b bo_hash \<Rightarrow> 'b globals_t \<Rightarrow> int list \<Rightarrow> 'b globals_t \<Rightarrow> int list \<Rightarrow> bool" where
  "bo_added H G fds G' fds' \<longleftrightarrow>
     (\<exists>bo. fds' = bo_sofd bo # bo_kofd bo # fds \<and> distinct [bo_sofd bo, bo_kofd bo] \<and>
        {bo_sofd bo, bo_kofd bo} \<inter> set fds = {} \<and> 0 \<le> bo_kofd bo \<and> 0 \<le> bo_sofd bo \<and>
        hash_find H (g_bos G) (bo_kofnm bo) = None \<and>
        G' = G\<lparr>g_bos := hash_add H (g_bos G) (bo_kofnm bo) (length (g_bo_heap G)),
               g_bo_heap := g_bo_heap G @ [bo]\<rparr>)"

lemma openso_cases:
  assumes "openso E fds ko (Some m) = (sofd, sf, fds2)"
  shows "sofd = -1 \<and> fds2 = fds \<or> sofd = new_fd fds \<and> fds2 = new_fd fds # fds \<and> (\<exists>kp. ko = Some kp)"
proof (cases ko)
  case (Some kp)
  let ?p = "snprintf PATH_MAX (dirname kp @ ''/lib'' @ m @ ''.so'')"
  show ?thesis using assms Some by (cases "os_wr E ?p") (auto simp: openso_def Let_def)
qed (use assms in \<open>simp add: openso_def\<close>)

lemma addbo_cases:
  assumes "addbo H E G fds kospec = Inr (rc, G', fds')"
  shows "rc = -1 \<and> G' = G \<and> fds' = fds \<or> rc = 0 \<and> bo_added H G fds G' fds'"
proof (cases "parsekospec kospec")
  case None
  then show ?thesis using assms by (auto simp: addbo_def addbo_done_def)
next
  case (Some fkm)
  obtain f k m where fkm: "fkm = (f, k, m)" by (cases fkm)
  show ?thesis
  proof (cases "openko_loop E f (g_dirs G)")
    case None
    then show ?thesis using assms Some fkm
      by (auto simp: addbo_def openko_def addbo_done_def split: if_splits)
  next
    case kl: (Some path)
    let ?k = "new_fd fds" and ?s = "new_fd (new_fd fds # fds)"
    note nk = new_fd_fresh[of fds] new_fd_nonneg[of fds]
      and ns = new_fd_fresh[of "new_fd fds # fds"] new_fd_nonneg[of "new_fd fds # fds"]
    have ne: "g_dirs G \<noteq> []" using kl by auto
    have ko: "openko E (g_dirs G) fds f = Inr (?k, os_realpath E path, ?k # fds)"
      using kl ne by (simp add: openko_def)
    have cl: "close_fd ?k (?k # fds) = fds" "close_fd ?s (close_fd ?k (?s # ?k # fds)) = fds"
      using nk ns by (simp_all add: close_fd_Cons close_fd_Cons_other)
    obtain sofd sofull fds2 where so: "openso E (?k # fds) (os_realpath E path) (Some m) = (sofd, sofull, fds2)"
      by (rule prod_cases3)
    consider "sofd = -1" "fds2 = ?k # fds" | kp where "sofd = ?s" "fds2 = ?s # ?k # fds" "os_realpath E path = Some kp"
      using openso_cases[OF so] by blast
    then show ?thesis
    proof cases
      case 1
      then show ?thesis using assms Some fkm ko so nk cl by (simp add: addbo_def addbo_done_def)
    next
      case 2
      have eq: "addbo H E G fds kospec =
         (if hash_find H (g_bos G) kp \<noteq> None then Inr (-1, G, fds)
          else let bo = newbo kp m k ?k sofull ?s
            in Inr (0, G\<lparr>g_bos := hash_add H (g_bos G) kp (length (g_bo_heap G)),
                         g_bo_heap := g_bo_heap G @ [bo]\<rparr>, ?s # ?k # fds))"
        using Some fkm ko so nk ns 2 cl by (simp add: addbo_def addbo_done_def newbo_def Let_def)
      show ?thesis
      proof (cases "hash_find H (g_bos G) kp")
        case None
        let ?bo = "newbo kp m k ?k sofull ?s"
        have "bo_added H G fds (G\<lparr>g_bos := hash_add H (g_bos G) kp (length (g_bo_heap G)),
            g_bo_heap := g_bo_heap G @ [?bo]\<rparr>) (?s # ?k # fds)"
          unfolding bo_added_def using nk ns None by (intro exI[of _ ?bo]) (simp add: newbo_def)
        then show ?thesis using assms None unfolding eq by (simp add: Let_def)
      qed (use assms eq in simp)
    qed
  qed
qed

text \<open>
  C24. \<open>addbo\<close> either fails and leaves the table of objects and the open descriptors exactly as they
  were, or adds one object under a new name that owns two new descriptors.
\<close>

theorem addbo_atomic:
  assumes "addbo H E G fds kospec = Inr (rc, G', fds')"
  shows "rc = -1 \<and> G' = G \<and> fds' = fds \<or> rc = 0 \<and> bo_added H G fds G' fds'"
  using assms by (rule addbo_cases)

definition demo_os :: os_env where
  "demo_os = \<lparr>os_rd = (\<lambda>p. p = ''/m/a.ko''), os_wr = (\<lambda>p. True), os_realpath = Some, os_isdir = (\<lambda>p. True)\<rparr>"

definition demo_gbls :: "(string \<times> nat) list globals_t" where
  "demo_gbls = \<lparr>g_cwd = ''/w'', g_bos = [], g_bo_heap = [], g_executable = None, g_dirs = [''/w'', ''/m''],
     g_dirmax = 256, g_verbose = 0, g_startfs = False, g_prockallsyms = True, g_procbos = True\<rparr>"

theorem addbo_atomic_witness:
  "\<exists>G. addbo alist_uthash demo_os demo_gbls [0, 1, 2] ''a.ko'' = Inr (0, G, [4, 3, 0, 1, 2]) \<and>
     bo_added alist_uthash demo_gbls [0, 1, 2] G [4, 3, 0, 1, 2]"
proof -
  have p: "parsekospec ''a.ko'' = Some (''a.ko'', ''EXCLUSIVE'', ''a'')" by code_simp
  have k: "openko demo_os [''/w'', ''/m''] [0, 1, 2] ''a.ko'' = Inr (3, Some ''/m/a.ko'', [3, 0, 1, 2])"
    by (simp add: openko_def demo_os_def snprintf_def PATH_MAX_def new_fd_def upt_rec)
  have d: "dirname ''/m/a.ko'' = ''/m''" by code_simp
  have s: "openso demo_os [3, 0, 1, 2] (Some ''/m/a.ko'') (Some ''a'') = (4, Some ''/m/liba.so'', [4, 3, 0, 1, 2])"
    by (simp add: openso_def demo_os_def snprintf_def PATH_MAX_def new_fd_def upt_rec d Let_def)
  have "\<exists>G. addbo alist_uthash demo_os demo_gbls [0, 1, 2] ''a.ko'' = Inr (0, G, [4, 3, 0, 1, 2])"
    using p k s by (simp add: addbo_def demo_gbls_def addbo_done_def Let_def)
  then show ?thesis using addbo_atomic by fastforce
qed

text \<open>The table lists the objects in the order they were added, and they own the descriptors.\<close>

definition bos_inv :: "'b bo_hash \<Rightarrow> int list \<Rightarrow> 'b globals_t \<Rightarrow> int list \<Rightarrow> bool" where
  "bos_inv H fds0 G fds \<longleftrightarrow>
     hash_iter H (g_bos G) = zip (map bo_kofnm (g_bo_heap G)) [0..<length (g_bo_heap G)] \<and>
     distinct (hash_keys H (g_bos G)) \<and>
     fds = concat (rev (map (\<lambda>bo. [bo_sofd bo, bo_kofd bo]) (g_bo_heap G))) @ fds0 \<and>
     (\<forall>bo \<in> set (g_bo_heap G). 0 \<le> bo_kofd bo \<and> 0 \<le> bo_sofd bo \<and> bo_kofd bo \<notin> set fds0 \<and> bo_sofd bo \<notin> set fds0)"

lemma bo_added_inv:
  assumes H: "uthash H" and inv: "bos_inv H fds0 G fds" and add: "bo_added H G fds G' fds'"
  shows "bos_inv H fds0 G' fds'"
proof -
  obtain bo where bo: "fds' = bo_sofd bo # bo_kofd bo # fds" "{bo_sofd bo, bo_kofd bo} \<inter> set fds = {}"
      "0 \<le> bo_kofd bo" "0 \<le> bo_sofd bo" "hash_find H (g_bos G) (bo_kofnm bo) = None"
      "G' = G\<lparr>g_bos := hash_add H (g_bos G) (bo_kofnm bo) (length (g_bo_heap G)), g_bo_heap := g_bo_heap G @ [bo]\<rparr>"
    using add by (auto simp: bo_added_def)
  have d: "distinct (hash_keys H (g_bos G))"
    and it: "hash_iter H (g_bos G) = zip (map bo_kofnm (g_bo_heap G)) [0..<length (g_bo_heap G)]"
    using inv by (simp_all add: bos_inv_def)
  have k: "bo_kofnm bo \<notin> set (hash_keys H (g_bos G))" using bo(5) uthash.find_None_iff[OF H d] by simp
  show ?thesis
    using inv bo uthash.iter_add[OF H k] uthash.distinct_add[OF H d k] it by (simp add: bos_inv_def)
qed

lemma addbos_inv:
  assumes "uthash H"
  shows "bos_inv H fds0 G fds \<Longrightarrow> addbos H E kos G fds = Inr (rc, G', fds') \<Longrightarrow> bos_inv H fds0 G' fds'"
proof (induction kos arbitrary: G fds)
  case (Cons ko kos)
  obtain rc1 G1 fds1 where a: "addbo H E G fds ko = Inr (rc1, G1, fds1)"
    using Cons.prems(2) by (auto simp: rbind_eq_Inr)
  have "bos_inv H fds0 G1 fds1"
    using addbo_cases[OF a] Cons.prems(1) bo_added_inv[OF assms Cons.prems(1)] by blast
  then show ?case using Cons a by (auto split: if_splits)
qed simp

lemma addDir_keeps:
  "addDir E G d = Inr (r, G') \<Longrightarrow> g_bos G' = g_bos G \<and> g_bo_heap G' = g_bo_heap G"
  by (auto simp: addDir_def Let_def split: if_splits)

definition is_k :: "opt \<Rightarrow> bool" where
  "is_k x = (case x of Opt_k _ \<Rightarrow> True | _ \<Rightarrow> False)"

lemma is_k_simps [simp]: "is_k (Opt_k ko)" "\<not> is_k (Opt_K d)" "\<not> is_k Opt_N" "\<not> is_k Opt_v" "\<not> is_k Opt_h" "\<not> is_k Opt_unknown"
  by (simp_all add: is_k_def)

lemma opt_loop_keeps:
  "opt_loop E opts G kos = Inr (ok, G', kos') \<Longrightarrow> g_bos G' = g_bos G \<and> g_bo_heap G' = g_bo_heap G \<and>
    (ok \<longrightarrow> length kos' = length kos + length (filter is_k opts))"
proof (induction E opts G kos arbitrary: G' kos' rule: opt_loop.induct)
  case (2 E dir opts G kospec)
  then obtain r G1 where "addDir E G dir = Inr (r, G1)" "opt_loop E opts G1 kospec = Inr (ok, G', kos')"
    by (auto simp: rbind_eq_Inr)
  then show ?case using 2(1) addDir_keeps by (metis filter.simps(2) is_k_simps(2))
qed auto

lemma deletebo_filter:
  "0 \<le> bo_kofd bo \<Longrightarrow> 0 \<le> bo_sofd bo \<Longrightarrow>
    deletebo bo fds = filter (\<lambda>x. x \<noteq> bo_kofd bo \<and> x \<noteq> bo_sofd bo) fds"
  by (simp add: deletebo_def close_fd_def Let_def conj_commute)

lemma delete_all:
  assumes "\<forall>bo \<in> set bos. 0 \<le> bo_kofd bo \<and> 0 \<le> bo_sofd bo"
  shows "foldl (\<lambda>fds bo. deletebo bo fds) fds bos =
    filter (\<lambda>x. \<forall>bo \<in> set bos. x \<noteq> bo_kofd bo \<and> x \<noteq> bo_sofd bo) fds"
  using assms
proof (induction bos arbitrary: fds)
  case (Cons bo bos)
  then show ?case by (simp add: deletebo_filter conj_commute)
qed simp

lemma foldl_zip_nth:
  "foldl (\<lambda>f p. g (xs ! snd p) f) f0 (zip ks [0..<length xs]) = foldl (\<lambda>f x. g x f) f0 xs" if "length ks = length xs"
proof -
  have e: "map (\<lambda>p. xs ! snd p) (zip ks [0..<length xs]) = xs"
    using that by (intro nth_equalityI) simp_all
  have "foldl (\<lambda>f x. g x f) f0 (map (\<lambda>p. xs ! snd p) (zip ks [0..<length xs])) =
      foldl (\<lambda>f p. g (xs ! snd p) f) f0 (zip ks [0..<length xs])"
    by (rule foldl_map)
  then show ?thesis unfolding e by simp
qed

lemma bosCleanup_inv:
  assumes inv: "bos_inv H fds0 G fds"
  shows "snd (bosCleanup H G fds) = fds0"
proof -
  have it: "hash_iter H (g_bos G) = zip (map bo_kofnm (g_bo_heap G)) [0..<length (g_bo_heap G)]"
    and fds: "fds = concat (rev (map (\<lambda>bo. [bo_sofd bo, bo_kofd bo]) (g_bo_heap G))) @ fds0"
    and pos: "\<forall>bo \<in> set (g_bo_heap G). 0 \<le> bo_kofd bo \<and> 0 \<le> bo_sofd bo"
    and out: "\<forall>bo \<in> set (g_bo_heap G). bo_kofd bo \<notin> set fds0 \<and> bo_sofd bo \<notin> set fds0"
    using inv by (simp_all add: bos_inv_def)
  let ?P = "\<lambda>x. \<forall>bo \<in> set (g_bo_heap G). x \<noteq> bo_kofd bo \<and> x \<noteq> bo_sofd bo"
  have "snd (bosCleanup H G fds) = filter ?P fds"
    by (simp add: bosCleanup_def it foldl_zip_nth delete_all[OF pos])
  also have "\<dots> = filter ?P (concat (rev (map (\<lambda>bo. [bo_sofd bo, bo_kofd bo]) (g_bo_heap G)))) @ filter ?P fds0"
    by (simp only: fds filter_append)
  also have "filter ?P (concat (rev (map (\<lambda>bo. [bo_sofd bo, bo_kofd bo]) (g_bo_heap G)))) = []"
    by (auto simp: filter_empty_conv)
  also have "filter ?P fds0 = fds0" using out by (intro filter_True) blast
  finally show ?thesis by simp
qed

text \<open>The stages of \<open>GBLSInit_args\<close>.\<close>

lemma GBLSInit_args_stages:
  assumes "GBLSInit_args H E cwd opts args G fds = Inr (rc, G', fds')"
  obtains (none) "cwd = None" "rc = -1" "G' = G" "fds' = fds"
    | (usage) c r G1 kos where "cwd = Some c" "addDir E (G\<lparr>g_cwd := c\<rparr>) c = Inr (r, G1)" "opt_loop E opts G1 [] = Inr (False, G', kos)" "rc = -1" "fds' = fds"
    | (objects) c r G1 G2 kos rc3 G3 where "cwd = Some c" "addDir E (G\<lparr>g_cwd := c\<rparr>) c = Inr (r, G1)" "opt_loop E opts G1 [] = Inr (True, G2, kos)"
        "addbos H E kos G2 fds = Inr (rc3, G3, fds')" "rc = (if rc3 < 0 then -1 else 0)"
        "G' = (if rc3 < 0 then G3 else case args of [] \<Rightarrow> G3 | a # _ \<Rightarrow> G3\<lparr>g_executable := Some a\<rparr>)"
proof (cases cwd)
  case None
  then show thesis using assms that(1) by (simp add: GBLSInit_args_def)
next
  case (Some c)
  then obtain r G1 ok G2 kos where G1: "addDir E (G\<lparr>g_cwd := c\<rparr>) c = Inr (r, G1)" "opt_loop E opts G1 [] = Inr (ok, G2, kos)"
    using assms by (auto simp: GBLSInit_args_def rbind_eq_Inr)
  show thesis
  proof (cases ok)
    case True
    then show thesis using assms Some G1 that(3)[of c r G1 G2 kos] by (auto simp: GBLSInit_args_def rbind_eq_Inr split: if_splits)
  next
    case False
    then show thesis using assms Some G1 that(2)[of c r G1 kos] by (auto simp: GBLSInit_args_def)
  qed
qed

lemma GBLSInit_args_inv:
  assumes "uthash H" and "g_bos G = hash_null H" and "g_bo_heap G = []"
    and "GBLSInit_args H E cwd opts args G fds = Inr (rc, G', fds')"
  shows "bos_inv H fds G' fds'"
proof -
  have inv0: "bos_inv H fds G0 fds" if "g_bos G0 = g_bos G" "g_bo_heap G0 = g_bo_heap G" for G0
    using that assms(2,3) uthash.iter_null[OF assms(1)] uthash.keys_null[OF assms(1)] by (simp add: bos_inv_def)
  from assms(4) show ?thesis
  proof (cases rule: GBLSInit_args_stages)
    case (usage c r G1 kos)
    then show ?thesis using inv0 addDir_keeps[OF usage(2)] opt_loop_keeps[OF usage(3)] by simp
  next
    case (objects c r G1 G2 kos rc3 G3)
    have "bos_inv H fds G2 fds" using inv0 addDir_keeps[OF objects(2)] opt_loop_keeps[OF objects(3)] by simp
    then have "bos_inv H fds G3 fds'" using addbos_inv[OF assms(1) _ objects(4)] by blast
    then show ?thesis using objects(6) by (cases args) (auto simp: bos_inv_def)
  qed (use inv0 in simp)
qed

lemma addbos_count:
  "addbos H E kos G fds = Inr (rc, G', fds') \<Longrightarrow> (rc = 0 \<or> rc = -1) \<and> (rc = 0 \<longrightarrow> length (g_bo_heap G') = length (g_bo_heap G) + length kos)"
proof (induction kos arbitrary: G fds)
  case (Cons ko kos)
  then obtain rc1 G1 fds1 where a: "addbo H E G fds ko = Inr (rc1, G1, fds1)" by (auto simp: rbind_eq_Inr)
  from addbo_cases[OF a] show ?case using Cons a by (auto simp: bo_added_def split: if_splits)
qed simp

lemma GBLSInit_args_count:
  assumes "g_bo_heap G = []" and "GBLSInit_args H E cwd opts args G fds = Inr (rc, G', fds')"
  shows "(rc = 0 \<or> rc = -1) \<and> (rc = 0 \<longrightarrow> length (g_bo_heap G') = length (filter is_k opts))"
  using assms(2)
proof (cases rule: GBLSInit_args_stages)
  case (objects c r G1 G2 kos rc3 G3)
  have "g_bo_heap G2 = []" "length kos = length (filter is_k opts)"
    using assms(1) addDir_keeps[OF objects(2)] opt_loop_keeps[OF objects(3)] by simp_all
  then show ?thesis using addbos_count[OF objects(4)] objects(5,6) by (cases args) auto
qed simp_all

text \<open>The shared objects of the objects in the table have been truncated, and no other file was touched.\<close>

definition sos_empty :: "(string \<Rightarrow> string) \<Rightarrow> bo_t list \<Rightarrow> files \<Rightarrow> files \<Rightarrow> bool" where
  "sos_empty file bos fs fs' \<longleftrightarrow> (\<forall>bo \<in> set bos. \<exists>p. bo_sofnm bo = Some p \<and> fs' (file p) = Some []) \<and>
     (\<forall>f. (\<forall>bo \<in> set bos. \<forall>p. bo_sofnm bo = Some p \<longrightarrow> f \<noteq> file p) \<longrightarrow> fs' f = fs f)"

lemma openso_path:
  "openso E fds ko m = (sofd, sf, fds2) \<Longrightarrow> 0 \<le> sofd \<Longrightarrow> \<exists>p. sf = Some p"
  by (auto simp: openso_def Let_def split: option.splits if_splits)

lemma addbo_files_added:
  assumes "addbo H E G fds ko = Inr (rc, G', fds')" and "0 \<le> rc" and "sos_empty file (g_bo_heap G) fs0 fs"
  shows "sos_empty file (g_bo_heap G') fs0 (addbo_files file E G fds ko fs)"
proof -
  obtain f k m where p: "parsekospec ko = Some (f, k, m)" using assms(1,2) by (cases "parsekospec ko") (auto simp: addbo_def)
  obtain kofd kp fds1 where o: "openko E (g_dirs G) fds f = Inr (kofd, kp, fds1)"
    using assms(1) p by (auto simp: addbo_def rbind_eq_Inr)
  obtain sofd sp fds2 where s: "openso E fds1 kp (Some m) = (sofd, sp, fds2)" by (rule prod_cases3)
  have nn: "0 \<le> kofd" "0 \<le> sofd" using assms(1,2) p o s by (auto simp: addbo_def split: if_splits)
  obtain q where q: "sp = Some q" using openso_path[OF s nn(2)] by blast
  have "g_bo_heap G' = g_bo_heap G @ [newbo (the kp) m k kofd sp sofd]"
    using assms(1,2) p o s nn by (auto simp: addbo_def Let_def split: if_splits)
  moreover have "addbo_files file E G fds ko fs = creat file q fs" using p o s nn q by (simp add: addbo_files_def)
  ultimately show ?thesis using assms(3) q by (auto simp: sos_empty_def newbo_def creat_def)
qed

lemma addbos_files_added:
  "addbos H E kos G fds = Inr (rc, G', fds') \<Longrightarrow> 0 \<le> rc \<Longrightarrow> sos_empty file (g_bo_heap G) fs0 fs \<Longrightarrow>
    sos_empty file (g_bo_heap G') fs0 (addbos_files file H E kos G fds fs)"
proof (induction kos arbitrary: G fds fs)
  case (Cons ko kos)
  then obtain rc1 G1 fds1 where a: "addbo H E G fds ko = Inr (rc1, G1, fds1)" "0 \<le> rc1" "addbos H E kos G1 fds1 = Inr (rc, G', fds')"
    by (auto simp: rbind_eq_Inr split: if_splits)
  then show ?case using Cons.IH[OF a(3) Cons.prems(2) addbo_files_added[OF a(1,2) Cons.prems(3)]] by simp
qed simp

lemma GBLSInit_files_added:
  assumes "GBLSInit_args H E cwd opts args G fds = Inr (0, G', fds')" and "g_bo_heap G = []"
  shows "sos_empty file (g_bo_heap G') fs (GBLSInit_files file H E cwd opts G fds fs)"
  using assms(1)
proof (cases rule: GBLSInit_args_stages)
  case (objects c r G1 G2 kos rc3 G3)
  have "g_bo_heap G2 = []" using assms(2) addDir_keeps[OF objects(2)] opt_loop_keeps[OF objects(3)] by simp
  then have "sos_empty file (g_bo_heap G2) fs fs" by (simp add: sos_empty_def)
  moreover have "0 \<le> rc3" using objects(5) by (simp split: if_splits)
  ultimately have "sos_empty file (g_bo_heap G3) fs (addbos_files file H E kos G2 fds fs)"
    by (intro addbos_files_added[OF objects(4)])
  then show ?thesis using objects by (cases args) (auto simp: GBLSInit_files_def split: if_splits)
qed simp_all

lemma cleanup_bos_inv:
  assumes "uthash H" and "bos_inv H fds G' fds'"
  shows "snd (cleanup_bos H G' fds') = fds"
proof -
  have "fds' = fds" if "hash_count H (g_bos G') = 0"
    using that assms uthash.count_zero[OF assms(1)] by (simp add: bos_inv_def zip_eq_Nil_iff)
  then show ?thesis
    using bosCleanup_inv[of H fds G' fds'] assms(2) by (auto simp: cleanup_bos_def split: prod.splits)
qed

text \<open>
  C25. What the command line leaves open. However \<open>GBLSInit_args\<close> ends, the descriptors that are open afterwards are those from before and two for each object in the table, whose names are distinct. When it
  succeeds there is one object for each \<open>-k\<close> option, and the cleanup, which \<open>main\<close> registers only in that case, closes exactly their descriptors.
\<close>

theorem GBLSInit_args_owns:
  assumes "uthash H" and "g_bos G = hash_null H" and "g_bo_heap G = []"
    and "GBLSInit_args H E cwd opts args G fds = Inr (rc, G', fds')"
  shows "(rc = 0 \<or> rc = -1) \<and> fds' = concat (rev (map (\<lambda>bo. [bo_sofd bo, bo_kofd bo]) (g_bo_heap G'))) @ fds \<and>
    distinct (map bo_kofnm (g_bo_heap G')) \<and>
    (rc = 0 \<longrightarrow> length (g_bo_heap G') = length (filter is_k opts) \<and> snd (cleanup_bos H G' fds') = fds)"
proof -
  have i: "bos_inv H fds G' fds'" by (rule GBLSInit_args_inv[OF assms])
  have "hash_keys H (g_bos G') = map bo_kofnm (g_bo_heap G')" using i by (simp add: bos_inv_def hash_keys_def)
  then have "distinct (map bo_kofnm (g_bo_heap G'))" using i by (simp add: bos_inv_def)
  then show ?thesis using i cleanup_bos_inv[OF assms(1) i] GBLSInit_args_count[OF assms(3,4)] by (simp add: bos_inv_def)
qed

theorem GBLSInit_args_owns_witness:
  "\<exists>G. GBLSInit_args alist_uthash demo_os (Some ''/w'') [Opt_k ''a.ko'', Opt_v] [''prog''] demo_gbls [0, 1, 2] = Inr (0, G, [4, 3, 0, 1, 2]) \<and>
    length (g_bo_heap G) = 1 \<and> snd (cleanup_bos alist_uthash G [4, 3, 0, 1, 2]) = [0, 1, 2]"
proof -
  have p: "parsekospec ''a.ko'' = Some (''a.ko'', ''EXCLUSIVE'', ''a'')" by code_simp
  have k: "openko demo_os [''/w'', ''/m'', ''/w''] [0, 1, 2] ''a.ko'' = Inr (3, Some ''/m/a.ko'', [3, 0, 1, 2])"
    by (simp add: openko_def demo_os_def snprintf_def PATH_MAX_def new_fd_def upt_rec)
  have d: "dirname ''/m/a.ko'' = ''/m''" by code_simp
  have s: "openso demo_os [3, 0, 1, 2] (Some ''/m/a.ko'') (Some ''a'') = (4, Some ''/m/liba.so'', [4, 3, 0, 1, 2])"
    by (simp add: openso_def demo_os_def snprintf_def PATH_MAX_def new_fd_def upt_rec d Let_def)
  have D: "os_isdir demo_os x" for x by (simp add: demo_os_def)
  have g: "g_bos demo_gbls = hash_null alist_uthash" "g_bo_heap demo_gbls = []" by (simp_all add: demo_gbls_def)
  have "\<exists>G. GBLSInit_args alist_uthash demo_os (Some ''/w'') [Opt_k ''a.ko'', Opt_v] [''prog''] demo_gbls [0, 1, 2] = Inr (0, G, [4, 3, 0, 1, 2])"
    by (simp add: GBLSInit_args_def addDir_def D demo_gbls_def addbo_def p k s addbo_done_def Let_def)
  then show ?thesis using GBLSInit_args_owns[OF uthash_alist g] by fastforce
qed

end
