(* ===== verification/Elf.thy ===== *)
theory Elf
  imports Clib
begin

text \<open>
  The ELF writer and reader of \<open>kld\<close> (\<open>elf.h\<close>, \<open>elf.c\<close>): string tables, the shared object that
  holds a list of kernel symbols, reading the symbols of an object back, and access to one section.

  libelf is not part of the repository. An \<open>Elf *\<close> is the abstract content of the file, the
  list of its sections (\<open>elf_newscn\<close> and \<open>elf_nextscn\<close> count from 1) and program headers. The
  offsets that \<open>elf_update\<close> assigns and the string that \<open>elf_strptr\<close> finds are parameters;
  the locale \<open>elf_lib\<close> states what is documented of the latter.
\<close>

section \<open>Constants of the ELF format\<close>

definition STB_LOCAL :: u8 where "STB_LOCAL = 0"
definition STB_GLOBAL :: u8 where "STB_GLOBAL = 1"
definition STB_WEAK :: u8 where "STB_WEAK = 2"
definition STT_OBJECT :: u8 where "STT_OBJECT = 1"
definition STT_FUNC :: u8 where "STT_FUNC = 2"
definition SHN_UNDEF :: u16 where "SHN_UNDEF = 0"
definition SHN_ABS :: u16 where "SHN_ABS = 0xfff1"
definition SHN_COMMON :: u16 where "SHN_COMMON = 0xfff2"
definition SHT_SYMTAB :: nat where "SHT_SYMTAB = 2"
definition SHT_STRTAB :: nat where "SHT_STRTAB = 3"
definition SHT_HASH :: nat where "SHT_HASH = 5"
definition SHT_DYNAMIC :: nat where "SHT_DYNAMIC = 6"
definition SHT_NOBITS :: nat where "SHT_NOBITS = 8"
definition SHT_DYNSYM :: nat where "SHT_DYNSYM = 11"
definition SHF_WRITE :: u64 where "SHF_WRITE = 1"
definition SHF_ALLOC :: u64 where "SHF_ALLOC = 2"
definition SHF_EXECINSTR :: u64 where "SHF_EXECINSTR = 4"
definition DT_NULL :: nat where "DT_NULL = 0"
definition DT_HASH :: nat where "DT_HASH = 4"
definition DT_STRTAB :: nat where "DT_STRTAB = 5"
definition DT_SYMTAB :: nat where "DT_SYMTAB = 6"
definition DT_STRSZ :: nat where "DT_STRSZ = 10"
definition DT_SYMENT :: nat where "DT_SYMENT = 11"
definition ET_DYN :: nat where "ET_DYN = 3"
definition EM_X86_64 :: nat where "EM_X86_64 = 62"
definition PT_LOAD :: nat where "PT_LOAD = 1"
definition PT_DYNAMIC :: nat where "PT_DYNAMIC = 2"
definition PF_R :: nat where "PF_R = 4"

text \<open>\<open>sizeof(GElf_Sym)\<close> and \<open>sizeof(GElf_Dyn)\<close>.\<close>

definition SYM_SIZE :: nat where "SYM_SIZE = 24"
definition DYN_SIZE :: nat where "DYN_SIZE = 16"

named_theorems elf_consts \<open>values of the constants of the ELF format\<close>

lemmas [elf_consts] = STB_LOCAL_def STB_GLOBAL_def STB_WEAK_def STT_OBJECT_def STT_FUNC_def
  SHN_UNDEF_def SHN_ABS_def SHN_COMMON_def SHT_SYMTAB_def SHT_STRTAB_def SHT_HASH_def SHT_DYNAMIC_def
  SHT_NOBITS_def SHT_DYNSYM_def SHF_WRITE_def SHF_ALLOC_def SHF_EXECINSTR_def

section \<open>Data\<close>

datatype SymType = TYPE_FUNC | TYPE_DATA | TYPE_RODATA | TYPE_BSS | TYPE_ABS

datatype SymBind = BIND_GLOBAL | BIND_LOCAL | BIND_WEAK

record SymbolEntry =
  se_name :: string
  se_addr :: u64
  se_size :: u64
  se_bind :: SymBind
  se_type :: SymType

record GElf_Sym =
  sym_name :: u32
  sym_info :: u8
  sym_shndx :: u16
  sym_value :: u64
  sym_size :: u64

record GElf_Dyn =
  dyn_tag :: nat
  dyn_un :: nat

record GElf_Shdr =
  sh_name :: nat
  sh_type :: nat
  sh_flags :: u64
  sh_size :: nat
  sh_link :: nat
  sh_info :: nat
  sh_entsize :: nat

text \<open>What the data descriptor of a section points to.\<close>

datatype elf_data =
    Bytes "char list"
  | Syms "GElf_Sym list"
  | Words "u32 list"
  | Dyns "GElf_Dyn list"

record Elf_Scn =
  scn_hdr :: GElf_Shdr
  scn_data :: elf_data
  scn_align :: nat

record GElf_Phdr =
  p_type :: nat
  p_offset :: nat
  p_vaddr :: nat
  p_filesz :: nat
  p_memsz :: nat
  p_flags :: nat
  p_align :: nat

record Elf =
  e_type :: nat
  e_machine :: nat
  e_shstrndx :: nat
  e_scns :: "Elf_Scn list"
  e_phdrs :: "GElf_Phdr list"

section \<open>String tables\<close>

record StrTab =
  st_buf :: "char list"
  st_top :: nat

text \<open>\<open>strcpy\<close> writes the characters and the NUL; a table that is too small is overrun.\<close>

definition add_str :: "StrTab \<Rightarrow> string \<Rightarrow> (nat \<times> StrTab) res" where
  "add_str st s =
     (let off = st_top st
      in if length (st_buf st) < off + length s + 1 then Inl Out_of_bounds
         else Inr (off, \<lparr>st_buf = write_at (st_buf st) off (s @ [NUL]), st_top = off + length s + 1\<rparr>))"

primrec add_strs :: "StrTab \<Rightarrow> string list \<Rightarrow> (nat list \<times> StrTab) res" where
  "add_strs st [] = Inr ([], st)"
| "add_strs st (s # ss) =
     rbind (add_str st s) (\<lambda>(off, st). rbind (add_strs st ss) (\<lambda>(offs, st). Inr (off # offs, st)))"

text \<open>\<open>calloc(1, n)\<close> and the empty string at offset 0, then the given strings.\<close>

definition new_strtab :: "nat \<Rightarrow> string list \<Rightarrow> (nat list \<times> StrTab) res" where
  "new_strtab n ss =
     rbind (add_str \<lparr>st_buf = replicate n NUL, st_top = 0\<rparr> '''') (\<lambda>(_, st). add_strs st ss)"

definition strs_len :: "string list \<Rightarrow> nat" where
  "strs_len ss = sum_list (map (\<lambda>s. length s + 1) ss)"

definition sec_names :: "string list" where
  "sec_names = [''.shstrtab'', ''.strtab'', ''.symtab'', ''.dynstr'', ''.dynsym'', ''.hash'', ''.dynamic'']"

text \<open>The table of the section names; its length is the sum the code computes, plus one.\<close>

definition shstrtab :: "(nat list \<times> StrTab) res" where
  "shstrtab = new_strtab (strs_len sec_names + 1) sec_names"

section \<open>Symbols\<close>

definition GELF_ST_INFO :: "u8 \<Rightarrow> u8 \<Rightarrow> u8" where
  "GELF_ST_INFO b t = push_bit 4 b + (t AND 0xf)"

definition GELF_ST_BIND :: "u8 \<Rightarrow> u8" where
  "GELF_ST_BIND info = drop_bit 4 info"

definition GELF_ST_TYPE :: "u8 \<Rightarrow> u8" where
  "GELF_ST_TYPE info = info AND 0xf"

definition sym_null :: GElf_Sym where
  "sym_null = \<lparr>sym_name = 0, sym_info = 0, sym_shndx = 0, sym_value = 0, sym_size = 0\<rparr>"

definition mk_sym :: "SymbolEntry \<Rightarrow> nat \<Rightarrow> GElf_Sym" where
  "mk_sym e off =
     \<lparr>sym_name = of_nat off,
      sym_info = (let b = (if se_bind e = BIND_WEAK then STB_WEAK else STB_GLOBAL);
                      t = (if se_type e = TYPE_FUNC then STT_FUNC else STT_OBJECT)
                  in GELF_ST_INFO b t),
      sym_shndx = SHN_ABS, sym_value = se_addr e, sym_size = se_size e\<rparr>"

definition sym_table :: "SymbolEntry list \<Rightarrow> nat list \<Rightarrow> GElf_Sym list" where
  "sym_table entries sym_offsets = sym_null # map2 mk_sym entries sym_offsets"

text \<open>The words of the \<open>.hash\<close> section: \<open>calloc(count+3, 4)\<close> with the stores of the code.\<close>

definition hash_buf :: "nat \<Rightarrow> u32 list" where
  "hash_buf count = foldl (\<lambda>h i. h[3 + i := of_nat (i + 1)])
     ((replicate (count + 3) 0)[0 := 1, 1 := of_nat (count + 1)]) [0..<count]"

section \<open>Generating the shared object\<close>

definition shdr_zero :: GElf_Shdr where
  "shdr_zero = \<lparr>sh_name = 0, sh_type = 0, sh_flags = 0, sh_size = 0, sh_link = 0, sh_info = 0, sh_entsize = 0\<rparr>"

definition data_size :: "elf_data \<Rightarrow> nat" where
  "data_size d = (case d of
     Bytes b \<Rightarrow> length b
   | Syms ss \<Rightarrow> length ss * SYM_SIZE
   | Words ws \<Rightarrow> length ws * 4
   | Dyns ds \<Rightarrow> length ds * DYN_SIZE)"

text \<open>
  \<open>elf_newscn\<close>, \<open>elf_newdata\<close> and \<open>gelf_update_shdr\<close>; the size of the section is the size of its
  data, as \<open>elf_update\<close> sets it.
\<close>

definition mk_scn :: "elf_data \<Rightarrow> nat \<Rightarrow> GElf_Shdr \<Rightarrow> Elf_Scn" where
  "mk_scn d align sh = \<lparr>scn_hdr = sh\<lparr>sh_size := data_size d\<rparr>, scn_data = d, scn_align = align\<rparr>"

text \<open>
  The seven sections in the order of their creation, which gives the indices 1 to 7: names, strings,
  dynamic strings, symbols, dynamic symbols, hash, dynamic. \<open>n\<close> are the offsets of the section names
  in the order of \<open>sec_names\<close>.
\<close>

definition mk_scns :: "nat list \<Rightarrow> StrTab \<Rightarrow> StrTab \<Rightarrow> GElf_Sym list \<Rightarrow> nat \<Rightarrow> GElf_Dyn list \<Rightarrow> Elf_Scn list" where
  "mk_scns n sh_st sym_st syms count dyn_data =
     [mk_scn (Bytes (take (st_top sh_st) (st_buf sh_st))) 1
        (shdr_zero\<lparr>sh_type := SHT_STRTAB, sh_name := n ! 0\<rparr>),
      mk_scn (Bytes (take (st_top sym_st) (st_buf sym_st))) 1
        (shdr_zero\<lparr>sh_type := SHT_STRTAB, sh_name := n ! 1\<rparr>),
      mk_scn (Bytes (take (st_top sym_st) (st_buf sym_st))) 1
        (shdr_zero\<lparr>sh_type := SHT_STRTAB, sh_name := n ! 3, sh_flags := SHF_ALLOC\<rparr>),
      mk_scn (Syms syms) 8
        (shdr_zero\<lparr>sh_type := SHT_SYMTAB, sh_name := n ! 2, sh_link := 2, sh_info := 1, sh_entsize := SYM_SIZE\<rparr>),
      mk_scn (Syms syms) 8
        (shdr_zero\<lparr>sh_type := SHT_DYNSYM, sh_name := n ! 4, sh_flags := SHF_ALLOC, sh_link := 3,
                   sh_info := 1, sh_entsize := SYM_SIZE\<rparr>),
      mk_scn (Words (hash_buf count)) 8
        (shdr_zero\<lparr>sh_type := SHT_HASH, sh_name := n ! 5, sh_flags := SHF_ALLOC, sh_link := 5\<rparr>),
      mk_scn (Dyns dyn_data) 8
        (shdr_zero\<lparr>sh_type := SHT_DYNAMIC, sh_name := n ! 6, sh_flags := SHF_ALLOC\<rparr>)]"

text \<open>
  The seven entries of \<open>.dynamic\<close>, of which the code sets six; \<open>off i\<close> is the file offset that
  libelf gave section \<open>i\<close>.
\<close>

definition dyn_table :: "(nat \<Rightarrow> nat) \<Rightarrow> StrTab \<Rightarrow> GElf_Dyn list" where
  "dyn_table off sym_st =
     [\<lparr>dyn_tag = DT_STRTAB, dyn_un = off 3\<rparr>, \<lparr>dyn_tag = DT_SYMTAB, dyn_un = off 5\<rparr>,
      \<lparr>dyn_tag = DT_STRSZ, dyn_un = st_top sym_st\<rparr>, \<lparr>dyn_tag = DT_SYMENT, dyn_un = SYM_SIZE\<rparr>,
      \<lparr>dyn_tag = DT_HASH, dyn_un = off 6\<rparr>, \<lparr>dyn_tag = DT_NULL, dyn_un = 0\<rparr>,
      \<lparr>dyn_tag = 0, dyn_un = 0\<rparr>]"

definition mk_phdrs :: "(nat \<Rightarrow> nat) \<Rightarrow> GElf_Phdr list" where
  "mk_phdrs off =
     [\<lparr>p_type = PT_LOAD, p_offset = 0, p_vaddr = 0, p_filesz = 0x1000, p_memsz = 0x1000,
       p_flags = PF_R, p_align = 0x1000\<rparr>,
      \<lparr>p_type = PT_DYNAMIC, p_offset = off 7, p_vaddr = off 7, p_filesz = 7 * DYN_SIZE,
       p_memsz = 7 * DYN_SIZE, p_flags = PF_R, p_align = 0\<rparr>]"

text \<open>
  The part of \<open>elf_generate_elf_mmap\<close> that builds the object. \<open>count\<close> is an \<open>int\<close>, and the size \<open>(count+3)*4\<close> of the hash section is computed
  in \<open>int\<close>: more entries than that allows are a fault. \<open>nmstrlen\<close> is a \<open>size_t\<close>.
\<close>

definition elf_build :: "(nat \<Rightarrow> nat) \<Rightarrow> SymbolEntry list \<Rightarrow> u64 \<Rightarrow> Elf res" where
  "elf_build off entries nmstrlen =
     (if INT_MAX < (int (length entries) + 3) * 4 then Inl Int_overflow
      else
     rbind shstrtab (\<lambda>(n, sh_st).
     rbind (new_strtab (unat (nmstrlen + 1)) (map se_name entries)) (\<lambda>(sym_offsets, sym_st).
     Inr \<lparr>e_type = ET_DYN, e_machine = EM_X86_64, e_shstrndx = 1,
          e_scns = mk_scns n sh_st sym_st (sym_table entries sym_offsets) (length entries)
                     (dyn_table off sym_st),
          e_phdrs = mk_phdrs off\<rparr>)))"

text \<open>
  What \<open>elf_generate_elf_mmap\<close> returns: NULL when \<open>memfd_create\<close> or \<open>elf_begin\<close> fails (nothing is
  stored through \<open>out_size\<close> and \<open>out_fd\<close> then), \<open>MAP_FAILED\<close> or the mapping of the object, both with
  the descriptor of the memory file.
\<close>

datatype mapping = Map_null | Map_failed int | Map_elf Elf int

text \<open>
  The answers of the system and of libelf: the bytes that \<open>elf_update\<close> makes of an object are \<open>ee_image\<close>; \<open>ee_files\<close> has the answers to the callers, which write them to a file.
\<close>

record elf_env =
  ee_memfd :: int
  ee_begin :: bool
  ee_mmap :: bool
  ee_off :: "nat \<Rightarrow> nat"
  ee_image :: "Elf \<Rightarrow> char list"
  ee_files :: file_env

definition elf_generate_elf_mmap :: "elf_env \<Rightarrow> SymbolEntry list \<Rightarrow> u64 \<Rightarrow> mapping res" where
  "elf_generate_elf_mmap E entries nmstrlen =
     (if ee_memfd E < 0 then Inr Map_null
      else if \<not> ee_begin E then Inr Map_null
      else rbind (elf_build (ee_off E) entries nmstrlen) (\<lambda>elf.
           Inr (if ee_mmap E then Map_elf elf (ee_memfd E) else Map_failed (ee_memfd E))))"

text \<open>
  \<open>open\<close> with \<open>O_CREAT | O_TRUNC\<close>, \<open>write\<close> and \<open>close\<close> as the callers make them, without a look at the results: when the file cannot be opened the
  descriptor is -1 and \<open>write\<close> fails, when only a part is taken the rest is lost.
\<close>

definition put_file :: "elf_env \<Rightarrow> string \<Rightarrow> Elf \<Rightarrow> files \<Rightarrow> files" where
  "put_file E path elf fs =
     (if fe_open (ee_files E) path
      then write_start (ee_files E) path (ee_image E elf) (creat (fe_file (ee_files E)) path fs)
      else fs)"

lemma put_file_eq:
  "put_file E path elf fs = fs(fe_file (ee_files E) path :=
     if fe_open (ee_files E) path then Some (stored (ee_files E) path (ee_image E elf)) else fs (fe_file (ee_files E) path))"
  by (auto simp: put_file_def write_start_empty creat_def)

section \<open>Reading symbols\<close>

text \<open>
  \<open>elf_strptr(elf, idx, off)\<close> is a parameter: the string at offset \<open>off\<close> of section \<open>idx\<close>, NULL when
  there is none.
\<close>

type_synonym strptr = "Elf \<Rightarrow> nat \<Rightarrow> nat \<Rightarrow> string option"

definition seInit :: "strptr \<Rightarrow> Elf \<Rightarrow> GElf_Shdr \<Rightarrow> GElf_Sym \<Rightarrow> u64 \<Rightarrow> (SymbolEntry \<times> u64) res" where
  "seInit strp elf shdr sy nmstrlen =
     (case strp elf (sh_link shdr) (unat (sym_name sy)) of
        None \<Rightarrow> Inl Null_deref
      | Some name \<Rightarrow> Inr (\<lparr>se_name = name,
                          se_addr = (if sym_shndx sy = SHN_UNDEF then 0 else sym_value sy),
                          se_size = 0, se_bind = BIND_GLOBAL, se_type = TYPE_ABS\<rparr>,
                         nmstrlen + of_nat (length name + 1)))"

text \<open>The array of entries with its capacity, an \<open>int\<close> that is doubled when the array is full, and the sum of the name lengths, a \<open>size_t\<close>.\<close>

record read_state =
  rs_ents :: "SymbolEntry list"
  rs_emax :: nat
  rs_nmstrlen :: u64

definition grow :: "nat \<Rightarrow> nat \<Rightarrow> nat res" where
  "grow ei emax =
     (if ei \<noteq> emax then Inr emax
      else if emax = 0 then Inr 1024
      else if INT_MAX < int (2 * emax) then Inl Int_overflow else Inr (2 * emax))"

text \<open>One symbol: skipped when it is empty, otherwise stored at index \<open>ei\<close>.\<close>

definition read_sym :: "strptr \<Rightarrow> Elf \<Rightarrow> GElf_Shdr \<Rightarrow> GElf_Sym \<Rightarrow> read_state \<Rightarrow> read_state res" where
  "read_sym strp elf shdr sy rs =
     (if sym_name sy = 0 \<and> sym_value sy = 0 then Inr rs
      else rbind (grow (length (rs_ents rs)) (rs_emax rs)) (\<lambda>emax.
           if emax \<le> length (rs_ents rs) then Inl Out_of_bounds
           else rbind (seInit strp elf shdr sy (rs_nmstrlen rs)) (\<lambda>(e, nmstrlen).
                Inr \<lparr>rs_ents = rs_ents rs @ [e], rs_emax = emax, rs_nmstrlen = nmstrlen\<rparr>)))"

text \<open>
  The loop over the symbols of a section. \<open>gelf_getsym\<close> stores nothing past the data of the section. The number of symbols is an \<open>int\<close>.
\<close>

fun read_syms_upto :: "strptr \<Rightarrow> Elf \<Rightarrow> GElf_Shdr \<Rightarrow> nat \<Rightarrow> GElf_Sym list \<Rightarrow> read_state \<Rightarrow> read_state res" where
  "read_syms_upto strp elf shdr 0 syms rs = Inr rs"
| "read_syms_upto strp elf shdr (Suc n) [] rs = Inl Uninit_read"
| "read_syms_upto strp elf shdr (Suc n) (sy # syms) rs =
     rbind (read_sym strp elf shdr sy rs) (read_syms_upto strp elf shdr n syms)"

primrec read_scns :: "strptr \<Rightarrow> Elf \<Rightarrow> Elf_Scn list \<Rightarrow> read_state \<Rightarrow> read_state res" where
  "read_scns strp elf [] rs = Inr rs"
| "read_scns strp elf (scn # scns) rs =
     (let shdr = scn_hdr scn
      in if sh_type shdr = SHT_SYMTAB \<or> sh_type shdr = SHT_DYNSYM
         then if sh_entsize shdr = 0 then Inl Div_zero
              else if INT_MAX < int (sh_size shdr div sh_entsize shdr) then Inl Int_overflow
              else rbind (read_syms_upto strp elf shdr (sh_size shdr div sh_entsize shdr)
                           (case scn_data scn of Syms ss \<Rightarrow> ss | _ \<Rightarrow> []) rs)
                     (read_scns strp elf scns)
         else read_scns strp elf scns rs)"

text \<open>
  \<open>file\<close> is what \<open>elf_begin\<close> found: nothing, something that is not an ELF object, or one.
  \<open>init\<close> is the value of \<open>*entries\<close> on entry. The result is the return value with \<open>*entries\<close> (as
  many as \<open>*n\<close>) and \<open>*nmstrlen\<close>, which an error leaves unset.
\<close>

datatype elf_file = No_elf | Not_elf | Is_elf Elf

definition elf_read_syms ::
  "strptr \<Rightarrow> elf_file \<Rightarrow> SymbolEntry list option \<Rightarrow> (int \<times> SymbolEntry list \<times> u64 option) res" where
  "elf_read_syms strp file init =
     (case file of
        No_elf \<Rightarrow> Inr (-1, [], None)
      | Not_elf \<Rightarrow> Inr (-1, [], None)
      | Is_elf elf \<Rightarrow>
          if init \<noteq> None then Inl Assert_failed
          else rbind (read_scns strp elf (e_scns elf) \<lparr>rs_ents = [], rs_emax = 0, rs_nmstrlen = 0\<rparr>) (\<lambda>rs.
               Inr (0, rs_ents rs, Some (rs_nmstrlen rs))))"

section \<open>Access to one section\<close>

text \<open>
  What libelf answers for one section: its header (or failure), its name and its data.
\<close>

record sec_view =
  sv_shdr :: bool
  sv_name :: "string option"
  sv_data :: "char list option"

text \<open>
  The answers of \<open>elf_version\<close>, \<open>open\<close>, \<open>elf_begin\<close>, \<open>elf_getshdrstrndx\<close>, and the sections.
\<close>

record sec_env =
  sc_version :: bool
  sc_open :: int
  sc_begin :: bool
  sc_shstr :: bool
  sc_secs :: "sec_view list"

record SectionData =
  sd_data :: "char list option"
  sd_size :: nat
  sd_elf :: bool
  sd_fd :: int

text \<open>
  The search: \<open>Inl rc\<close> for the error paths, \<open>Inr\<close> the data of the first section of that name.
\<close>

primrec find_sec :: "string \<Rightarrow> sec_view list \<Rightarrow> int + char list" where
  "find_sec scnm [] = Inl (-2)"
| "find_sec scnm (v # vs) =
     (if \<not> sv_shdr v then Inl (-3)
      else if sv_name v = Some scnm
           then (case sv_data v of None \<Rightarrow> Inl (-3) | Some d \<Rightarrow> Inr d)
           else find_sec scnm vs)"

text \<open>
  The result: the return value, the section data and the open descriptors. \<open>fds\<close> are the open
  descriptors before the call.
\<close>

definition sd_zero :: SectionData where
  "sd_zero = \<lparr>sd_data = None, sd_size = 0, sd_elf = False, sd_fd = -1\<rparr>"

definition elf_open_secdata ::
  "sec_env \<Rightarrow> int list \<Rightarrow> string option \<Rightarrow> int \<Rightarrow> string option \<Rightarrow> SectionData option \<Rightarrow>
   int \<times> SectionData option \<times> int list" where
  "elf_open_secdata E fds path fd scnm sd =
     (case (path, scnm, sd) of
        (Some _, Some nm, Some _) \<Rightarrow>
          if \<not> sc_version E then (-1, Some sd_zero, fds)
          else if fd = -1 \<and> sc_open E < 0 then (-1, Some sd_zero, fds)
          else let sfd = (if fd = -1 then sc_open E else fd);
                   fds' = (if fd = -1 then sfd # fds else fds);
                   closed = (if fd < 0 \<and> 0 \<le> sfd then remove1 sfd fds' else fds')
               in if \<not> sc_begin E then (-1, Some sd_zero, if fd = -1 then remove1 sfd fds' else fds')
                  else if \<not> sc_shstr E then (-3, Some sd_zero, closed)
                  else (case find_sec nm (sc_secs E) of
                          Inl rc \<Rightarrow> (rc, Some sd_zero, closed)
                        | Inr d \<Rightarrow> (0, Some \<lparr>sd_data = Some d, sd_size = length d, sd_elf = True, sd_fd = sfd\<rparr>, fds'))
      | _ \<Rightarrow> (-1, sd, fds))"

definition elf_close_secdata :: "int list \<Rightarrow> SectionData option \<Rightarrow> SectionData option \<times> int list" where
  "elf_close_secdata fds sd =
     (case sd of
        None \<Rightarrow> (None, fds)
      | Some d \<Rightarrow> (Some sd_zero, if 0 \<le> sd_fd d then remove1 (sd_fd d) fds else fds))"

section \<open>Symbol types of \<open>readsymtbl.c\<close>\<close>

text \<open>
  \<open>scn\<close> is the header of the section the symbol is defined in, if \<open>elf_getscn\<close> and
  \<open>gelf_getshdr\<close> find one. The letters that occur are upper case, so \<open>tolower\<close> adds 32.
\<close>

definition get_symbol_type :: "(nat \<Rightarrow> GElf_Shdr option) \<Rightarrow> GElf_Sym \<Rightarrow> char" where
  "get_symbol_type scn sy =
     (if sym_shndx sy = SHN_UNDEF then CHR ''U''
      else if sym_shndx sy = SHN_ABS then CHR ''A''
      else if sym_shndx sy = SHN_COMMON then CHR ''C''
      else case scn (unat (sym_shndx sy)) of
        None \<Rightarrow> CHR ''?''
      | Some shdr \<Rightarrow>
          let type = (if sh_type shdr = SHT_NOBITS then CHR ''B''
                      else if sh_flags shdr AND SHF_EXECINSTR \<noteq> 0 then CHR ''T''
                      else if sh_flags shdr AND SHF_WRITE \<noteq> 0 then CHR ''D''
                      else if sh_flags shdr AND SHF_ALLOC \<noteq> 0 then CHR ''R''
                      else CHR ''N'')
          in if GELF_ST_BIND (sym_info sy) = STB_WEAK
             then (if sym_shndx sy = SHN_UNDEF then CHR ''w'' else CHR ''W'')
             else if GELF_ST_BIND (sym_info sy) = STB_LOCAL
             then char_of (of_char type + 32 :: nat)
             else type)"

end
