(* ===== verification/Elf_Props.thy ===== *)
theory Elf_Props
  imports Elf
begin

text \<open>
  Correctness of the ELF writer and reader: a string table of the computed size is filled exactly,
  every name can be read back at its offset, reading a generated object returns the symbols it was
  generated from (once per symbol table), and what the hash section is good for.
\<close>

section \<open>String tables\<close>

definition packed :: "string list \<Rightarrow> char list" where
  "packed ss = concat (map (\<lambda>s. s @ [NUL]) ss)"

primrec offsets :: "nat \<Rightarrow> string list \<Rightarrow> nat list" where
  "offsets t [] = []"
| "offsets t (s # ss) = t # offsets (t + length s + 1) ss"

lemma packed_simps [simp]: "packed [] = []" "packed (s # ss) = s @ NUL # packed ss"
  by (simp_all add: packed_def)

lemma strs_len_simps [simp]: "strs_len [] = 0" "strs_len (s # ss) = length s + 1 + strs_len ss"
  by (simp_all add: strs_len_def)

lemma length_packed [simp]: "length (packed ss) = strs_len ss"
  by (induction ss) simp_all

lemma length_offsets [simp]: "length (offsets t ss) = length ss"
  by (induction ss arbitrary: t) simp_all

lemma write_at_append:
  assumes "off + length xs + length ys \<le> length b"
  shows "write_at (write_at b off xs) (off + length xs) ys = write_at b off (xs @ ys)"
  using assms by (simp add: write_at_def ac_simps)

lemma write_at_Nil [simp]: "write_at b off [] = b"
  by (simp add: write_at_def)

lemma add_strs_fits:
  "st_top st + strs_len ss \<le> length (st_buf st) \<Longrightarrow>
    add_strs st ss = Inr (offsets (st_top st) ss,
      \<lparr>st_buf = write_at (st_buf st) (st_top st) (packed ss), st_top = st_top st + strs_len ss\<rparr>)"
proof (induction ss arbitrary: st)
  case Nil
  then show ?case by (cases st) simp
next
  case (Cons s ss)
  let ?st = "\<lparr>st_buf = write_at (st_buf st) (st_top st) (s @ [NUL]), st_top = st_top st + length s + 1\<rparr>"
  have a: "add_str st s = Inr (st_top st, ?st)" using Cons.prems by (simp add: add_str_def Let_def)
  have "write_at (write_at (st_buf st) (st_top st) (s @ [NUL])) (st_top st + length (s @ [NUL])) (packed ss) =
      write_at (st_buf st) (st_top st) ((s @ [NUL]) @ packed ss)"
    using Cons.prems by (intro write_at_append) simp
  moreover have "add_strs ?st ss = Inr (offsets (st_top ?st) ss,
      \<lparr>st_buf = write_at (st_buf ?st) (st_top ?st) (packed ss), st_top = st_top ?st + strs_len ss\<rparr>)"
    using Cons.prems by (intro Cons.IH) simp
  ultimately show ?case using a by simp
qed

lemma add_strs_overrun:
  "st_top st \<le> length (st_buf st) \<Longrightarrow> length (st_buf st) < st_top st + strs_len ss \<Longrightarrow>
    add_strs st ss = Inl Out_of_bounds"
proof (induction ss arbitrary: st)
  case (Cons s ss)
  show ?case
  proof (cases "length (st_buf st) < st_top st + length s + 1")
    case False
    let ?st = "\<lparr>st_buf = write_at (st_buf st) (st_top st) (s @ [NUL]), st_top = st_top st + length s + 1\<rparr>"
    have "add_str st s = Inr (st_top st, ?st)" using False by (simp add: add_str_def Let_def)
    moreover have "add_strs ?st ss = Inl Out_of_bounds" using Cons.prems False by (intro Cons.IH) simp_all
    ultimately show ?thesis by simp
  qed (simp add: add_str_def Let_def)
qed simp

lemma new_strtab_fits:
  assumes "strs_len ss < n"
  shows "new_strtab n ss = Inr (offsets 1 ss,
    \<lparr>st_buf = NUL # packed ss @ replicate (n - 1 - strs_len ss) NUL, st_top = 1 + strs_len ss\<rparr>)"
proof -
  let ?st = "\<lparr>st_buf = write_at (replicate n NUL) 0 [NUL], st_top = 1\<rparr>"
  have "add_str \<lparr>st_buf = replicate n NUL, st_top = 0\<rparr> '''' = Inr (0, ?st)"
    using assms by (simp add: add_str_def Let_def)
  moreover have "add_strs ?st ss = Inr (offsets (st_top ?st) ss,
      \<lparr>st_buf = write_at (st_buf ?st) (st_top ?st) (packed ss), st_top = st_top ?st + strs_len ss\<rparr>)"
    using assms by (intro add_strs_fits) simp
  moreover have "write_at (write_at (replicate n NUL) 0 [NUL]) 1 (packed ss) =
      NUL # packed ss @ replicate (n - 1 - strs_len ss) NUL"
    using assms by (simp add: write_at_def)
  ultimately show ?thesis by (simp add: new_strtab_def)
qed

lemma packed_read:
  "\<forall>s \<in> set ss. NUL \<notin> set s \<Longrightarrow> i < length ss \<Longrightarrow> t = length pre \<Longrightarrow>
    cstr_at (pre @ packed ss @ post) (offsets t ss ! i) = ss ! i"
proof (induction ss arbitrary: i t pre)
  case (Cons s ss)
  show ?case
  proof (cases i)
    case 0
    then show ?thesis using Cons.prems by (simp add: cstr_at_def cstr_terminated)
  next
    case (Suc j)
    then show ?thesis using Cons.IH[of j "t + length s + 1" "pre @ s @ [NUL]"] Cons.prems by simp
  qed
qed simp

lemma offsets_bounds:
  "i < length ss \<Longrightarrow> t \<le> offsets t ss ! i \<and> offsets t ss ! i + length (ss ! i) < t + strs_len ss"
proof (induction ss arbitrary: i t)
  case (Cons s ss)
  show ?case
  proof (cases i)
    case (Suc j)
    then have "t + length s + 1 \<le> offsets (t + length s + 1) ss ! j \<and>
        offsets (t + length s + 1) ss ! j + length (ss ! j) < t + length s + 1 + strs_len ss"
      using Cons.prems by (intro Cons.IH) simp
    then show ?thesis using Suc by simp
  qed simp
qed simp

text \<open>
  Filling a string table: it succeeds exactly when the buffer has room for the initial NUL and
  all strings with their terminators; then the table ends there and every string can be read back at
  the offset that was returned for it.
\<close>

theorem new_strtab_exact:
  assumes "0 < n" and "\<forall>s \<in> set ss. NUL \<notin> set s"
  shows "if n < 1 + strs_len ss then new_strtab n ss = Inl Out_of_bounds
    else \<exists>offs st. new_strtab n ss = Inr (offs, st) \<and> length (st_buf st) = n \<and> st_top st = 1 + strs_len ss \<and>
      length offs = length ss \<and> (\<forall>i < length ss. 0 < offs ! i \<and> cstr_at (st_buf st) (offs ! i) = ss ! i)"
proof (cases "n < 1 + strs_len ss")
  case True
  let ?st = "\<lparr>st_buf = write_at (replicate n NUL) 0 [NUL], st_top = 1\<rparr>"
  have "add_str \<lparr>st_buf = replicate n NUL, st_top = 0\<rparr> '''' = Inr (0, ?st)"
    using assms(1) by (simp add: add_str_def Let_def)
  moreover have "add_strs ?st ss = Inl Out_of_bounds"
    using True assms(1) by (intro add_strs_overrun) simp_all
  ultimately show ?thesis using True by (simp add: new_strtab_def)
next
  case False
  have "0 < offsets 1 ss ! i \<and> cstr_at (NUL # packed ss @ replicate (n - 1 - strs_len ss) NUL) (offsets 1 ss ! i) = ss ! i"
    if "i < length ss" for i
    using offsets_bounds[OF that, of 1] packed_read[OF assms(2) that, of 1 "[NUL]"] by simp
  then show ?thesis using False new_strtab_fits[of ss n] by simp
qed

theorem new_strtab_exact_witness:
  "\<exists>offs st. new_strtab 10 [''init'', ''foo''] = Inr (offs, st) \<and> cstr_at (st_buf st) (offs ! 1) = ''foo''"
  using new_strtab_exact[of 10 "[''init'', ''foo'']"] by (auto simp: numeral_2_eq_2 less_Suc_eq_0_disj)

section \<open>Reading back\<close>

text \<open>The capacity is doubled without overflow as long as it is less than \<open>2 ^ 30\<close>.\<close>

lemma grow_enough:
  assumes "ei \<le> emax" and "ei < 2 ^ 30"
  obtains emax' where "grow ei emax = Inr emax'" and "ei < emax'"
proof -
  have "grow ei emax = Inr (if ei \<noteq> emax then emax else if emax = 0 then 1024 else 2 * emax)"
    using assms by (auto simp: grow_def INT_MAX_def)
  then show thesis using assms(1) by (intro that) auto
qed

definition sym_skipped :: "GElf_Sym \<Rightarrow> bool" where
  "sym_skipped sy \<longleftrightarrow> sym_name sy = 0 \<and> sym_value sy = 0"

text \<open>The entry that reading makes of a symbol.\<close>

definition sym_entry :: "strptr \<Rightarrow> Elf \<Rightarrow> GElf_Shdr \<Rightarrow> GElf_Sym \<Rightarrow> SymbolEntry" where
  "sym_entry strp elf shdr sy =
     \<lparr>se_name = the (strp elf (sh_link shdr) (unat (sym_name sy))),
      se_addr = (if sym_shndx sy = SHN_UNDEF then 0 else sym_value sy),
      se_size = 0, se_bind = BIND_GLOBAL, se_type = TYPE_ABS\<rparr>"

text \<open>The symbols of one section: no store leaves the array, and no symbol is lost.\<close>

lemma read_syms_upto_all:
  assumes "\<forall>sy \<in> set syms. \<not> sym_skipped sy \<longrightarrow> strp elf (sh_link shdr) (unat (sym_name sy)) \<noteq> None"
    and "length (rs_ents rs) \<le> rs_emax rs" and "length (rs_ents rs) + length (filter (\<lambda>sy. \<not> sym_skipped sy) syms) \<le> 2 ^ 30"
    and "n = length syms"
  shows "\<exists>rs'. read_syms_upto strp elf shdr n syms rs = Inr rs' \<and> length (rs_ents rs') \<le> rs_emax rs' \<and>
    rs_ents rs' = rs_ents rs @ map (sym_entry strp elf shdr) (filter (\<lambda>sy. \<not> sym_skipped sy) syms) \<and>
    rs_nmstrlen rs' = rs_nmstrlen rs +
      of_nat (strs_len (map (\<lambda>sy. se_name (sym_entry strp elf shdr sy)) (filter (\<lambda>sy. \<not> sym_skipped sy) syms)))"
  using assms
proof (induction syms arbitrary: rs n)
  case (Cons sy syms)
  show ?case
  proof (cases "sym_skipped sy")
    case True
    then have "read_sym strp elf shdr sy rs = Inr rs" by (simp add: read_sym_def sym_skipped_def)
    then show ?thesis using Cons True by simp
  next
    case False
    then obtain nm where nm: "strp elf (sh_link shdr) (unat (sym_name sy)) = Some nm" using Cons.prems(1) by auto
    obtain emax where g: "grow (length (rs_ents rs)) (rs_emax rs) = Inr emax" "length (rs_ents rs) < emax"
      using grow_enough[OF Cons.prems(2)] Cons.prems(3) False by auto
    let ?rs = "\<lparr>rs_ents = rs_ents rs @ [sym_entry strp elf shdr sy], rs_emax = emax,
        rs_nmstrlen = rs_nmstrlen rs + of_nat (length nm + 1)\<rparr>"
    have "read_sym strp elf shdr sy rs = Inr ?rs"
      using False nm g by (auto simp: read_sym_def sym_skipped_def seInit_def sym_entry_def)
    moreover have "length (rs_ents ?rs) \<le> rs_emax ?rs" using g by simp
    then obtain rs' where "read_syms_upto strp elf shdr (length syms) syms ?rs = Inr rs'"
      "length (rs_ents rs') \<le> rs_emax rs'"
      "rs_ents rs' = rs_ents ?rs @ map (sym_entry strp elf shdr) (filter (\<lambda>sy. \<not> sym_skipped sy) syms)"
      "rs_nmstrlen rs' = rs_nmstrlen ?rs +
        of_nat (strs_len (map (\<lambda>sy. se_name (sym_entry strp elf shdr sy)) (filter (\<lambda>sy. \<not> sym_skipped sy) syms)))"
      using Cons.IH[of ?rs "length syms"] Cons.prems(1,3) False by auto
    ultimately show ?thesis using Cons.prems(4) False nm by (simp add: sym_entry_def)
  qed
qed simp

section \<open>The documented behaviour of \<open>elf_strptr\<close>\<close>

locale elf_lib =
  fixes strp :: strptr
  assumes strptr_law: "\<lbrakk>idx < length (e_scns elf); sh_type (scn_hdr (e_scns elf ! idx)) = SHT_STRTAB;
      scn_data (e_scns elf ! idx) = Bytes b; off < length b; NUL \<in> set (drop off b)\<rbrakk> \<Longrightarrow>
      strp elf (Suc idx) off = Some (cstr_at b off)"
begin

lemma strptr_packed:
  assumes "idx < length (e_scns elf)" and "sh_type (scn_hdr (e_scns elf ! idx)) = SHT_STRTAB"
    and "scn_data (e_scns elf ! idx) = Bytes (NUL # packed ss)"
    and "\<forall>s \<in> set ss. NUL \<notin> set s" and "i < length ss"
  shows "strp elf (Suc idx) (offsets 1 ss ! i) = Some (ss ! i)"
proof -
  let ?b = "NUL # packed ss" and ?o = "offsets 1 ss ! i"
  have o: "?o < length ?b" using offsets_bounds[OF assms(5), of 1] by simp
  have "last ?b = NUL" using assms(5) by (cases ss rule: rev_cases) (simp_all add: packed_def)
  then have "last (drop ?o ?b) = NUL" using o by (simp only: last_drop)
  then have "NUL \<in> set (drop ?o ?b)" using o by (metis drop_eq_Nil last_in_set not_le)
  then have "strp elf (Suc idx) ?o = Some (cstr_at ?b ?o)"
    using strptr_law[OF assms(1-3) o] by simp
  then show ?thesis using packed_read[OF assms(4,5), of 1 "[NUL]" "[]"] by simp
qed

end

text \<open>A function with that behaviour.\<close>

definition elf_strptr_ref :: strptr where
  "elf_strptr_ref elf idx off =
     (case idx of
        0 \<Rightarrow> None
      | Suc k \<Rightarrow>
          if k < length (e_scns elf) \<and> sh_type (scn_hdr (e_scns elf ! k)) = SHT_STRTAB
          then (case scn_data (e_scns elf ! k) of Bytes b \<Rightarrow> if off < length b then Some (cstr_at b off) else None
                | _ \<Rightarrow> None)
          else None)"

interpretation ref_lib: elf_lib elf_strptr_ref
  by unfold_locales (simp add: elf_strptr_ref_def)

section \<open>The generated object\<close>

text \<open>What reading keeps of an entry: its name and address.\<close>

definition absolute :: "SymbolEntry \<Rightarrow> SymbolEntry" where
  "absolute e = e\<lparr>se_size := 0, se_bind := BIND_GLOBAL, se_type := TYPE_ABS\<rparr>"

lemma shstrtab_ok: "\<exists>n st. shstrtab = Inr (n, st)"
  by (simp add: shstrtab_def new_strtab_fits)

text \<open>
  Lists of symbols that fit: fewer than \<open>2 ^ 29 - 3\<close>, so that no \<open>int\<close> of the writer or the reader (which finds every symbol twice) overflows, and
  less than 4 GiB of names, so that their offsets fit the 32 bits of \<open>st_name\<close>.
\<close>

definition elf_fits :: "SymbolEntry list \<Rightarrow> bool" where
  "elf_fits es \<longleftrightarrow> length es + 3 < 2 ^ 29 \<and> strs_len (map se_name es) < 2 ^ 32"

text \<open>The size of the names as the code has it, a \<open>size_t\<close>.\<close>

definition names_size :: "SymbolEntry list \<Rightarrow> u64" where
  "names_size es = of_nat (strs_len (map se_name es))"

lemma unat_names_size: "strs_len (map se_name es) < 2 ^ 32 \<Longrightarrow> unat (names_size es + 1) = strs_len (map se_name es) + 1"
proof -
  assume "strs_len (map se_name es) < 2 ^ 32"
  then have "unat (of_nat (strs_len (map se_name es) + 1) :: u64) = strs_len (map se_name es) + 1" by (intro unat_of_nat_small) simp
  then show ?thesis by (simp add: names_size_def add.commute)
qed

lemma elf_build_scns:
  assumes "elf_fits es"
  obtains n st where "elf_build off es (names_size es) = Inr
    \<lparr>e_type = ET_DYN, e_machine = EM_X86_64, e_shstrndx = 1,
     e_scns = mk_scns n st \<lparr>st_buf = NUL # packed (map se_name es), st_top = 1 + strs_len (map se_name es)\<rparr>
       (sym_table es (offsets 1 (map se_name es))) (length es)
       (dyn_table off \<lparr>st_buf = NUL # packed (map se_name es), st_top = 1 + strs_len (map se_name es)\<rparr>),
     e_phdrs = mk_phdrs off\<rparr>"
proof -
  obtain n st where s: "shstrtab = Inr (n, st)" using shstrtab_ok by blast
  have "\<not> INT_MAX < (int (length es) + 3) * 4" using assms by (simp add: elf_fits_def INT_MAX_def)
  moreover have "unat (names_size es + 1) = strs_len (map se_name es) + 1" using assms unat_names_size by (simp add: elf_fits_def)
  ultimately show thesis
    using new_strtab_fits[of "map se_name es" "strs_len (map se_name es) + 1"]
    by (intro that[of n st]) (simp add: elf_build_def s)
qed

lemma sym_table_read:
  assumes nul: "\<forall>e \<in> set es. NUL \<notin> set (se_name e)" and sz: "strs_len (map se_name es) < 2 ^ 32"
    and str: "\<And>i. i < length es \<Longrightarrow>
      strp elf (sh_link shdr) (offsets 1 (map se_name es) ! i) = Some (se_name (es ! i))"
  shows "filter (\<lambda>sy. \<not> sym_skipped sy) (sym_table es (offsets 1 (map se_name es))) =
      map2 mk_sym es (offsets 1 (map se_name es))"
    and "map (sym_entry strp elf shdr) (map2 mk_sym es (offsets 1 (map se_name es))) = map absolute es"
    and "\<forall>sy \<in> set (sym_table es (offsets 1 (map se_name es))).
      \<not> sym_skipped sy \<longrightarrow> strp elf (sh_link shdr) (unat (sym_name sy)) \<noteq> None"
proof -
  let ?o = "offsets 1 (map se_name es)"
  let ?syms = "map2 mk_sym es ?o"
  have nm: "unat (sym_name (?syms ! i)) = ?o ! i" "0 < ?o ! i" "?syms ! i = mk_sym (es ! i) (?o ! i)"
    if i: "i < length es" for i
  proof -
    have "1 \<le> ?o ! i \<and> ?o ! i < 2 ^ 32" using offsets_bounds[of i "map se_name es" 1] i sz by simp
    then show "unat (sym_name (?syms ! i)) = ?o ! i" "0 < ?o ! i" "?syms ! i = mk_sym (es ! i) (?o ! i)"
      using i by (simp_all add: mk_sym_def unat_of_nat_small)
  qed
  have ns: "\<not> sym_skipped (?syms ! i)" if "i < length es" for i
    using nm[OF that] by (auto simp: sym_skipped_def)
  have all: "\<exists>i < length es. sy = ?syms ! i" if "sy \<in> set ?syms" for sy
    using that by (metis in_set_conv_nth length_map length_zip length_offsets min.idem)
  then have "filter (\<lambda>sy. \<not> sym_skipped sy) ?syms = ?syms" using ns by (fastforce simp: filter_id_conv)
  then show "filter (\<lambda>sy. \<not> sym_skipped sy) (sym_table es ?o) = ?syms"
    by (simp add: sym_table_def sym_skipped_def sym_null_def)
  show "map (sym_entry strp elf shdr) ?syms = map absolute es"
  proof (rule nth_equalityI)
    show "length (map (sym_entry strp elf shdr) ?syms) = length (map absolute es)" by simp
    fix i assume "i < length (map (sym_entry strp elf shdr) ?syms)"
    then have i: "i < length es" by simp
    then have "sym_entry strp elf shdr (?syms ! i) = absolute (es ! i)"
      using nm(1)[OF i] str[OF i] unfolding nm(3)[OF i]
      by (simp add: sym_entry_def mk_sym_def absolute_def SHN_ABS_def SHN_UNDEF_def)
    then show "map (sym_entry strp elf shdr) ?syms ! i = map absolute es ! i" using i by simp
  qed
  show "\<forall>sy \<in> set (sym_table es ?o). \<not> sym_skipped sy \<longrightarrow> strp elf (sh_link shdr) (unat (sym_name sy)) \<noteq> None"
    using all nm(1) str by (fastforce simp: sym_table_def sym_null_def sym_skipped_def)
qed

lemma read_scns_syms:
  assumes t: "sh_type (scn_hdr scn) = SHT_SYMTAB \<or> sh_type (scn_hdr scn) = SHT_DYNSYM"
    and d: "scn_data scn = Syms syms" "sh_size (scn_hdr scn) = length syms * SYM_SIZE" "sh_entsize (scn_hdr scn) = SYM_SIZE"
    and "length syms < 2 ^ 31"
  shows "read_scns strp elf (scn # scns) rs =
    rbind (read_syms_upto strp elf (scn_hdr scn) (length syms) syms rs) (read_scns strp elf scns)"
  using assms by (simp add: SYM_SIZE_def Let_def INT_MAX_def)

lemma read_scns_other:
  "sh_type (scn_hdr scn) \<noteq> SHT_SYMTAB \<Longrightarrow> sh_type (scn_hdr scn) \<noteq> SHT_DYNSYM \<Longrightarrow>
    read_scns strp elf (scn # scns) rs = read_scns strp elf scns rs"
  by (simp add: Let_def)

text \<open>
  The sections of the object of a list of symbols: five that hold no symbols, and two with the same
  symbol table, whose names are found in the string table each of them is linked to.
\<close>

definition gen_syms :: "SymbolEntry list \<Rightarrow> GElf_Sym list" where
  "gen_syms es = sym_table es (offsets 1 (map se_name es))"

definition sym_section :: "strptr \<Rightarrow> Elf \<Rightarrow> SymbolEntry list \<Rightarrow> Elf_Scn \<Rightarrow> bool" where
  "sym_section strp elf es s \<longleftrightarrow>
     (sh_type (scn_hdr s) = SHT_SYMTAB \<or> sh_type (scn_hdr s) = SHT_DYNSYM) \<and> scn_data s = Syms (gen_syms es) \<and>
     sh_size (scn_hdr s) = length (gen_syms es) * SYM_SIZE \<and> sh_entsize (scn_hdr s) = SYM_SIZE \<and>
     (\<forall>i < length es. strp elf (sh_link (scn_hdr s)) (offsets 1 (map se_name es) ! i) = Some (se_name (es ! i)))"

definition other_section :: "Elf_Scn \<Rightarrow> bool" where
  "other_section s \<longleftrightarrow> sh_type (scn_hdr s) \<noteq> SHT_SYMTAB \<and> sh_type (scn_hdr s) \<noteq> SHT_DYNSYM"

lemma generated_sections:
  assumes "elf_lib strp" and "\<forall>e \<in> set es. NUL \<notin> set (se_name e)" and "elf_fits es"
  obtains elf s1 s2 s3 s4 s5 s6 s7 where "elf_build off es (names_size es) = Inr elf"
    and "e_scns elf = [s1, s2, s3, s4, s5, s6, s7]"
    and "other_section s1" "other_section s2" "other_section s3" "other_section s6" "other_section s7"
    and "sym_section strp elf es s4" "sym_section strp elf es s5"
proof -
  let ?st = "\<lparr>st_buf = NUL # packed (map se_name es), st_top = 1 + strs_len (map se_name es)\<rparr>"
  obtain n sst where b: "elf_build off es (names_size es) = Inr
    \<lparr>e_type = ET_DYN, e_machine = EM_X86_64, e_shstrndx = 1,
     e_scns = mk_scns n sst ?st (gen_syms es) (length es) (dyn_table off ?st), e_phdrs = mk_phdrs off\<rparr>"
    unfolding gen_syms_def by (rule elf_build_scns[OF assms(3)])
  define elf where "elf = \<lparr>e_type = ET_DYN, e_machine = EM_X86_64, e_shstrndx = 1,
     e_scns = mk_scns n sst ?st (gen_syms es) (length es) (dyn_table off ?st), e_phdrs = mk_phdrs off\<rparr>"
  have nul: "\<forall>s \<in> set (map se_name es). NUL \<notin> set s" using assms(2) by simp
  have str: "strp elf k (offsets 1 (map se_name es) ! i) = Some (se_name (es ! i))"
    if "i < length es" "k = 2 \<or> k = 3" for i k
    using that elf_lib.strptr_packed[OF assms(1), of 1 elf "map se_name es" i]
      elf_lib.strptr_packed[OF assms(1), of 2 elf "map se_name es" i] nul
    by (auto simp: elf_def mk_scns_def mk_scn_def numeral_2_eq_2 numeral_3_eq_3)
  let ?s = "\<lambda>i. e_scns elf ! i"
  have sc: "e_scns elf = [?s 0, ?s 1, ?s 2, ?s 3, ?s 4, ?s 5, ?s 6]" by (simp add: elf_def mk_scns_def)
  have oth: "other_section (?s i)" if "i \<in> {0, 1, 2, 5, 6}" for i
    using that by (auto simp: other_section_def elf_def mk_scns_def mk_scn_def elf_consts)
  have l: "sh_link (scn_hdr (?s 3)) = 2" "sh_link (scn_hdr (?s 4)) = 3" by (simp_all add: elf_def mk_scns_def mk_scn_def)
  have tab: "sh_type (scn_hdr (?s i)) = SHT_SYMTAB \<or> sh_type (scn_hdr (?s i)) = SHT_DYNSYM"
      "scn_data (?s i) = Syms (gen_syms es)" "sh_size (scn_hdr (?s i)) = length (gen_syms es) * SYM_SIZE"
      "sh_entsize (scn_hdr (?s i)) = SYM_SIZE" if "i = 3 \<or> i = 4" for i
    using that by (auto simp: elf_def mk_scns_def mk_scn_def data_size_def)
  have "sym_section strp elf es (?s 3)" "sym_section strp elf es (?s 4)"
    using tab[of 3] tab[of 4] str l by (simp_all add: sym_section_def)
  then show thesis using b that[of elf, OF _ sc] oth unfolding elf_def[symmetric] by simp
qed

lemma read_sym_section:
  assumes "sym_section strp elf es s" and "\<forall>e \<in> set es. NUL \<notin> set (se_name e)" and "elf_fits es"
    and "length (rs_ents rs) \<le> rs_emax rs" and "length (rs_ents rs) \<le> length es"
  obtains rs' where "read_scns strp elf (s # scns) rs = read_scns strp elf scns rs'" and "length (rs_ents rs') \<le> rs_emax rs'"
    and "rs_ents rs' = rs_ents rs @ map absolute es"
    and "rs_nmstrlen rs' = rs_nmstrlen rs + names_size (map absolute es)"
proof -
  have str: "\<And>i. i < length es \<Longrightarrow> strp elf (sh_link (scn_hdr s)) (offsets 1 (map se_name es) ! i) = Some (se_name (es ! i))"
    using assms(1) by (simp add: sym_section_def)
  have sz: "strs_len (map se_name es) < 2 ^ 32" "length es + 3 < 2 ^ 29" using assms(3) by (simp_all add: elf_fits_def)
  note r = sym_table_read[OF assms(2) sz(1), of strp elf "scn_hdr s", OF str, folded gen_syms_def]
  have l: "length (gen_syms es) = length es + 1" by (simp add: gen_syms_def sym_table_def)
  obtain rs' where rs': "read_syms_upto strp elf (scn_hdr s) (length (gen_syms es)) (gen_syms es) rs = Inr rs'"
    "length (rs_ents rs') \<le> rs_emax rs'" "rs_ents rs' = rs_ents rs @ map absolute es"
    "rs_nmstrlen rs' = rs_nmstrlen rs + of_nat (strs_len (map (\<lambda>sy. se_name (sym_entry strp elf (scn_hdr s) sy)) (map2 mk_sym es (offsets 1 (map se_name es)))))"
    using read_syms_upto_all[of "gen_syms es" strp elf "scn_hdr s" rs] r assms(4,5) sz(2) by auto
  have "map (\<lambda>sy. se_name (sym_entry strp elf (scn_hdr s) sy)) xs = map se_name (map (sym_entry strp elf (scn_hdr s)) xs)" for xs
    by simp
  then have "rs_nmstrlen rs' = rs_nmstrlen rs + names_size (map absolute es)"
    using rs'(4) r(2) unfolding names_size_def by metis
  moreover have "read_scns strp elf (s # scns) rs = read_scns strp elf scns rs'"
    using assms(1) rs'(1) read_scns_syms[of s "gen_syms es" strp elf scns rs] l sz(2) by (auto simp: sym_section_def)
  ultimately show thesis using that rs'(2,3) by blast
qed

lemma read_other_section: "other_section s \<Longrightarrow> read_scns strp elf (s # scns) rs = read_scns strp elf scns rs"
  by (simp add: other_section_def read_scns_other)

text \<open>What the tables of an object hold for an entry: everything, with the binding and the type as the format has them.\<close>

definition sym_of :: "SymbolEntry \<Rightarrow> GElf_Sym \<Rightarrow> bool" where
  "sym_of e sy \<longleftrightarrow> sym_value sy = se_addr e \<and> sym_size sy = se_size e \<and> sym_shndx sy = SHN_ABS \<and>
     GELF_ST_BIND (sym_info sy) = (if se_bind e = BIND_WEAK then STB_WEAK else STB_GLOBAL) \<and>
     GELF_ST_TYPE (sym_info sy) = (if se_type e = TYPE_FUNC then STT_FUNC else STT_OBJECT)"

lemma mk_sym_of: "sym_of e (mk_sym e off)"
  by (simp add: sym_of_def mk_sym_def GELF_ST_BIND_def GELF_ST_TYPE_def GELF_ST_INFO_def elf_consts)

lemma gen_syms_of: "\<exists>ss. gen_syms es = sym_null # ss \<and> list_all2 sym_of es ss"
  by (rule exI[of _ "map2 mk_sym es (offsets 1 (map se_name es))"])
    (simp add: gen_syms_def sym_table_def list_all2_conv_all_nth mk_sym_of)

text \<open>The object of a list of symbols, and what is read back of it.\<close>

lemma elf_build_read_back:
  assumes "elf_lib strp" and "\<forall>e \<in> set es. NUL \<notin> set (se_name e)" and "elf_fits es"
  shows "\<exists>elf ss. elf_build off es (names_size es) = Inr elf \<and>
    scn_data (e_scns elf ! 3) = Syms (sym_null # ss) \<and> scn_data (e_scns elf ! 4) = Syms (sym_null # ss) \<and> list_all2 sym_of es ss \<and>
    elf_read_syms strp (Is_elf elf) None =
      Inr (0, map absolute es @ map absolute es, Some (names_size (map absolute es @ map absolute es)))"
proof -
  obtain elf s1 s2 s3 s4 s5 s6 s7 where b: "elf_build off es (names_size es) = Inr elf"
    and sc: "e_scns elf = [s1, s2, s3, s4, s5, s6, s7]"
    and oth: "other_section s1" "other_section s2" "other_section s3" "other_section s6" "other_section s7"
    and tab: "sym_section strp elf es s4" "sym_section strp elf es s5"
    by (rule generated_sections[OF assms])
  let ?rs0 = "\<lparr>rs_ents = [], rs_emax = 0, rs_nmstrlen = 0\<rparr>"
  obtain rs1 where rs1: "read_scns strp elf [s4, s5, s6, s7] ?rs0 = read_scns strp elf [s5, s6, s7] rs1"
    "length (rs_ents rs1) \<le> rs_emax rs1" "rs_ents rs1 = map absolute es" "rs_nmstrlen rs1 = names_size (map absolute es)"
    using read_sym_section[OF tab(1) assms(2,3), of ?rs0 "[s5, s6, s7]"] by auto
  have l1: "length (rs_ents rs1) \<le> length es" using rs1(3) by simp
  obtain rs2 where rs2: "read_scns strp elf [s5, s6, s7] rs1 = read_scns strp elf [s6, s7] rs2"
    "rs_ents rs2 = rs_ents rs1 @ map absolute es" "rs_nmstrlen rs2 = rs_nmstrlen rs1 + names_size (map absolute es)"
    by (rule read_sym_section[OF tab(2) assms(2,3) rs1(2) l1])
  have "read_scns strp elf (e_scns elf) ?rs0 = Inr rs2"
    using rs1(1) rs2(1) oth unfolding sc by (simp add: read_other_section del: read_scns.simps(2))
  then have "elf_read_syms strp (Is_elf elf) None =
      Inr (0, map absolute es @ map absolute es, Some (names_size (map absolute es @ map absolute es)))"
    using rs1(3,4) rs2(2,3) by (simp add: elf_read_syms_def names_size_def strs_len_def)
  moreover obtain ss where "gen_syms es = sym_null # ss" "list_all2 sym_of es ss" using gen_syms_of by blast
  moreover have "scn_data (e_scns elf ! 3) = Syms (gen_syms es)" "scn_data (e_scns elf ! 4) = Syms (gen_syms es)"
    using tab unfolding sc by (simp_all add: sym_section_def)
  ultimately show ?thesis using b by auto
qed

text \<open>
  C4. Generating an object from a list of symbols and reading it. The symbol tables \<open>.symtab\<close> and \<open>.dynsym\<close> of the object both hold, behind the empty symbol, one symbol for each entry with its address, size, binding and
  type. \<open>elf_read_syms\<close> returns each entry twice, all of them from \<open>.symtab\<close> and then all of them from \<open>.dynsym\<close>, with its name and address; it does not keep size, binding and type (they become 0, global and absolute). The size that it returns for
  the names is exactly the size that their string table needs.
\<close>

theorem elf_generate_read_roundtrip:
  assumes "elf_lib strp" and "\<forall>e \<in> set es. NUL \<notin> set (se_name e)" and "length es + 3 < 2 ^ 29" and "strs_len (map se_name es) < 2 ^ 32"
  shows "\<exists>elf ss. elf_build off es (names_size es) = Inr elf \<and>
    scn_data (e_scns elf ! 3) = Syms (sym_null # ss) \<and> scn_data (e_scns elf ! 4) = Syms (sym_null # ss) \<and> list_all2 sym_of es ss \<and>
    elf_read_syms strp (Is_elf elf) None =
      Inr (0, map absolute es @ map absolute es, Some (names_size (map absolute es @ map absolute es)))"
  using elf_build_read_back[OF assms(1,2)] assms(3,4) by (simp add: elf_fits_def)

definition demo_syms :: "SymbolEntry list" where
  "demo_syms = [\<lparr>se_name = ''printk'', se_addr = 0xffffffff81000000, se_size = 0, se_bind = BIND_GLOBAL, se_type = TYPE_FUNC\<rparr>,
     \<lparr>se_name = ''jiffies'', se_addr = 0xffffffff82000000, se_size = 8, se_bind = BIND_WEAK, se_type = TYPE_DATA\<rparr>]"

theorem elf_generate_read_roundtrip_witness:
  "\<exists>elf. elf_build (\<lambda>i. 64 * i) demo_syms 15 = Inr elf \<and>
    elf_read_syms elf_strptr_ref (Is_elf elf) None =
      Inr (0, map absolute demo_syms @ map absolute demo_syms, Some 30)"
proof -
  have "names_size demo_syms = 15" "names_size (map absolute demo_syms @ map absolute demo_syms) = 30"
    "\<forall>e \<in> set demo_syms. NUL \<notin> set (se_name e)" "length demo_syms + 3 < 2 ^ 29" "strs_len (map se_name demo_syms) < 2 ^ 32"
    by (simp_all add: demo_syms_def absolute_def names_size_def)
  then show ?thesis
    using elf_generate_read_roundtrip[OF ref_lib.elf_lib_axioms, of demo_syms "\<lambda>i. 64 * i"] by auto
qed

text \<open>
  The binding and the type that the writer packs into \<open>st_info\<close> are the ones that the macros of
  the format take out again, and every generated symbol has the type letter \<open>A\<close> (absolute).
\<close>

theorem mk_sym_info:
  "GELF_ST_BIND (sym_info (mk_sym e off)) = (if se_bind e = BIND_WEAK then STB_WEAK else STB_GLOBAL) \<and>
   GELF_ST_TYPE (sym_info (mk_sym e off)) = (if se_type e = TYPE_FUNC then STT_FUNC else STT_OBJECT) \<and>
   get_symbol_type scn (mk_sym e off) = CHR ''A''"
  by (simp add: mk_sym_def GELF_ST_BIND_def GELF_ST_TYPE_def GELF_ST_INFO_def get_symbol_type_def elf_consts)

section \<open>The hash section\<close>

text \<open>
  A lookup as the ELF specification describes it: the bucket of the hash value holds the first symbol
  index, the chain the next ones, 0 ends the search. \<open>fuel\<close> bounds the walk.
\<close>

fun hash_walk :: "nat \<Rightarrow> u32 list \<Rightarrow> (nat \<Rightarrow> bool) \<Rightarrow> nat \<Rightarrow> nat option" where
  "hash_walk 0 w is_sym y = None"
| "hash_walk (Suc n) w is_sym y =
     (if y = 0 then None
      else if is_sym y then Some y
      else hash_walk n w is_sym (unat (w ! (2 + unat (w ! 0) + y))))"

definition sysv_lookup :: "nat \<Rightarrow> u32 list \<Rightarrow> (nat \<Rightarrow> bool) \<Rightarrow> nat \<Rightarrow> nat option" where
  "sysv_lookup fuel w is_sym hv = hash_walk fuel w is_sym (unat (w ! (2 + hv mod unat (w ! 0))))"

lemma foldl_stores:
  assumes "distinct xs" and "\<forall>i \<in> set xs. 3 + i < length h"
  shows "length (foldl (\<lambda>h i. h[3 + i := f i]) h xs) = length h"
    and "j < length h \<Longrightarrow> foldl (\<lambda>h i. h[3 + i := f i]) h xs ! j =
      (if 3 \<le> j \<and> j - 3 \<in> set xs then f (j - 3) else h ! j)"
  using assms
proof (induction xs arbitrary: h)
  case (Cons i xs)
  {
    case 1
    then show ?case using Cons.IH(1)[of "h[3 + i := f i]"] by simp
  next
    case 2
    have e: "3 \<le> j \<and> j - 3 = i \<longleftrightarrow> j = 3 + i" by auto
    show ?case using Cons.IH(2)[of "h[3 + i := f i]"] 2 e by (auto simp: nth_list_update)
  }
qed simp_all

lemma hash_buf_nth:
  "length (hash_buf count) = count + 3" "hash_buf count ! 0 = 1"
  "hash_buf count ! Suc 0 = of_nat (count + 1)" "hash_buf count ! 2 = 0"
proof -
  let ?h = "(replicate (count + 3) 0)[0 := 1, 1 := of_nat (count + 1)] :: u32 list"
  note st = foldl_stores[of "[0..<count]" ?h, where f = "\<lambda>i. of_nat (i + 1) :: u32"]
  show "length (hash_buf count) = count + 3" "hash_buf count ! 0 = 1"
    "hash_buf count ! Suc 0 = of_nat (count + 1)" "hash_buf count ! 2 = 0"
    using st(1) st(2)[of 0] st(2)[of 1] st(2)[of 2] by (simp_all add: hash_buf_def)
qed

text \<open>
  The \<open>.hash\<close> section of a generated object finds no symbol: its only bucket is 0, which ends
  every search; and the section is one word shorter than its own header announces.
\<close>

theorem hash_section_finds_nothing:
  "sysv_lookup fuel (hash_buf count) is_sym hv = None \<and>
   (count + 1 < 2 ^ 32 \<longrightarrow>
     length (hash_buf count) + 1 = 2 + unat (hash_buf count ! 0) + unat (hash_buf count ! 1))"
  by (cases fuel) (simp_all add: sysv_lookup_def hash_buf_nth numeral_2_eq_2[symmetric] unat_of_nat_small del: of_nat_Suc of_nat_add)

theorem hash_section_finds_nothing_witness:
  "sysv_lookup 9 (hash_buf 4) (\<lambda>y. y = 2) 77 = None \<and> length (hash_buf 4) + 1 = 2 + 1 + 5"
  using hash_section_finds_nothing[of 9 4 "\<lambda>y. y = 2" 77] by (simp add: hash_buf_nth)

section \<open>Section data\<close>

text \<open>
  \<open>elf_open_secdata\<close> of a path leaves no descriptor open when it fails; when it succeeds the
  data is that of the first section with the name, the new descriptor is recorded, and
  \<open>elf_close_secdata\<close> closes exactly that one and clears the record.
\<close>

theorem elf_open_close_secdata:
  assumes "elf_open_secdata E fds (Some path) (-1) (Some nm) (Some sd) = (rc, sd', fds')"
  shows "if rc = 0 then (\<exists>d. find_sec nm (sc_secs E) = Inr d \<and> fds' = sc_open E # fds \<and>
        sd' = Some \<lparr>sd_data = Some d, sd_size = length d, sd_elf = True, sd_fd = sc_open E\<rparr> \<and>
        elf_close_secdata fds' sd' = (Some sd_zero, fds))
     else rc < 0 \<and> fds' = fds \<and> sd' = Some sd_zero"
proof -
  have neg: "find_sec nm vs = Inl r \<Longrightarrow> r < 0" for vs r
    by (induction vs) (auto split: if_splits option.splits)
  show ?thesis
    using assms neg
    by (auto simp: elf_open_secdata_def elf_close_secdata_def Let_def split: if_splits sum.splits)
qed

theorem elf_open_close_secdata_witness:
  "elf_close_secdata [7] (Some \<lparr>sd_data = Some ''x'', sd_size = 1, sd_elf = True, sd_fd = 7\<rparr>) = (Some sd_zero, [])"
proof -
  let ?E = "\<lparr>sc_version = True, sc_open = 7, sc_begin = True, sc_shstr = True,
     sc_secs = [\<lparr>sv_shdr = True, sv_name = Some ''.kotbl'', sv_data = Some ''x''\<rparr>]\<rparr>"
  have "elf_open_secdata ?E [] (Some ''a.out'') (-1) (Some ''.kotbl'') (Some sd_zero) =
     (0, Some \<lparr>sd_data = Some ''x'', sd_size = 1, sd_elf = True, sd_fd = 7\<rparr>, [7])"
    by (simp add: elf_open_secdata_def Let_def)
  from elf_open_close_secdata[OF this] show ?thesis by simp
qed

end
