(* ===== verification/Kld_Kallsyms.thy ===== *)
theory Kld_Kallsyms
  imports Clib Uthash Elf_Props
begin

text \<open>
  From \<open>/proc/kallsyms\<close> to shared objects (\<open>main.c\<close>): one line is scanned with \<open>sscanf\<close> and cut in
  place, its symbol goes to the kernel or to the module it names, and in the end every collection is
  written as a shared object. The lines are those that \<open>getline\<close> returns, with their newline.
\<close>

section \<open>Symbols\<close>

definition initSE :: "u64 \<Rightarrow> string \<Rightarrow> char \<Rightarrow> SymbolEntry res" where
  "initSE addr name type =
     (let entry = (\<lambda>b t. Inr \<lparr>se_name = name, se_addr = addr, se_size = 0, se_bind = b, se_type = t\<rparr>)
      in if type \<in> {CHR ''A'', CHR ''a''} then entry BIND_GLOBAL TYPE_ABS
         else if type \<in> {CHR ''B'', CHR ''b''} then entry BIND_GLOBAL TYPE_BSS
         else if type \<in> {CHR ''D'', CHR ''d''} then entry BIND_GLOBAL TYPE_DATA
         else if type \<in> {CHR ''R'', CHR ''r''} then entry BIND_GLOBAL TYPE_RODATA
         else if type \<in> {CHR ''T'', CHR ''t''} then entry BIND_GLOBAL TYPE_FUNC
         else if type \<in> {CHR ''V'', CHR ''W'', CHR ''v'', CHR ''w''} then entry BIND_WEAK TYPE_FUNC
         else Inl Assert_failed)"

text \<open>
  A growing array of entries with its capacity and the sum of the name lengths (with their NUL), as
  both the kernel and a module have it.
\<close>

record symvec =
  sv_entries :: "SymbolEntry list"
  sv_cap :: nat
  sv_nmstrlen :: u64

definition symvec_empty :: symvec where
  "symvec_empty = \<lparr>sv_entries = [], sv_cap = 0, sv_nmstrlen = 0\<rparr>"

definition symvec_push :: "symvec \<Rightarrow> u64 \<Rightarrow> string \<Rightarrow> char \<Rightarrow> u64 \<Rightarrow> symvec res" where
  "symvec_push v addr name type nmlen =
     (let i = length (sv_entries v);
          cap = (if i = sv_cap v then (if sv_cap v \<noteq> 0 then 2 * sv_cap v else 1024) else sv_cap v)
      in if cap \<le> i then Inl Out_of_bounds
         else rbind (initSE addr name type) (\<lambda>e.
              Inr \<lparr>sv_entries = sv_entries v @ [e], sv_cap = cap, sv_nmstrlen = sv_nmstrlen v + nmlen\<rparr>))"

record Module =
  m_name :: string
  m_syms :: symvec

text \<open>
  The state of the loop: the kernel's symbols, the hash table of the modules by name and the modules in
  the order of their allocation (the table's values are indices into it).
\<close>

record 'm kstate =
  k_syms :: symvec
  k_mhash :: 'm
  k_mods :: "Module list"

type_synonym 'm mod_hash = "(string, nat, 'm) uthash_ops"

section \<open>One line\<close>

text \<open>
  \<open>sscanf(line, "%lx %c %n%*s%n %n%*s%n", ..)\<close>: the address, the type and the four positions, which
  stay 0 when the input ends before; \<open>None\<close> when fewer than two values were assigned.
\<close>

definition scan_kallsyms :: "string \<Rightarrow> (u64 \<times> char \<times> nat \<times> nat \<times> nat \<times> nat) option" where
  "scan_kallsyms line =
     (let pos = (\<lambda>r. length line - length r)
      in case scan_hex line of
           None \<Rightarrow> None
         | Some (addr, r) \<Rightarrow>
             (case dropWhile isspace r of
                [] \<Rightarrow> None
              | t # r \<Rightarrow>
                  let r = dropWhile isspace r; sym_start = pos r
                  in (case scan_word r of
                        None \<Rightarrow> Some (addr, t, sym_start, 0, 0, 0)
                      | Some r \<Rightarrow>
                          let sym_end = pos r; r = dropWhile isspace r; mod_start = pos r
                          in (case scan_word r of
                                None \<Rightarrow> Some (addr, t, sym_start, sym_end, mod_start, 0)
                              | Some r \<Rightarrow> Some (addr, t, sym_start, sym_end, mod_start, pos r)))))"

text \<open>The stores that cut the module name out of the line.\<close>

definition cut_module :: "char list \<Rightarrow> nat \<Rightarrow> nat \<Rightarrow> char list" where
  "cut_module b mod_start mod_end =
     (let b = b[mod_start := CHR ''[''];
          b = (if b ! (mod_end - 1) \<in> {CHR 0x0A, CHR 0x0D, CHR '']''} then b[mod_end - 1 := NUL] else b)
      in b[mod_end := NUL])"

definition new_module :: "string \<Rightarrow> Module" where
  "new_module name = \<lparr>m_name = name, m_syms = symvec_empty\<rparr>"

text \<open>The symbol is added to the module, which is created when it is new.\<close>

definition add_to_module ::
  "'m mod_hash \<Rightarrow> 'm kstate \<Rightarrow> string \<Rightarrow> u64 \<Rightarrow> string \<Rightarrow> char \<Rightarrow> u64 \<Rightarrow> 'm kstate res" where
  "add_to_module H st module addr name type nmlen =
     (let (i, st) = (case hash_find H (k_mhash st) module of
                       Some i \<Rightarrow> (i, st)
                     | None \<Rightarrow> (length (k_mods st),
                               st\<lparr>k_mhash := hash_add H (k_mhash st) module (length (k_mods st)),
                                  k_mods := k_mods st @ [new_module module]\<rparr>))
      in rbind (symvec_push (m_syms (k_mods st ! i)) addr name type nmlen) (\<lambda>v.
         Inr (st\<lparr>k_mods := (k_mods st)[i := (k_mods st ! i)\<lparr>m_syms := v\<rparr>]\<rparr>)))"

definition prc_line :: "'m mod_hash \<Rightarrow> string \<Rightarrow> 'm kstate \<Rightarrow> 'm kstate res" where
  "prc_line H line st =
     (case scan_kallsyms line of
        None \<Rightarrow> Inr st
      | Some (addr, type, sym_start, sym_end, mod_start, mod_end) \<Rightarrow>
          let b = (line @ [NUL])[sym_end := NUL];
              nmlen = of_int (int sym_end - int sym_start + 1)
          in if mod_start \<noteq> 0 \<and> mod_start < mod_end
             then let b = cut_module b mod_start mod_end
                  in add_to_module H st (cstr_at b (mod_start + 1)) addr (cstr_at b sym_start) type nmlen
             else rbind (symvec_push (k_syms st) addr (cstr_at b sym_start) type nmlen) (\<lambda>v.
                  Inr (st\<lparr>k_syms := v\<rparr>)))"

primrec prc_lines :: "'m mod_hash \<Rightarrow> string list \<Rightarrow> 'm kstate \<Rightarrow> 'm kstate res" where
  "prc_lines H [] st = Inr st"
| "prc_lines H (l # ls) st = rbind (prc_line H l st) (prc_lines H ls)"

definition kstate_init :: "'m mod_hash \<Rightarrow> 'm kstate" where
  "kstate_init H = \<lparr>k_syms = symvec_empty, k_mhash = hash_null H, k_mods = []\<rparr>"

section \<open>Writing the objects\<close>

text \<open>
  \<open>writeso\<close>: with \<open>fd\<close> -1 the file of the path is created and written, otherwise \<open>fd\<close> is a descriptor that is open on it, at its start. The results of \<open>open\<close> and
  \<open>write\<close> are not looked at. NULL is not the value that the code tests for: it goes on with \<open>elf_size\<close> and \<open>mfd\<close> that were never set.
\<close>

definition writeso :: "elf_env \<Rightarrow> string \<Rightarrow> int \<Rightarrow> SymbolEntry list \<Rightarrow> u64 \<Rightarrow> files \<Rightarrow> files res" where
  "writeso E path fd entries nmstrlen fs =
     rbind (elf_generate_elf_mmap E entries nmstrlen) (\<lambda>m.
     case m of
       Map_null \<Rightarrow> Inl Uninit_read
     | Map_failed _ \<Rightarrow> Inr fs
     | Map_elf elf _ \<Rightarrow>
         Inr (if fd = -1 then put_file E path elf fs else write_start (ee_files E) path (ee_image E elf) fs))"

text \<open>\<open>mkpath\<close>, with the answer of \<open>mkdir\<close> for each path. The calls are returned in their order.\<close>

datatype mkdir_res = Mk_ok | Mk_exists | Mk_error

primrec mkpath_loop :: "(string \<Rightarrow> mkdir_res) \<Rightarrow> string \<Rightarrow> nat list \<Rightarrow> bool \<times> string list" where
  "mkpath_loop mk path [] = (True, [])"
| "mkpath_loop mk path (i # ix) =
     (if path ! i = CHR ''/''
      then if mk (take i path) = Mk_error then (False, [take i path])
           else let (ok, calls) = mkpath_loop mk path ix in (ok, take i path # calls)
      else mkpath_loop mk path ix)"

definition mkpath :: "(string \<Rightarrow> mkdir_res) \<Rightarrow> string \<Rightarrow> (int \<times> string list) res" where
  "mkpath mk path =
     (if path = [] then Inl Out_of_bounds
      else let (ok, calls) = mkpath_loop mk path [1..<length path]
           in Inr (if \<not> ok then (-1, calls)
                   else if mk path = Mk_error then (-1, calls @ [path]) else (0, calls @ [path])))"

definition so_path :: "string option \<Rightarrow> string \<Rightarrow> string" where
  "so_path pathprefix name =
     snprintf PATH_MAX (case pathprefix of Some p \<Rightarrow> p @ ''/lib'' @ name @ ''.so'' | None \<Rightarrow> ''lib'' @ name @ ''.so'')"

primrec write_mods :: "elf_env \<Rightarrow> string option \<Rightarrow> Module list \<Rightarrow> files \<Rightarrow> files res" where
  "write_mods E pathprefix [] fs = Inr fs"
| "write_mods E pathprefix (m # ms) fs =
     rbind (writeso E (so_path pathprefix (m_name m)) (-1) (sv_entries (m_syms m)) (sv_nmstrlen (m_syms m)) fs)
       (write_mods E pathprefix ms)"

text \<open>What \<open>prcKallsyms\<close> does to the files once the path prefix exists.\<close>

definition kallsyms_files :: "'m mod_hash \<Rightarrow> elf_env \<Rightarrow> string option \<Rightarrow> string list \<Rightarrow> files \<Rightarrow> files res" where
  "kallsyms_files H E pathprefix lines fs =
     rbind (prc_lines H lines (kstate_init H)) (\<lambda>st.
     rbind (if sv_entries (k_syms st) \<noteq> []
            then writeso E (so_path pathprefix ''kern'') (-1) (sv_entries (k_syms st)) (sv_nmstrlen (k_syms st)) fs
            else Inr fs)
       (write_mods E pathprefix (map (\<lambda>p. k_mods st ! snd p) (hash_iter H (k_mhash st)))))"

text \<open>\<open>prcKallsyms\<close> returns only when the path prefix cannot be made; otherwise it ends in \<open>EEXIT\<close>.\<close>

definition prcKallsyms ::
  "'m mod_hash \<Rightarrow> elf_env \<Rightarrow> (string \<Rightarrow> mkdir_res) \<Rightarrow> string option \<Rightarrow> string list \<Rightarrow> files \<Rightarrow> unit res" where
  "prcKallsyms H E mk pathprefix lines fs =
     rbind (case pathprefix of None \<Rightarrow> Inr 0 | Some p \<Rightarrow> rbind (mkpath mk p) (\<lambda>(rc, _). Inr rc)) (\<lambda>rc.
     if rc < 0 then Inr ()
     else rbind (kallsyms_files H E pathprefix lines fs) (\<lambda>_. Inl (Exit_process 1)))"

end
