(* ===== verification/Kallsyms_Props.thy ===== *)
theory Kallsyms_Props
  imports Kld_Kallsyms
begin

text \<open>
  Correctness of the processing of \<open>/proc/kallsyms\<close>: a line that the kernel printed is scanned back to
  what it was printed from, the symbols are distributed over the kernel and the modules without loss,
  and the string tables of the objects that are written have exactly the room their names need.
\<close>

section \<open>Lines as the kernel prints them\<close>

record kline =
  kl_addr :: u64
  kl_type :: char
  kl_name :: string
  kl_mod :: "string option"

definition print_kline :: "kline \<Rightarrow> string" where
  "print_kline k = hexstr 16 (unat (kl_addr k)) @ '' '' @ [kl_type k] @ '' '' @ kl_name k @
     (case kl_mod k of None \<Rightarrow> [] | Some m \<Rightarrow> CHR 0x09 # ''['' @ m @ '']'') @ [CHR 0x0A]"

definition sym_types :: "char list" where
  "sym_types = ''AaBbDdRrTtVvWw''"

definition plain_word :: "string \<Rightarrow> bool" where
  "plain_word s \<longleftrightarrow> (\<forall>c \<in> set s. \<not> isspace c \<and> c \<noteq> NUL)"

definition kline_ok :: "kline \<Rightarrow> bool" where
  "kline_ok k \<longleftrightarrow> kl_type k \<in> set sym_types \<and> kl_name k \<noteq> [] \<and> plain_word (kl_name k) \<and>
     (case kl_mod k of None \<Rightarrow> True | Some m \<Rightarrow> plain_word m)"

text \<open>The entry a line stands for.\<close>

definition kline_entry :: "kline \<Rightarrow> SymbolEntry" where
  "kline_entry k = (case initSE (kl_addr k) (kl_name k) (kl_type k) of Inr e \<Rightarrow> e
     | Inl _ \<Rightarrow> \<lparr>se_name = [], se_addr = 0, se_size = 0, se_bind = BIND_GLOBAL, se_type = TYPE_ABS\<rparr>)"

lemma initSE_ok:
  "t \<in> set sym_types \<Longrightarrow> \<exists>e. initSE a n t = Inr e \<and> se_name e = n \<and> se_addr e = a"
  by (auto simp: sym_types_def initSE_def Let_def)

lemma initSE_kline:
  assumes "kline_ok k"
  shows "initSE (kl_addr k) (kl_name k) (kl_type k) = Inr (kline_entry k)" "se_name (kline_entry k) = kl_name k"
    "se_addr (kline_entry k) = kl_addr k"
  using initSE_ok[of "kl_type k" "kl_addr k" "kl_name k"] assms by (auto simp: kline_ok_def kline_entry_def)

lemma hexdigit_not_space: "d < 16 \<Longrightarrow> \<not> isspace (hexdigit d)"
proof -
  assume d: "d < 16"
  have "isspace c \<Longrightarrow> hexval c = None" for c by (auto simp: isspace_def hexval_def)
  then show ?thesis using hexval_hexdigit[OF d] by fastforce
qed

lemma scan_hex_hexstr:
  assumes "r \<noteq> []" and "hexval (hd r) = None" and "n < 2 ^ 64"
  shows "scan_hex (hexstr 16 n @ r) = Some (of_nat n, r)"
proof -
  let ?h = "hexstr 16 n"
  have dig: "hexval c \<noteq> None" "\<not> isspace c" "c \<noteq> CHR ''-''" "c \<noteq> CHR ''+''" "c \<noteq> CHR ''x''" "c \<noteq> CHR ''X''"
    if c: "c \<in> set ?h" for c
  proof -
    obtain d where d: "d < 16" "c = hexdigit d" using hexstr_digits[OF c] by blast
    then have "hexval c = Some d" using hexval_hexdigit by simp
    then show "hexval c \<noteq> None" "\<not> isspace c" "c \<noteq> CHR ''-''" "c \<noteq> CHR ''+''" "c \<noteq> CHR ''x''" "c \<noteq> CHR ''X''"
      using hexdigit_not_space[OF d(1)] d(2) by (auto simp: hexval_def)
  qed
  obtain c c' cs where h: "?h = c # c' # cs" using length_hexstr[of 16 n]
    by (cases ?h; cases "tl ?h") auto
  obtain y ys where r: "r = y # ys" using assms(1) by (cases r) auto
  have tw: "takeWhile (\<lambda>c. hexval c \<noteq> None) (?h @ r) = ?h" "dropWhile (\<lambda>c. hexval c \<noteq> None) (?h @ r) = r"
    using takeWhile_append_stop[of ?h "\<lambda>c. hexval c \<noteq> None" y ys] dig(1) assms(2) r by auto
  have v: "hexnum ?h = n" using hexnum_hexstr[of 16 n] assms(3) by simp
  have "dropWhile isspace (?h @ r) = ?h @ r" using dig(2)[of c] h by simp
  then show ?thesis
    using tw v assms(3) dig(3,4)[of c] dig(5,6)[of c'] h
    by (simp add: scan_hex_def Let_def)
qed

lemma scan_word_plain:
  assumes "w \<noteq> []" and "plain_word w" and "isspace y"
  shows "scan_word (w @ y # ys) = Some (y # ys)"
proof -
  obtain c cs where w: "w = c # cs" using assms(1) by (cases w) auto
  have "dropWhile isspace (w @ y # ys) = w @ y # ys" using assms(2) w by (simp add: plain_word_def)
  moreover have "dropWhile (\<lambda>c. \<not> isspace c) (w @ y # ys) = y # ys"
    using takeWhile_append_stop[of w "\<lambda>c. \<not> isspace c" y ys] assms(2,3) by (simp add: plain_word_def)
  ultimately show ?thesis using w by (simp add: scan_word_def)
qed

lemma isspace_chars [simp]: "isspace (CHR '' '')" "isspace (CHR 0x09)" "isspace (CHR 0x0A)"
  by (simp_all add: isspace_def)

lemma sym_types_plain: "t \<in> set sym_types \<Longrightarrow> \<not> isspace t"
  by (auto simp: sym_types_def isspace_def)

lemma dropWhile_plain: "w \<noteq> [] \<Longrightarrow> plain_word w \<Longrightarrow> dropWhile isspace (w @ r) = w @ r"
  by (cases w) (simp_all add: plain_word_def)

lemma scan_kallsyms_print:
  assumes "kline_ok k"
  shows "scan_kallsyms (print_kline k) = (case kl_mod k of
      None \<Rightarrow> Some (kl_addr k, kl_type k, 19, 19 + length (kl_name k), 20 + length (kl_name k), 0)
    | Some m \<Rightarrow> Some (kl_addr k, kl_type k, 19, 19 + length (kl_name k), 20 + length (kl_name k),
                    22 + length (kl_name k) + length m))"
proof -
  let ?rest = "(case kl_mod k of None \<Rightarrow> [] | Some m \<Rightarrow> CHR 0x09 # ''['' @ m @ '']'') @ [CHR 0x0A]"
  let ?r = "'' '' @ [kl_type k] @ '' '' @ kl_name k @ ?rest"
  have ok: "kl_type k \<in> set sym_types" "kl_name k \<noteq> []" "plain_word (kl_name k)"
    using assms by (simp_all add: kline_ok_def)
  have hex: "scan_hex (print_kline k) = Some (kl_addr k, ?r)"
    unfolding print_kline_def using unat_bound64[of "kl_addr k"]
    by (subst scan_hex_hexstr) (simp_all add: hexval_def)
  have len: "length (print_kline k) = 19 + length (kl_name k) + length ?rest" by (simp add: print_kline_def)
  have t: "dropWhile isspace ?r = kl_type k # '' '' @ kl_name k @ ?rest"
    using sym_types_plain[OF ok(1)] by simp
  have n: "dropWhile isspace ('' '' @ kl_name k @ ?rest) = kl_name k @ ?rest"
    using dropWhile_plain[OF ok(2,3)] by simp
  show ?thesis
  proof (cases "kl_mod k")
    case None
    have w: "scan_word (kl_name k @ ?rest) = Some ''\<newline>''"
      using scan_word_plain[OF ok(2,3), of "CHR 0x0A" "[]"] None by simp
    have "scan_word [] = None" by (simp add: scan_word_def)
    then show ?thesis using hex t n w None len by (simp add: scan_kallsyms_def Let_def)
  next
    case (Some m)
    have pm: "plain_word (''['' @ m @ '']'')" using assms Some by (simp add: kline_ok_def plain_word_def isspace_def)
    have w: "scan_word (kl_name k @ ?rest) = Some (CHR 0x09 # ''['' @ m @ '']'' @ [CHR 0x0A])"
      using scan_word_plain[OF ok(2,3), of "CHR 0x09"] Some by simp
    have d: "dropWhile isspace (CHR 0x09 # ''['' @ m @ '']'' @ [CHR 0x0A]) = (''['' @ m @ '']'') @ [CHR 0x0A]"
      by (simp add: isspace_def)
    have w2: "scan_word ((''['' @ m @ '']'') @ [CHR 0x0A]) = Some [CHR 0x0A]"
      using scan_word_plain[OF _ pm, of "CHR 0x0A" "[]"] by simp
    show ?thesis using hex t n w d w2 Some len by (simp add: scan_kallsyms_def Let_def)
  qed
qed

section \<open>One line\<close>

lemma plain_no_NUL: "plain_word s \<Longrightarrow> NUL \<notin> set s"
  by (auto simp: plain_word_def)

lemma cut_module_line:
  assumes "length q = 20 + n" and "plain_word m"
  shows "cut_module (q @ ''['' @ m @ '']'' @ [CHR 0x0A, NUL]) (20 + n) (22 + n + length m) =
    q @ ''['' @ m @ [NUL, NUL, NUL]"
proof -
  let ?b = "q @ ''['' @ m @ '']'' @ [CHR 0x0A, NUL]"
  have "?b[20 + n := CHR ''[''] = ?b" using assms(1) by (simp add: list_update_append)
  moreover have "?b ! (22 + n + length m - 1) = CHR '']''" using assms(1) by (simp add: nth_append)
  moreover have "?b[22 + n + length m - 1 := NUL] = q @ ''['' @ m @ [NUL, CHR 0x0A, NUL]"
    using assms(1) by (simp add: list_update_append)
  moreover have "(q @ ''['' @ m @ [NUL, CHR 0x0A, NUL])[22 + n + length m := NUL] = q @ ''['' @ m @ [NUL, NUL, NUL]"
    using assms(1) by (simp add: list_update_append)
  ultimately show ?thesis by (simp add: cut_module_def Let_def)
qed

text \<open>A printed line has the effect of its symbol.\<close>

lemma prc_line_print:
  assumes ok: "kline_ok k"
  shows "prc_line H (print_kline k) st = (case kl_mod k of
      None \<Rightarrow> rbind (symvec_push (k_syms st) (kl_addr k) (kl_name k) (kl_type k) (of_nat (length (kl_name k) + 1)))
               (\<lambda>v. Inr (st\<lparr>k_syms := v\<rparr>))
    | Some m \<Rightarrow> add_to_module H st m (kl_addr k) (kl_name k) (kl_type k) (of_nat (length (kl_name k) + 1)))"
proof -
  let ?p = "hexstr 16 (unat (kl_addr k)) @ '' '' @ [kl_type k] @ '' ''"
  let ?n = "kl_name k"
  have lp: "length ?p = 19" by simp
  have nn: "NUL \<notin> set ?n" using ok plain_no_NUL by (simp add: kline_ok_def)
  have nmlen: "of_int (int (19 + length ?n) - int 19 + 1) = (of_nat (length ?n + 1) :: u64)" by simp
  have upd: "(?p @ ?n @ y # ys)[19 + length ?n := NUL] = ?p @ ?n @ NUL # ys" for y ys
    using lp by (simp add: list_update_append)
  have name: "cstr_at (?p @ ?n @ NUL # ys) 19 = ?n" for ys
    using cstr_terminated[OF nn, of ys] lp by (simp add: cstr_at_def)
  show ?thesis
  proof (cases "kl_mod k")
    case None
    have "(print_kline k @ [NUL])[19 + length ?n := NUL] = ?p @ ?n @ [NUL, NUL]"
      using upd[of "CHR 0x0A" "[NUL]"] None by (simp add: print_kline_def)
    then show ?thesis
      using scan_kallsyms_print[OF ok] None name[of "[NUL]"] nmlen by (simp add: prc_line_def Let_def add.commute)
  next
    case (Some m)
    let ?q = "?p @ ?n @ [NUL]"
    have pm: "plain_word m" using ok Some by (simp add: kline_ok_def)
    have "(print_kline k @ [NUL])[19 + length ?n := NUL] = ?q @ ''['' @ m @ '']'' @ [CHR 0x0A, NUL]"
      using upd[of "CHR 0x09" "''['' @ m @ '']'' @ [CHR 0x0A, NUL]"] Some by (simp add: print_kline_def)
    moreover have "cut_module (?q @ ''['' @ m @ '']'' @ [CHR 0x0A, NUL]) (20 + length ?n) (22 + length ?n + length m) =
        ?q @ ''['' @ m @ [NUL, NUL, NUL]"
      using pm by (intro cut_module_line) simp_all
    moreover have "cstr_at (?q @ ''['' @ m @ [NUL, NUL, NUL]) 19 = ?n" using name by simp
    moreover have "cstr_at (?q @ ''['' @ m @ [NUL, NUL, NUL]) (20 + length ?n + 1) = m"
    proof -
      have "drop (length (?q @ ''['')) ((?q @ ''['') @ r) = r" for r by (simp only: append_eq_conv_conj[THEN iffD1, OF refl, THEN conjunct2, symmetric])
      moreover have "length (?q @ ''['') = 20 + length ?n + 1" by simp
      ultimately have "drop (20 + length ?n + 1) (?q @ ''['' @ m @ [NUL, NUL, NUL]) = m @ [NUL, NUL, NUL]"
        by (metis append_assoc)
      then show ?thesis using cstr_terminated[OF plain_no_NUL[OF pm], of "[NUL, NUL]"] by (simp only: cstr_at_def)
    qed
    ultimately show ?thesis
      using scan_kallsyms_print[OF ok] Some nmlen by (simp add: prc_line_def Let_def add.commute)
  qed
qed

section \<open>Collecting\<close>

definition symvec_holds :: "symvec \<Rightarrow> kline list \<Rightarrow> bool" where
  "symvec_holds v ks \<longleftrightarrow> sv_entries v = map kline_entry ks \<and> length ks \<le> sv_cap v \<and>
     sv_nmstrlen v = of_nat (strs_len (map kl_name ks))"

lemma strs_len_append [simp]: "strs_len (xs @ ys) = strs_len xs + strs_len ys"
  by (simp add: strs_len_def)

lemma symvec_push_holds:
  assumes "symvec_holds v ks" and "kline_ok k"
  obtains v' where "symvec_push v (kl_addr k) (kl_name k) (kl_type k) (of_nat (length (kl_name k) + 1)) = Inr v'"
    and "symvec_holds v' (ks @ [k])"
proof -
  let ?cap = "if length (sv_entries v) = sv_cap v then (if sv_cap v \<noteq> 0 then 2 * sv_cap v else 1024) else sv_cap v"
  let ?v = "\<lparr>sv_entries = sv_entries v @ [kline_entry k], sv_cap = ?cap,
      sv_nmstrlen = sv_nmstrlen v + of_nat (length (kl_name k) + 1)\<rparr>"
  have cap: "length ks < ?cap" using assms(1) by (auto simp: symvec_holds_def)
  have "symvec_push v (kl_addr k) (kl_name k) (kl_type k) (of_nat (length (kl_name k) + 1)) = Inr ?v"
    using cap assms(1) initSE_kline(1)[OF assms(2)]
    by (simp add: symvec_push_def symvec_holds_def Let_def del: of_nat_add of_nat_Suc)
  moreover have "symvec_holds ?v (ks @ [k])" using assms(1) cap by (simp add: symvec_holds_def)
  ultimately show thesis using that by blast
qed

text \<open>
  The state holds the lines \<open>ks\<close>: the kernel's symbols are those without a module, and the modules are
  those that the lines name, in the order of their first symbol, each with the symbols of that name.
\<close>

definition of_mod :: "string option \<Rightarrow> kline list \<Rightarrow> kline list" where
  "of_mod mo ks = filter (\<lambda>k. kl_mod k = mo) ks"

definition mod_names :: "kline list \<Rightarrow> string list" where
  "mod_names ks = rev (remdups (rev (map the (filter (\<lambda>mo. mo \<noteq> None) (map kl_mod ks)))))"

definition mod_holds :: "kline list \<Rightarrow> Module \<Rightarrow> string \<Rightarrow> bool" where
  "mod_holds ks m n \<longleftrightarrow> m_name m = n \<and> symvec_holds (m_syms m) (of_mod (Some n) ks)"

definition kstate_holds :: "'m mod_hash \<Rightarrow> 'm kstate \<Rightarrow> kline list \<Rightarrow> bool" where
  "kstate_holds H st ks \<longleftrightarrow>
     symvec_holds (k_syms st) (of_mod None ks) \<and>
     hash_iter H (k_mhash st) = zip (mod_names ks) [0..<length (mod_names ks)] \<and>
     list_all2 (mod_holds ks) (k_mods st) (mod_names ks)"

lemma of_mod_snoc: "of_mod mo (ks @ [k]) = (if kl_mod k = mo then of_mod mo ks @ [k] else of_mod mo ks)"
  by (simp add: of_mod_def)

lemma mod_names_snoc:
  "mod_names (ks @ [k]) = (case kl_mod k of None \<Rightarrow> mod_names ks
     | Some m \<Rightarrow> if m \<in> set (mod_names ks) then mod_names ks else mod_names ks @ [m])"
  by (cases "kl_mod k") (simp_all add: mod_names_def)

lemma distinct_mod_names [simp]: "distinct (mod_names ks)"
  by (simp add: mod_names_def)

lemma set_mod_names: "m \<in> set (mod_names ks) \<longleftrightarrow> (\<exists>k \<in> set ks. kl_mod k = Some m)"
  by (auto simp: mod_names_def image_iff)

lemma of_mod_new: "m \<notin> set (mod_names ks) \<Longrightarrow> of_mod (Some m) ks = []"
  by (auto simp: set_mod_names of_mod_def filter_empty_conv)

lemma symvec_holds_empty: "symvec_holds symvec_empty []"
  by (simp add: symvec_holds_def symvec_empty_def)

lemma mod_holds_other: "mod_holds ks m n \<Longrightarrow> kl_mod k \<noteq> Some n \<Longrightarrow> mod_holds (ks @ [k]) m n"
  by (simp add: mod_holds_def of_mod_snoc)

lemma kstate_hash:
  assumes "kstate_holds H st ks"
  shows "hash_keys H (k_mhash st) = mod_names ks" "length (k_mods st) = length (mod_names ks)"
  using assms by (auto simp: kstate_holds_def hash_keys_def dest: list_all2_lengthD)

text \<open>The symbol of \<open>k\<close> reaches the module of index \<open>i\<close>.\<close>

lemma push_module:
  assumes "list_all2 (mod_holds ks) mods names" and "i < length names" and "kl_mod k = Some (names ! i)"
    and "kline_ok k" and "distinct names"
  obtains v where "symvec_push (m_syms (mods ! i)) (kl_addr k) (kl_name k) (kl_type k) (of_nat (length (kl_name k) + 1)) = Inr v"
    and "list_all2 (mod_holds (ks @ [k])) (mods[i := (mods ! i)\<lparr>m_syms := v\<rparr>]) names"
proof -
  have len: "length mods = length names" and nth: "\<And>j. j < length names \<Longrightarrow> mod_holds ks (mods ! j) (names ! j)"
    using assms(1) by (auto simp: list_all2_conv_all_nth)
  have "symvec_holds (m_syms (mods ! i)) (of_mod (Some (names ! i)) ks)"
    using nth[OF assms(2)] by (simp add: mod_holds_def)
  then obtain v where v: "symvec_push (m_syms (mods ! i)) (kl_addr k) (kl_name k) (kl_type k) (of_nat (length (kl_name k) + 1)) = Inr v"
      "symvec_holds v (of_mod (Some (names ! i)) ks @ [k])"
    using symvec_push_holds[OF _ assms(4)] by blast
  have "mod_holds (ks @ [k]) (mods[i := (mods ! i)\<lparr>m_syms := v\<rparr>] ! j) (names ! j)" if j: "j < length names" for j
  proof (cases "j = i")
    case True
    then show ?thesis using v(2) nth[OF assms(2)] assms(2,3) len by (simp add: mod_holds_def of_mod_snoc)
  next
    case False
    then have "names ! j \<noteq> names ! i" using assms(2,5) j by (simp add: nth_eq_iff_index_eq)
    then show ?thesis using False nth[OF j] assms(3) by (simp add: mod_holds_other)
  qed
  then have "list_all2 (mod_holds (ks @ [k])) (mods[i := (mods ! i)\<lparr>m_syms := v\<rparr>]) names"
    using len by (simp add: list_all2_conv_all_nth)
  then show thesis using v(1) that by blast
qed

lemma add_to_module_holds:
  assumes "uthash H" and st: "kstate_holds H st ks" and ok: "kline_ok k" and m: "kl_mod k = Some m"
  obtains st' where "add_to_module H st m (kl_addr k) (kl_name k) (kl_type k) (of_nat (length (kl_name k) + 1)) = Inr st'"
    and "kstate_holds H st' (ks @ [k])"
proof -
  note hk = kstate_hash[OF st]
  have dk: "distinct (hash_keys H (k_mhash st))" using hk by simp
  have la: "list_all2 (mod_holds ks) (k_mods st) (mod_names ks)" using st by (simp add: kstate_holds_def)
  have ks0: "symvec_holds (k_syms st) (of_mod None (ks @ [k]))" using st m by (simp add: kstate_holds_def of_mod_snoc)
  show thesis
  proof (cases "m \<in> set (mod_names ks)")
    case True
    then obtain i where i: "i < length (mod_names ks)" "mod_names ks ! i = m" by (auto simp: in_set_conv_nth)
    have "(m, i) \<in> set (hash_iter H (k_mhash st))"
      using st i by (auto simp: kstate_holds_def set_zip intro!: exI[of _ i])
    then have f: "hash_find H (k_mhash st) m = Some i" using uthash.find_Some_iff[OF assms(1) dk] by simp
    obtain v where v: "symvec_push (m_syms (k_mods st ! i)) (kl_addr k) (kl_name k) (kl_type k) (of_nat (length (kl_name k) + 1)) = Inr v"
        "list_all2 (mod_holds (ks @ [k])) ((k_mods st)[i := (k_mods st ! i)\<lparr>m_syms := v\<rparr>]) (mod_names ks)"
      using push_module[OF la i(1) _ ok] m i(2) by auto
    show thesis
      by (rule that[of "st\<lparr>k_mods := (k_mods st)[i := (k_mods st ! i)\<lparr>m_syms := v\<rparr>]\<rparr>"])
        (use f v st ks0 True m in \<open>simp_all add: add_to_module_def kstate_holds_def mod_names_snoc del: of_nat_add of_nat_Suc\<close>)
  next
    case False
    let ?n = "length (mod_names ks)" and ?names = "mod_names ks @ [m]" and ?mods = "k_mods st @ [new_module m]"
    have f: "hash_find H (k_mhash st) m = None" using uthash.find_None_iff[OF assms(1) dk] False hk by simp
    have it: "hash_iter H (hash_add H (k_mhash st) m ?n) = zip ?names [0..<Suc ?n]"
      using uthash.iter_add[OF assms(1), of m "k_mhash st" ?n] False hk st by (simp add: kstate_holds_def)
    have "mod_holds ks (new_module m) m"
      using symvec_holds_empty of_mod_new[OF False] by (simp add: mod_holds_def new_module_def)
    then have la': "list_all2 (mod_holds ks) ?mods ?names" using la hk(2) by (simp add: list_all2_appendI)
    obtain v where v: "symvec_push (m_syms (?mods ! ?n)) (kl_addr k) (kl_name k) (kl_type k) (of_nat (length (kl_name k) + 1)) = Inr v"
        "list_all2 (mod_holds (ks @ [k])) (?mods[?n := (?mods ! ?n)\<lparr>m_syms := v\<rparr>]) ?names"
      using push_module[OF la' _ _ ok, of ?n] m False by (auto simp del: of_nat_add of_nat_Suc)
    let ?st = "st\<lparr>k_mhash := hash_add H (k_mhash st) m ?n, k_mods := ?mods[?n := (?mods ! ?n)\<lparr>m_syms := v\<rparr>]\<rparr>"
    have "add_to_module H st m (kl_addr k) (kl_name k) (kl_type k) (of_nat (length (kl_name k) + 1)) = Inr ?st"
      using f v(1) hk(2) by (simp add: add_to_module_def Let_def del: of_nat_add of_nat_Suc)
    moreover have "kstate_holds H ?st (ks @ [k])"
      using it v(2) ks0 False m by (simp add: kstate_holds_def mod_names_snoc)
    ultimately show thesis by (rule that)
  qed
qed

lemma prc_line_holds:
  assumes "uthash H" and st: "kstate_holds H st ks" and ok: "kline_ok k"
  obtains st' where "prc_line H (print_kline k) st = Inr st'" and "kstate_holds H st' (ks @ [k])"
proof (cases "kl_mod k")
  case None
  have "symvec_holds (k_syms st) (of_mod None ks)" using st by (simp add: kstate_holds_def)
  then obtain v where v: "symvec_push (k_syms st) (kl_addr k) (kl_name k) (kl_type k) (of_nat (length (kl_name k) + 1)) = Inr v"
      "symvec_holds v (of_mod None ks @ [k])"
    using symvec_push_holds[OF _ ok] by blast
  have "list_all2 (mod_holds (ks @ [k])) (k_mods st) (mod_names ks)"
    using st None by (auto simp: kstate_holds_def elim!: list_all2_mono intro: mod_holds_other)
  then have "kstate_holds H (st\<lparr>k_syms := v\<rparr>) (ks @ [k])"
    using st v(2) None by (simp add: kstate_holds_def mod_names_snoc of_mod_snoc)
  moreover have "prc_line H (print_kline k) st = Inr (st\<lparr>k_syms := v\<rparr>)"
    using prc_line_print[OF ok, of H st] None v(1) by (simp del: of_nat_add of_nat_Suc)
  ultimately show thesis using that by blast
next
  case (Some m)
  then show thesis
    using add_to_module_holds[OF assms(1) st ok Some] prc_line_print[OF ok, of H st] that by (metis option.simps(5))
qed

lemma prc_lines_holds:
  assumes "uthash H" and "kstate_holds H st seen" and "\<forall>k \<in> set ks. kline_ok k"
  shows "\<exists>st'. prc_lines H (map print_kline ks) st = Inr st' \<and> kstate_holds H st' (seen @ ks)"
  using assms(2,3)
proof (induction ks arbitrary: st "seen")
  case (Cons k ks)
  obtain st1 where s: "prc_line H (print_kline k) st = Inr st1" "kstate_holds H st1 (seen @ [k])"
    using prc_line_holds[OF assms(1) Cons.prems(1)] Cons.prems(2) by auto
  then show ?case using Cons.IH[OF s(2)] Cons.prems(2) by simp
qed simp

lemma kstate_init_holds:
  assumes "uthash H"
  shows "kstate_holds H (kstate_init H) []"
  using uthash.iter_null[OF assms]
  by (simp add: kstate_holds_def kstate_init_def of_mod_def symvec_holds_empty mod_names_def)

section \<open>Correctness\<close>

text \<open>
  The loop over the lines that the kernel printed never faults, and it loses and misplaces no
  symbol: those without a module are the kernel's, in their order, and there is exactly one module per
  module name, in the order of its first symbol, that holds the symbols of that name.
\<close>

theorem prc_lines_partition:
  assumes "uthash H" and "\<forall>k \<in> set ks. kline_ok k"
  shows "\<exists>st. prc_lines H (map print_kline ks) (kstate_init H) = Inr st \<and>
    sv_entries (k_syms st) = map kline_entry (of_mod None ks) \<and>
    map (\<lambda>m. (m_name m, sv_entries (m_syms m))) (k_mods st) =
      map (\<lambda>n. (n, map kline_entry (of_mod (Some n) ks))) (mod_names ks)"
proof -
  obtain st where st: "prc_lines H (map print_kline ks) (kstate_init H) = Inr st" "kstate_holds H st ks"
    using prc_lines_holds[OF assms(1) kstate_init_holds[OF assms(1)] assms(2)] by auto
  have "list_all2 (mod_holds ks) (k_mods st) (mod_names ks)" using st(2) by (simp add: kstate_holds_def)
  then have "map (\<lambda>m. (m_name m, sv_entries (m_syms m))) (k_mods st) =
      map (\<lambda>n. (n, map kline_entry (of_mod (Some n) ks))) (mod_names ks)"
    by induction (simp_all add: mod_holds_def symvec_holds_def)
  then show ?thesis using st by (auto simp: kstate_holds_def symvec_holds_def)
qed

definition demo_lines :: "kline list" where
  "demo_lines =
     [\<lparr>kl_addr = 0x1000, kl_type = CHR ''T'', kl_name = ''printk'', kl_mod = None\<rparr>,
      \<lparr>kl_addr = 0x2000, kl_type = CHR ''d'', kl_name = ''dev'', kl_mod = Some ''e1000''\<rparr>,
      \<lparr>kl_addr = 0x3000, kl_type = CHR ''W'', kl_name = ''panic'', kl_mod = None\<rparr>]"

lemma demo_lines_ok: "\<forall>k \<in> set demo_lines. kline_ok k"
  by code_simp

theorem prc_lines_partition_witness:
  "\<exists>st. prc_lines alist_uthash (map print_kline demo_lines) (kstate_init alist_uthash) = Inr st \<and>
    map se_addr (sv_entries (k_syms st)) = [0x1000, 0x3000] \<and> map m_name (k_mods st) = [''e1000'']"
proof -
  have k: "map se_addr (map kline_entry (of_mod None demo_lines)) = [0x1000, 0x3000]" by code_simp
  have m: "mod_names demo_lines = [''e1000'']" by code_simp
  obtain st where st: "prc_lines alist_uthash (map print_kline demo_lines) (kstate_init alist_uthash) = Inr st"
      "sv_entries (k_syms st) = map kline_entry (of_mod None demo_lines)"
      "map (\<lambda>m. (m_name m, sv_entries (m_syms m))) (k_mods st) =
        map (\<lambda>n. (n, map kline_entry (of_mod (Some n) demo_lines))) (mod_names demo_lines)"
    using prc_lines_partition[OF uthash_alist demo_lines_ok] by blast
  then have "map m_name (k_mods st) = map fst (map (\<lambda>n. (n, map kline_entry (of_mod (Some n) demo_lines))) (mod_names demo_lines))"
    by (metis (no_types, lifting) fst_conv list.map_comp comp_apply map_eq_conv)
  then show ?thesis using st(1,2) k m by simp
qed

text \<open>The collections that are written, in their order: the kernel (when it has symbols) and the modules.\<close>

definition collections :: "kline list \<Rightarrow> string option list" where
  "collections ks = (if of_mod None ks = [] then [] else [None]) @ map Some (mod_names ks)"

definition elf_env_ok :: "elf_env \<Rightarrow> bool" where
  "elf_env_ok E \<longleftrightarrow> 0 \<le> ee_memfd E \<and> ee_begin E \<and> ee_mmap E"

definition coll_path :: "string option \<Rightarrow> string option \<Rightarrow> string" where
  "coll_path pathprefix mo = so_path pathprefix (case mo of None \<Rightarrow> ''kern'' | Some m \<Rightarrow> m)"

definition coll_file :: "elf_env \<Rightarrow> string option \<Rightarrow> string option \<Rightarrow> string" where
  "coll_file E pathprefix mo = fe_file (ee_files E) (coll_path pathprefix mo)"

text \<open>An object from which the symbols of a collection are read back, once from each of its tables.\<close>

definition reads_as :: "strptr \<Rightarrow> kline list \<Rightarrow> Elf \<Rightarrow> string option \<Rightarrow> bool" where
  "reads_as strp ks elf mo \<longleftrightarrow>
     (let es = map absolute (map kline_entry (of_mod mo ks))
      in elf_read_syms strp (Is_elf elf) None = Inr (0, es @ es, Some (names_size (es @ es))))"

text \<open>
  The file of a collection afterwards: the bytes of such an object, as many of them as \<open>write\<close> took, or what was there before when the file could not be opened.
\<close>

definition so_holds :: "strptr \<Rightarrow> elf_env \<Rightarrow> string option \<Rightarrow> kline list \<Rightarrow> files \<Rightarrow> files \<Rightarrow> string option \<Rightarrow> bool" where
  "so_holds strp E pathprefix ks fs fs' mo \<longleftrightarrow>
     (if fe_open (ee_files E) (coll_path pathprefix mo)
      then \<exists>elf. reads_as strp ks elf mo \<and>
        fs' (coll_file E pathprefix mo) = Some (stored (ee_files E) (coll_path pathprefix mo) (ee_image E elf))
      else fs' (coll_file E pathprefix mo) = fs (coll_file E pathprefix mo))"

text \<open>Writing objects one after the other, each to the file of its collection.\<close>

interpretation puts: file_steps "\<lambda>(elf, mo). put_file E (coll_path pathprefix mo) elf" "\<lambda>(elf, mo). coll_file E pathprefix mo"
    "\<lambda>(elf, mo) c. if fe_open (ee_files E) (coll_path pathprefix mo)
       then Some (stored (ee_files E) (coll_path pathprefix mo) (ee_image E elf)) else c"
  for E pathprefix
  by unfold_locales (auto simp: put_file_eq coll_file_def)

lemma strs_len_filter: "strs_len (map f (filter P xs)) \<le> strs_len (map f xs)"
  by (induction xs) (auto simp: strs_len_def)

lemma writeso_written:
  assumes "elf_lib strp" and "elf_env_ok E" and "\<forall>k \<in> set ks. kline_ok k"
    and "length ks + 3 < 2 ^ 29" and "strs_len (map kl_name ks) < 2 ^ 32" and v: "symvec_holds v (of_mod mo ks)"
  obtains elf where "reads_as strp ks elf mo"
    and "\<And>fs. writeso E path (-1) (sv_entries v) (sv_nmstrlen v) fs = Inr (put_file E path elf fs)"
proof -
  let ?es = "map kline_entry (of_mod mo ks)"
  have ok: "\<forall>k \<in> set (of_mod mo ks). kline_ok k" using assms(3) by (auto simp: of_mod_def)
  have nm: "map se_name ?es = map kl_name (of_mod mo ks)" using ok initSE_kline(2) by simp
  have nul: "\<forall>e \<in> set ?es. NUL \<notin> set (se_name e)"
    using ok initSE_kline(2) plain_no_NUL by (auto simp: kline_ok_def)
  have "strs_len (map kl_name (of_mod mo ks)) < 2 ^ 32"
    using assms(5) strs_len_filter[of kl_name "\<lambda>k. kl_mod k = mo" ks] unfolding of_mod_def by simp
  moreover have "length (of_mod mo ks) + 3 < 2 ^ 29"
    using assms(4) length_filter_le[of "\<lambda>k. kl_mod k = mo" ks] unfolding of_mod_def by linarith
  ultimately have fits: "elf_fits ?es" by (simp only: elf_fits_def nm length_map)
  have sz: "sv_nmstrlen v = names_size ?es" "sv_entries v = ?es" using v by (simp_all only: symvec_holds_def names_size_def nm)
  obtain elf where "elf_build (ee_off E) ?es (names_size ?es) = Inr elf" "elf_read_syms strp (Is_elf elf) None =
        Inr (0, map absolute ?es @ map absolute ?es, Some (names_size (map absolute ?es @ map absolute ?es)))"
    using elf_build_read_back[OF assms(1) nul fits] by blast
  then show thesis
    using assms(2) sz by (intro that[of elf]) (simp_all add: writeso_def elf_generate_elf_mmap_def elf_env_ok_def reads_as_def del: map_map map_append)
qed

lemma write_mods_written:
  assumes "elf_lib strp" and "elf_env_ok E" and "\<forall>k \<in> set ks. kline_ok k" and "length ks + 3 < 2 ^ 29" and "strs_len (map kl_name ks) < 2 ^ 32"
    and "list_all2 (mod_holds ks) ms ns"
  shows "\<exists>elfs. list_all2 (reads_as strp ks) elfs (map Some ns) \<and>
    (\<forall>fs. write_mods E pathprefix ms fs = Inr (puts.steps E pathprefix (zip elfs (map Some ns)) fs))"
  using assms(6)
proof induction
  case (Cons m ms n ns)
  then have h: "symvec_holds (m_syms m) (of_mod (Some n) ks)" "m_name m = n" by (simp_all add: mod_holds_def)
  have c: "so_path pathprefix n = coll_path pathprefix (Some n)" by (simp add: coll_path_def)
  obtain elf where "reads_as strp ks elf (Some n)"
      "\<And>fs. writeso E (coll_path pathprefix (Some n)) (-1) (sv_entries (m_syms m)) (sv_nmstrlen (m_syms m)) fs = Inr (put_file E (coll_path pathprefix (Some n)) elf fs)"
    using writeso_written[OF assms(1-5) h(1)] by blast
  moreover obtain elfs where "list_all2 (reads_as strp ks) elfs (map Some ns)"
      "\<forall>fs. write_mods E pathprefix ms fs = Inr (puts.steps E pathprefix (zip elfs (map Some ns)) fs)"
    using Cons.IH by blast
  ultimately show ?case using h(2) by (intro exI[of _ "elf # elfs"]) (simp add: c)
qed (auto intro: exI[of _ "[]"])

lemma map_nth_zip: "length xs = length ns \<Longrightarrow> map (\<lambda>p. xs ! snd p) (zip ns [0..<length ns]) = xs"
  by (rule nth_equalityI) simp_all

lemma kallsyms_files_written:
  assumes "uthash H" and "elf_lib strp" and "elf_env_ok E" and "\<forall>k \<in> set ks. kline_ok k"
    and "length ks + 3 < 2 ^ 29" and "strs_len (map kl_name ks) < 2 ^ 32"
  shows "\<exists>elfs. list_all2 (reads_as strp ks) elfs (collections ks) \<and>
    (\<forall>fs. kallsyms_files H E pathprefix (map print_kline ks) fs = Inr (puts.steps E pathprefix (zip elfs (collections ks)) fs))"
proof -
  obtain st where st: "prc_lines H (map print_kline ks) (kstate_init H) = Inr st" "kstate_holds H st ks"
    using prc_lines_holds[OF assms(1) kstate_init_holds[OF assms(1)] assms(4)] by auto
  have v: "symvec_holds (k_syms st) (of_mod None ks)" and la: "list_all2 (mod_holds ks) (k_mods st) (mod_names ks)"
    using st(2) by (simp_all add: kstate_holds_def)
  have mods: "map (\<lambda>p. k_mods st ! snd p) (hash_iter H (k_mhash st)) = k_mods st"
    using st(2) map_nth_zip[OF list_all2_lengthD[OF la]] by (simp add: kstate_holds_def)
  have c: "so_path pathprefix ''kern'' = coll_path pathprefix None" by (simp add: coll_path_def)
  obtain w where w: "reads_as strp ks w None" "\<And>fs. writeso E (coll_path pathprefix None) (-1) (sv_entries (k_syms st)) (sv_nmstrlen (k_syms st)) fs
      = Inr (put_file E (coll_path pathprefix None) w fs)"
    using writeso_written[OF assms(2-6) v] by blast
  obtain ws where ws: "list_all2 (reads_as strp ks) ws (map Some (mod_names ks))"
      "\<forall>fs. write_mods E pathprefix (k_mods st) fs = Inr (puts.steps E pathprefix (zip ws (map Some (mod_names ks))) fs)"
    using write_mods_written[OF assms(2-6) la] by blast
  have e: "sv_entries (k_syms st) = [] \<longleftrightarrow> of_mod None ks = []" using v by (simp add: symvec_holds_def)
  let ?elfs = "(if of_mod None ks = [] then [] else [w]) @ ws"
  have "kallsyms_files H E pathprefix (map print_kline ks) fs = Inr (puts.steps E pathprefix (zip ?elfs (collections ks)) fs)" for fs
    using w(2) ws(2) e unfolding kallsyms_files_def st(1) rbind_Inr mods c by (simp add: collections_def)
  moreover have "list_all2 (reads_as strp ks) ?elfs (collections ks)" using w(1) ws(1) by (simp add: collections_def)
  ultimately show ?thesis by blast
qed

text \<open>The files after the objects of the collections have been written.\<close>

lemma puts_hold:
  assumes "list_all2 (reads_as strp ks) elfs cs"
  shows "i < length cs \<Longrightarrow> sole (map (coll_file E pathprefix) cs) i \<Longrightarrow> so_holds strp E pathprefix ks fs (puts.steps E pathprefix (zip elfs cs) fs) (cs ! i)"
    and "f \<notin> coll_file E pathprefix ` set cs \<Longrightarrow> puts.steps E pathprefix (zip elfs cs) fs f = fs f"
proof -
  have l: "length elfs = length cs" by (rule list_all2_lengthD[OF assms])
  have k: "map (\<lambda>(elf, mo). coll_file E pathprefix mo) (zip elfs cs) = map (coll_file E pathprefix) cs"
    using l by (induction elfs cs rule: list_induct2) simp_all
  show "so_holds strp E pathprefix ks fs (puts.steps E pathprefix (zip elfs cs) fs) (cs ! i)"
    if i: "i < length cs" "sole (map (coll_file E pathprefix) cs) i"
    using puts.steps_sole[of i "zip elfs cs" E pathprefix fs, unfolded k] i l list_all2_nthD2[OF assms i(1)] by (auto simp: so_holds_def)
  show "puts.steps E pathprefix (zip elfs cs) fs f = fs f" if "f \<notin> coll_file E pathprefix ` set cs"
    using puts.steps_other[of f E pathprefix "zip elfs cs" fs] that arg_cong[OF k, of set] by auto
qed

text \<open>
  C5. End to end, from the text of \<open>/proc/kallsyms\<close> to the files. For the kernel (when it has symbols) and for each module the file that its path leads to, when no other of these paths leads there as well, holds
  afterwards an object from which \<open>elf_read_syms\<close> reads exactly the symbols of that part, with their addresses, once from each of its two symbol tables: all its bytes, or as many as \<open>write\<close> took, which the code does not notice; when the file
  could not be opened it is as it was, which goes unnoticed, too. No other file changes.
\<close>

theorem kallsyms_files_complete:
  assumes "uthash H" and "elf_lib strp" and "elf_env_ok E" and "\<forall>k \<in> set ks. kline_ok k"
    and "length ks + 3 < 2 ^ 29" and "strs_len (map kl_name ks) < 2 ^ 32"
  shows "\<exists>fs'. kallsyms_files H E pathprefix (map print_kline ks) fs = Inr fs' \<and>
    (\<forall>i < length (collections ks). sole (map (coll_file E pathprefix) (collections ks)) i \<longrightarrow>
      so_holds strp E pathprefix ks fs fs' (collections ks ! i)) \<and>
    (\<forall>f. f \<notin> coll_file E pathprefix ` set (collections ks) \<longrightarrow> fs' f = fs f)"
proof -
  obtain elfs where e: "list_all2 (reads_as strp ks) elfs (collections ks)"
      "\<forall>fs. kallsyms_files H E pathprefix (map print_kline ks) fs = Inr (puts.steps E pathprefix (zip elfs (collections ks)) fs)"
    using kallsyms_files_written[OF assms, of pathprefix] by (elim exE conjE)
  show ?thesis
    using e(2) puts_hold[OF e(1)] by (intro exI[of _ "puts.steps E pathprefix (zip elfs (collections ks)) fs"]) simp
qed

definition demo_elf_env :: elf_env where
  "demo_elf_env = \<lparr>ee_memfd = 5, ee_begin = True, ee_mmap = True, ee_off = (\<lambda>i. 64 * i), ee_image = (\<lambda>elf. replicate (length (e_scns elf)) CHR ''x''),
     ee_files = \<lparr>fe_file = id, fe_open = (\<lambda>p. p \<noteq> ''lib/libe1000.so''), fe_write = (\<lambda>_ buf. int (length buf))\<rparr>\<rparr>"

lemma demo_elf_env_ok: "elf_env_ok demo_elf_env"
  by (simp add: elf_env_ok_def demo_elf_env_def)

lemma demo_lines_fit: "length demo_lines + 3 < 2 ^ 29" "strs_len (map kl_name demo_lines) < 2 ^ 32"
  by (simp_all add: demo_lines_def strs_len_def)

text \<open>In the example the file of the kernel can be written and that of the module cannot be opened.\<close>

theorem kallsyms_files_complete_witness:
  "\<exists>fs' elf. kallsyms_files alist_uthash demo_elf_env (Some ''lib'') (map print_kline demo_lines) Map.empty = Inr fs' \<and>
    reads_as elf_strptr_ref demo_lines elf None \<and> fs' ''lib/libkern.so'' = Some (ee_image demo_elf_env elf) \<and> fs' ''lib/libe1000.so'' = None"
proof -
  have c: "collections demo_lines = [None, Some ''e1000'']" by code_simp
  have p: "so_path (Some ''lib'') ''kern'' = ''lib/libkern.so''" "so_path (Some ''lib'') ''e1000'' = ''lib/libe1000.so''"
    by (simp_all add: so_path_def snprintf_def PATH_MAX_def)
  have d: "fe_file (ee_files demo_elf_env) = id" "fe_open (ee_files demo_elf_env) x \<longleftrightarrow> x \<noteq> ''lib/libe1000.so''"
      "stored (ee_files demo_elf_env) x b = b" for x b
    by (simp_all add: demo_elf_env_def stored_def)
  obtain fs' where r: "kallsyms_files alist_uthash demo_elf_env (Some ''lib'') (map print_kline demo_lines) Map.empty = Inr fs'"
      "\<forall>i < length (collections demo_lines). sole (map (coll_file demo_elf_env (Some ''lib'')) (collections demo_lines)) i \<longrightarrow>
        so_holds elf_strptr_ref demo_elf_env (Some ''lib'') demo_lines Map.empty fs' (collections demo_lines ! i)"
    using kallsyms_files_complete[OF uthash_alist ref_lib.elf_lib_axioms demo_elf_env_ok demo_lines_ok demo_lines_fit, of "Some ''lib''" Map.empty]
    by (elim exE conjE)
  have s: "sole (map (coll_file demo_elf_env (Some ''lib'')) (collections demo_lines)) i" if "i < 2" for i
    using that unfolding c by (auto simp: sole_def coll_file_def coll_path_def p d less_Suc_eq nth_Cons')
  have "so_holds elf_strptr_ref demo_elf_env (Some ''lib'') demo_lines Map.empty fs' None"
    "so_holds elf_strptr_ref demo_elf_env (Some ''lib'') demo_lines Map.empty fs' (Some ''e1000'')"
    using r(2)[rule_format, OF _ s[of 0]] r(2)[rule_format, OF _ s[of 1]] unfolding c by simp_all
  then show ?thesis using r(1) by (auto simp: so_holds_def coll_file_def coll_path_def p d)
qed

text \<open>A module with the name \<open>kern\<close> takes the place of the kernel: its object is written last, to the same file.\<close>

lemma module_kern_overwrites:
  assumes "uthash H" and "elf_lib strp" and "elf_env_ok E" and "\<forall>k \<in> set ks. kline_ok k"
    and "length ks + 3 < 2 ^ 29" and "strs_len (map kl_name ks) < 2 ^ 32"
    and "collections ks = [None, Some ''kern'']" and "fe_open (ee_files E) (so_path pathprefix ''kern'')"
  shows "\<exists>fs' elf. kallsyms_files H E pathprefix (map print_kline ks) fs = Inr fs' \<and> reads_as strp ks elf (Some ''kern'') \<and>
    fs' (coll_file E pathprefix None) = Some (stored (ee_files E) (so_path pathprefix ''kern'') (ee_image E elf))"
proof -
  obtain e1 e2 where e: "reads_as strp ks e2 (Some ''kern'')"
      "\<forall>fs. kallsyms_files H E pathprefix (map print_kline ks) fs = Inr (puts.steps E pathprefix (zip [e1, e2] (collections ks)) fs)"
    using kallsyms_files_written[OF assms(1-6), of pathprefix] unfolding assms(7) list_all2_Cons2 list_all2_Nil2 by blast
  have c: "coll_path pathprefix None = so_path pathprefix ''kern''" "coll_path pathprefix (Some ''kern'') = so_path pathprefix ''kern''"
    by (simp_all add: coll_path_def)
  show ?thesis
    using e assms(7,8) c by (intro exI[of _ "puts.steps E pathprefix (zip [e1, e2] (collections ks)) fs"] exI[of _ e2])
      (simp add: put_file_eq coll_file_def)
qed

section \<open>The path prefix\<close>

text \<open>The directories on the way to a path, and the path itself.\<close>

definition path_dirs :: "string \<Rightarrow> string list" where
  "path_dirs path = map (\<lambda>i. take i path) (filter (\<lambda>i. path ! i = CHR ''/'') [1..<length path]) @ [path]"

lemma mkpath_loop_calls:
  "mkpath_loop mk path ix =
    (let ds = map (\<lambda>i. take i path) (filter (\<lambda>i. path ! i = CHR ''/'') ix);
         ok = takeWhile (\<lambda>d. mk d \<noteq> Mk_error) ds
     in (ok = ds, take (Suc (length ok)) ds))"
  by (induction ix) (auto simp: Let_def split: prod.splits)

lemma takeWhile_snoc:
  "takeWhile P (ds @ [d]) = (if takeWhile P ds = ds then ds @ takeWhile P [d] else takeWhile P ds)"
  by (induction ds) auto

lemma takeWhile_shorter: "takeWhile P ds \<noteq> ds \<Longrightarrow> length (takeWhile P ds) < length ds"
  by (induction ds) auto

lemma mkpath_calls:
  assumes "path \<noteq> []"
  shows "mkpath mk path =
    (let ok = takeWhile (\<lambda>d. mk d \<noteq> Mk_error) (path_dirs path)
     in Inr (if ok = path_dirs path then 0 else -1, take (Suc (length ok)) (path_dirs path)))"
proof -
  define P where "P d \<longleftrightarrow> mk d \<noteq> Mk_error" for d
  define ds where "ds = map (\<lambda>i. take i path) (filter (\<lambda>i. path ! i = CHR ''/'') [1..<length path])"
  have P: "(\<lambda>d. mk d \<noteq> Mk_error) = P" by (simp add: P_def fun_eq_iff)
  have l: "mkpath_loop mk path [1..<length path] = (takeWhile P ds = ds, take (Suc (length (takeWhile P ds))) ds)"
    unfolding mkpath_loop_calls P by (simp only: ds_def Let_def)
  have m: "mkpath mk path = Inr (if takeWhile P ds \<noteq> ds then (-1, take (Suc (length (takeWhile P ds))) ds)
      else if P path then (0, ds @ [path]) else (-1, ds @ [path]))"
    unfolding mkpath_def l using assms P_def[of path] by (simp add: Let_def del: takeWhile_eq_all_conv)
  have d: "path_dirs path = ds @ [path]" by (simp only: path_dirs_def ds_def)
  show ?thesis
  proof (cases "takeWhile P ds = ds")
    case True
    then show ?thesis unfolding m d P takeWhile_snoc by (simp add: Let_def)
  next
    case False
    have "takeWhile P ds \<noteq> ds @ [path]" using takeWhile_shorter[OF False] by (metis length_append_singleton less_Suc_eq less_irrefl)
    then show ?thesis unfolding m d P takeWhile_snoc using False takeWhile_shorter[OF False]
      by (simp add: Let_def del: takeWhile_eq_all_conv)
  qed
qed

text \<open>
  \<open>mkpath\<close> calls \<open>mkdir\<close> on each prefix of the path that ends before a slash, from the shortest
  to the longest, and at last on the path itself; it stops at the first call that fails with an error
  other than \<open>EEXIST\<close>, and returns 0 exactly when there is none.
\<close>

theorem mkpath_makes_parents:
  assumes "path \<noteq> []"
  shows "mkpath mk path =
    (let ok = takeWhile (\<lambda>d. mk d \<noteq> Mk_error) (path_dirs path)
     in Inr (if ok = path_dirs path then 0 else -1, take (Suc (length ok)) (path_dirs path)))"
  using assms by (rule mkpath_calls)

theorem mkpath_makes_parents_witness:
  "mkpath (\<lambda>p. if p = ''/'' then Mk_exists else Mk_ok) ''/a/b'' = Inr (0, [''/a'', ''/a/b'']) \<and>
   mkpath (\<lambda>p. if p = ''/a'' then Mk_error else Mk_ok) ''/a/b'' = Inr (-1, [''/a''])"
proof -
  have "path_dirs ''/a/b'' = [''/a'', ''/a/b'']" by code_simp
  then show ?thesis
    using mkpath_makes_parents[of "''/a/b''" "\<lambda>p. if p = ''/'' then Mk_exists else Mk_ok"]
      mkpath_makes_parents[of "''/a/b''" "\<lambda>p. if p = ''/a'' then Mk_error else Mk_ok"]
    by simp
qed

text \<open>
  \<open>prcKallsyms\<close> does not come back once its files are written: it ends the process with a
  failure status, so the code of \<open>main\<close> that follows the call is not reached. It comes back, with
  nothing written, only when the path prefix cannot be made.
\<close>

theorem prcKallsyms_exits:
  assumes "uthash H" and "elf_lib strp" and "elf_env_ok E" and "\<forall>k \<in> set ks. kline_ok k"
    and "length ks + 3 < 2 ^ 29" and "strs_len (map kl_name ks) < 2 ^ 32" and "prefix \<noteq> []"
  shows "prcKallsyms H E mk (Some prefix) (map print_kline ks) fs =
    (if \<exists>d \<in> set (path_dirs prefix). mk d = Mk_error then Inr () else Inl (Exit_process 1))"
proof -
  obtain files where f: "kallsyms_files H E (Some prefix) (map print_kline ks) fs = Inr files"
    using kallsyms_files_written[OF assms(1-6)] by blast
  show ?thesis
    using f mkpath_calls[OF assms(7), of mk] by (auto simp: prcKallsyms_def Let_def takeWhile_eq_all_conv)
qed

theorem prcKallsyms_exits_witness:
  "prcKallsyms alist_uthash demo_elf_env (\<lambda>_. Mk_ok) (Some ''lib'') (map print_kline demo_lines) Map.empty =
    Inl (Exit_process 1)"
  using prcKallsyms_exits[OF uthash_alist ref_lib.elf_lib_axioms demo_elf_env_ok demo_lines_ok demo_lines_fit, of "''lib''" "\<lambda>_. Mk_ok"] by simp

end
