(* ===== verification/Events.thy ===== *)
theory Events
  imports Fs_Fuse
begin

text \<open>
  The event loop of \<open>kld\<close> (\<open>kldfs.c\<close>), its two event sources, the libfuse session (\<open>fs.c\<close>) and the
  signal descriptor (\<open>sigproc.c\<close>, \<open>sigproc.h\<close>), and the codes the handlers return (\<open>event.h\<close>).

  What the kernel answers is explicit: the list of the results of \<open>epoll_wait\<close>, with the request
  or the signal that the handler of an event reads. libfuse's dispatch of a request to the callback of
  the operation table is \<open>fs_fuse_ops\<close>. Diagnostics are kept as a trace (\<open>ev_log\<close>).
\<close>

section \<open>Constants\<close>

definition EPOLLRDHUP :: u32 where "EPOLLRDHUP = 0x2000"
definition EPOLLET :: u32 where "EPOLLET = 0x80000000"

definition SIGHUP :: nat where "SIGHUP = 1"
definition SIGINT :: nat where "SIGINT = 2"
definition SIGQUIT :: nat where "SIGQUIT = 3"
definition SIGKILL :: nat where "SIGKILL = 9"
definition SIGUSR1 :: nat where "SIGUSR1 = 10"
definition SIGUSR2 :: nat where "SIGUSR2 = 12"
definition SIGPIPE :: nat where "SIGPIPE = 13"
definition SIGALRM :: nat where "SIGALRM = 14"
definition SIGTERM :: nat where "SIGTERM = 15"
definition SIGVTALRM :: nat where "SIGVTALRM = 26"
definition SIGIO :: nat where "SIGIO = 29"

lemmas epoll_consts = EPOLLIN_def EPOLLERR_def EPOLLHUP_def EPOLLRDHUP_def EPOLLET_def

lemmas signal_consts = SIGHUP_def SIGINT_def SIGQUIT_def SIGKILL_def SIGUSR1_def SIGUSR2_def SIGPIPE_def
  SIGALRM_def SIGTERM_def SIGVTALRM_def SIGIO_def

section \<open>Handlers\<close>

datatype evnthdlrrc_t = EVNT_HDLR_SUCCESS | EVNT_HDLR_FAILED | EVNT_HDLR_EXIT_LOOP

datatype ev_log = Log_hup | Log_rdhup | Log_err | Log_unknown u32 | Log_signal nat | Log_unknown_signal nat

text \<open>
  The tests that both handlers make after \<open>EPOLLIN\<close>: the bit that is tested, the bit that is then
  cleared, and the message. The last test clears \<open>EPOLLRDHUP\<close> instead of \<open>EPOLLERR\<close>.
\<close>

primrec event_tests :: "(u32 \<times> u32 \<times> ev_log) list \<Rightarrow> u32 \<Rightarrow> ev_log list" where
  "event_tests [] evnts = (if evnts \<noteq> 0 then [Log_unknown evnts] else [])"
| "event_tests (t # ts) evnts =
     (case t of (tst, clr, l) \<Rightarrow>
        if evnts AND tst \<noteq> 0
        then l # (let evnts = evnts AND NOT clr in if evnts = 0 then [] else event_tests ts evnts)
        else event_tests ts evnts)"

definition event_tail :: "u32 \<Rightarrow> ev_log list" where
  "event_tail = event_tests [(EPOLLHUP, EPOLLHUP, Log_hup), (EPOLLRDHUP, EPOLLRDHUP, Log_rdhup),
     (EPOLLERR, EPOLLRDHUP, Log_err)]"

text \<open>The signals that end the loop.\<close>

definition exit_signals :: "nat list" where
  "exit_signals = [SIGALRM, SIGTERM, SIGINT, SIGHUP, SIGKILL, SIGUSR1, SIGVTALRM, SIGUSR2, SIGPIPE, SIGIO]"

text \<open>
  \<open>sigEvent\<close>: \<open>rd\<close> is the signal that \<open>read\<close> delivers, \<open>None\<close> when it does not return a whole
  \<open>signalfd_siginfo\<close>.
\<close>

definition sigEvent :: "nat option \<Rightarrow> u32 \<Rightarrow> (evnthdlrrc_t \<times> ev_log list) res" where
  "sigEvent rd evnts =
     (if evnts AND EPOLLIN \<noteq> 0
      then (case rd of
              None \<Rightarrow> Inl Assert_failed
            | Some signo \<Rightarrow>
                let (rc, log) = (if signo \<in> set exit_signals then (EVNT_HDLR_EXIT_LOOP, [Log_signal signo])
                                 else (EVNT_HDLR_SUCCESS, [Log_unknown_signal signo]));
                    evnts = evnts AND NOT EPOLLIN
                in Inr (rc, log @ (if evnts = 0 then [] else event_tail evnts)))
      else Inr (EVNT_HDLR_SUCCESS, event_tail evnts))"

text \<open>The callbacks of the operation table that are not NULL.\<close>

datatype fuse_request =
    Req_init
  | Req_lookup fs_ino_t string
  | Req_getattr fs_ino_t
  | Req_readlink fs_ino_t
  | Req_open fs_ino_t u32
  | Req_read fs_ino_t u64 u64
  | Req_write fs_ino_t "char list"
  | Req_readdir fs_ino_t u64 u64
  | Req_setxattr fs_ino_t string "char list" u64
  | Req_getxattr fs_ino_t string
  | Req_removexattr fs_ino_t string

definition fs_fuse_ops ::
  "'i ino_hash \<Rightarrow> 'n name_hash \<Rightarrow> direntry_ops \<Rightarrow> int \<Rightarrow> ('i, 'n) fs_t \<Rightarrow> fuse_request \<Rightarrow> fuse_reply list res" where
  "fs_fuse_ops HI HN D pid s r = (case r of
     Req_init \<Rightarrow> Inr []
   | Req_lookup dirino name \<Rightarrow> fs_fuse_lookup HN pid s dirino name
   | Req_getattr ino \<Rightarrow> fs_fuse_getattr pid s ino
   | Req_readlink ino \<Rightarrow> fs_fuse_readlink s ino
   | Req_open ino flags \<Rightarrow> fs_fuse_open s ino flags
   | Req_read ino sz off \<Rightarrow> fs_fuse_read pid s ino sz off
   | Req_write ino buf \<Rightarrow> fs_fuse_write s ino buf
   | Req_readdir dirino sz off \<Rightarrow> fs_fuse_readdir HI D s dirino sz off
   | Req_setxattr ino name val sz \<Rightarrow> fs_fuse_setxattr s ino name val sz
   | Req_getxattr ino name \<Rightarrow> fs_fuse_getxattr s ino name
   | Req_removexattr ino name \<Rightarrow> fs_fuse_removexattr s ino name)"

text \<open>
  \<open>fsEvent\<close>: \<open>rq\<close> is the request that \<open>fuse_session_receive_buf\<close> received, \<open>None\<close> when it returned
  no positive number; \<open>serve\<close> is what \<open>fuse_session_process_buf\<close> does with it.
\<close>

definition fsEvent ::
  "(fuse_request \<Rightarrow> fuse_reply list res) \<Rightarrow> fuse_request option \<Rightarrow> u32 \<Rightarrow>
   (evnthdlrrc_t \<times> fuse_reply list \<times> ev_log list) res" where
  "fsEvent serve rq evnts =
     (if evnts AND EPOLLIN \<noteq> 0
      then rbind (case rq of Some r \<Rightarrow> serve r | None \<Rightarrow> Inr []) (\<lambda>rs.
           let evnts = evnts AND NOT EPOLLIN
           in Inr (EVNT_HDLR_SUCCESS, rs, if evnts = 0 then [] else event_tail evnts))
      else Inr (EVNT_HDLR_SUCCESS, [], event_tail evnts))"

section \<open>The signal processor\<close>

record sigproc_t =
  sp_ed :: "evnthdlr_t option"
  sp_mask :: "nat list"
  sp_sfd :: int

definition sigAddTermSignals :: "nat list \<Rightarrow> nat list" where
  "sigAddTermSignals sigset = foldl (\<lambda>m s. List.insert s m) sigset
     [SIGALRM, SIGTERM, SIGINT, SIGHUP, SIGQUIT, SIGUSR1, SIGVTALRM, SIGUSR2, SIGPIPE, SIGIO]"

definition sigprocReset :: "sigproc_t \<Rightarrow> bool \<Rightarrow> sigproc_t" where
  "sigprocReset sp iszeroed =
     (let sp = (if \<not> iszeroed then \<lparr>sp_ed = None, sp_mask = [], sp_sfd = 0\<rparr> else sp)
      in sp\<lparr>sp_sfd := -1, sp_ed := Some SigEvent\<rparr>)"

text \<open>\<open>procmask\<close> and \<open>sfd\<close> are the answers of \<open>sigprocmask\<close> and \<open>signalfd\<close>; the blocked signals are returned.\<close>

definition sigprocInit :: "bool \<Rightarrow> int \<Rightarrow> sigproc_t \<Rightarrow> bool \<Rightarrow> (sigproc_t \<times> nat list) res" where
  "sigprocInit procmask sfd sp iszeroed =
     (let sp = (sigprocReset sp iszeroed)\<lparr>sp_mask := sigAddTermSignals []\<rparr>
      in if \<not> procmask then Inl Assert_failed
         else let sp = sp\<lparr>sp_sfd := sfd\<rparr>
              in if sp_sfd sp = -1 then Inl Assert_failed else Inr (sp, sp_mask sp))"

text \<open>
  Registration: what \<open>epoll_ctl\<close> is asked to add, a descriptor with the events and the address of the
  event descriptor.
\<close>

datatype ed_ptr = Ed_fs | Ed_sig

record ep_reg =
  reg_fd :: int
  reg_events :: u32
  reg_ptr :: ed_ptr

definition sigprocRegisterEvents :: "bool \<Rightarrow> sigproc_t \<Rightarrow> int \<Rightarrow> ep_reg list res" where
  "sigprocRegisterEvents ctl sp epollfd =
     (if epollfd = -1 then Inl Assert_failed
      else if \<not> (sp_sfd sp \<noteq> -1 \<and> sp_ed sp = Some SigEvent) then Inl Assert_failed
      else if \<not> ctl then Inl Assert_failed
      else Inr [\<lparr>reg_fd = sp_sfd sp, reg_events = EPOLLIN OR EPOLLET, reg_ptr = Ed_sig\<rparr>])"

definition fsRegisterEvents :: "bool \<Rightarrow> ('i, 'n) fs_t \<Rightarrow> int \<Rightarrow> (bool \<times> ep_reg list) res" where
  "fsRegisterEvents ctl s epollfd =
     (if \<not> (fuse_se s \<and> fuse_fd s \<noteq> -1) then Inl Assert_failed
      else if \<not> ctl then Inr (False, [])
      else Inr (True, [\<lparr>reg_fd = fuse_fd s,
             reg_events = EPOLLIN OR EPOLLHUP OR EPOLLRDHUP OR EPOLLERR, reg_ptr = Ed_fs\<rparr>]))"

section \<open>The loop\<close>

text \<open>One event: the address of its descriptor, its bits, and what its handler will read.\<close>

record ep_event =
  ev_ptr :: "ed_ptr option"
  ev_bits :: u32
  ev_req :: "fuse_request option"
  ev_sig :: "nat option"

datatype wait_res = Wait_fail int | Wait_events "ep_event list"

text \<open>The call \<open>ed->hdlr(ed->obj, evnts, epollfd)\<close> with the two assertions before it.\<close>

definition call_hdlr ::
  "(fuse_request \<Rightarrow> fuse_reply list res) \<Rightarrow> ('i, 'n) fs_t \<Rightarrow> sigproc_t \<Rightarrow> ep_event \<Rightarrow>
   (evnthdlrrc_t \<times> fuse_reply list \<times> ev_log list) res" where
  "call_hdlr serve s sp ev =
     (case ev_ptr ev of
        None \<Rightarrow> Inl Assert_failed
      | Some p \<Rightarrow>
          (case (case p of Ed_fs \<Rightarrow> fs_ed s | Ed_sig \<Rightarrow> sp_ed sp) of
             None \<Rightarrow> Inl Assert_failed
           | Some FsEvent \<Rightarrow> fsEvent serve (ev_req ev) (ev_bits ev)
           | Some SigEvent \<Rightarrow> rbind (sigEvent (ev_sig ev) (ev_bits ev)) (\<lambda>(rc, log). Inr (rc, [], log))))"

text \<open>
  The loop over the events of one \<open>epoll_wait\<close>, and the endless loop around it. The result is the
  value that is returned (\<open>None\<close> when the events end without one), the replies and the messages.
\<close>

primrec event_batch ::
  "(ep_event \<Rightarrow> (evnthdlrrc_t \<times> fuse_reply list \<times> ev_log list) res) \<Rightarrow> ep_event list \<Rightarrow>
   (bool option \<times> fuse_reply list \<times> ev_log list) res" where
  "event_batch hdlr [] = Inr (None, [], [])"
| "event_batch hdlr (ev # evs) =
     rbind (hdlr ev) (\<lambda>(erc, rs, log).
     if erc = EVNT_HDLR_EXIT_LOOP then Inr (Some True, rs, log)
     else if erc = EVNT_HDLR_FAILED then Inr (Some False, rs, log)
     else rbind (event_batch hdlr evs) (\<lambda>(rc, rs', log'). Inr (rc, rs @ rs', log @ log')))"

primrec event_loop ::
  "(ep_event \<Rightarrow> (evnthdlrrc_t \<times> fuse_reply list \<times> ev_log list) res) \<Rightarrow> wait_res list \<Rightarrow>
   (bool option \<times> fuse_reply list \<times> ev_log list) res" where
  "event_loop hdlr [] = Inr (None, [], [])"
| "event_loop hdlr (w # ws) =
     (case w of
        Wait_fail errno \<Rightarrow>
          if errno = EINTR then event_loop hdlr ws
          else if errno = EINVAL then event_loop hdlr ws
          else Inr (Some False, [], [])
      | Wait_events evs \<Rightarrow>
          rbind (event_batch hdlr evs) (\<lambda>(rc, rs, log).
          if rc \<noteq> None then Inr (rc, rs, log)
          else rbind (event_loop hdlr ws) (\<lambda>(rc, rs', log'). Inr (rc, rs @ rs', log @ log'))))"

text \<open>
  \<open>kldfsLoop\<close>: \<open>epollfd\<close> is the answer of \<open>epoll_create1\<close>, \<open>ctl_sig\<close> and \<open>ctl_fs\<close> those of
  \<open>epoll_ctl\<close>, \<open>waits\<close> those of \<open>epoll_wait\<close>. The result of \<open>fsRegisterEvents\<close> is not looked at.
\<close>

definition kldfsLoop ::
  "(fuse_request \<Rightarrow> fuse_reply list res) \<Rightarrow> int \<Rightarrow> bool \<Rightarrow> bool \<Rightarrow> wait_res list \<Rightarrow> ('i, 'n) fs_t \<Rightarrow> sigproc_t \<Rightarrow>
   (bool option \<times> fuse_reply list \<times> ev_log list) res" where
  "kldfsLoop serve epollfd ctl_sig ctl_fs waits s sp =
     (if epollfd = -1 then Inr (Some False, [], [])
      else rbind (sigprocRegisterEvents ctl_sig sp epollfd) (\<lambda>_.
           rbind (fsRegisterEvents ctl_fs s epollfd) (\<lambda>_.
           event_loop (call_hdlr serve s sp) waits)))"

section \<open>Correctness\<close>

text \<open>An event whose handler succeeds, with its replies and messages.\<close>

definition served ::
  "(ep_event \<Rightarrow> (evnthdlrrc_t \<times> fuse_reply list \<times> ev_log list) res) \<Rightarrow> ep_event \<Rightarrow> fuse_reply list \<times> ev_log list \<Rightarrow> bool" where
  "served hdlr ev out \<longleftrightarrow> hdlr ev = Inr (EVNT_HDLR_SUCCESS, out)"

lemma event_batch_served:
  "list_all2 (served hdlr) evs outs \<Longrightarrow>
    event_batch hdlr (evs @ rest) =
      rbind (event_batch hdlr rest) (\<lambda>(rc, rs, log). Inr (rc, concat (map fst outs) @ rs, concat (map snd outs) @ log))"
proof (induction rule: list_all2_induct)
  case Nil
  then show ?case by (cases "event_batch hdlr rest") auto
next
  case (Cons ev evs out outs)
  then show ?case by (cases "event_batch hdlr rest"; cases out) (auto simp: served_def)
qed

text \<open>The events of a list of answers that do not make the loop return.\<close>

fun quiet :: "wait_res list \<Rightarrow> ep_event list option" where
  "quiet [] = Some []"
| "quiet (Wait_fail e # ws) = (if e = EINTR \<or> e = EINVAL then quiet ws else None)"
| "quiet (Wait_events evs # ws) = map_option (\<lambda>r. evs @ r) (quiet ws)"

lemma event_loop_served:
  "quiet ws = Some evs \<Longrightarrow> list_all2 (served hdlr) evs outs \<Longrightarrow>
    event_loop hdlr (ws @ rest) =
      rbind (event_loop hdlr rest) (\<lambda>(rc, rs, log). Inr (rc, concat (map fst outs) @ rs, concat (map snd outs) @ log))"
proof (induction ws arbitrary: evs outs rule: quiet.induct)
  case 1
  then show ?case by (cases "event_loop hdlr rest") auto
next
  case (2 e ws)
  then show ?case by (auto split: if_splits)
next
  case (3 es ws)
  then obtain evs' where e: "quiet ws = Some evs'" "evs = es @ evs'" by auto
  then obtain o1 o2 where o: "outs = o1 @ o2" "list_all2 (served hdlr) es o1" "list_all2 (served hdlr) evs' o2"
    using 3(3) by (auto simp: list_all2_append1)
  show ?case
    using event_batch_served[OF o(2), of "[]"] 3(1)[OF e(1) o(3)] o(1)
    by (cases "event_loop hdlr rest") auto
qed

text \<open>The handler of a registered descriptor.\<close>

lemma call_hdlr_sig:
  "sp_ed sp = Some SigEvent \<Longrightarrow> ev_ptr ev = Some Ed_sig \<Longrightarrow>
    call_hdlr serve s sp ev = rbind (sigEvent (ev_sig ev) (ev_bits ev)) (\<lambda>(rc, log). Inr (rc, [], log))"
  by (simp add: call_hdlr_def)

lemma EPOLLIN_self: "EPOLLIN \<noteq> 0" "EPOLLIN AND NOT EPOLLIN = 0"
  by (simp_all add: EPOLLIN_def)

text \<open>
  C23. The event loop serves every event in the order in which the kernel reports them, over any
  number of calls of \<open>epoll_wait\<close> and through interrupted ones, until a signal that ends the program
  arrives; then it returns true at once, with all replies sent and the later events not looked at.
\<close>

theorem kldfsLoop_serves_until_signal:
  assumes "epollfd \<noteq> -1" and "sp_ed sp = Some SigEvent" and "sp_sfd sp \<noteq> -1" and "fuse_se s" and "fuse_fd s \<noteq> -1"
    and "quiet ws = Some evs" and "list_all2 (served (call_hdlr serve s sp)) (evs @ pre) outs"
    and "ev_ptr ev = Some Ed_sig" and "ev_bits ev = EPOLLIN" and "ev_sig ev = Some signo"
    and "signo \<in> set exit_signals"
  shows "kldfsLoop serve epollfd True ctl_fs (ws @ Wait_events (pre @ ev # post) # rest) s sp =
    Inr (Some True, concat (map fst outs), concat (map snd outs) @ [Log_signal signo])"
proof -
  let ?h = "call_hdlr serve s sp"
  obtain o1 o2 where o: "outs = o1 @ o2" "list_all2 (served ?h) evs o1" "list_all2 (served ?h) pre o2"
    using assms(7) by (auto simp: list_all2_append1)
  have ev: "?h ev = Inr (EVNT_HDLR_EXIT_LOOP, [], [Log_signal signo])"
    using assms(8-11) call_hdlr_sig[OF assms(2), of ev serve s] by (simp add: sigEvent_def EPOLLIN_self)
  have "event_loop ?h (Wait_events (pre @ ev # post) # rest) =
      Inr (Some True, concat (map fst o2), concat (map snd o2) @ [Log_signal signo])"
    using event_batch_served[OF o(3), of "ev # post"] ev by auto
  then show ?thesis
    using event_loop_served[OF assms(6) o(2)] o(1) assms(1-5)
    by (simp add: kldfsLoop_def sigprocRegisterEvents_def fsRegisterEvents_def)
qed

definition demo_sp :: sigproc_t where
  "demo_sp = \<lparr>sp_ed = Some SigEvent, sp_mask = [], sp_sfd = 7\<rparr>"

definition demo_served_fs :: "((nat \<times> nat) list, (string \<times> nat) list) fs_t" where
  "demo_served_fs = \<lparr>fuse_args = [], fuse_buf_mem = False, fs_ed = Some FsEvent, fuse_se = True, mntpt = None,
     ino_table = [], ino_freelist = None, ino_num = 0, ino_numfree = 0, fuse_fd = 5, fs_mkdir = False,
     fs_heap = (\<lambda>_. None), fs_brk = 1, fs_calls = []\<rparr>"

theorem kldfsLoop_serves_until_signal_witness:
  "kldfsLoop (\<lambda>_. Inr [Reply_err 2]) 3 True True
     ([Wait_fail EINTR, Wait_events [\<lparr>ev_ptr = Some Ed_fs, ev_bits = EPOLLIN, ev_req = Some (Req_getattr 1), ev_sig = None\<rparr>]] @
      Wait_events ([] @ \<lparr>ev_ptr = Some Ed_sig, ev_bits = EPOLLIN, ev_req = None, ev_sig = Some SIGTERM\<rparr> # []) # [])
     demo_served_fs demo_sp =
   Inr (Some True, [Reply_err 2], [Log_signal SIGTERM])"
proof -
  let ?ev = "\<lparr>ev_ptr = Some Ed_fs, ev_bits = EPOLLIN, ev_req = Some (Req_getattr 1), ev_sig = None\<rparr>"
  have s: "served (call_hdlr (\<lambda>_. Inr [Reply_err 2]) demo_served_fs demo_sp) ?ev ([Reply_err 2], [])"
    by (simp add: served_def call_hdlr_def fsEvent_def demo_served_fs_def demo_sp_def EPOLLIN_self)
  show ?thesis
    using kldfsLoop_serves_until_signal[of 3 demo_sp demo_served_fs "[Wait_fail EINTR, Wait_events [?ev]]" "[?ev]"
        "\<lambda>_. Inr [Reply_err 2]" "[]" "[([Reply_err 2], [])]"
        "\<lparr>ev_ptr = Some Ed_sig, ev_bits = EPOLLIN, ev_req = None, ev_sig = Some SIGTERM\<rparr>" SIGTERM True "[]" "[]"] s
    by (simp add: demo_sp_def demo_served_fs_def exit_signals_def)
qed

text \<open>
  After \<open>sigprocInit\<close> every blocked signal that the descriptor delivers ends the loop, except
  \<open>SIGQUIT\<close>: it is blocked and delivered like the others, but the handler does not know it.
\<close>

theorem sigprocInit_blocks_exit_signals:
  assumes "sigprocInit procmask sfd sp z = Inr (sp', blocked)" and "signo \<in> set blocked"
  shows "sigEvent (Some signo) EPOLLIN =
    Inr (if signo = SIGQUIT then (EVNT_HDLR_SUCCESS, [Log_unknown_signal signo])
         else (EVNT_HDLR_EXIT_LOOP, [Log_signal signo]))"
proof -
  have b: "blocked = sigAddTermSignals []"
    using assms(1) by (auto simp: sigprocInit_def Let_def split: if_splits)
  have "signo \<in> set exit_signals \<longleftrightarrow> signo \<noteq> SIGQUIT"
    using assms(2) unfolding b by (auto simp: sigAddTermSignals_def exit_signals_def signal_consts)
  then show ?thesis by (simp add: sigEvent_def EPOLLIN_self)
qed

theorem sigprocInit_blocks_exit_signals_witness:
  "\<exists>sp' blocked. sigprocInit True 7 demo_sp True = Inr (sp', blocked) \<and> SIGQUIT \<in> set blocked \<and>
    sigEvent (Some SIGQUIT) EPOLLIN = Inr (EVNT_HDLR_SUCCESS, [Log_unknown_signal SIGQUIT]) \<and>
    sigEvent (Some SIGTERM) EPOLLIN = Inr (EVNT_HDLR_EXIT_LOOP, [Log_signal SIGTERM])"
proof -
  obtain sp' where sp': "sigprocInit True 7 demo_sp True = Inr (sp', sigAddTermSignals [])"
    by (simp add: sigprocInit_def sigprocReset_def Let_def)
  have m: "SIGQUIT \<in> set (sigAddTermSignals [])" "SIGTERM \<in> set (sigAddTermSignals [])" "SIGTERM \<noteq> SIGQUIT"
    by (simp_all add: sigAddTermSignals_def signal_consts)
  show ?thesis
    using sp' m sigprocInit_blocks_exit_signals[OF sp' m(1)] sigprocInit_blocks_exit_signals[OF sp' m(2)] by auto
qed

text \<open>
  An event with the error bit set is never recognised completely: the branch for it clears
  another bit, so the handlers of both sources also report it as an unknown event.
\<close>

theorem event_error_reported_unknown:
  assumes "bit evnts 3"
  shows "\<exists>u log. event_tail evnts = log @ [Log_err, Log_unknown u] \<and> bit u 3"
proof -
  have e8: "EPOLLERR = 2 ^ 3" by (simp add: EPOLLERR_def)
  have err: "x AND EPOLLERR \<noteq> 0 \<longleftrightarrow> bit x 3" for x :: u32
    unfolding e8 and_exp_eq_0_iff_not_bit by simp
  have b: "\<not> bit EPOLLHUP 3" "\<not> bit EPOLLRDHUP 3" by (simp_all add: EPOLLHUP_def EPOLLRDHUP_def)
  have keep: "bit (x AND NOT c) 3" "x AND NOT c \<noteq> 0" if "bit x 3" "\<not> bit c 3" for x c :: u32
  proof -
    show "bit (x AND NOT c) 3" using that by (simp add: bit_and_iff bit_not_iff)
    then show "x AND NOT c \<noteq> 0" by auto
  qed
  define t where "t = [(EPOLLERR, EPOLLRDHUP, Log_err)]"
  have last: "\<exists>u. event_tests t x = [Log_err, Log_unknown u] \<and> bit u 3" if "bit x 3" for x
    using that err[of x] keep[OF that b(2)] by (auto simp: t_def)
  have rd: "\<exists>u log. event_tests ((EPOLLRDHUP, EPOLLRDHUP, Log_rdhup) # t) x = log @ [Log_err, Log_unknown u] \<and> bit u 3"
    if "bit x 3" for x
    using last[OF that] last[OF keep(1)[OF that b(2)]] keep(2)[OF that b(2)] by (auto simp: Let_def)
  show ?thesis
    using rd[OF assms] rd[OF keep(1)[OF assms b(1)]] keep(2)[OF assms b(1)]
    unfolding event_tail_def t_def by (auto simp: Let_def)
qed

theorem event_error_reported_unknown_witness:
  "\<exists>u log. event_tail (EPOLLHUP OR EPOLLERR) = log @ [Log_err, Log_unknown u] \<and> bit u 3"
  using event_error_reported_unknown[of "EPOLLHUP OR EPOLLERR"] by (simp add: EPOLLHUP_def EPOLLERR_def)

end
