(* ===== verification/Kld_Main.thy ===== *)
theory Kld_Main
  imports Kld_Objects Kallsyms_Props Events
begin

text \<open>
  The program \<open>kld\<close> as a whole (\<open>main\<close> of \<open>main.c\<close>): initialisation, the executable, the kernel
  objects and their table, the symbols of the running kernel, the optional file system, and the
  handler that runs at exit.

  Everything that the operating system and libelf answer is one record \<open>world\<close>; the state of the
  process is the record \<open>kld\<close>, with the globals of the program, the open descriptors and the contents of the files.
\<close>

section \<open>State and surroundings\<close>

record ('b, 'i, 'n) kld =
  kld_gbls :: "'b globals_t"
  kld_fs :: "('i, 'n) fs_t"
  kld_sp :: sigproc_t
  kld_pid :: int
  kld_fds :: "int list"
  kld_files :: files

record world =
  w_os :: os_env
  w_cwd :: "string option"
  w_opts :: "opt list"
  w_args :: "string list"
  w_argv0 :: string
  w_sec :: sec_env
  w_ko :: "string \<Rightarrow> elf_file"
  w_elf :: elf_env
  w_kotbl :: bool
  w_mkdir :: "string \<Rightarrow> mkdir_res"
  w_kallsyms :: "string list option"
  w_pid :: int
  w_procmask :: bool
  w_signalfd :: bool
  w_fsenv :: fs_env
  w_direntry :: direntry_ops
  w_epoll :: bool
  w_ctl_sig :: bool
  w_ctl_fs :: bool
  w_waits :: "wait_res list"

text \<open>What a run puts out besides the shared objects: the text printed to the table of kernel objects, the replies of the file system.\<close>

record main_out =
  out_kotbl :: "string option"
  out_replies :: "fuse_reply list"

definition out_none :: main_out where
  "out_none = \<lparr>out_kotbl = None, out_replies = []\<rparr>"

section \<open>Initialisation\<close>

text \<open>\<open>GBLS\<close> as it is initialised; \<open>cwd\<close> is the empty string of a static variable.\<close>

definition GBLS_dflt :: "'b bo_hash \<Rightarrow> 'b globals_t" where
  "GBLS_dflt H = \<lparr>g_cwd = [], g_bos = hash_null H, g_bo_heap = [], g_executable = None, g_dirs = [], g_dirmax = 0, g_verbose = 0, g_startfs = False,
     g_prockallsyms = True, g_procbos = True\<rparr>"

text \<open>\<open>GBLSInit\<close>: the objects are cleared, the command line is processed, and \<open>startfs\<close> prepares the file system.\<close>

definition GBLSInit :: "'b bo_hash \<Rightarrow> world \<Rightarrow> ('b, 'i, 'n) kld \<Rightarrow> (int \<times> ('b, 'i, 'n) kld) res" where
  "GBLSInit H W K =
     rbind (fsInit FSNAME_DFLT (kld_fs K) False None) (\<lambda>fs.
     let K = K\<lparr>kld_fs := fs, kld_sp := sigprocReset (kld_sp K) True\<rparr>
     in rbind (GBLSInit_args H (w_os W) (w_cwd W) (w_opts W) (w_args W) (kld_gbls K) (kld_fds K)) (\<lambda>(rc, G, fds).
        let K = K\<lparr>kld_gbls := G, kld_fds := fds,
                  kld_files := GBLSInit_files (fe_file (ee_files (w_elf W))) H (w_os W) (w_cwd W) (w_opts W) (kld_gbls K) (kld_fds K) (kld_files K)\<rparr>
        in if rc < 0 then Inr (-1, K)
           else if g_startfs G
           then rbind (fsInit FSNAME_DFLT (kld_fs K) True None) (\<lambda>fs.
                let sfd = (if w_signalfd W then new_fd (kld_fds K) else -1)
                in rbind (sigprocInit (w_procmask W) sfd (kld_sp K) True) (\<lambda>(sp, _).
                   Inr (0, K\<lparr>kld_pid := w_pid W, kld_fs := fs, kld_sp := sp, kld_fds := sfd # kld_fds K\<rparr>)))
           else Inr (0, K)))"

section \<open>Leaving\<close>

definition sigprocCleanup :: "sigproc_t \<Rightarrow> int list \<Rightarrow> sigproc_t \<times> int list" where
  "sigprocCleanup sp fds =
     (if sp_sfd sp \<noteq> -1 then (sp\<lparr>sp_sfd := -1, sp_mask := []\<rparr>, close_fd (sp_sfd sp) fds) else (sp, fds))"

definition cleanup ::
  "'b bo_hash \<Rightarrow> 'i ino_hash \<Rightarrow> 'n name_hash \<Rightarrow> ('b, 'i, 'n) kld \<Rightarrow> ('b, 'i, 'n) kld res" where
  "cleanup H HI HN K =
     rbind (if g_startfs (kld_gbls K)
            then rbind (fsCleanup HI HN (kld_fs K)) (\<lambda>(_, fs).
                 let (sp, fds) = sigprocCleanup (kld_sp K) (kld_fds K)
                 in Inr (K\<lparr>kld_fs := fs, kld_sp := sp, kld_fds := fds\<rparr>))
            else Inr K) (\<lambda>K.
     let (G, fds) = cleanup_bos H (kld_gbls K) (kld_fds K)
     in Inr (K\<lparr>kld_gbls := G, kld_fds := fds\<rparr>))"

section \<open>Objects\<close>

definition bo_path :: "bo_t \<Rightarrow> string" where
  "bo_path bo = (case bo_sofnm bo of Some p \<Rightarrow> p | None \<Rightarrow> [])"

definition prcBO :: "strptr \<Rightarrow> elf_env \<Rightarrow> (string \<Rightarrow> elf_file) \<Rightarrow> bo_t \<Rightarrow> files \<Rightarrow> (int \<times> files) res" where
  "prcBO strp E ko bo fs =
     rbind (elf_read_syms strp (ko (bo_kofnm bo)) None) (\<lambda>(rc, entries, nmstrlen).
     if rc < 0 then Inr (-1, fs)
     else case nmstrlen of
            None \<Rightarrow> Inl Uninit_read
          | Some n \<Rightarrow> rbind (writeso E (bo_path bo) (bo_sofd bo) entries n fs) (\<lambda>fs. Inr (0, fs)))"

definition kotbl_line :: "bo_t \<Rightarrow> string" where
  "kotbl_line bo = bo_kofnm bo @ '','' @ bo_kldopts bo @ [CHR 0x0A]"

text \<open>The loop over the objects; the result of \<open>prcBO\<close> is not looked at.\<close>

primrec prc_bos :: "strptr \<Rightarrow> elf_env \<Rightarrow> (string \<Rightarrow> elf_file) \<Rightarrow> bo_t list \<Rightarrow> files \<Rightarrow> (files \<times> string) res" where
  "prc_bos strp E ko [] fs = Inr (fs, [])"
| "prc_bos strp E ko (bo # bos) fs =
     rbind (prcBO strp E ko bo fs) (\<lambda>(_, fs).
     rbind (prc_bos strp E ko bos fs) (\<lambda>(fs, ls). Inr (fs, kotbl_line bo @ ls)))"

definition KOTBL_SEC :: string where "KOTBL_SEC = ''.kotbl''"

definition prcExec :: "sec_env \<Rightarrow> int list \<Rightarrow> string \<Rightarrow> int \<times> int list" where
  "prcExec E fds exec =
     (let (rc, sd, fds) = elf_open_secdata E fds (Some exec) (-1) (Some KOTBL_SEC) (Some sd_zero)
      in if 0 \<le> rc then (rc, snd (elf_close_secdata fds sd)) else (rc, fds))"

section \<open>The stages of main\<close>

text \<open>
  A stage returns the exit status when it ends the process (by \<open>return\<close> or \<open>exit\<close>) and \<open>None\<close> when
  the next stage follows.
\<close>

definition stage_exec :: "world \<Rightarrow> ('b, 'i, 'n) kld \<Rightarrow> ('b, 'i, 'n) kld" where
  "stage_exec W K =
     (case g_executable (kld_gbls K) of
        None \<Rightarrow> K
      | Some exec \<Rightarrow> K\<lparr>kld_fds := snd (prcExec (w_sec W) (kld_fds K) exec)\<rparr>)"

definition stage_bos ::
  "'b bo_hash \<Rightarrow> strptr \<Rightarrow> world \<Rightarrow> ('b, 'i, 'n) kld \<Rightarrow> main_out \<Rightarrow> (int option \<times> main_out \<times> ('b, 'i, 'n) kld) res" where
  "stage_bos H strp W K out =
     (let G = kld_gbls K
      in if g_procbos G \<and> hash_count H (g_bos G) \<noteq> 0
         then if \<not> w_kotbl W then Inr (Some 1, out, K)
              else rbind (prc_bos strp (w_elf W) (w_ko W) (map (\<lambda>p. g_bo_heap G ! snd p) (hash_iter H (g_bos G))) (kld_files K))
                     (\<lambda>(fs, ls). Inr (None, out\<lparr>out_kotbl := Some ls\<rparr>, K\<lparr>kld_files := fs\<rparr>))
         else Inr (None, out, K))"

text \<open>\<open>openKallsyms\<close>: the result, and the lines of the file when it could be opened.\<close>

definition openKallsyms :: "world \<Rightarrow> int \<times> string list" where
  "openKallsyms W = (case w_kallsyms W of None \<Rightarrow> (-1, []) | Some ls \<Rightarrow> (0, ls))"

lemma openKallsyms_simps [simp]:
  "w_kallsyms W = None \<Longrightarrow> openKallsyms W = (-1, [])" "w_kallsyms W = Some ls \<Longrightarrow> openKallsyms W = (0, ls)"
  by (simp_all add: openKallsyms_def)

text \<open>
  A call of \<open>exit\<close> inside \<open>prcKallsyms\<close> comes after its files were written.
\<close>

definition stage_kallsyms ::
  "'m mod_hash \<Rightarrow> world \<Rightarrow> ('b, 'i, 'n) kld \<Rightarrow> (int option \<times> ('b, 'i, 'n) kld) res" where
  "stage_kallsyms HM W K =
     (if \<not> g_prockallsyms (kld_gbls K) then Inr (None, K)
      else let (rc, ls) = openKallsyms W
        in if rc < 0 then Inr (Some 1, K)
           else (case prcKallsyms HM (w_elf W) (w_mkdir W) (Some PATHPREFIX_DFLT) ls (kld_files K) of
             Inl (Exit_process n) \<Rightarrow>
               rbind (kallsyms_files HM (w_elf W) (Some PATHPREFIX_DFLT) ls (kld_files K)) (\<lambda>fs.
               Inr (Some n, K\<lparr>kld_files := fs\<rparr>))
           | Inl f \<Rightarrow> Inl f
           | Inr _ \<Rightarrow> Inr (None, K)))"

definition stage_fs ::
  "'i ino_hash \<Rightarrow> 'n name_hash \<Rightarrow> world \<Rightarrow> ('b, 'i, 'n) kld \<Rightarrow> main_out \<Rightarrow> (int option \<times> main_out \<times> ('b, 'i, 'n) kld) res" where
  "stage_fs HI HN W K out =
     (if \<not> g_startfs (kld_gbls K) then Inr (Some 0, out, K)
      else rbind (fsCreate HI HN (w_fsenv W) (kld_fs K) (w_argv0 W) (Some (kldfsCreate HI HN))) (\<lambda>(ok, fs).
           let K = K\<lparr>kld_fs := fs\<rparr>
           in if \<not> ok then Inr (Some 1, out, K)
              else let epollfd = (if w_epoll W then new_fd (kld_fds K) else -1);
                       K = (if w_epoll W then K\<lparr>kld_fds := epollfd # kld_fds K\<rparr> else K)
                in rbind (kldfsLoop (fs_fuse_ops HI HN (w_direntry W) (kld_pid K) fs) epollfd
                            (w_ctl_sig W) (w_ctl_fs W) (w_waits W) fs (kld_sp K)) (\<lambda>(rc, rs, _).
                   let out = out\<lparr>out_replies := rs\<rparr>
                   in Inr (case rc of None \<Rightarrow> None | Some r \<Rightarrow> Some (if r then 0 else 1), out, K))))"

text \<open>
  \<open>main\<close> after the initialisation. The status is \<open>None\<close> while the event loop still waits.
\<close>

definition main_body ::
  "'b bo_hash \<Rightarrow> 'i ino_hash \<Rightarrow> 'n name_hash \<Rightarrow> 'm mod_hash \<Rightarrow> strptr \<Rightarrow> world \<Rightarrow> ('b, 'i, 'n) kld \<Rightarrow>
   (int option \<times> main_out \<times> ('b, 'i, 'n) kld) res" where
  "main_body H HI HN HM strp W K =
     (let K = stage_exec W K
      in rbind (stage_bos H strp W K out_none) (\<lambda>(st, out, K).
         if st \<noteq> None then Inr (st, out, K)
         else rbind (stage_kallsyms HM W K) (\<lambda>(st, K).
              if st \<noteq> None then Inr (st, out, K)
              else stage_fs HI HN W K out)))"

definition main ::
  "'b bo_hash \<Rightarrow> 'i ino_hash \<Rightarrow> 'n name_hash \<Rightarrow> 'm mod_hash \<Rightarrow> strptr \<Rightarrow> world \<Rightarrow> ('b, 'i, 'n) kld \<Rightarrow>
   (int option \<times> main_out \<times> ('b, 'i, 'n) kld) res" where
  "main H HI HN HM strp W K =
     rbind (GBLSInit H W K) (\<lambda>(rc, K).
     if rc < 0 then Inr (Some 1, out_none, K)
     else rbind (main_body H HI HN HM strp W K) (\<lambda>(st, out, K).
          if st = None then Inr (None, out, K)
          else rbind (cleanup H HI HN K) (\<lambda>K. Inr (st, out, K))))"

end
