(* ===== verification/Kld_Main_Props.thy ===== *)
theory Kld_Main_Props
  imports Kld_Main
begin

text \<open>
  Correctness of \<open>kld\<close> as a whole: each kernel object that can be read gets its shared object, the
  table lists the objects in the order of the command line, the objects of the running kernel are
  written, and all descriptors that were opened are closed at exit.
\<close>

section \<open>Reading any object\<close>















section \<open>The executable\<close>


section \<open>Initialisation\<close>

text \<open>The globals and objects of a process that has just started.\<close>

definition kld_fresh :: "'b bo_hash \<Rightarrow> ('b, 'i, 'n) kld \<Rightarrow> bool" where
  "kld_fresh H K \<longleftrightarrow> g_bos (kld_gbls K) = hash_null H \<and> g_bo_heap (kld_gbls K) = [] \<and> \<not> g_startfs (kld_gbls K) \<and>
     g_procbos (kld_gbls K)"

lemma GBLS_dflt_fresh: "kld_gbls K = GBLS_dflt H \<Longrightarrow> kld_fresh H K"
  by (simp add: kld_fresh_def GBLS_dflt_def)







section \<open>The whole program\<close>










end
