(* ===== verification/Elf_Tools.thy ===== *)
theory Elf_Tools
  imports Kallsyms_Props
begin

text \<open>
  Two inspection tools beside \<open>kld\<close>: \<open>readsymtbl.c\<close> prints the symbols of an object in the format
  of \<open>nm\<close>, \<open>listlibs.c\<close> resolves the libraries an object needs. The output is the list of the lines.
\<close>

section \<open>\<open>readsymtbl\<close>\<close>

text \<open>The header of a section by its index, as \<open>elf_getscn\<close> and \<open>gelf_getshdr\<close> give it.\<close>

definition getscn :: "Elf \<Rightarrow> nat \<Rightarrow> GElf_Shdr option" where
  "getscn elf i = (if 0 < i \<and> i \<le> length (e_scns elf) then Some (scn_hdr (e_scns elf ! (i - 1))) else None)"

definition nm_line :: "Elf \<Rightarrow> GElf_Sym \<Rightarrow> string \<Rightarrow> string" where
  "nm_line elf sy name =
     (let type = get_symbol_type (getscn elf) sy
      in if sym_shndx sy = SHN_UNDEF then ''                 '' @ [type] @ '' '' @ name @ [CHR 0x0A]
         else hexstr 16 (unat (sym_value sy)) @ '' '' @ [type] @ '' '' @ name @ [CHR 0x0A])"

fun nm_syms :: "strptr \<Rightarrow> Elf \<Rightarrow> GElf_Shdr \<Rightarrow> nat \<Rightarrow> GElf_Sym list \<Rightarrow> string list res" where
  "nm_syms strp elf shdr 0 syms = Inr []"
| "nm_syms strp elf shdr (Suc n) [] = Inl Uninit_read"
| "nm_syms strp elf shdr (Suc n) (sy # syms) =
     (if sym_name sy = 0 \<and> sym_value sy = 0 then nm_syms strp elf shdr n syms
      else case strp elf (sh_link shdr) (unat (sym_name sy)) of
             None \<Rightarrow> Inl Null_deref
           | Some name \<Rightarrow> rbind (nm_syms strp elf shdr n syms) (\<lambda>ls. Inr (nm_line elf sy name # ls)))"

primrec nm_scns :: "strptr \<Rightarrow> Elf \<Rightarrow> Elf_Scn list \<Rightarrow> string list res" where
  "nm_scns strp elf [] = Inr []"
| "nm_scns strp elf (scn # scns) =
     (let shdr = scn_hdr scn
      in if sh_type shdr = SHT_SYMTAB \<or> sh_type shdr = SHT_DYNSYM
         then if sh_entsize shdr = 0 then Inl Div_zero
              else if INT_MAX < int (sh_size shdr div sh_entsize shdr) then Inl Int_overflow
              else rbind (nm_syms strp elf shdr (sh_size shdr div sh_entsize shdr)
                           (case scn_data scn of Syms ss \<Rightarrow> ss | _ \<Rightarrow> [])) (\<lambda>ls.
                   rbind (nm_scns strp elf scns) (\<lambda>ls'. Inr (ls @ ls')))
         else nm_scns strp elf scns)"

text \<open>
  \<open>main\<close>: \<open>None\<close> when there is not exactly one argument; a file that cannot be opened counts as
  \<open>No_elf\<close>. The result is the exit status and the lines.
\<close>

definition readsymtbl_main :: "strptr \<Rightarrow> elf_file option \<Rightarrow> (int \<times> string list) res" where
  "readsymtbl_main strp arg =
     (case arg of
        None \<Rightarrow> Inr (1, [])
      | Some No_elf \<Rightarrow> Inr (-1, [])
      | Some Not_elf \<Rightarrow> Inr (-1, [])
      | Some (Is_elf elf) \<Rightarrow> rbind (nm_scns strp elf (e_scns elf)) (\<lambda>ls. Inr (0, ls)))"

section \<open>\<open>listlibs\<close>\<close>

definition DT_NEEDED :: nat where "DT_NEEDED = 1"
definition DT_RPATH :: nat where "DT_RPATH = 15"
definition DT_RUNPATH :: nat where "DT_RUNPATH = 29"

text \<open>\<open>stat\<close> answers whether a path exists; \<open>None\<close> is a NULL pointer.\<close>

primrec resolve_loop :: "(string \<Rightarrow> bool) \<Rightarrow> string \<Rightarrow> string list \<Rightarrow> string option" where
  "resolve_loop stat lib_name [] = None"
| "resolve_loop stat lib_name (dir # dirs) =
     (let full_path = snprintf 1024 (dir @ ''/'' @ lib_name)
      in if stat full_path then Some full_path else resolve_loop stat lib_name dirs)"

definition resolve_path :: "(string \<Rightarrow> bool) \<Rightarrow> string \<Rightarrow> string option \<Rightarrow> string option" where
  "resolve_path stat lib_name search_dirs =
     (case search_dirs of
        None \<Rightarrow> None
      | Some dirs \<Rightarrow> resolve_loop stat lib_name (strtok (CHR '':'') dirs))"

definition std_paths :: string where
  "std_paths = ''/lib:/usr/lib:/lib64:/usr/lib64''"

text \<open>The entries of the dynamic sections, each with the string table of its section.\<close>

definition dyn_entries :: "Elf_Scn \<Rightarrow> (nat \<times> GElf_Dyn) list res" where
  "dyn_entries scn =
     (let shdr = scn_hdr scn
      in if sh_type shdr \<noteq> SHT_DYNAMIC then Inr []
         else if sh_entsize shdr = 0 then Inl Div_zero
         else let n = sh_size shdr div sh_entsize shdr; ds = (case scn_data scn of Dyns d \<Rightarrow> d | _ \<Rightarrow> [])
              in if length ds < n then Inl Uninit_read else Inr (map (\<lambda>d. (sh_link shdr, d)) (take n ds)))"

primrec dyn_all :: "Elf_Scn list \<Rightarrow> (nat \<times> GElf_Dyn) list res" where
  "dyn_all [] = Inr []"
| "dyn_all (scn # scns) = rbind (dyn_entries scn) (\<lambda>ds. rbind (dyn_all scns) (\<lambda>ds'. Inr (ds @ ds')))"

text \<open>First pass: the last \<open>RUNPATH\<close> or \<open>RPATH\<close> counts.\<close>

definition find_runpath :: "strptr \<Rightarrow> Elf \<Rightarrow> (nat \<times> GElf_Dyn) list \<Rightarrow> string option" where
  "find_runpath strp elf ds = foldl (\<lambda>runpath (link, d).
     if dyn_tag d = DT_RUNPATH \<or> dyn_tag d = DT_RPATH then strp elf link (dyn_un d) else runpath) None ds"

definition find_lib :: "(string \<Rightarrow> bool) \<Rightarrow> string option \<Rightarrow> string option \<Rightarrow> string \<Rightarrow> string option" where
  "find_lib stat runpath ld_library_path name =
     (case resolve_path stat name runpath of
        Some f \<Rightarrow> Some f
      | None \<Rightarrow> (case resolve_path stat name ld_library_path of
                   Some f \<Rightarrow> Some f
                 | None \<Rightarrow> resolve_path stat name (Some std_paths)))"

definition lib_line :: "string \<Rightarrow> string option \<Rightarrow> string" where
  "lib_line name found = name @ replicate (20 - length name) (CHR '' '') @ '' => '' @
     (case found of Some f \<Rightarrow> f | None \<Rightarrow> ''not found'') @ [CHR 0x0A]"

text \<open>Second pass: the needed libraries.\<close>

primrec needed_lines ::
  "strptr \<Rightarrow> Elf \<Rightarrow> (string \<Rightarrow> string option) \<Rightarrow> (nat \<times> GElf_Dyn) list \<Rightarrow> string list res" where
  "needed_lines strp elf look [] = Inr []"
| "needed_lines strp elf look (e # es) =
     (case e of (link, d) \<Rightarrow>
        if dyn_tag d = DT_NEEDED
        then (case strp elf link (dyn_un d) of
                None \<Rightarrow> Inl Null_deref
              | Some name \<Rightarrow> rbind (needed_lines strp elf look es) (\<lambda>ls. Inr (lib_line name (look name) # ls)))
        else needed_lines strp elf look es)"

text \<open>\<open>libs\<close>: a file that cannot be opened ends the process, one that is no object has no sections.\<close>

definition libs :: "strptr \<Rightarrow> (string \<Rightarrow> bool) \<Rightarrow> string option \<Rightarrow> elf_file \<Rightarrow> string list res" where
  "libs strp stat ld_library_path file =
     (case file of
        No_elf \<Rightarrow> Inl (Exit_process 1)
      | Not_elf \<Rightarrow> Inr []
      | Is_elf e \<Rightarrow>
          rbind (dyn_all (e_scns e)) (\<lambda>ds.
          needed_lines strp e (find_lib stat (find_runpath strp e ds) ld_library_path) ds))"

section \<open>Correctness\<close>

definition abs_kline :: "SymbolEntry \<Rightarrow> kline" where
  "abs_kline e = \<lparr>kl_addr = se_addr e, kl_type = CHR ''A'', kl_name = se_name e, kl_mod = None\<rparr>"

lemma nm_line_abs:
  "sym_shndx sy = SHN_ABS \<Longrightarrow> strp elf (sh_link shdr) (unat (sym_name sy)) = Some name \<Longrightarrow>
    nm_line elf sy name = print_kline (abs_kline (sym_entry strp elf shdr sy))"
  by (simp add: nm_line_def print_kline_def abs_kline_def sym_entry_def get_symbol_type_def elf_consts)

lemma nm_syms_abs:
  assumes "\<forall>sy \<in> set syms. \<not> sym_skipped sy \<longrightarrow>
      strp elf (sh_link shdr) (unat (sym_name sy)) \<noteq> None \<and> sym_shndx sy = SHN_ABS"
  shows "nm_syms strp elf shdr (length syms) syms =
    Inr (map (\<lambda>sy. print_kline (abs_kline (sym_entry strp elf shdr sy))) (filter (\<lambda>sy. \<not> sym_skipped sy) syms))"
  using assms
proof (induction syms)
  case (Cons sy syms)
  then show ?case
    using nm_line_abs[of sy strp elf shdr] by (cases "sym_skipped sy") (auto simp: sym_skipped_def)
qed simp

lemma nm_sym_section:
  assumes s: "sym_section strp elf es s" and "\<forall>e \<in> set es. NUL \<notin> set (se_name e)" and "elf_fits es"
  shows "nm_scns strp elf (s # scns) =
    rbind (nm_scns strp elf scns) (\<lambda>ls. Inr (map (\<lambda>e. print_kline (abs_kline e)) es @ ls))"
proof -
  let ?syms = "map2 mk_sym es (offsets 1 (map se_name es))"
  have str: "\<And>i. i < length es \<Longrightarrow> strp elf (sh_link (scn_hdr s)) (offsets 1 (map se_name es) ! i) = Some (se_name (es ! i))"
    using s by (simp add: sym_section_def)
  have sz: "strs_len (map se_name es) < 2 ^ 32" "length (gen_syms es) < 2 ^ 31"
    using assms(3) by (simp_all add: elf_fits_def gen_syms_def sym_table_def)
  note r = sym_table_read[OF assms(2) sz(1), of strp elf "scn_hdr s", OF str, folded gen_syms_def]
  have "sym_shndx sy = SHN_ABS" if "sy \<in> set (gen_syms es)" "\<not> sym_skipped sy" for sy
  proof -
    have "sy \<in> set ?syms" using that r(1) by (metis (mono_tags, lifting) mem_Collect_eq set_filter)
    then show ?thesis by (auto simp: mk_sym_def)
  qed
  then have "nm_syms strp elf (scn_hdr s) (length (gen_syms es)) (gen_syms es) =
      Inr (map (\<lambda>sy. print_kline (abs_kline (sym_entry strp elf (scn_hdr s) sy))) ?syms)"
    using nm_syms_abs[of "gen_syms es" strp elf "scn_hdr s"] r(1,3) by simp
  moreover have "map (\<lambda>sy. print_kline (abs_kline (sym_entry strp elf (scn_hdr s) sy))) xs =
      map (\<lambda>e. print_kline (abs_kline e)) (map (sym_entry strp elf (scn_hdr s)) xs)" for xs by simp
  ultimately have "nm_syms strp elf (scn_hdr s) (length (gen_syms es)) (gen_syms es) =
      Inr (map (\<lambda>e. print_kline (abs_kline e)) (map absolute es))" using r(2) by metis
  moreover have "map (\<lambda>e. print_kline (abs_kline e)) (map absolute es) = map (\<lambda>e. print_kline (abs_kline e)) es"
    by (simp add: absolute_def abs_kline_def)
  ultimately have "nm_syms strp elf (scn_hdr s) (length (gen_syms es)) (gen_syms es) =
      Inr (map (\<lambda>e. print_kline (abs_kline e)) es)" by (simp only:)
  then show ?thesis
    using s sz(2) by (auto simp: sym_section_def SYM_SIZE_def Let_def INT_MAX_def)
qed

lemma nm_other_section: "other_section s \<Longrightarrow> nm_scns strp elf (s # scns) = nm_scns strp elf scns"
  by (simp add: other_section_def Let_def)

text \<open>
  \<open>readsymtbl\<close> on an object that \<open>kld\<close> generated prints every symbol, once for each of the two
  symbol tables, in exactly the format of a line of \<open>/proc/kallsyms\<close> for an absolute symbol.
\<close>

theorem readsymtbl_generated:
  assumes "elf_lib strp" and "\<forall>e \<in> set es. NUL \<notin> set (se_name e)" and "elf_fits es"
  shows "\<exists>elf. elf_build off es (names_size es) = Inr elf \<and>
    readsymtbl_main strp (Some (Is_elf elf)) =
      Inr (0, map (\<lambda>e. print_kline (abs_kline e)) es @ map (\<lambda>e. print_kline (abs_kline e)) es)"
proof -
  obtain elf s1 s2 s3 s4 s5 s6 s7 where b: "elf_build off es (names_size es) = Inr elf"
    and sc: "e_scns elf = [s1, s2, s3, s4, s5, s6, s7]"
    and oth: "other_section s1" "other_section s2" "other_section s3" "other_section s6" "other_section s7"
    and tab: "sym_section strp elf es s4" "sym_section strp elf es s5"
    by (rule generated_sections[OF assms])
  have "nm_scns strp elf (e_scns elf) =
      Inr (map (\<lambda>e. print_kline (abs_kline e)) es @ map (\<lambda>e. print_kline (abs_kline e)) es)"
    unfolding sc using oth nm_sym_section[OF tab(1) assms(2,3)] nm_sym_section[OF tab(2) assms(2,3)]
    by (simp add: nm_other_section del: nm_scns.simps(2))
  then show ?thesis using b by (auto simp: readsymtbl_main_def)
qed

definition demo_low :: "SymbolEntry list" where
  "demo_low = [\<lparr>se_name = ''f'', se_addr = 0x2a, se_size = 0, se_bind = BIND_GLOBAL, se_type = TYPE_FUNC\<rparr>,
     \<lparr>se_name = ''v'', se_addr = 0x30, se_size = 8, se_bind = BIND_WEAK, se_type = TYPE_DATA\<rparr>]"

theorem readsymtbl_generated_witness:
  "\<exists>elf. elf_build (\<lambda>i. 64 * i) demo_low 4 = Inr elf \<and>
    readsymtbl_main elf_strptr_ref (Some (Is_elf elf)) =
      Inr (0, [''000000000000002a A f\<newline>'', ''0000000000000030 A v\<newline>'',
               ''000000000000002a A f\<newline>'', ''0000000000000030 A v\<newline>''])"
proof -
  have l: "names_size demo_low = 4" "elf_fits demo_low" "\<forall>e \<in> set demo_low. NUL \<notin> set (se_name e)"
    by (simp_all add: demo_low_def names_size_def elf_fits_def)
  have h: "hexstr 16 42 = ''000000000000002a''" "hexstr 16 48 = ''0000000000000030''" by (simp_all add: hexstr_eval)
  have p: "map (\<lambda>e. print_kline (abs_kline e)) demo_low = [''000000000000002a A f\<newline>'', ''0000000000000030 A v\<newline>'']"
    by (simp add: demo_low_def print_kline_def abs_kline_def h)
  show ?thesis
    using readsymtbl_generated[OF ref_lib.elf_lib_axioms l(3,2), of "\<lambda>i. 64 * i"] unfolding p l(1) append_Cons append_Nil by blast
qed

text \<open>The directories in the order in which they are searched.\<close>

definition search_list :: "string option \<Rightarrow> string option \<Rightarrow> string list" where
  "search_list runpath ld_library_path =
     (case runpath of None \<Rightarrow> [] | Some r \<Rightarrow> strtok (CHR '':'') r) @
     (case ld_library_path of None \<Rightarrow> [] | Some r \<Rightarrow> strtok (CHR '':'') r) @
     [''/lib'', ''/usr/lib'', ''/lib64'', ''/usr/lib64'']"

lemma resolve_loop_find:
  "resolve_loop stat name dirs = find stat (map (\<lambda>d. snprintf 1024 (d @ ''/'' @ name)) dirs)"
  by (induction dirs) (simp_all add: Let_def)

lemma find_append: "find P (xs @ ys) = (case find P xs of Some x \<Rightarrow> Some x | None \<Rightarrow> find P ys)"
  by (induction xs) simp_all

lemma resolve_path_find:
  "resolve_path stat name sd =
    find stat (map (\<lambda>d. snprintf 1024 (d @ ''/'' @ name)) (case sd of None \<Rightarrow> [] | Some r \<Rightarrow> strtok (CHR '':'') r))"
  by (cases sd) (simp_all add: resolve_path_def resolve_loop_find)

text \<open>
  \<open>libs\<close> resolves a needed library to the first existing file in the directories of \<open>RUNPATH\<close>,
  then of \<open>LD_LIBRARY_PATH\<close>, then in the standard ones, and reports \<open>not found\<close> exactly when no
  directory of these has it.
\<close>

theorem find_lib_search_order:
  "find_lib stat runpath ld_library_path name =
    find stat (map (\<lambda>d. snprintf 1024 (d @ ''/'' @ name)) (search_list runpath ld_library_path))"
proof -
  have std: "strtok (CHR '':'') std_paths = [''/lib'', ''/usr/lib'', ''/lib64'', ''/usr/lib64'']" by code_simp
  show ?thesis
    by (simp only: find_lib_def search_list_def resolve_path_find map_append find_append option.case std)
qed

section \<open>The generator on its own\<close>

text \<open>\<open>main\<close> of \<open>elf.c\<close>: seven symbols, one of each kind, written to \<open>libstubs.so\<close>.\<close>

definition stub_entries :: "SymbolEntry list" where
  "stub_entries =
     [\<lparr>se_name = ''global_func'', se_addr = 0x7FFF00001000, se_size = 0, se_bind = BIND_GLOBAL, se_type = TYPE_FUNC\<rparr>,
      \<lparr>se_name = ''weak_func'', se_addr = 0x7FFF00002000, se_size = 0, se_bind = BIND_WEAK, se_type = TYPE_FUNC\<rparr>,
      \<lparr>se_name = ''global_data'', se_addr = 0x7FFF00003000, se_size = 8, se_bind = BIND_GLOBAL, se_type = TYPE_DATA\<rparr>,
      \<lparr>se_name = ''global_rodata'', se_addr = 0x7FFF00004000, se_size = 4, se_bind = BIND_GLOBAL, se_type = TYPE_RODATA\<rparr>,
      \<lparr>se_name = ''global_bss'', se_addr = 0x7FFF00005000, se_size = 256, se_bind = BIND_GLOBAL, se_type = TYPE_BSS\<rparr>,
      \<lparr>se_name = ''weak_data'', se_addr = 0x7FFF00006000, se_size = 4, se_bind = BIND_WEAK, se_type = TYPE_DATA\<rparr>,
      \<lparr>se_name = ''absolute_val'', se_addr = 0xDEADBEEF, se_size = 0, se_bind = BIND_GLOBAL, se_type = TYPE_ABS\<rparr>]"

primrec name_bytes :: "SymbolEntry list \<Rightarrow> u64 \<Rightarrow> u64" where
  "name_bytes [] nmstrlen = nmstrlen"
| "name_bytes (e # es) nmstrlen = name_bytes es (nmstrlen + of_nat (length (se_name e) + 1))"

text \<open>NULL is not \<open>MAP_FAILED\<close>: then the size, which was never set, is used.\<close>

definition elf_main :: "elf_env \<Rightarrow> files \<Rightarrow> files res" where
  "elf_main E fs =
     rbind (elf_generate_elf_mmap E stub_entries (name_bytes stub_entries 0)) (\<lambda>m.
     case m of Map_failed fd \<Rightarrow> Inr fs | Map_null \<Rightarrow> Inl Uninit_read | Map_elf elf fd \<Rightarrow> Inr (put_file E ''libstubs.so'' elf fs))"

lemma name_bytes_strs: "name_bytes es n = n + names_size es"
  by (induction es arbitrary: n) (simp_all add: names_size_def)

text \<open>
  The file that the generator writes holds all seven symbols: read back it gives each of them twice, as an absolute symbol with its name and address. When the file cannot be opened nothing is written and nothing is reported. Without
  a memory file or without libelf it uses a size that was never set.
\<close>

lemma elf_main_stubs:
  assumes "elf_lib strp"
  shows "0 \<le> ee_memfd E \<and> ee_begin E \<and> ee_mmap E \<Longrightarrow> \<exists>elf. elf_main E fs = Inr (put_file E ''libstubs.so'' elf fs) \<and>
      elf_read_syms strp (Is_elf elf) None =
        Inr (0, map absolute stub_entries @ map absolute stub_entries, Some (names_size (map absolute stub_entries @ map absolute stub_entries)))"
    and "ee_memfd E < 0 \<or> \<not> ee_begin E \<Longrightarrow> elf_main E fs = Inl Uninit_read"
proof -
  assume e: "0 \<le> ee_memfd E \<and> ee_begin E \<and> ee_mmap E"
  have "\<forall>e \<in> set stub_entries. NUL \<notin> set (se_name e)" "elf_fits stub_entries"
    by (simp_all add: stub_entries_def strs_len_def elf_fits_def)
  from elf_build_read_back[OF assms this, of "ee_off E"] e
  show "\<exists>elf. elf_main E fs = Inr (put_file E ''libstubs.so'' elf fs) \<and> elf_read_syms strp (Is_elf elf) None =
      Inr (0, map absolute stub_entries @ map absolute stub_entries, Some (names_size (map absolute stub_entries @ map absolute stub_entries)))"
    by (auto simp: elf_main_def elf_generate_elf_mmap_def name_bytes_strs)
next
  assume "ee_memfd E < 0 \<or> \<not> ee_begin E"
  then show "elf_main E fs = Inl Uninit_read" by (auto simp: elf_main_def elf_generate_elf_mmap_def)
qed

end
