(* ===== verification/Idt_Table.thy ===== *)
theory Idt_Table
  imports Prelude
begin

text \<open>
  The interrupt descriptor table in \<open>idtr_interposer\<close> (\<open>kmod/main.c\<close>) and in \<open>kcuttest\<close>
  (\<open>idtadaptor.h\<close>): the entries with their bit fields at their widths, copying the table, redirecting
  four vectors, and loading it on the processors.

  The tables live in a map from base addresses to lists of entries; every processor has its own
  \<open>idtr\<close>. \<open>kmalloc_array\<close> is the address it returns, 0 when it fails.
\<close>

section \<open>Entries\<close>

record idt_entry =
  ie_offset0 :: u16
  ie_selector :: u16
  ie_ist :: "3 word"
  ie_type :: "4 word"
  ie_dpl :: "2 word"
  ie_p :: "1 word"
  ie_offset1 :: u16
  ie_offset2 :: u32
  ie_reserved :: u32

text \<open>The 64-bit offset and the attribute byte, as \<open>print_idt_entries\<close> puts them together.\<close>

definition idt_offset :: "idt_entry \<Rightarrow> u64" where
  "idt_offset e = push_bit 32 (ucast (ie_offset2 e)) OR push_bit 16 (ucast (ie_offset1 e)) OR ucast (ie_offset0 e)"

definition idt_type_attr :: "idt_entry \<Rightarrow> u8" where
  "idt_type_attr e = (ucast (ie_type e) AND 0x0F) OR push_bit 5 (ucast (ie_dpl e) AND 0x03) OR
     push_bit 7 (ucast (ie_p e) AND 0x01)"

text \<open>The lines that \<open>print_idt_entries\<close> prints: index, offset, selector, stack and attributes.\<close>

definition print_idt_entries :: "idt_entry list \<Rightarrow> (nat \<times> u64 \<times> u16 \<times> u8 \<times> u8) list" where
  "print_idt_entries idt = map (\<lambda>i. (i, idt_offset (idt ! i), ie_selector (idt ! i), ucast (ie_ist (idt ! i)),
     idt_type_attr (idt ! i))) [0..<256]"

text \<open>Storing a handler address; \<open>None\<close> is the NULL table.\<close>

definition set_entry_offset :: "idt_entry \<Rightarrow> u64 \<Rightarrow> idt_entry" where
  "set_entry_offset e offset = e\<lparr>ie_offset0 := ucast (offset AND 0xFFFF),
     ie_offset1 := ucast (drop_bit 16 offset AND 0xFFFF),
     ie_offset2 := ucast (drop_bit 32 offset AND 0xFFFFFFFF)\<rparr>"

definition set_idt_entry :: "idt_entry list option \<Rightarrow> nat \<Rightarrow> u64 \<Rightarrow> (idt_entry list option) res" where
  "set_idt_entry idt vector handler_addr =
     (case idt of
        None \<Rightarrow> Inl Null_deref
      | Some t \<Rightarrow> if length t \<le> vector then Inl Out_of_bounds
                 else Inr (Some (t[vector := set_entry_offset (t ! vector) handler_addr])))"

text \<open>The same store in \<open>kcuttest\<close>, by truncating casts, and reading one gate.\<close>

definition gate_set_offset :: "idt_entry \<Rightarrow> u64 \<Rightarrow> idt_entry" where
  "gate_set_offset gate addr = gate\<lparr>ie_offset0 := ucast addr, ie_offset1 := ucast (drop_bit 16 addr),
     ie_offset2 := ucast (drop_bit 32 addr)\<rparr>"

definition read_gate :: "idt_entry list \<Rightarrow> nat \<Rightarrow> idt_entry res" where
  "read_gate idt n = (if n < length idt then Inr (idt ! n) else Inl Out_of_bounds)"

section \<open>Processors\<close>

record dtr =
  dtr_limit :: u16
  dtr_base :: u64

record machine =
  mc_cpus :: "dtr list"
  mc_tables :: "u64 \<Rightarrow> idt_entry list option"
  mc_old_idtr :: dtr

text \<open>
  \<open>sidt\<close> on the processor that runs the code; copying 256 entries reads past a shorter table.
\<close>

definition duplicate_idt :: "nat \<Rightarrow> u64 \<Rightarrow> machine \<Rightarrow> (u64 \<times> machine) res" where
  "duplicate_idt cpu kmalloc m =
     (if kmalloc = 0 then Inr (0, m)
      else case mc_tables m (dtr_base (mc_cpus m ! cpu)) of
             None \<Rightarrow> Inl Null_deref
           | Some t \<Rightarrow> if length t < 256 then Inl Out_of_bounds
                      else Inr (kmalloc, m\<lparr>mc_tables := (mc_tables m)(kmalloc := Some (take 256 t))\<rparr>))"

definition load_idt_on_cpu :: "dtr \<Rightarrow> nat \<Rightarrow> machine \<Rightarrow> machine" where
  "load_idt_on_cpu d cpu m = m\<lparr>mc_cpus := (mc_cpus m)[cpu := d]\<rparr>"

text \<open>\<open>on_each_cpu\<close> calls the function on every processor.\<close>

definition on_each_cpu :: "(nat \<Rightarrow> machine \<Rightarrow> machine) \<Rightarrow> machine \<Rightarrow> machine" where
  "on_each_cpu f m = foldl (\<lambda>m c. f c m) m [0..<length (mc_cpus m)]"

text \<open>\<open>sizeof(struct idt_entry)\<close>.\<close>

definition IDT_ENTRY_SIZE :: nat where "IDT_ENTRY_SIZE = 16"

text \<open>The addresses of the four handlers of the module.\<close>

record handlers =
  h_df :: u64
  h_tf :: u64
  h_int3 :: u64
  h_db :: u64

definition redirect :: "handlers \<Rightarrow> idt_entry list option \<Rightarrow> (idt_entry list option) res" where
  "redirect h idt =
     rbind (set_idt_entry idt 8 (h_df h)) (\<lambda>idt.
     rbind (set_idt_entry idt 14 (h_tf h)) (\<lambda>idt.
     rbind (set_idt_entry idt 3 (h_int3 h)) (\<lambda>idt.
     set_idt_entry idt 1 (h_db h))))"

definition setup_df_interposition :: "nat \<Rightarrow> u64 \<Rightarrow> handlers \<Rightarrow> machine \<Rightarrow> machine res" where
  "setup_df_interposition cpu kmalloc h m =
     rbind (duplicate_idt cpu kmalloc m) (\<lambda>(new_idt, m).
     rbind (redirect h (if new_idt = 0 then None else mc_tables m new_idt)) (\<lambda>idt.
     let m = m\<lparr>mc_tables := (mc_tables m)(new_idt := idt)\<rparr>;
         new_idtr = \<lparr>dtr_limit = of_nat (IDT_ENTRY_SIZE * 256 - 1), dtr_base = new_idt\<rparr>
     in Inr (on_each_cpu (load_idt_on_cpu new_idtr) m)))"

definition greeter_init :: "nat \<Rightarrow> machine \<Rightarrow> machine" where
  "greeter_init cpu m = m\<lparr>mc_old_idtr := mc_cpus m ! cpu\<rparr>"

text \<open>The module's exit loads the saved register on the processor it runs on.\<close>

definition greeter_exit :: "nat \<Rightarrow> machine \<Rightarrow> machine" where
  "greeter_exit cpu m = load_idt_on_cpu (mc_old_idtr m) cpu m"

section \<open>Correctness\<close>

lemma set_entry_offset_sel [simp]:
  "ie_selector (set_entry_offset e a) = ie_selector e" "ie_ist (set_entry_offset e a) = ie_ist e"
  "ie_type (set_entry_offset e a) = ie_type e" "ie_dpl (set_entry_offset e a) = ie_dpl e"
  "ie_p (set_entry_offset e a) = ie_p e" "ie_reserved (set_entry_offset e a) = ie_reserved e"
  by (simp_all add: set_entry_offset_def)

lemma set_entry_offset_frame:
  "e\<lparr>ie_offset0 := ie_offset0 (set_entry_offset e a), ie_offset1 := ie_offset1 (set_entry_offset e a),
     ie_offset2 := ie_offset2 (set_entry_offset e a)\<rparr> = set_entry_offset e a"
  by (simp add: set_entry_offset_def)

text \<open>The three parts of an address, put together again.\<close>

lemma idt_offset_set: "idt_offset (set_entry_offset e a) = a"
proof (rule bit_word_eqI)
  fix n assume n: "n < LENGTH(64)"
  have m: "(0xFFFF :: u64) = mask 16" "(0xFFFFFFFF :: u64) = mask 32" by (simp_all add: mask_numeral)
  show "bit (idt_offset (set_entry_offset e a)) n = bit a n"
    using n unfolding idt_offset_def set_entry_offset_def m
    by (cases "32 \<le> n") (auto simp: bit_simps bit_ucast_iff)
qed

lemma gate_set_offset_eq: "gate_set_offset e a = set_entry_offset e a"
proof -
  have m: "(0xFFFF :: u64) = mask 16" "(0xFFFFFFFF :: u64) = mask 32" by (simp_all add: mask_numeral)
  have "ucast (x AND mask 16) = (ucast x :: u16)" "ucast (x AND mask 32) = (ucast x :: u32)" for x :: u64
    by (auto intro!: bit_word_eqI simp: bit_simps bit_ucast_iff)
  then show ?thesis by (simp add: gate_set_offset_def set_entry_offset_def m)
qed

text \<open>
  \<open>set_idt_entry\<close> stores the whole 64-bit address of a handler: the entry's offset, put together
  from its three parts, is the address again, and nothing else of the table changes. The variant of
  \<open>kcuttest\<close> that casts instead of masking stores the same entry.
\<close>

theorem set_idt_entry_roundtrip:
  assumes "v < length t"
  shows "\<exists>t'. set_idt_entry (Some t) v a = Inr (Some t') \<and> idt_offset (t' ! v) = a \<and>
    t' ! v = (t ! v)\<lparr>ie_offset0 := ie_offset0 (t' ! v), ie_offset1 := ie_offset1 (t' ! v), ie_offset2 := ie_offset2 (t' ! v)\<rparr> \<and>
    t' ! v = gate_set_offset (t ! v) a \<and>
    (\<forall>i. i \<noteq> v \<longrightarrow> t' ! i = t ! i) \<and> length t' = length t"
  using assms
  by (intro exI[of _ "t[v := set_entry_offset (t ! v) a]"])
    (simp add: set_idt_entry_def idt_offset_set gate_set_offset_eq set_entry_offset_frame)

definition demo_entry :: idt_entry where
  "demo_entry = \<lparr>ie_offset0 = 0, ie_selector = 0x10, ie_ist = 1, ie_type = 14, ie_dpl = 0, ie_p = 1,
     ie_offset1 = 0, ie_offset2 = 0, ie_reserved = 0\<rparr>"

theorem set_idt_entry_roundtrip_witness:
  "\<exists>t'. set_idt_entry (Some [demo_entry, demo_entry]) 1 0xffffffff81001290 = Inr (Some t') \<and>
    idt_offset (t' ! 1) = 0xffffffff81001290 \<and> t' ! 0 = demo_entry"
  using set_idt_entry_roundtrip[of 1 "[demo_entry, demo_entry]" "0xffffffff81001290"] by fastforce

text \<open>The redirected table.\<close>

definition redirected :: "handlers \<Rightarrow> idt_entry list \<Rightarrow> idt_entry list" where
  "redirected h t = t[8 := set_entry_offset (t ! 8) (h_df h), 14 := set_entry_offset (t ! 14) (h_tf h),
     3 := set_entry_offset (t ! 3) (h_int3 h), 1 := set_entry_offset (t ! 1) (h_db h)]"

lemma redirect_ok: "length t = 256 \<Longrightarrow> redirect h (Some t) = Inr (Some (redirected h t))"
  by (simp add: redirect_def set_idt_entry_def redirected_def)

lemma load_all:
  "k \<le> length (mc_cpus m) \<Longrightarrow>
    foldl (\<lambda>m c. load_idt_on_cpu d c m) m [0..<k] = m\<lparr>mc_cpus := replicate k d @ drop k (mc_cpus m)\<rparr>"
proof (induction k)
  case (Suc k)
  have "(replicate k d @ drop k (mc_cpus m))[k := d] = replicate (Suc k) d @ drop (Suc k) (mc_cpus m)"
    using Suc.prems by (simp add: list_update_append Cons_nth_drop_Suc[symmetric] replicate_append_same[symmetric])
  then show ?case using Suc by (simp add: load_idt_on_cpu_def)
qed simp

lemma on_each_cpu_load:
  "on_each_cpu (load_idt_on_cpu d) m = m\<lparr>mc_cpus := replicate (length (mc_cpus m)) d\<rparr>"
  using load_all[of "length (mc_cpus m)" m d] by (simp add: on_each_cpu_def)

definition new_dtr :: "u64 \<Rightarrow> dtr" where
  "new_dtr base = \<lparr>dtr_limit = 4095, dtr_base = base\<rparr>"

lemma setup_result:
  assumes "mc_tables m (dtr_base (mc_cpus m ! cpu)) = Some t" and "length t = 256" and "k \<noteq> 0"
  shows "setup_df_interposition cpu k h m =
    Inr (m\<lparr>mc_tables := (mc_tables m)(k := Some (redirected h t)), mc_cpus := replicate (length (mc_cpus m)) (new_dtr k)\<rparr>)"
proof -
  have "of_nat (IDT_ENTRY_SIZE * 256 - 1) = (4095 :: u16)" by (simp add: IDT_ENTRY_SIZE_def)
  then show ?thesis
    using assms redirect_ok[of t h] by (simp add: setup_df_interposition_def duplicate_idt_def on_each_cpu_load new_dtr_def)
qed

text \<open>
  C30. \<open>setup_df_interposition\<close> with memory for the copy: every processor uses the new table, in
  which exactly the vectors 1, 3, 8 and 14 lead to the handlers of the module and all other entries
  are those of the table that was in use; that table itself is not changed. Without memory the NULL
  pointer is dereferenced.
\<close>

theorem setup_df_interposition_redirects:
  assumes "mc_tables m (dtr_base (mc_cpus m ! cpu)) = Some t" and "length t = 256" and "k \<noteq> 0"
    and "mc_tables m k = None"
  shows "setup_df_interposition cpu 0 h m = Inl Null_deref \<and>
   (\<exists>m' t'. setup_df_interposition cpu k h m = Inr m' \<and> mc_tables m' k = Some t' \<and>
    (\<forall>c < length (mc_cpus m). mc_cpus m' ! c = new_dtr k) \<and>
    idt_offset (t' ! 1) = h_db h \<and> idt_offset (t' ! 3) = h_int3 h \<and> idt_offset (t' ! 8) = h_df h \<and>
    idt_offset (t' ! 14) = h_tf h \<and> (\<forall>i. i \<notin> {1, 3, 8, 14} \<longrightarrow> t' ! i = t ! i) \<and>
    mc_tables m' (dtr_base (mc_cpus m ! cpu)) = Some t)"
proof -
  have "dtr_base (mc_cpus m ! cpu) \<noteq> k" using assms(1,4) by auto
  then show ?thesis
    using setup_result[OF assms(1-3), of h] assms(1,2)
    by (simp add: redirected_def nth_list_update idt_offset_set)
      (simp add: setup_df_interposition_def duplicate_idt_def redirect_def set_idt_entry_def)
qed

definition demo_machine :: machine where
  "demo_machine = \<lparr>mc_cpus = [\<lparr>dtr_limit = 4095, dtr_base = 0x1000\<rparr>, \<lparr>dtr_limit = 4095, dtr_base = 0x1000\<rparr>],
     mc_tables = (\<lambda>_. None)(0x1000 \<mapsto> replicate 256 demo_entry), mc_old_idtr = \<lparr>dtr_limit = 0, dtr_base = 0\<rparr>\<rparr>"

definition demo_handlers :: handlers where
  "demo_handlers = \<lparr>h_df = 0xa0, h_tf = 0xb0, h_int3 = 0xc0, h_db = 0xd0\<rparr>"

theorem setup_df_interposition_redirects_witness:
  "\<exists>m' t'. setup_df_interposition 0 0x2000 demo_handlers demo_machine = Inr m' \<and> mc_tables m' 0x2000 = Some t' \<and>
    idt_offset (t' ! 14) = 0xb0"
proof -
  have "mc_tables demo_machine (dtr_base (mc_cpus demo_machine ! 0)) = Some (replicate 256 demo_entry)"
    "mc_tables demo_machine 0x2000 = None" by (simp_all add: demo_machine_def)
  then show ?thesis
    using setup_df_interposition_redirects[of demo_machine 0 "replicate 256 demo_entry" "0x2000" demo_handlers]
    by (auto simp: demo_handlers_def)
qed

text \<open>
  Removing the module does not undo the interposition: after \<open>greeter_init\<close>,
  \<open>setup_df_interposition\<close> and \<open>greeter_exit\<close> only the processor that runs the exit has its old
  register again; every other one still uses the table that leads into the removed module.
\<close>

theorem greeter_exit_leaves_other_cpus:
  assumes "mc_tables m (dtr_base (mc_cpus m ! cpu)) = Some t" and "length t = 256" and "k \<noteq> 0"
    and "init_cpu < length (mc_cpus m)" and "exit_cpu < length (mc_cpus m)"
  shows "\<exists>m'. rbind (setup_df_interposition cpu k h (greeter_init init_cpu m)) (\<lambda>m. Inr (greeter_exit exit_cpu m)) = Inr m' \<and>
    mc_cpus m' ! exit_cpu = mc_cpus m ! init_cpu \<and>
    (\<forall>c < length (mc_cpus m). c \<noteq> exit_cpu \<longrightarrow> mc_cpus m' ! c = new_dtr k)"
proof -
  let ?m = "greeter_init init_cpu m"
  have "mc_tables ?m (dtr_base (mc_cpus ?m ! cpu)) = Some t" using assms(1) by (simp add: greeter_init_def)
  from setup_result[OF this assms(2,3), of h] show ?thesis
    using assms(4,5) by (simp add: greeter_exit_def load_idt_on_cpu_def greeter_init_def)
qed

theorem greeter_exit_leaves_other_cpus_witness:
  "\<exists>m'. rbind (setup_df_interposition 0 0x2000 demo_handlers (greeter_init 0 demo_machine)) (\<lambda>m. Inr (greeter_exit 0 m)) = Inr m' \<and>
    mc_cpus m' ! 0 = \<lparr>dtr_limit = 4095, dtr_base = 0x1000\<rparr> \<and> mc_cpus m' ! 1 = new_dtr 0x2000"
proof -
  have "mc_tables demo_machine (dtr_base (mc_cpus demo_machine ! 0)) = Some (replicate 256 demo_entry)"
    "length (mc_cpus demo_machine) = 2" "mc_cpus demo_machine ! 0 = \<lparr>dtr_limit = 4095, dtr_base = 0x1000\<rparr>"
    by (simp_all add: demo_machine_def)
  then show ?thesis
    using greeter_exit_leaves_other_cpus[of demo_machine 0 "replicate 256 demo_entry" "0x2000" 0 0 demo_handlers] by auto
qed

end
