(* ===== verification/Idt_Handlers.thy ===== *)
theory Idt_Handlers
  imports Prelude
begin

text \<open>
  The handlers of \<open>idtr_interposer\<close>: the assembly around them (\<open>kmod/common.h\<close>) and the C functions
  they call (\<open>kmod/interpos.c\<close>).

  The processor has its general registers, the instruction pointer and the stack as a list with the
  top first. A C function receives the saved registers (\<open>struct pt_regs\<close>), which are the top of that
  stack, and may leave anything in the registers themselves.
\<close>

section \<open>Processor\<close>

datatype reg = RDI | RSI | RDX | RCX | RAX | R8 | R9 | R10 | R11 | RBX | RBP | R12 | R13 | R14 | R15

record cpu =
  c_reg :: "reg \<Rightarrow> u64"
  c_stack :: "u64 list"
  c_rip :: u64
  c_cs :: u64
  c_flags :: u64
  c_rsp :: u64
  c_ss :: u64

definition push :: "u64 \<Rightarrow> cpu \<Rightarrow> cpu" where
  "push v c = c\<lparr>c_stack := v # c_stack c\<rparr>"

definition pop_reg :: "reg \<Rightarrow> cpu \<Rightarrow> cpu res" where
  "pop_reg r c = (case c_stack c of [] \<Rightarrow> Inl Out_of_bounds
     | v # vs \<Rightarrow> Inr (c\<lparr>c_reg := (c_reg c)(r := v), c_stack := vs\<rparr>))"

section \<open>Saved registers\<close>

record pt_regs =
  pt_r15 :: u64
  pt_r14 :: u64
  pt_r13 :: u64
  pt_r12 :: u64
  pt_bp :: u64
  pt_bx :: u64
  pt_r11 :: u64
  pt_r10 :: u64
  pt_r9 :: u64
  pt_r8 :: u64
  pt_ax :: u64
  pt_cx :: u64
  pt_dx :: u64
  pt_si :: u64
  pt_di :: u64
  pt_orig_ax :: u64
  pt_ip :: u64
  pt_cs :: u64
  pt_flags :: u64
  pt_sp :: u64
  pt_ss :: u64

text \<open>The words of the structure in memory, the lowest address first.\<close>

definition pt_words :: "pt_regs \<Rightarrow> u64 list" where
  "pt_words p = [pt_r15 p, pt_r14 p, pt_r13 p, pt_r12 p, pt_bp p, pt_bx p, pt_r11 p, pt_r10 p, pt_r9 p, pt_r8 p,
     pt_ax p, pt_cx p, pt_dx p, pt_si p, pt_di p, pt_orig_ax p, pt_ip p, pt_cs p, pt_flags p, pt_sp p, pt_ss p]"

definition pt_at :: "u64 list \<Rightarrow> pt_regs" where
  "pt_at s = \<lparr>pt_r15 = s ! 0, pt_r14 = s ! 1, pt_r13 = s ! 2, pt_r12 = s ! 3, pt_bp = s ! 4, pt_bx = s ! 5,
     pt_r11 = s ! 6, pt_r10 = s ! 7, pt_r9 = s ! 8, pt_r8 = s ! 9, pt_ax = s ! 10, pt_cx = s ! 11, pt_dx = s ! 12,
     pt_si = s ! 13, pt_di = s ! 14, pt_orig_ax = s ! 15, pt_ip = s ! 16, pt_cs = s ! 17, pt_flags = s ! 18,
     pt_sp = s ! 19, pt_ss = s ! 20\<rparr>"

section \<open>Assembly\<close>

definition push_order :: "reg list" where
  "push_order = [RDI, RSI, RDX, RCX, RAX, R8, R9, R10, R11, RBX, RBP, R12, R13, R14, R15]"

definition PUSH_REGS :: "cpu \<Rightarrow> cpu" where
  "PUSH_REGS c = foldl (\<lambda>c r. push (c_reg c r) c) c push_order"

definition pop_order :: "reg list" where
  "pop_order = [R15, R14, R13, R12, RBP, RBX, R11, R10, R9, R8, RAX, RCX, RDX, RSI, RDI]"

primrec pop_regs :: "reg list \<Rightarrow> cpu \<Rightarrow> cpu res" where
  "pop_regs [] c = Inr c"
| "pop_regs (r # rs) c = rbind (pop_reg r c) (pop_regs rs)"

definition POP_REGS :: "cpu \<Rightarrow> cpu res" where
  "POP_REGS c = pop_regs pop_order c"

text \<open>
  \<open>GET_PT_REG_PTR\<close> and \<open>CALL_TARG\<close>: the C function \<open>f\<close> works on the words at the top of the stack and
  on the state \<open>s\<close> outside; \<open>clob\<close> are the registers it leaves.
\<close>

definition CALL_TARG ::
  "('s \<Rightarrow> pt_regs \<Rightarrow> ('s \<times> pt_regs) res) \<Rightarrow> (reg \<Rightarrow> u64) \<Rightarrow> 's \<Rightarrow> cpu \<Rightarrow> ('s \<times> cpu) res" where
  "CALL_TARG f clob s c =
     (if length (c_stack c) < 21 then Inl Out_of_bounds
      else rbind (f s (pt_at (c_stack c))) (\<lambda>(s, p).
           Inr (s, c\<lparr>c_reg := clob, c_stack := pt_words p @ drop 21 (c_stack c)\<rparr>)))"

definition PG_FT_ADDR :: u64 where "PG_FT_ADDR = 0xffffffff81001290"

text \<open>
  \<open>RET_TO_PG_FT\<close>: the address of the page fault handler goes below the saved \<open>rax\<close> by three
  exclusive ors, then \<open>ret\<close> takes it from the stack.
\<close>

definition RET_TO_PG_FT :: "cpu \<Rightarrow> cpu res" where
  "RET_TO_PG_FT c =
     (let c = push (c_reg c RAX) c;
          c = c\<lparr>c_reg := (c_reg c)(RAX := PG_FT_ADDR)\<rparr>;
          c = c\<lparr>c_reg := (c_reg c)(RAX := c_reg c RAX XOR hd (c_stack c))\<rparr>;
          c = c\<lparr>c_stack := (hd (c_stack c) XOR c_reg c RAX) # tl (c_stack c)\<rparr>;
          c = c\<lparr>c_reg := (c_reg c)(RAX := c_reg c RAX XOR hd (c_stack c))\<rparr>
      in Inr (c\<lparr>c_rip := hd (c_stack c), c_stack := tl (c_stack c)\<rparr>))"

definition IRET :: "cpu \<Rightarrow> cpu res" where
  "IRET c = (case c_stack c of
     ip # cs # fl # sp # ss # rest \<Rightarrow>
       Inr (c\<lparr>c_rip := ip, c_cs := cs, c_flags := fl, c_rsp := sp, c_ss := ss, c_stack := rest\<rparr>)
   | _ \<Rightarrow> Inl Out_of_bounds)"

definition PUSH_FAKE_ERROR :: "cpu \<Rightarrow> cpu" where
  "PUSH_FAKE_ERROR c = push 0xbadbad c"

definition DROP_FAKE_ERROR :: "cpu \<Rightarrow> cpu res" where
  "DROP_FAKE_ERROR c = (case c_stack c of [] \<Rightarrow> Inl Out_of_bounds | _ # vs \<Rightarrow> Inr (c\<lparr>c_stack := vs\<rparr>))"

definition INTERPOSER_HANDLER ::
  "('s \<Rightarrow> pt_regs \<Rightarrow> ('s \<times> pt_regs) res) \<Rightarrow> (reg \<Rightarrow> u64) \<Rightarrow> 's \<Rightarrow> cpu \<Rightarrow> ('s \<times> cpu) res" where
  "INTERPOSER_HANDLER f clob s c =
     rbind (CALL_TARG f clob s (PUSH_REGS c)) (\<lambda>(s, c).
     rbind (POP_REGS c) (\<lambda>c.
     rbind (RET_TO_PG_FT c) (\<lambda>c. Inr (s, c))))"

definition TRAP_HANDLER ::
  "('s \<Rightarrow> pt_regs \<Rightarrow> ('s \<times> pt_regs) res) \<Rightarrow> (reg \<Rightarrow> u64) \<Rightarrow> 's \<Rightarrow> cpu \<Rightarrow> ('s \<times> cpu) res" where
  "TRAP_HANDLER f clob s c =
     rbind (CALL_TARG f clob s (PUSH_REGS (PUSH_FAKE_ERROR c))) (\<lambda>(s, c).
     rbind (POP_REGS c) (\<lambda>c.
     rbind (DROP_FAKE_ERROR c) (\<lambda>c.
     rbind (IRET c) (\<lambda>c. Inr (s, c)))))"

section \<open>The C functions\<close>

definition WR_FT :: u64 where "WR_FT = push_bit 1 1"
definition USER_FT :: u64 where "USER_FT = push_bit 2 1"

definition df_c_entry :: "pt_regs \<Rightarrow> pt_regs" where
  "df_c_entry p = p\<lparr>pt_orig_ax := USER_FT OR WR_FT\<rparr>"

definition tf_c_entry :: "pt_regs \<Rightarrow> pt_regs" where
  "tf_c_entry p = p\<lparr>pt_orig_ax := pt_orig_ax p OR USER_FT\<rparr>"

text \<open>
  \<open>bp_c_entry\<close> on the bytes of memory. The loop \<open>while (*ucp != 0xcc);\<close> changes nothing, so it does
  not end once its condition holds.
\<close>

definition bp_c_entry :: "(u64 \<Rightarrow> u8) \<Rightarrow> pt_regs \<Rightarrow> ((u64 \<Rightarrow> u8) \<times> pt_regs) res" where
  "bp_c_entry mem p =
     (let p = p\<lparr>pt_ip := pt_ip p - 1\<rparr>; ucp = pt_ip p
      in if mem ucp \<noteq> 0xcc then Inl Out_of_fuel
         else Inr (mem(ucp := 0xf), p))"

text \<open>The bit fields of the debug registers, lowest first, as the compiler lays them out; a field without a name is the empty string.\<close>

definition DR6_layout :: "(string \<times> nat) list" where
  "DR6_layout = [(''B0'', 1), (''B1'', 1), (''B2'', 1), (''B3'', 1), (''Res'', 9), (''BD'', 1), (''BS'', 1), (''BT'', 1)]"

definition DR7_layout :: "(string \<times> nat) list" where
  "DR7_layout = [(''L0'', 1), (''G0'', 1), (''L1'', 1), (''G1'', 1), (''L2'', 1), (''G2'', 1), (''L3'', 1), (''G3'', 1), (''LE'', 1), (''GE'', 1), ([], 3),
     (''GD'', 1), ([], 2), (''RW0'', 2), (''LEN0'', 2), (''RW1'', 2), (''LEN1'', 2), (''RW2'', 2), (''LEN2'', 2), (''RW3'', 2), (''LEN3'', 2), ([], 32)]"

fun field_at :: "nat \<Rightarrow> (string \<times> nat) list \<Rightarrow> string \<Rightarrow> (nat \<times> nat) option" where
  "field_at k [] f = None"
| "field_at k ((g, n) # fs) f = (if g = f then Some (k, n) else field_at (k + n) fs f)"

text \<open>
  The debug registers. \<open>DR6\<close> has \<open>B0\<close> to \<open>B3\<close> in bits 0 to 3; in \<open>DR7\<close> bits \<open>2i\<close> and \<open>2i+1\<close> are
  \<open>Li\<close> and \<open>Gi\<close>, and \<open>RWi\<close> are the bits \<open>16+4i\<close> and \<open>17+4i\<close>.
\<close>

definition db_hit :: "u64 \<Rightarrow> nat \<Rightarrow> nat \<Rightarrow> u64 \<times> u64 \<Rightarrow> u64 \<times> u64" where
  "db_hit dr6 i en st = (case st of (dr_hit, dr7) \<Rightarrow>
     if bit dr6 i \<and> bit dr7 en
     then (of_nat i, unset_bit (17 + 4 * i) (unset_bit (16 + 4 * i) (unset_bit en dr7)))
     else (dr_hit, dr7))"

definition db_disarm :: "u64 \<Rightarrow> u64 \<Rightarrow> u64 \<times> u64" where
  "db_disarm dr6 dr7 =
     (let st = (9, dr7);
          st = db_hit dr6 0 1 st;
          st = db_hit dr6 1 3 st;
          st = db_hit dr6 2 5 st;
          st = db_hit dr6 3 7 st;
          st = db_hit dr6 0 0 st;
          st = db_hit dr6 1 2 st;
          st = db_hit dr6 2 4 st;
          st = db_hit dr6 3 6 st
      in st)"

definition PAGE_SIZE :: u64 where "PAGE_SIZE = 4096"

definition scratchpad_ptr :: "u64 \<Rightarrow> u64" where
  "scratchpad_ptr hdl_pg = hdl_pg - hdl_pg mod PAGE_SIZE + (PAGE_SIZE - 8)"

record rs_struct =
  rs_pt :: pt_regs
  rs_dr_hit :: u64
  rs_dr7 :: u64
  rs_cr3 :: u64

record scratchpad =
  sp_get :: rs_struct
  sp_set :: rs_struct
  sp_control :: rs_struct
  sp_debug :: u8
  sp_cnt :: u8
  sp_read_addr_msg :: u8
  sp_addr_msg :: "u8 list"

text \<open>The state the debug handler works on: registers, memory and the scratchpads by address.\<close>

record dbg =
  d_dr6 :: u64
  d_dr7 :: u64
  d_cr3 :: u64
  d_pc :: u64
  d_mem :: "u64 \<Rightarrow> u8"
  d_ptr :: "u64 \<Rightarrow> u64"
  d_pads :: "u64 \<Rightarrow> scratchpad option"

definition fill_pad :: "dbg \<Rightarrow> pt_regs \<Rightarrow> u64 \<Rightarrow> u64 \<Rightarrow> scratchpad \<Rightarrow> scratchpad" where
  "fill_pad d p dr_hit dr7 sp =
     (let sp = sp\<lparr>sp_get := \<lparr>rs_pt = p, rs_dr_hit = dr_hit, rs_dr7 = dr7, rs_cr3 = d_cr3 d\<rparr>\<rparr>;
          sp = (if sp_debug sp = 1 then sp\<lparr>sp_cnt := sp_cnt sp + 1\<rparr> else sp)
      in if sp_read_addr_msg sp \<noteq> 0
         then sp\<lparr>sp_addr_msg := map (\<lambda>i. d_mem d (pt_si p + of_nat i)) [0..<96]\<rparr> else sp)"

definition db_c_entry :: "dbg \<Rightarrow> pt_regs \<Rightarrow> (dbg \<times> pt_regs) res" where
  "db_c_entry d p =
     (let (dr_hit, dr7) = db_disarm (d_dr6 d) (d_dr7 d);
          a = d_ptr d (scratchpad_ptr (d_pc d))
      in case d_pads d a of
           None \<Rightarrow> Inl Null_deref
         | Some sp \<Rightarrow> Inr (d\<lparr>d_pads := (d_pads d)(a \<mapsto> fill_pad d p dr_hit dr7 sp), d_dr7 := dr7\<rparr>, p))"

section \<open>Transparency of the handlers\<close>

lemma PUSH_REGS_stack:
  "PUSH_REGS c = c\<lparr>c_stack := map (c_reg c) pop_order @ c_stack c\<rparr>"
  by (simp add: PUSH_REGS_def push_order_def pop_order_def push_def)

lemma pop_regs_map:
  "distinct rs \<Longrightarrow> pop_regs rs (c\<lparr>c_stack := map f rs @ s\<rparr>) =
    Inr (c\<lparr>c_stack := s, c_reg := \<lambda>r. if r \<in> set rs then f r else c_reg c r\<rparr>)"
proof (induction rs arbitrary: c)
  case (Cons r rs)
  have "pop_regs (r # rs) (c\<lparr>c_stack := map f (r # rs) @ s\<rparr>) =
      pop_regs rs ((c\<lparr>c_reg := (c_reg c)(r := f r)\<rparr>)\<lparr>c_stack := map f rs @ s\<rparr>)"
    by (simp add: pop_reg_def)
  also have "\<dots> = Inr (c\<lparr>c_stack := s, c_reg := \<lambda>q. if q \<in> set (r # rs) then f q else c_reg c q\<rparr>)"
    using Cons by (simp add: fun_eq_iff)
  finally show ?case .
qed simp

lemma all_regs: "r \<in> set pop_order"
  by (cases r) (simp_all add: pop_order_def)

lemma POP_REGS_all: "POP_REGS (c\<lparr>c_stack := map f pop_order @ s\<rparr>) = Inr (c\<lparr>c_stack := s, c_reg := f\<rparr>)"
proof -
  have "distinct pop_order" by (simp add: pop_order_def)
  then show ?thesis using all_regs by (simp add: POP_REGS_def pop_regs_map)
qed

lemma RET_TO_PG_FT_result: "RET_TO_PG_FT c = Inr (c\<lparr>c_rip := PG_FT_ADDR\<rparr>)"
proof -
  have x: "a XOR (PG_FT_ADDR XOR a) = PG_FT_ADDR" "(PG_FT_ADDR XOR a) XOR PG_FT_ADDR = a" for a :: u64
    by (simp_all add: xor.left_commute xor.commute[of _ PG_FT_ADDR])
  show ?thesis
    by (simp add: RET_TO_PG_FT_def push_def Let_def x)
qed

text \<open>The saved registers of a processor, with the frame that is below them on the stack.\<close>

definition saved :: "(reg \<Rightarrow> u64) \<Rightarrow> u64 \<Rightarrow> u64 \<Rightarrow> u64 \<Rightarrow> u64 \<Rightarrow> u64 \<Rightarrow> u64 \<Rightarrow> pt_regs" where
  "saved r err ip cs fl sp ss = pt_at (map r pop_order @ [err, ip, cs, fl, sp, ss])"

lemma pt_at_saved: "pt_at (map r pop_order @ err # ip # cs # fl # sp # ss # rest) = saved r err ip cs fl sp ss"
  by (simp add: saved_def pt_at_def pop_order_def)

lemma pt_words_saved: "pt_words (saved r err ip cs fl sp ss) = map r pop_order @ [err, ip, cs, fl, sp, ss]"
  by (simp add: saved_def pt_at_def pt_words_def pop_order_def)

lemma saved_update [simp]:
  "(saved r err ip cs fl sp ss)\<lparr>pt_orig_ax := e\<rparr> = saved r e ip cs fl sp ss"
  "(saved r err ip cs fl sp ss)\<lparr>pt_ip := i\<rparr> = saved r err i cs fl sp ss"
  "pt_orig_ax (saved r err ip cs fl sp ss) = err" "pt_ip (saved r err ip cs fl sp ss) = ip"
  "pt_si (saved r err ip cs fl sp ss) = r RSI"
  by (simp_all add: saved_def pt_at_def pop_order_def)

lemma length_pop_order [simp]: "length pop_order = 15"
  by (simp add: pop_order_def)

lemma CALL_TARG_saved:
  assumes "f s (saved r err ip cs fl sp ss) = Inr (s', saved r err' ip' cs fl sp ss)"
  shows "CALL_TARG f clob s (c\<lparr>c_stack := map r pop_order @ err # ip # cs # fl # sp # ss # rest\<rparr>) =
    Inr (s', c\<lparr>c_reg := clob, c_stack := map r pop_order @ err' # ip' # cs # fl # sp # ss # rest\<rparr>)"
  using assms by (simp add: CALL_TARG_def pt_at_saved pt_words_saved)

lemma INTERPOSER_HANDLER_saved:
  assumes "c_stack c = err # ip # cs # fl # sp # ss # rest"
    and "f s (saved (c_reg c) err ip cs fl sp ss) = Inr (s', saved (c_reg c) err' ip' cs fl sp ss)"
  shows "INTERPOSER_HANDLER f clob s c =
    Inr (s', c\<lparr>c_stack := err' # ip' # cs # fl # sp # ss # rest, c_rip := PG_FT_ADDR\<rparr>)"
  using POP_REGS_all[where c="c\<lparr>c_reg := clob\<rparr>" and f="c_reg c" and s="err' # ip' # cs # fl # sp # ss # rest"]
  by (simp add: INTERPOSER_HANDLER_def PUSH_REGS_stack assms(1) CALL_TARG_saved[where f=f and s=s, OF assms(2)] RET_TO_PG_FT_result)

lemma TRAP_HANDLER_saved:
  assumes "c_stack c = ip # cs # fl # sp # ss # rest"
    and "f s (saved (c_reg c) 0xbadbad ip cs fl sp ss) = Inr (s', saved (c_reg c) 0xbadbad ip' cs fl sp ss)"
  shows "TRAP_HANDLER f clob s c =
    Inr (s', c\<lparr>c_stack := rest, c_rip := ip', c_cs := cs, c_flags := fl, c_rsp := sp, c_ss := ss\<rparr>)"
  using POP_REGS_all[where c="c\<lparr>c_reg := clob\<rparr>" and f="c_reg c" and s="0xbadbad # ip' # cs # fl # sp # ss # rest"]
  by (simp add: TRAP_HANDLER_def PUSH_REGS_stack PUSH_FAKE_ERROR_def push_def assms(1)
      CALL_TARG_saved[where f=f and s=s, OF assms(2)] DROP_FAKE_ERROR_def IRET_def)

text \<open>
  C8. The interposed double fault and page fault handlers are transparent: whatever the C function
  leaves in the registers, control reaches the kernel's page fault handler with every register as it
  was and the hardware frame in place; only the error code is changed, to a user write fault for a
  double fault and by the user bit for a page fault.
\<close>

theorem interposer_transparent:
  assumes "c_stack c = err # ip # cs # fl # sp # ss # rest"
  shows "INTERPOSER_HANDLER (\<lambda>s p. Inr (s, df_c_entry p)) clob s c =
      Inr (s, c\<lparr>c_stack := 6 # ip # cs # fl # sp # ss # rest, c_rip := 0xffffffff81001290\<rparr>) \<and>
    INTERPOSER_HANDLER (\<lambda>s p. Inr (s, tf_c_entry p)) clob s c =
      Inr (s, c\<lparr>c_stack := (err OR 4) # ip # cs # fl # sp # ss # rest, c_rip := 0xffffffff81001290\<rparr>)"
proof
  have u: "USER_FT = 4" "WR_FT = 2" by (simp_all add: USER_FT_def WR_FT_def)
  show "INTERPOSER_HANDLER (\<lambda>s p. Inr (s, df_c_entry p)) clob s c =
      Inr (s, c\<lparr>c_stack := 6 # ip # cs # fl # sp # ss # rest, c_rip := 0xffffffff81001290\<rparr>)"
    using INTERPOSER_HANDLER_saved[OF assms, of "\<lambda>s p. Inr (s, df_c_entry p)" s s 6 ip clob]
    by (simp add: df_c_entry_def u PG_FT_ADDR_def)
  show "INTERPOSER_HANDLER (\<lambda>s p. Inr (s, tf_c_entry p)) clob s c =
      Inr (s, c\<lparr>c_stack := (err OR 4) # ip # cs # fl # sp # ss # rest, c_rip := 0xffffffff81001290\<rparr>)"
    using INTERPOSER_HANDLER_saved[OF assms, of "\<lambda>s p. Inr (s, tf_c_entry p)" s s "err OR 4" ip clob]
    by (simp add: tf_c_entry_def u PG_FT_ADDR_def)
qed

definition demo_cpu :: cpu where
  "demo_cpu = \<lparr>c_reg = (\<lambda>r. if r = RAX then 7 else 1), c_stack = [0x10, 0x400, 0x33, 0x202, 0x7ff0, 0x2b], c_rip = 0,
     c_cs = 0, c_flags = 0, c_rsp = 0, c_ss = 0\<rparr>"

theorem interposer_transparent_witness:
  "INTERPOSER_HANDLER (\<lambda>s p. Inr (s, tf_c_entry p)) (\<lambda>_. 0) () demo_cpu =
    Inr ((), demo_cpu\<lparr>c_stack := [0x14, 0x400, 0x33, 0x202, 0x7ff0, 0x2b], c_rip := 0xffffffff81001290\<rparr>)"
  using interposer_transparent[of demo_cpu "0x10" "0x400" "0x33" "0x202" "0x7ff0" "0x2b" "[]" "\<lambda>_. 0" "()"]
  by (simp add: demo_cpu_def)

text \<open>
  The breakpoint handler puts the original byte of the instruction back and returns to it: with
  the breakpoint byte before the saved instruction pointer, execution resumes at that byte, with all
  registers as they were; with another byte there the handler never returns.
\<close>

theorem int3_handler_resumes:
  assumes "c_stack c = ip # cs # fl # sp # ss # rest"
  shows "TRAP_HANDLER bp_c_entry clob mem c =
    (if mem (ip - 1) = 0xcc
     then Inr (mem(ip - 1 := 0xf), c\<lparr>c_stack := rest, c_rip := ip - 1, c_cs := cs, c_flags := fl, c_rsp := sp, c_ss := ss\<rparr>)
     else Inl Out_of_fuel)"
proof (cases "mem (ip - 1) = 0xcc")
  case True
  then show ?thesis
    using TRAP_HANDLER_saved[OF assms, of bp_c_entry mem "mem(ip - 1 := 0xf)" "ip - 1" clob]
    by (simp add: bp_c_entry_def Let_def)
next
  case False
  then show ?thesis
    by (simp add: TRAP_HANDLER_def PUSH_REGS_stack PUSH_FAKE_ERROR_def push_def assms CALL_TARG_def pt_at_saved
        bp_c_entry_def Let_def)
qed

theorem int3_handler_resumes_witness:
  "TRAP_HANDLER bp_c_entry (\<lambda>_. 0) (\<lambda>_. 0xcc) (demo_cpu\<lparr>c_stack := [0x401, 0x33, 0x202, 0x7ff0, 0x2b]\<rparr>) =
    Inr ((\<lambda>_. 0xcc)(0x400 := 0xf), demo_cpu\<lparr>c_stack := [], c_rip := 0x400, c_cs := 0x33, c_flags := 0x202,
      c_rsp := 0x7ff0, c_ss := 0x2b\<rparr>)"
  using int3_handler_resumes[of "demo_cpu\<lparr>c_stack := [0x401, 0x33, 0x202, 0x7ff0, 0x2b]\<rparr>" "0x401" "0x33" "0x202" "0x7ff0"
      "0x2b" "[]" "\<lambda>_. 0" "\<lambda>_. 0xcc"]
  by simp

section \<open>Debug registers\<close>

text \<open>The tests in their order: the global enables, then the local ones.\<close>

definition db_tests :: "(nat \<times> nat) list" where
  "db_tests = [(0, 1), (1, 3), (2, 5), (3, 7), (0, 0), (1, 2), (2, 4), (3, 6)]"

text \<open>The bits that the tests name are those of the layouts, which fill a word of 64 bits at most.\<close>

lemma DR_layouts:
  "map (field_at 0 DR6_layout) [''B0'', ''B1'', ''B2'', ''B3''] = [Some (0, 1), Some (1, 1), Some (2, 1), Some (3, 1)]"
  "map (field_at 0 DR7_layout) [''L0'', ''L1'', ''L2'', ''L3''] = [Some (0, 1), Some (2, 1), Some (4, 1), Some (6, 1)]"
  "map (field_at 0 DR7_layout) [''G0'', ''G1'', ''G2'', ''G3''] = [Some (1, 1), Some (3, 1), Some (5, 1), Some (7, 1)]"
  "map (field_at 0 DR7_layout) [''RW0'', ''RW1'', ''RW2'', ''RW3''] = [Some (16, 2), Some (20, 2), Some (24, 2), Some (28, 2)]"
  "sum_list (map snd DR6_layout) \<le> 64" "sum_list (map snd DR7_layout) = 64"
  by (simp_all add: DR6_layout_def DR7_layout_def)

lemma db_disarm_fold: "db_disarm dr6 dr7 = foldl (\<lambda>st (i, en). db_hit dr6 i en st) (9, dr7) db_tests"
  by (simp add: db_disarm_def db_tests_def Let_def)

definition db_match :: "u64 \<Rightarrow> u64 \<Rightarrow> nat \<times> nat \<Rightarrow> bool" where
  "db_match dr6 dr7 t = (case t of (i, en) \<Rightarrow> bit dr6 i \<and> bit dr7 en)"

definition db_bits :: "nat \<times> nat \<Rightarrow> nat set" where
  "db_bits t = (case t of (i, en) \<Rightarrow> {en, 16 + 4 * i, 17 + 4 * i})"

lemma db_hit_bits:
  "bit (snd (db_hit dr6 i en (h, d))) n \<longleftrightarrow> bit d n \<and> \<not> (db_match dr6 d (i, en) \<and> n \<in> db_bits (i, en))"
  by (auto simp: db_hit_def db_match_def db_bits_def bit_unset_bit_iff)

lemma db_hit_fst: "fst (db_hit dr6 i en (h, d)) = (if db_match dr6 d (i, en) then of_nat i else h)"
  by (simp add: db_hit_def db_match_def)

text \<open>A test clears no enable bit that a later one looks at.\<close>

lemma db_match_later:
  assumes "\<forall>t' \<in> set (t # ts). snd t' < 8" and "snd t \<notin> snd ` set ts" and "t' \<in> set ts"
    and "\<And>n. bit d' n \<longleftrightarrow> bit d n \<and> \<not> (db_match dr6 d t \<and> n \<in> db_bits t)"
  shows "db_match dr6 d' t' = db_match dr6 d t'"
proof -
  obtain i en j fn where t: "t = (i, en)" "t' = (j, fn)" by (cases t, cases t')
  have "fn \<notin> db_bits t" using assms(1-3) t by (force simp: db_bits_def)
  then show ?thesis using assms(4)[of fn] t by (simp add: db_match_def)
qed

lemma db_fold:
  assumes "\<forall>t \<in> set ts. snd t < 8" and "distinct (map snd ts)"
  shows "(\<forall>n. bit (snd (foldl (\<lambda>st (i, en). db_hit dr6 i en st) (h, d) ts)) n \<longleftrightarrow>
      bit d n \<and> \<not> (\<exists>t \<in> set ts. db_match dr6 d t \<and> n \<in> db_bits t)) \<and>
    fst (foldl (\<lambda>st (i, en). db_hit dr6 i en st) (h, d) ts) =
      (if filter (db_match dr6 d) ts = [] then h else of_nat (fst (last (filter (db_match dr6 d) ts))))"
  using assms
proof (induction ts arbitrary: h d)
  case (Cons t ts)
  obtain i en where t: "t = (i, en)" by (cases t)
  obtain h' d' where s: "db_hit dr6 i en (h, d) = (h', d')" by (cases "db_hit dr6 i en (h, d)")
  have d': "bit d' n \<longleftrightarrow> bit d n \<and> \<not> (db_match dr6 d t \<and> n \<in> db_bits t)" for n
    using db_hit_bits[of dr6 i en h d n] s t by simp
  have h': "h' = (if db_match dr6 d t then of_nat i else h)" using db_hit_fst[of dr6 i en h d] s t by simp
  have later: "db_match dr6 d' t' = db_match dr6 d t'" if "t' \<in> set ts" for t'
    using Cons.prems that d' by (intro db_match_later[of t ts]) auto
  then have fl: "filter (db_match dr6 d') ts = filter (db_match dr6 d) ts" by (simp cong: filter_cong)
  have ex: "(\<exists>t' \<in> set ts. db_match dr6 d' t' \<and> n \<in> db_bits t') \<longleftrightarrow> (\<exists>t' \<in> set ts. db_match dr6 d t' \<and> n \<in> db_bits t')" for n
    using later by blast
  note ih = Cons.IH[of h' d', unfolded ex fl]
  have step: "foldl (\<lambda>st (i, en). db_hit dr6 i en st) (h, d) (t # ts) = foldl (\<lambda>st (i, en). db_hit dr6 i en st) (h', d') ts"
    using s t by simp
  have "\<forall>t \<in> set ts. snd t < 8" "distinct (map snd ts)" using Cons.prems by simp_all
  with ih show ?case unfolding step using d' h' t by auto
qed simp

lemma db_tests_mem: "t \<in> set db_tests \<longleftrightarrow> (\<exists>i < 4. t = (i, 2 * i) \<or> t = (i, 2 * i + 1))"
proof -
  have ex4: "(\<exists>i < 4. P i) \<longleftrightarrow> P 0 \<or> P 1 \<or> P 2 \<or> P (3::nat)" for P
    by (simp add: numeral_eq_Suc less_Suc_eq) blast
  show ?thesis unfolding ex4 by (simp add: db_tests_def) blast
qed

lemma db_tests_cleared:
  assumes "bit dr7 n"
  shows "(\<exists>t \<in> set db_tests. db_match dr6 dr7 t \<and> n \<in> db_bits t) \<longleftrightarrow>
      (\<exists>i. (i < 4 \<and> bit dr6 i \<and> (bit dr7 (2 * i) \<or> bit dr7 (2 * i + 1))) \<and> n \<in> {2 * i, 2 * i + 1, 16 + 4 * i, 17 + 4 * i})"
    (is "?L \<longleftrightarrow> ?R")
proof
  assume ?L
  then obtain t where t: "t \<in> set db_tests" "db_match dr6 dr7 t" "n \<in> db_bits t" by blast
  then obtain i en where "t = (i, en)" "i < 4" "en = 2 * i \<or> en = 2 * i + 1" using db_tests_mem[of t] by blast
  then have "i < 4" "en = 2 * i \<or> en = 2 * i + 1" "bit dr6 i" "bit dr7 en" "n \<in> {en, 16 + 4 * i, 17 + 4 * i}"
    using t(2,3) by (simp_all add: db_match_def db_bits_def)
  then show ?R by (intro exI[of _ i]) auto
next
  assume ?R
  then obtain i where i: "i < 4" "bit dr6 i" "bit dr7 (2 * i) \<or> bit dr7 (2 * i + 1)" "n \<in> {2 * i, 2 * i + 1, 16 + 4 * i, 17 + 4 * i}"
    by blast
  have m: "(i, 2 * i) \<in> set db_tests" "(i, 2 * i + 1) \<in> set db_tests" using i(1) by (auto simp: db_tests_mem)
  have "db_match dr6 dr7 (i, 2 * i) \<and> n \<in> db_bits (i, 2 * i) \<or> db_match dr6 dr7 (i, 2 * i + 1) \<and> n \<in> db_bits (i, 2 * i + 1)"
    using i assms by (auto simp: db_match_def db_bits_def)
  then show ?L using m by blast
qed

text \<open>
  The debug handler disarms exactly the breakpoints that fired: of \<open>DR7\<close> the two enable bits and
  the access bits of each breakpoint that is reported in \<open>DR6\<close> and enabled are cleared, and no other
  bit; \<open>dr_hit\<close> is 9 exactly when there is none, and otherwise names one that fired.
\<close>

theorem db_disarm_exact:
  "(let (hit, dr7') = db_disarm dr6 dr7;
        fired = (\<lambda>i. i < 4 \<and> bit dr6 i \<and> (bit dr7 (2 * i) \<or> bit dr7 (2 * i + 1)))
    in (\<forall>n. bit dr7' n \<longleftrightarrow> bit dr7 n \<and> \<not> (\<exists>i. fired i \<and> n \<in> {2 * i, 2 * i + 1, 16 + 4 * i, 17 + 4 * i})) \<and>
       (if \<exists>i. fired i then \<exists>i. fired i \<and> hit = of_nat i else hit = 9))"
proof -
  have ts: "\<forall>t \<in> set db_tests. snd t < 8" "distinct (map snd db_tests)" by (simp_all add: db_tests_def)
  obtain hit dr7' where r: "db_disarm dr6 dr7 = (hit, dr7')" by (cases "db_disarm dr6 dr7")
  have b: "bit dr7' n \<longleftrightarrow> bit dr7 n \<and> \<not> (\<exists>t \<in> set db_tests. db_match dr6 dr7 t \<and> n \<in> db_bits t)" for n
    using db_fold[OF ts, of dr6 9 dr7, folded db_disarm_fold] r by simp
  let ?ms = "filter (db_match dr6 dr7) db_tests"
  have h: "hit = (if ?ms = [] then 9 else of_nat (fst (last ?ms)))"
    using db_fold[OF ts, of dr6 9 dr7, folded db_disarm_fold] r by simp
  let ?fired = "\<lambda>i. i < 4 \<and> bit dr6 i \<and> (bit dr7 (2 * i) \<or> bit dr7 (2 * i + 1))"
  have bits: "bit dr7' n \<longleftrightarrow> bit dr7 n \<and> \<not> (\<exists>i. ?fired i \<and> n \<in> {2 * i, 2 * i + 1, 16 + 4 * i, 17 + 4 * i})" for n
    using b[of n] db_tests_cleared[of dr7 n dr6] by blast
  have ms: "(\<exists>t. t \<in> set ?ms \<and> fst t = i) \<longleftrightarrow> ?fired i" for i by (auto simp: db_tests_mem db_match_def)
  have "if \<exists>i. ?fired i then \<exists>i. ?fired i \<and> hit = of_nat i else hit = 9"
  proof (cases "?ms = []")
    case True
    then have "\<not> ?fired i" for i using ms[of i] by auto
    then have "\<not> (\<exists>i. ?fired i)" by blast
    moreover have "hit = 9" using h True by simp
    ultimately show ?thesis by (simp only: if_False)
  next
    case False
    then have "?fired (fst (last ?ms))" using ms[of "fst (last ?ms)"] last_in_set[OF False] by blast
    then show ?thesis using h False by auto
  qed
  then show ?thesis unfolding r Let_def prod.case by (intro conjI allI bits)
qed

text \<open>
  The pointer that the debug handler follows lies in the last eight bytes of the page its own
  code is in, aligned to eight, without any wrap-around of the address.
\<close>

theorem scratchpad_ptr_in_page:
  "unat (scratchpad_ptr a) = unat a div 4096 * 4096 + 4088"
proof -
  have m: "unat (a mod PAGE_SIZE) = unat a mod 4096" by (simp add: PAGE_SIZE_def unat_mod)
  have le: "a mod PAGE_SIZE \<le> a" using m by (simp add: word_le_nat_alt)
  have d: "unat (a - a mod PAGE_SIZE) = unat a div 4096 * 4096"
    unfolding unat_sub[OF le] m by (rule minus_mod_eq_div_mult)
  have "unat a < 2 ^ 64" by (rule unat_bound64)
  then have "unat a div 4096 < 2 ^ 52" by (simp add: less_mult_imp_div_less)
  then have "unat a div 4096 * 4096 + 4088 < 2 ^ 64" by simp
  moreover have "unat (PAGE_SIZE - 8) = 4088" by (simp add: PAGE_SIZE_def)
  ultimately show ?thesis using d by (simp add: scratchpad_ptr_def unat_add_lem[THEN iffD1])
qed

end
