(* ===== verification/Privilege.thy ===== *)
theory Privilege
  imports Prelude
begin

text \<open>
  Programs that raise and lower their own privilege, as seen from outside: a trace of calls and a rule
  that says which call is allowed at which privilege and what the privilege is afterwards.

  The locale \<open>balanced_calls\<close> is the contract of a component whose operations always return at the
  privilege they started from, \<open>balanced_session\<close> adds a first and a last operation. The resolver of
  \<open>load_mod.c\<close>, the socket shortcuts of \<open>kcut_tcpmsg.h\<close> and the resolver of \<open>dpld.c\<close> are instances.
\<close>

type_synonym 'c rule = "bool \<Rightarrow> 'c \<Rightarrow> bool option"

primrec priv_run :: "'c rule \<Rightarrow> bool \<Rightarrow> 'c list \<Rightarrow> bool option" where
  "priv_run f el [] = Some el"
| "priv_run f el (c # cs) = (case f el c of None \<Rightarrow> None | Some el' \<Rightarrow> priv_run f el' cs)"

lemma priv_run_append [simp]:
  "priv_run f el (xs @ ys) = (case priv_run f el xs of None \<Rightarrow> None | Some el' \<Rightarrow> priv_run f el' ys)"
  by (induction xs arbitrary: el) (auto split: option.splits)

text \<open>A sequence of operations, each of which has returned.\<close>

inductive op_seq :: "('o \<Rightarrow> 's \<Rightarrow> 's \<Rightarrow> bool) \<Rightarrow> 'o list \<Rightarrow> 's \<Rightarrow> 's \<Rightarrow> bool" for opr where
  op_seq_Nil: "op_seq opr [] s s"
| op_seq_Cons: "opr x s s1 \<Longrightarrow> op_seq opr xs s1 s' \<Longrightarrow> op_seq opr (x # xs) s s'"

inductive_simps op_seq_simps [simp]: "op_seq opr [] s s'" "op_seq opr (x # xs) s s'"

text \<open>
  The calls of the demonstration programs. A function of the kernel or of a kernel module needs the
  privilege; everything else may run either way.
\<close>

datatype demo_call =
    D_elevate
  | D_lower
  | D_printf string
  | D_kernel string
  | D_libc string

definition demo_rule :: "demo_call rule" where
  "demo_rule el c = (case c of
     D_elevate \<Rightarrow> Some True | D_lower \<Rightarrow> Some False | D_kernel _ \<Rightarrow> if el then Some True else None | _ \<Rightarrow> Some el)"

lemma demo_rule_simps [simp]:
  "demo_rule el D_elevate = Some True" "demo_rule el D_lower = Some False" "demo_rule el (D_printf l) = Some el"
  "demo_rule el (D_libc l) = Some el" "demo_rule True (D_kernel l) = Some True" "demo_rule False (D_kernel l) = None"
  by (simp_all add: demo_rule_def)

text \<open>A block of calls that starts and ends with the same privilege can be repeated.\<close>

lemma priv_run_concat: "(\<And>cs. cs \<in> set css \<Longrightarrow> priv_run f el cs = Some el) \<Longrightarrow> priv_run f el (concat css) = Some el"
  by (induction css) simp_all

locale balanced_calls =
  fixes rule :: "'c rule" and trace :: "'s \<Rightarrow> 'c list" and idle :: bool
    and opr :: "'o \<Rightarrow> 's \<Rightarrow> 's \<Rightarrow> bool"
  assumes keeps: "priv_run rule False (trace s) = Some idle \<Longrightarrow> opr x s s' \<Longrightarrow>
    priv_run rule False (trace s') = Some idle"
begin

lemma op_seq_keeps:
  "op_seq opr xs s s' \<Longrightarrow> priv_run rule False (trace s) = Some idle \<Longrightarrow>
    priv_run rule False (trace s') = Some idle"
  by (induction rule: op_seq.induct) (auto dest: keeps)

end

locale balanced_session = balanced_calls rule trace idle opr
  for rule :: "'c rule" and trace :: "'s \<Rightarrow> 'c list" and idle :: bool and opr :: "'o \<Rightarrow> 's \<Rightarrow> 's \<Rightarrow> bool" +
  fixes opens :: "'s \<Rightarrow> bool" and closes :: "'s \<Rightarrow> 's \<Rightarrow> bool"
  assumes opened: "opens s \<Longrightarrow> priv_run rule False (trace s) = Some idle"
    and closed: "priv_run rule False (trace s) = Some idle \<Longrightarrow> closes s s' \<Longrightarrow>
      priv_run rule False (trace s') = Some False"
begin

lemma session_ends_lowered:
  assumes "opens s" and "op_seq opr xs s s1" and "closes s1 s'"
  shows "priv_run rule False (trace s') = Some False"
  using closed[OF op_seq_keeps[OF assms(2) opened[OF assms(1)]] assms(3)] .

end

end
