(* ===== verification/Dpld.thy ===== *)
theory Dpld
  imports Privilege
begin

text \<open>
  The symbol resolver of dynamically privileged programs (\<open>tools/src/dpld.c\<close>): on the first call it
  loads the kernel modules that the program carries and tells them the program's offset table, then
  every call looks a symbol up in the kernel with elevated privilege.

  The dynamic linker, the kernel's symbol table, its allocator and the modules are answers in the record
  \<open>dp_env\<close>; what \<open>LOAD_ALL_MODULES\<close> and \<open>SET_ALL_GOT_ENTRIES\<close> expand to is generated for each
  program. The calls that matter are kept in order, also when the process ends.
\<close>

section \<open>State and surroundings\<close>

datatype dp_call =
    Touch_funcs
  | Touch_stack nat
  | Load_all_modules
  | Elevate
  | Lower
  | Kcall_lookup string
  | Kcall_got_init
  | Set_got_entries
  | Set_app_got u64

record dpld =
  dp_loaded :: bool
  dp_verbose :: bool
  dp_ktos :: u64
  dp_trace :: "dp_call list"

record dp_env =
  e_debug :: bool
  e_dlsym :: "string \<Rightarrow> u64 option"
  e_load :: int
  e_kallsyms :: "string \<Rightarrow> u64"
  e_vmalloc :: u64
  e_no_got :: bool

text \<open>How a call ends: with a value, by \<open>exit\<close> or by a failed assertion.\<close>

datatype 'a outcome = Ret 'a | Exits int | Aborts

definition log :: "dp_call \<Rightarrow> dpld \<Rightarrow> dpld" where
  "log c s = s\<lparr>dp_trace := dp_trace s @ [c]\<rparr>"

section \<open>Operations\<close>

definition EEXIST :: int where "EEXIST = 17"

lemma unat_next: "p < e \<Longrightarrow> unat (p + 1) = unat p + 1"
  for p e :: u64
proof -
  assume "p < e"
  then have "unat p + 1 < 2 ^ 64" using unsigned_less[of e, where 'a = nat] by (simp add: word_less_nat_alt)
  then show ?thesis using unat_add_lem[of p 1] by simp
qed

text \<open>
  Before it enters the kernel the resolver touches what it will need there: every byte of its own code, read from \<open>start\<close> to \<open>end\<close>, and one byte of every page of stack. The results are the addresses, and the
  indices into the array on the stack.
\<close>

function touch_bytes :: "u64 \<Rightarrow> u64 \<Rightarrow> u64 list" where
  "touch_bytes ptr fin = (if ptr < fin then ptr # touch_bytes (ptr + 1) fin else [])"
  by pat_completeness auto
termination
proof (relation "measure (\<lambda>(p, e). unat e - unat p)")
  fix p e :: u64
  assume "p < e"
  then have "unat p < unat e" "unat (p + 1) = unat p + 1" using unat_next by (simp_all add: word_less_nat_alt)
  then show "((p + 1, e), (p, e)) \<in> measure (\<lambda>(p, e). unat e - unat p)" by simp
qed simp

declare touch_bytes.simps [simp del]

function touch_indices :: "nat \<Rightarrow> nat \<Rightarrow> nat list" where
  "touch_indices n i = (if i < n then i # touch_indices n (i + 4096) else [])"
  by pat_completeness auto
termination by (relation "measure (\<lambda>(n, i). n - i)") auto

declare touch_indices.simps [simp del]

definition touchstack :: "nat \<Rightarrow> nat list" where
  "touchstack numpages = touch_indices (4096 * numpages) 0"

lemma touch_bytes_range: "set (touch_bytes p e) = {p..<e}"
proof (induction p e rule: touch_bytes.induct)
  case (1 p e)
  show ?case
  proof (cases "p < e")
    case True
    have "{p..<e} = insert p {p + 1..<e}" using True unat_next[OF True] by (auto simp: word_le_nat_alt word_less_nat_alt word_unat_eq_iff)
    then show ?thesis using 1 True by (subst touch_bytes.simps) simp
  next
    case False
    then show ?thesis by (subst touch_bytes.simps) auto
  qed
qed

lemma touch_indices_pages: "touch_indices (4096 * k) (4096 * j) = map ((*) 4096) [j..<k]"
proof (induction "k - j" arbitrary: j)
  case 0
  then show ?case by (subst touch_indices.simps) simp
next
  case (Suc d)
  then have "j < k" and i: "touch_indices (4096 * k) (4096 * Suc j) = map ((*) 4096) [Suc j..<k]" using Suc.hyps(1)[of "Suc j"] by simp_all
  have "touch_indices (4096 * k) (4096 * j) = 4096 * j # touch_indices (4096 * k) (4096 * Suc j)"
    using \<open>j < k\<close> by (subst touch_indices.simps) (simp add: add.commute)
  then show ?case using \<open>j < k\<close> by (simp only: i) (simp add: upt_conv_Cons)
qed

text \<open>Every byte of the code is read, and the stack array is touched inside its bounds, once in every page.\<close>

lemma touches_everything: "set (touch_bytes start fin) = {start..<fin}" "touchstack k = map ((*) 4096) [0..<k]"
  using touch_bytes_range touch_indices_pages[of k 0] by (simp_all add: touchstack_def)

text \<open>The result of the system call and \<open>errno\<close>; a module that is loaded already is no error.\<close>

definition init_module :: "int \<Rightarrow> int \<Rightarrow> int" where
  "init_module ret errno = (if ret = -1 then (if errno = EEXIST then 0 else ret) else ret)"

definition resolve_sym :: "dp_env \<Rightarrow> string \<Rightarrow> bool \<times> u64" where
  "resolve_sym E name = (case e_dlsym E name of None \<Rightarrow> (False, 0) | Some v \<Rightarrow> (True, v))"

definition force_symres_now :: "dp_env \<Rightarrow> bool" where
  "force_symres_now E =
     (if \<not> fst (resolve_sym E ''cpu_current_top_of_stack'') then False
      else if \<not> fst (resolve_sym E ''kallsyms_lookup_name'') then False
      else if \<not> fst (resolve_sym E ''vmalloc_noprof'') then False
      else if \<not> fst (resolve_sym E ''exit'') then False
      else True)"

definition load_ext_module :: "dp_env \<Rightarrow> dpld \<Rightarrow> int outcome \<times> dpld" where
  "load_ext_module E s =
     (if \<not> force_symres_now E then (Aborts, s)
      else if \<not> fst (resolve_sym E ''cpu_current_top_of_stack'') then (Aborts, s)
      else if \<not> fst (resolve_sym E ''asm_exc_page_fault'') then (Aborts, s)
      else if \<not> fst (resolve_sym E ''asm_exc_double_fault'') then (Aborts, s)
      else if \<not> fst (resolve_sym E ''asm_exc_general_protection'') then (Aborts, s)
      else (Ret (e_load E), log Load_all_modules s))"

definition elevated_app_got_init :: "dp_env \<Rightarrow> dpld \<Rightarrow> int \<times> dpld" where
  "elevated_app_got_init E s =
     (let set_app_got = e_kallsyms E ''set_app_got''
      in if set_app_got = 0 then (-1, s)
         else let app_got = e_vmalloc E
              in if app_got = 0 then (-2, s)
                 else (0, log (Set_app_got app_got) (log Set_got_entries s)))"

definition app_got_init :: "dp_env \<Rightarrow> dpld \<Rightarrow> int outcome \<times> dpld" where
  "app_got_init E s =
     (let s = log Kcall_got_init (log Elevate s);
          (rc, s) = elevated_app_got_init E s;
          s = log Lower s
      in if rc = -1 then (Exits 1, s)
         else if rc = -2 then (Exits 1, s)
         else (Ret rc, s))"

text \<open>The part of \<open>dpld_resolver\<close> that makes sure the modules are there; \<open>None\<close> when it goes on.\<close>

definition ensure_loaded :: "dp_env \<Rightarrow> dpld \<Rightarrow> (u64 outcome) option \<times> dpld" where
  "ensure_loaded E s =
     (if dp_loaded s then (None, s)
      else let s = log (Touch_stack 8) (log Touch_funcs s)
           in case load_ext_module E s of
                (Ret rc, s) \<Rightarrow>
                  if rc \<noteq> 0 then (Some (Exits (-1)), s)
                  else if e_no_got E then (None, s\<lparr>dp_loaded := True\<rparr>)
                  else (case app_got_init E s of
                          (Ret rc, s) \<Rightarrow> if rc \<noteq> 0 then (Some Aborts, s) else (None, s\<lparr>dp_loaded := True\<rparr>)
                        | (Exits n, s) \<Rightarrow> (Some (Exits n), s)
                        | (Aborts, s) \<Rightarrow> (Some Aborts, s))
              | (Exits n, s) \<Rightarrow> (Some (Exits n), s)
              | (Aborts, s) \<Rightarrow> (Some Aborts, s))"

definition dpld_resolver :: "dp_env \<Rightarrow> string \<Rightarrow> dpld \<Rightarrow> u64 outcome \<times> dpld" where
  "dpld_resolver E symbol_name s =
     (let s = (if \<not> dp_verbose s \<and> e_debug E then s\<lparr>dp_verbose := True\<rparr> else s)
      in if dp_ktos s = 0 \<and> \<not> fst (resolve_sym E ''cpu_current_top_of_stack'') then (Aborts, s)
         else let s = (if dp_ktos s = 0 then s\<lparr>dp_ktos := snd (resolve_sym E ''cpu_current_top_of_stack'')\<rparr> else s)
              in case ensure_loaded E s of
                   (Some out, s) \<Rightarrow> (out, s)
                 | (None, s) \<Rightarrow>
                     let s = log Lower (log (Kcall_lookup symbol_name) (log Elevate s));
                         addr = e_kallsyms E symbol_name
                     in if addr = 0 then (Exits 1, s) else (Ret addr, s))"

text \<open>A program that resolves several symbols, one after the other.\<close>

primrec resolve_all :: "dp_env \<Rightarrow> string list \<Rightarrow> dpld \<Rightarrow> (u64 list) outcome \<times> dpld" where
  "resolve_all E [] s = (Ret [], s)"
| "resolve_all E (n # ns) s =
     (case dpld_resolver E n s of
        (Ret a, s) \<Rightarrow> (case resolve_all E ns s of
                        (Ret as, s) \<Rightarrow> (Ret (a # as), s)
                      | (Exits k, s) \<Rightarrow> (Exits k, s)
                      | (Aborts, s) \<Rightarrow> (Aborts, s))
      | (Exits k, s) \<Rightarrow> (Exits k, s)
      | (Aborts, s) \<Rightarrow> (Aborts, s))"

definition dpld_start :: dpld where
  "dpld_start = \<lparr>dp_loaded = False, dp_verbose = False, dp_ktos = 0, dp_trace = []\<rparr>"

section \<open>Correctness\<close>

text \<open>
  Privilege along a trace: kernel code runs only while it is elevated, elevation does not nest, and
  the modules are loaded at normal privilege.
\<close>

definition dp_rule :: "dp_call rule" where
  "dp_rule el c = (case c of
     Elevate \<Rightarrow> if el then None else Some True
   | Lower \<Rightarrow> if el then Some False else None
   | Load_all_modules \<Rightarrow> if el then None else Some False
   | Touch_funcs \<Rightarrow> if el then None else Some False
   | Touch_stack _ \<Rightarrow> if el then None else Some False
   | _ \<Rightarrow> if el then Some True else None)"

abbreviation priv_ok :: "dp_call list \<Rightarrow> bool" where
  "priv_ok cs \<equiv> priv_run dp_rule False cs = Some False"

lemma dp_rule_simps [simp]:
  "dp_rule False Elevate = Some True" "dp_rule True Lower = Some False" "dp_rule False Load_all_modules = Some False"
  "dp_rule False Touch_funcs = Some False" "dp_rule False (Touch_stack k) = Some False"
  "dp_rule True (Kcall_lookup n) = Some True" "dp_rule True Kcall_got_init = Some True"
  "dp_rule True Set_got_entries = Some True" "dp_rule True (Set_app_got a) = Some True"
  by (simp_all add: dp_rule_def)

lemma priv_ok_append: "priv_ok xs \<Longrightarrow> priv_ok ys \<Longrightarrow> priv_ok (xs @ ys)"
  by simp

lemma log_sel [simp]:
  "dp_trace (log c s) = dp_trace s @ [c]" "dp_loaded (log c s) = dp_loaded s" "dp_ktos (log c s) = dp_ktos s"
  "dp_verbose (log c s) = dp_verbose s"
  by (simp_all add: log_def)

text \<open>What one call appends to the trace.\<close>

definition appends :: "dpld \<Rightarrow> dpld \<Rightarrow> dp_call list \<Rightarrow> bool" where
  "appends s s' cs \<longleftrightarrow> dp_trace s' = dp_trace s @ cs"

lemma load_ext_module_cases:
  obtains "load_ext_module E s = (Aborts, s)" | "load_ext_module E s = (Ret (e_load E), log Load_all_modules s)"
proof -
  have "load_ext_module E s = (Aborts, s) \<or> load_ext_module E s = (Ret (e_load E), log Load_all_modules s)"
    by (simp add: load_ext_module_def)
  then show thesis using that by blast
qed

lemma app_got_init_cases:
  obtains "app_got_init E s = (Exits 1, log Lower (log Kcall_got_init (log Elevate s)))"
  | a where "app_got_init E s = (Ret 0, log Lower (log (Set_app_got a) (log Set_got_entries (log Kcall_got_init (log Elevate s)))))"
proof (cases "e_kallsyms E ''set_app_got'' = 0 \<or> e_vmalloc E = 0")
  case True
  then show thesis using that(1) by (auto simp: app_got_init_def elevated_app_got_init_def Let_def)
next
  case False
  then show thesis using that(2)[of "e_vmalloc E"] by (simp add: app_got_init_def elevated_app_got_init_def Let_def)
qed

lemma ensure_loaded_cases:
  assumes "ensure_loaded E s = (r, s')"
  shows "\<exists>cs. appends s s' cs \<and> priv_ok cs \<and> count_list cs Load_all_modules \<le> (if dp_loaded s then 0 else 1) \<and>
    dp_ktos s' = dp_ktos s \<and> (r = None \<longrightarrow> dp_loaded s') \<and> (r \<noteq> None \<longrightarrow> \<not> dp_loaded s \<and> (\<forall>a. r \<noteq> Some (Ret a)))"
proof (cases "dp_loaded s")
  case True
  then show ?thesis using assms by (intro exI[of _ "[]"]) (simp add: ensure_loaded_def appends_def)
next
  case False
  let ?s = "log (Touch_stack 8) (log Touch_funcs s)"
  show ?thesis
  proof (cases rule: load_ext_module_cases[of E ?s])
    case 1
    then show ?thesis using assms False
      by (intro exI[of _ "[Touch_funcs, Touch_stack 8]"]) (auto simp: ensure_loaded_def appends_def Let_def)
  next
    case load: 2
    let ?l = "log Load_all_modules ?s"
    show ?thesis
    proof (cases "e_load E \<noteq> 0 \<or> e_no_got E")
      case True
      then show ?thesis using assms False load
        by (intro exI[of _ "[Touch_funcs, Touch_stack 8, Load_all_modules]"])
          (auto simp: ensure_loaded_def appends_def Let_def split: if_splits)
    next
      case got: False
      show ?thesis
      proof (cases rule: app_got_init_cases[of E ?l])
        case 1
        then show ?thesis using assms False load got
          by (intro exI[of _ "[Touch_funcs, Touch_stack 8, Load_all_modules, Elevate, Kcall_got_init, Lower]"])
            (auto simp: ensure_loaded_def appends_def Let_def)
      next
        case (2 a)
        then show ?thesis using assms False load got
          by (intro exI[of _ "[Touch_funcs, Touch_stack 8, Load_all_modules, Elevate, Kcall_got_init, Set_got_entries,
              Set_app_got a, Lower]"])
            (auto simp: ensure_loaded_def appends_def Let_def)
      qed
    qed
  qed
qed

text \<open>The effect of one resolution.\<close>

definition resolved :: "dp_env \<Rightarrow> string list \<Rightarrow> dpld \<Rightarrow> (u64 list) outcome \<Rightarrow> dpld \<Rightarrow> bool" where
  "resolved E ns s out s' \<longleftrightarrow> (\<exists>cs. appends s s' cs \<and> priv_ok cs \<and>
     count_list cs Load_all_modules \<le> (if dp_loaded s then 0 else 1) \<and> (dp_loaded s \<longrightarrow> dp_loaded s') \<and>
     (\<forall>as. out = Ret as \<longrightarrow> as = map (e_kallsyms E) ns \<and> 0 \<notin> set as \<and> (ns \<noteq> [] \<longrightarrow> dp_loaded s')))"

lemma appends_trans: "appends s s1 cs \<Longrightarrow> appends s1 s' ds \<Longrightarrow> appends s s' (cs @ ds)"
  by (simp add: appends_def)

lemma dpld_resolver_resolved:
  assumes "dpld_resolver E n s = (out, s')"
  shows "resolved E [n] s (case out of Ret a \<Rightarrow> Ret [a] | Exits k \<Rightarrow> Exits k | Aborts \<Rightarrow> Aborts) s'"
proof -
  let ?v = "if \<not> dp_verbose s \<and> e_debug E then s\<lparr>dp_verbose := True\<rparr> else s"
  let ?k = "if dp_ktos ?v = 0 then ?v\<lparr>dp_ktos := snd (resolve_sym E ''cpu_current_top_of_stack'')\<rparr> else ?v"
  show ?thesis
  proof (cases "dp_ktos ?v = 0 \<and> \<not> fst (resolve_sym E ''cpu_current_top_of_stack'')")
    case True
    then have "out = Aborts" "s' = ?v" using assms by (simp_all add: dpld_resolver_def Let_def)
    then show ?thesis by (auto simp: resolved_def appends_def intro!: exI[of _ "[]"])
  next
    case False
    obtain r s1 where e: "ensure_loaded E ?k = (r, s1)" by (cases "ensure_loaded E ?k")
    have k: "dp_loaded ?k = dp_loaded s" "dp_trace ?k = dp_trace s" by simp_all
    obtain cs where cs: "appends s s1 cs" "priv_ok cs" "count_list cs Load_all_modules \<le> (if dp_loaded s then 0 else 1)"
        "r = None \<longrightarrow> dp_loaded s1" "r \<noteq> None \<longrightarrow> \<not> dp_loaded s \<and> (\<forall>a. r \<noteq> Some (Ret a))"
      using ensure_loaded_cases[OF e] unfolding k appends_def by blast
    have d: "dpld_resolver E n s = (case (r, s1) of (Some out, s) \<Rightarrow> (out, s)
        | (None, s) \<Rightarrow> let s = log Lower (log (Kcall_lookup n) (log Elevate s)); addr = e_kallsyms E n
            in if addr = 0 then (Exits 1, s) else (Ret addr, s))"
      unfolding dpld_resolver_def Let_def e[symmetric] by (simp only: False if_False)
    show ?thesis
    proof (cases r)
      case (Some o1)
      then have "out = o1" "s' = s1" using assms d by simp_all
      then show ?thesis using cs Some by (auto simp: resolved_def split: outcome.splits)
    next
      case None
      then have s': "s' = log Lower (log (Kcall_lookup n) (log Elevate s1))"
        "out = (if e_kallsyms E n = 0 then Exits 1 else Ret (e_kallsyms E n))"
        using assms d by (auto simp: Let_def split: if_splits)
      have "appends s s' (cs @ [Elevate, Kcall_lookup n, Lower])" using cs(1) s'(1) by (simp add: appends_def)
      moreover have "priv_ok (cs @ [Elevate, Kcall_lookup n, Lower])" using cs(2) by (rule priv_ok_append) simp
      ultimately show ?thesis using cs None s'
        by (auto simp: resolved_def intro!: exI[of _ "cs @ [Elevate, Kcall_lookup n, Lower]"])
    qed
  qed
qed

text \<open>Resolutions, whatever their outcome, are operations that return at the privilege they started from.\<close>

lemma dpld_resolver_keeps:
  assumes "priv_ok (dp_trace s)" and "dpld_resolver E n s = (out, s')"
  shows "priv_ok (dp_trace s')"
  using dpld_resolver_resolved[OF assms(2)] assms(1) by (auto simp: resolved_def appends_def)

interpretation dpld: balanced_session dp_rule dp_trace False "\<lambda>n s s'. \<exists>out. dpld_resolver E n s = (out, s')" "\<lambda>s. s = dpld_start" "\<lambda>s s'. s' = s"
  for E
  by unfold_locales (auto dest: dpld_resolver_keeps simp: dpld_start_def)

lemma resolve_all_resolved: "resolve_all E ns s = (out, s') \<Longrightarrow> resolved E ns s out s'"
proof (induction ns arbitrary: s out s')
  case Nil
  then show ?case by (auto simp: resolved_def appends_def intro!: exI[of _ "[]"])
next
  case (Cons n ns)
  obtain o1 s1 where d: "dpld_resolver E n s = (o1, s1)" by (cases "dpld_resolver E n s")
  note r1 = dpld_resolver_resolved[OF d]
  show ?case
  proof (cases o1)
    case (Ret a)
    obtain o2 s2 where r: "resolve_all E ns s1 = (o2, s2)" by (cases "resolve_all E ns s1")
    have o: "s' = s2" "out = (case o2 of Ret as \<Rightarrow> Ret (a # as) | Exits k \<Rightarrow> Exits k | Aborts \<Rightarrow> Aborts)"
      using Cons.prems d r Ret by (auto split: outcome.splits)
    obtain cs where cs: "appends s s1 cs" "priv_ok cs" "count_list cs Load_all_modules \<le> (if dp_loaded s then 0 else 1)"
        "dp_loaded s1" "a = e_kallsyms E n" "a \<noteq> 0"
      using r1 Ret unfolding resolved_def by auto
    obtain ds where ds: "appends s1 s2 ds" "priv_ok ds" "count_list ds Load_all_modules = 0" "dp_loaded s2"
        "\<forall>as. o2 = Ret as \<longrightarrow> as = map (e_kallsyms E) ns \<and> 0 \<notin> set as"
      using Cons.IH[OF r] cs(4) unfolding resolved_def by auto
    have "priv_ok (cs @ ds)" using cs(2) ds(2) by (rule priv_ok_append)
    then show ?thesis
      unfolding resolved_def o
      using appends_trans[OF cs(1) ds(1)] cs(3,5,6) ds(3-5) by (intro exI[of _ "cs @ ds"]) (auto split: outcome.splits)
  next
    case (Exits k)
    then have "s' = s1" "out = Exits k" using Cons.prems d by simp_all
    then show ?thesis using r1 Exits by (auto simp: resolved_def)
  next
    case Aborts
    then have "s' = s1" "out = Aborts" using Cons.prems d by simp_all
    then show ?thesis using r1 Aborts by (auto simp: resolved_def)
  qed
qed

text \<open>
  C19. However a program that resolves symbols ends (with addresses, by \<open>exit\<close> or by an assertion):
  kernel code was called only with elevated privilege, every elevation was taken back, the modules
  were loaded at most once and at normal privilege; and the addresses that were returned are those of
  the kernel, none of them NULL.
\<close>

theorem resolve_all_privilege:
  assumes "resolve_all E ns dpld_start = (out, s')"
  shows "priv_ok (dp_trace s') \<and> count_list (dp_trace s') Load_all_modules \<le> 1 \<and>
    (\<forall>as. out = Ret as \<longrightarrow> as = map (e_kallsyms E) ns \<and> 0 \<notin> set as)"
  using resolve_all_resolved[OF assms] by (auto simp: resolved_def appends_def dpld_start_def)

definition demo_dp_env :: dp_env where
  "demo_dp_env = \<lparr>e_debug = False, e_dlsym = (\<lambda>_. Some 0x40), e_load = 0, e_kallsyms = (\<lambda>n. of_nat (length n)),
     e_vmalloc = 0x9000, e_no_got = False\<rparr>"

lemma demo_resolve: "\<exists>s'. resolve_all demo_dp_env [''ab'', ''cde''] dpld_start = (Ret [2, 3], s')"
  by (simp add: dpld_resolver_def ensure_loaded_def load_ext_module_def force_symres_now_def resolve_sym_def
      app_got_init_def elevated_app_got_init_def demo_dp_env_def dpld_start_def log_def Let_def)

theorem resolve_all_privilege_witness:
  "\<exists>s'. resolve_all demo_dp_env [''ab'', ''cde''] dpld_start = (Ret [2, 3], s') \<and>
    priv_ok (dp_trace s') \<and> count_list (dp_trace s') Load_all_modules \<le> 1"
  using demo_resolve resolve_all_privilege by blast

text \<open>
  With a kernel and modules that answer as they should, every symbol the kernel knows is resolved,
  and after the first one a resolution only looks the symbol up.
\<close>

theorem dpld_resolver_succeeds:
  assumes "\<forall>n. e_dlsym E n \<noteq> None" and "e_load E = 0"
    and "e_no_got E \<or> e_kallsyms E ''set_app_got'' \<noteq> 0 \<and> e_vmalloc E \<noteq> 0" and "e_kallsyms E n \<noteq> 0"
  shows "\<exists>s'. dpld_resolver E n s = (Ret (e_kallsyms E n), s') \<and> dp_loaded s' \<and>
    (dp_loaded s \<longrightarrow> dp_trace s' = dp_trace s @ [Elevate, Kcall_lookup n, Lower])"
proof -
  have r: "fst (resolve_sym E m)" for m using assms(1) by (auto simp: resolve_sym_def split: option.splits)
  have "\<exists>s2. ensure_loaded E s1 = (None, s2) \<and> dp_loaded s2 \<and> (dp_loaded s1 \<longrightarrow> s2 = s1)" for s1
    using assms(2,3) r
    by (auto simp: ensure_loaded_def load_ext_module_def force_symres_now_def app_got_init_def elevated_app_got_init_def Let_def)
  then obtain f where f: "\<And>s1. ensure_loaded E s1 = (None, f s1)" "\<And>s1. dp_loaded (f s1)" "\<And>s1. dp_loaded s1 \<Longrightarrow> f s1 = s1"
    by metis
  show ?thesis using r assms(4) f by (auto simp: dpld_resolver_def Let_def)
qed

theorem dpld_resolver_succeeds_witness:
  "\<exists>s'. dpld_resolver demo_dp_env ''ab'' dpld_start = (Ret 2, s') \<and> dp_loaded s'"
  using dpld_resolver_succeeds[of demo_dp_env "''ab''" dpld_start] by (auto simp: demo_dp_env_def)

end
