(* ===== verification/Kcut.thy ===== *)
theory Kcut
  imports Privilege
begin

text \<open>
  Shortcuts into the kernel's TCP functions (\<open>kcuttest/kcut_tcpmsg.h\<close>, \<open>kcut.h\<close>, \<open>evacuate.h\<close>,
  \<open>ktos.h\<close>): reading and writing a socket by calling the kernel directly, with a plain system call every
  so often, and taking a processor for the program alone.

  The compile-time switches are a record. The kernel and the dynamic linker answer through \<open>kc_os\<close>; all
  calls are kept in order, with other functions of the kernel and of the program by their names. \<open>ssize_t\<close> results pass through an \<open>int\<close>.
\<close>

section \<open>Configuration, state and surroundings\<close>

record kcut_cfg =
  BRACKET_PRIV :: bool
  BRACKET_STACK :: bool
  SHORTCUT :: bool
  EVACUATE :: bool

datatype kc_call =
    K_elevate
  | K_lower
  | Sys_read int nat
  | Sys_write int nat
  | Kcut_recvmsg int nat
  | Kcut_sendmsg int nat
  | Ksys_read int nat
  | Ksys_write int nat
  | K_current_pid
  | K_acquire_cpu int
  | K_release_cpu int
  | K_kernel string
  | K_user string

record kcut =
  kc_threshold :: int
  kc_rd_cnt :: int
  kc_wr_cnt :: int
  kc_tos :: u64
  kc_trace :: "kc_call list"

record kc_os =
  os_ret :: "kc_call list \<Rightarrow> kc_call \<Rightarrow> int"
  os_tos :: "u64 option"
  os_getcpu :: "int option"
  os_threshold :: "int option"

definition kc_do :: "kc_call \<Rightarrow> kcut \<Rightarrow> kcut" where
  "kc_do c s = s\<lparr>kc_trace := kc_trace s @ [c]\<rparr>"

text \<open>A call and its answer, which may depend on all calls made before.\<close>

definition kc_call_in :: "kc_os \<Rightarrow> kc_call \<Rightarrow> kcut \<Rightarrow> (int \<times> kcut) res" where
  "kc_call_in W c s = Inr (os_ret W (kc_trace s) c, kc_do c s)"

text \<open>Conversion to \<open>int\<close>, and its decrement.\<close>

definition to_int :: "int \<Rightarrow> int" where
  "to_int x = sint (of_int x :: 32 word)"

definition int_dec :: "int \<Rightarrow> int res" where
  "int_dec x = (if x = INT_MIN then Inl Int_overflow else Inr (x - 1))"

section \<open>Privilege and the kernel stack\<close>

definition ELEVATE_ME :: "kcut_cfg \<Rightarrow> kcut \<Rightarrow> kcut" where
  "ELEVATE_ME cfg s = (if BRACKET_PRIV cfg then kc_do K_elevate s else s)"

definition LOWER_ME :: "kcut_cfg \<Rightarrow> kcut \<Rightarrow> kcut" where
  "LOWER_ME cfg s = (if BRACKET_PRIV cfg then kc_do K_lower s else s)"

definition kcut_resolve_sym :: "u64 option \<Rightarrow> bool \<times> u64" where
  "kcut_resolve_sym sym_addr = (case sym_addr of None \<Rightarrow> (False, 0) | Some v \<Rightarrow> (True, v))"

text \<open>The offset is looked up once and kept.\<close>

definition kcut_tos_offset :: "kc_os \<Rightarrow> kcut \<Rightarrow> (u64 \<times> kcut) res" where
  "kcut_tos_offset W s =
     (if kc_tos s = 0
      then let (ok, v) = kcut_resolve_sym (os_tos W); s = s\<lparr>kc_tos := v\<rparr>
           in if \<not> ok then Inl Assert_failed else Inr (kc_tos s, s)
      else Inr (kc_tos s, s))"

definition stack_switch_kcall :: "kc_os \<Rightarrow> kc_call \<Rightarrow> kcut \<Rightarrow> (int \<times> kcut) res" where
  "stack_switch_kcall W c s = rbind (kcut_tos_offset W s) (\<lambda>(_, s). kc_call_in W c s)"

section \<open>Reading and writing\<close>

text \<open>The functions that run in the kernel, as the thunks choose them.\<close>

definition kcut_tcp_recvmsg_thunk :: "kcut_cfg \<Rightarrow> int \<Rightarrow> nat \<Rightarrow> kc_call" where
  "kcut_tcp_recvmsg_thunk cfg fd n = (if SHORTCUT cfg then Kcut_recvmsg fd n else Ksys_read fd n)"

definition kcut_tcp_sendmsg_thunk :: "kcut_cfg \<Rightarrow> int \<Rightarrow> nat \<Rightarrow> kc_call" where
  "kcut_tcp_sendmsg_thunk cfg fd n = (if SHORTCUT cfg then Kcut_sendmsg fd n else Ksys_write fd n)"

text \<open>The part between \<open>ELEVATE_ME\<close> and \<open>LOWER_ME\<close>, with or without a stack switch.\<close>

definition kcut_enter :: "kcut_cfg \<Rightarrow> kc_os \<Rightarrow> kc_call \<Rightarrow> kcut \<Rightarrow> (int \<times> kcut) res" where
  "kcut_enter cfg W c s =
     (let s = ELEVATE_ME cfg s
      in rbind (if BRACKET_STACK cfg then stack_switch_kcall W c s else kc_call_in W c s) (\<lambda>(ret, s).
         Inr (to_int ret, LOWER_ME cfg s)))"

definition kcut_tcp_read :: "kcut_cfg \<Rightarrow> kc_os \<Rightarrow> int \<Rightarrow> nat \<Rightarrow> kcut \<Rightarrow> (int \<times> kcut) res" where
  "kcut_tcp_read cfg W fd count s =
     (if BRACKET_PRIV cfg then kcut_enter cfg W (kcut_tcp_recvmsg_thunk cfg fd count) s
      else if kc_rd_cnt s \<noteq> 0
      then rbind (kcut_enter cfg W (kcut_tcp_recvmsg_thunk cfg fd count) s) (\<lambda>(ret, s).
           rbind (int_dec (kc_rd_cnt s)) (\<lambda>n. Inr (ret, s\<lparr>kc_rd_cnt := n\<rparr>)))
      else rbind (kc_call_in W (Sys_read fd count) s) (\<lambda>(ret, s).
           Inr (to_int ret, s\<lparr>kc_rd_cnt := kc_threshold s\<rparr>)))"

definition kcut_tcp_write :: "kcut_cfg \<Rightarrow> kc_os \<Rightarrow> int \<Rightarrow> nat \<Rightarrow> kcut \<Rightarrow> (int \<times> kcut) res" where
  "kcut_tcp_write cfg W fd count s =
     (if BRACKET_PRIV cfg then kcut_enter cfg W (kcut_tcp_sendmsg_thunk cfg fd count) s
      else if kc_wr_cnt s \<noteq> 0
      then rbind (kcut_enter cfg W (kcut_tcp_sendmsg_thunk cfg fd count) s) (\<lambda>(ret, s).
           rbind (int_dec (kc_wr_cnt s)) (\<lambda>n. Inr (ret, s\<lparr>kc_wr_cnt := n\<rparr>)))
      else rbind (kc_call_in W (Sys_write fd count) s) (\<lambda>(ret, s).
           Inr (to_int ret, s\<lparr>kc_wr_cnt := kc_threshold s\<rparr>)))"

section \<open>Taking a processor\<close>

definition kcut_evacuate :: "kc_os \<Rightarrow> bool \<Rightarrow> kcut \<Rightarrow> kcut res" where
  "kcut_evacuate W acquire s =
     (case os_getcpu W of
        None \<Rightarrow> Inl Assert_failed
      | Some cpu \<Rightarrow>
          let c = (if acquire then K_acquire_cpu cpu else K_release_cpu cpu); s = kc_do K_elevate s
          in rbind (stack_switch_kcall W c s) (\<lambda>(ret, s).
             let rc = (if acquire then to_int ret else 0); s = kc_do K_lower s
             in if rc \<noteq> 0 then Inl Assert_failed else Inr s))"

text \<open>\<open>kcut_init\<close>; \<open>os_threshold\<close> is the number in the environment variable, if it is set.\<close>

definition kcut_init :: "kcut_cfg \<Rightarrow> kc_os \<Rightarrow> kcut \<Rightarrow> kcut res" where
  "kcut_init cfg W s =
     rbind (if EVACUATE cfg then kcut_evacuate W True s else Inr s) (\<lambda>s.
     let s = s\<lparr>kc_threshold := (case os_threshold W of Some n \<Rightarrow> n | None \<Rightarrow> 20)\<rparr>;
         s = kc_do K_lower (kc_do K_current_pid (kc_do K_elevate s))
     in Inr (if \<not> BRACKET_PRIV cfg then kc_do K_elevate s else s))"

definition kcut_cleanup :: "kcut_cfg \<Rightarrow> kc_os \<Rightarrow> kcut \<Rightarrow> kcut res" where
  "kcut_cleanup cfg W s =
     rbind (if EVACUATE cfg then kcut_evacuate W False s else Inr s) (\<lambda>s.
     Inr (if \<not> BRACKET_PRIV cfg then kc_do K_lower s else s))"

definition kcut_start :: kcut where
  "kcut_start = \<lparr>kc_threshold = 0, kc_rd_cnt = 0, kc_wr_cnt = 0, kc_tos = 0, kc_trace = []\<rparr>"

text \<open>A run of a program: initialisation, reads and writes, cleanup.\<close>

datatype kc_op = Op_read int nat | Op_write int nat

definition kcut_op :: "kcut_cfg \<Rightarrow> kc_os \<Rightarrow> kc_op \<Rightarrow> kcut \<Rightarrow> (int \<times> kcut) res" where
  "kcut_op cfg W op s = (case op of
     Op_read fd n \<Rightarrow> kcut_tcp_read cfg W fd n s
   | Op_write fd n \<Rightarrow> kcut_tcp_write cfg W fd n s)"

primrec kcut_ops :: "kcut_cfg \<Rightarrow> kc_os \<Rightarrow> kc_op list \<Rightarrow> kcut \<Rightarrow> kcut res" where
  "kcut_ops cfg W [] s = Inr s"
| "kcut_ops cfg W (op # ops) s = rbind (kcut_op cfg W op s) (\<lambda>(_, s). kcut_ops cfg W ops s)"

definition kcut_session :: "kcut_cfg \<Rightarrow> kc_os \<Rightarrow> kc_op list \<Rightarrow> kcut res" where
  "kcut_session cfg W ops =
     rbind (kcut_init cfg W kcut_start) (\<lambda>s. rbind (kcut_ops cfg W ops s) (kcut_cleanup cfg W))"

section \<open>Privilege\<close>

text \<open>
  The rule for the calls: functions of the kernel need raised privilege, plain system calls keep it as it
  is. The privilege is a state, not a counter.
\<close>

definition kc_rule :: "kc_call rule" where
  "kc_rule el c = (case c of
     K_elevate \<Rightarrow> Some True | K_lower \<Rightarrow> Some False | Sys_read _ _ \<Rightarrow> Some el | Sys_write _ _ \<Rightarrow> Some el | K_user _ \<Rightarrow> Some el
   | _ \<Rightarrow> if el then Some True else None)"

definition kernel_call :: "kc_call \<Rightarrow> bool" where
  "kernel_call c \<longleftrightarrow> kc_rule False c = None"

abbreviation kc_priv :: "kcut \<Rightarrow> bool \<Rightarrow> bool" where
  "kc_priv s el \<equiv> priv_run kc_rule False (kc_trace s) = Some el"

lemma kc_trace_do [simp]: "kc_trace (kc_do c s) = kc_trace s @ [c]"
  by (simp add: kc_do_def)

lemma kc_rule_simps [simp]:
  "kc_rule el K_elevate = Some True" "kc_rule el K_lower = Some False" "kc_rule el (Sys_read fd n) = Some el"
  "kc_rule el (Sys_write fd n) = Some el" "kc_rule True K_current_pid = Some True"
  "kc_rule True (K_kernel f) = Some True" "kc_rule el (K_user f) = Some el"
  by (simp_all add: kc_rule_def)

lemma kc_rule_kernel: "kernel_call c \<Longrightarrow> kc_rule True c = Some True"
  by (auto simp: kernel_call_def kc_rule_def split: kc_call.splits)

lemma stack_switch_priv:
  assumes "stack_switch_kcall W c s = Inr (r, s')" and "kc_priv s True" and "kernel_call c"
  shows "kc_priv s' True"
  using assms kc_rule_kernel[OF assms(3)]
  by (auto simp: stack_switch_kcall_def kc_call_in_def kcut_tos_offset_def rbind_eq_Inr Let_def split: if_splits prod.splits)

lemma thunk_kernel: "kernel_call (kcut_tcp_recvmsg_thunk cfg fd n)" "kernel_call (kcut_tcp_sendmsg_thunk cfg fd n)"
  by (simp_all add: kcut_tcp_recvmsg_thunk_def kcut_tcp_sendmsg_thunk_def kernel_call_def kc_rule_def)

text \<open>Between calls the program is elevated exactly when the calls are not bracketed.\<close>

lemma kcut_enter_priv:
  assumes "kcut_enter cfg W c s = Inr (r, s')" and p: "kc_priv s (\<not> BRACKET_PRIV cfg)" and k: "kernel_call c"
  shows "kc_priv s' (\<not> BRACKET_PRIV cfg)"
proof -
  let ?s = "ELEVATE_ME cfg s"
  have e: "kc_priv ?s True" using p by (simp add: ELEVATE_ME_def)
  obtain q s1 where s1: "(if BRACKET_STACK cfg then stack_switch_kcall W c ?s else kc_call_in W c ?s) = Inr (q, s1)"
    "s' = LOWER_ME cfg s1"
    using assms(1) by (auto simp: kcut_enter_def Let_def rbind_eq_Inr)
  have "kc_priv s1 True"
    using s1(1) stack_switch_priv[of W c ?s q s1] e k kc_rule_kernel[OF k] by (auto simp: kc_call_in_def split: if_splits)
  then show ?thesis using s1(2) by (simp add: LOWER_ME_def)
qed

lemma kcut_op_priv:
  assumes "kcut_op cfg W op s = Inr (r, s')" and "kc_priv s (\<not> BRACKET_PRIV cfg)"
  shows "kc_priv s' (\<not> BRACKET_PRIV cfg)"
proof (cases op)
  case (Op_read fd n)
  then show ?thesis
    using assms kcut_enter_priv[OF _ assms(2) thunk_kernel(1)]
    by (auto simp: kcut_op_def kcut_tcp_read_def kc_call_in_def rbind_eq_Inr split: if_splits)
next
  case (Op_write fd n)
  then show ?thesis
    using assms kcut_enter_priv[OF _ assms(2) thunk_kernel(2)]
    by (auto simp: kcut_op_def kcut_tcp_write_def kc_call_in_def rbind_eq_Inr split: if_splits)
qed

lemma kcut_evacuate_priv:
  assumes "kcut_evacuate W acq s = Inr s'" and "kc_priv s el"
  shows "kc_priv s' False"
proof -
  define cpu where "cpu = the (os_getcpu W)"
  let ?c = "if acq then K_acquire_cpu cpu else K_release_cpu cpu"
  obtain r s1 where s1: "stack_switch_kcall W ?c (kc_do K_elevate s) = Inr (r, s1)" "s' = kc_do K_lower s1"
    using assms(1) unfolding cpu_def
    by (simp add: kcut_evacuate_def Let_def rbind_eq_Inr split: option.splits if_splits) blast+
  have "kernel_call ?c" by (simp add: kernel_call_def kc_rule_def)
  then have "kc_priv s1 True" using stack_switch_priv[OF s1(1)] assms(2) by simp
  then show ?thesis by (simp add: s1(2))
qed

lemma kcut_init_priv:
  assumes "kcut_init cfg W s = Inr s'" and "kc_priv s False"
  shows "kc_priv s' (\<not> BRACKET_PRIV cfg)"
proof -
  obtain s1 where s1: "(if EVACUATE cfg then kcut_evacuate W True s else Inr s) = Inr s1"
    and s': "s' = (let s = s1\<lparr>kc_threshold := (case os_threshold W of Some n \<Rightarrow> n | None \<Rightarrow> 20)\<rparr>;
         s = kc_do K_lower (kc_do K_current_pid (kc_do K_elevate s))
       in if \<not> BRACKET_PRIV cfg then kc_do K_elevate s else s)"
    using assms(1) by (auto simp: kcut_init_def rbind_eq_Inr Let_def)
  have "kc_priv s1 False" using s1 kcut_evacuate_priv assms(2) by (auto split: if_splits)
  then show ?thesis by (simp add: s' Let_def)
qed

lemma kcut_cleanup_priv:
  assumes "kcut_cleanup cfg W s = Inr s'" and "kc_priv s (\<not> BRACKET_PRIV cfg)"
  shows "kc_priv s' False"
proof -
  obtain s1 where s1: "(if EVACUATE cfg then kcut_evacuate W False s else Inr s) = Inr s1"
    and s': "s' = (if \<not> BRACKET_PRIV cfg then kc_do K_lower s1 else s1)"
    using assms(1) by (auto simp: kcut_cleanup_def rbind_eq_Inr)
  have "kc_priv s1 False \<or> kc_priv s1 (\<not> BRACKET_PRIV cfg)"
    using s1 kcut_evacuate_priv assms(2) by (auto split: if_splits)
  then show ?thesis by (auto simp: s')
qed

interpretation kcut: balanced_session kc_rule kc_trace "\<not> BRACKET_PRIV cfg"
  "\<lambda>op s s'. \<exists>r. kcut_op cfg W op s = Inr (r, s')" "\<lambda>s. kcut_init cfg W kcut_start = Inr s"
  "\<lambda>s s'. kcut_cleanup cfg W s = Inr s'" for cfg W
  by unfold_locales (auto dest: kcut_op_priv kcut_init_priv kcut_cleanup_priv simp: kcut_start_def)

lemma kcut_ops_seq:
  "kcut_ops cfg W ops s = Inr s' \<Longrightarrow> op_seq (\<lambda>op s s'. \<exists>r. kcut_op cfg W op s = Inr (r, s')) ops s s'"
  by (induction ops arbitrary: s) (auto simp: rbind_eq_Inr)

section \<open>How often the plain system call is made\<close>

definition is_plain :: "kc_call \<Rightarrow> bool" where
  "is_plain c = (case c of Sys_read _ _ \<Rightarrow> True | Sys_write _ _ \<Rightarrow> True | _ \<Rightarrow> False)"

definition is_rd :: "kc_call \<Rightarrow> bool" where
  "is_rd c = (case c of Sys_read _ _ \<Rightarrow> True | Kcut_recvmsg _ _ \<Rightarrow> True | Ksys_read _ _ \<Rightarrow> True | _ \<Rightarrow> False)"

definition is_wr :: "kc_call \<Rightarrow> bool" where
  "is_wr c = (case c of Sys_write _ _ \<Rightarrow> True | Kcut_sendmsg _ _ \<Rightarrow> True | Ksys_write _ _ \<Rightarrow> True | _ \<Rightarrow> False)"

text \<open>
  \<open>sched T P cs n\<close>: of the calls \<open>P\<close> in the trace \<open>cs\<close>, those at the positions \<open>0, T + 1, 2 (T + 1), ...\<close> are
  plain, and the counter \<open>n\<close> says how many calls remain before the next of them.
\<close>

definition plain_every :: "nat \<Rightarrow> kc_call list \<Rightarrow> bool" where
  "plain_every T cs \<longleftrightarrow> (\<forall>i < length cs. is_plain (cs ! i) \<longleftrightarrow> i mod (T + 1) = 0)"

definition sched :: "nat \<Rightarrow> kc_call list \<Rightarrow> int \<Rightarrow> bool" where
  "sched T cs n \<longleftrightarrow> plain_every T cs \<and>
     n = (if length cs mod (T + 1) = 0 then 0 else int (T + 1 - length cs mod (T + 1)))"

lemma plain_every_snoc:
  "plain_every T (cs @ [c]) \<longleftrightarrow> plain_every T cs \<and> (is_plain c \<longleftrightarrow> length cs mod (T + 1) = 0)"
  unfolding plain_every_def by (auto simp: nth_append less_Suc_eq)

lemma sched_zero:
  assumes "sched T cs 0"
  shows "length cs mod (T + 1) = 0"
proof (rule ccontr)
  define m where "m = length cs mod (T + 1)"
  assume "length cs mod (T + 1) \<noteq> 0"
  then have "int (T + 1 - m) = 0" using assms by (simp add: sched_def m_def)
  moreover have "m < T + 1" by (simp add: m_def)
  ultimately show False by linarith
qed

lemma sched_plain:
  assumes "sched T cs 0" and "is_plain c"
  shows "sched T (cs @ [c]) (int T)"
proof -
  have 0: "length cs mod (T + 1) = 0" using assms(1) by (rule sched_zero)
  then have "Suc (length cs) mod (T + 1) = (if T = 0 then 0 else 1)" using mod_Suc[of "length cs" "T + 1"] by simp
  then show ?thesis
    using assms 0 unfolding sched_def plain_every_snoc by simp
qed

lemma sched_shortcut:
  assumes "sched T cs n" and "n \<noteq> 0" and "\<not> is_plain c"
  shows "sched T (cs @ [c]) (n - 1)" and "0 < n"
proof -
  define m where "m = length cs mod (T + 1)"
  have l: "m < T + 1" by (simp add: m_def)
  have 0: "m \<noteq> 0" and n: "n = int (T + 1 - m)" and p: "plain_every T cs"
    using assms(1,2) unfolding sched_def m_def[symmetric] by (simp_all split: if_splits)
  show "0 < n" using n l by linarith
  have "Suc (length cs) mod (T + 1) = (if Suc m = T + 1 then 0 else Suc m)"
    using mod_Suc[of "length cs" "T + 1"] by (simp add: m_def)
  moreover have "n - 1 = int (T + 1 - Suc m)" using n l by linarith
  ultimately show "sched T (cs @ [c]) (n - 1)"
    using p assms(3) 0 unfolding sched_def plain_every_snoc m_def[symmetric] by simp
qed

definition kc_sched :: "nat \<Rightarrow> kcut \<Rightarrow> bool" where
  "kc_sched T s \<longleftrightarrow> kc_threshold s = int T
     \<and> sched T (filter is_rd (kc_trace s)) (kc_rd_cnt s) \<and> sched T (filter is_wr (kc_trace s)) (kc_wr_cnt s)"

lemma kc_sched_reads:
  "kc_sched T s \<Longrightarrow> kc_trace s' = kc_trace s @ [c] \<Longrightarrow> is_rd c \<Longrightarrow> kc_threshold s' = kc_threshold s
    \<Longrightarrow> kc_wr_cnt s' = kc_wr_cnt s \<Longrightarrow> sched T (filter is_rd (kc_trace s) @ [c]) (kc_rd_cnt s') \<Longrightarrow> kc_sched T s'"
  by (auto simp: kc_sched_def is_rd_def is_wr_def split: kc_call.splits)

lemma kc_sched_writes:
  "kc_sched T s \<Longrightarrow> kc_trace s' = kc_trace s @ [c] \<Longrightarrow> is_wr c \<Longrightarrow> kc_threshold s' = kc_threshold s
    \<Longrightarrow> kc_rd_cnt s' = kc_rd_cnt s \<Longrightarrow> sched T (filter is_wr (kc_trace s) @ [c]) (kc_wr_cnt s') \<Longrightarrow> kc_sched T s'"
  by (auto simp: kc_sched_def is_rd_def is_wr_def split: kc_call.splits)

lemma kc_sched_other:
  "kc_sched T s \<Longrightarrow> \<not> is_rd c \<Longrightarrow> \<not> is_wr c \<Longrightarrow> kc_sched T (kc_do c s)"
  by (simp add: kc_sched_def kc_do_def)

lemma thunk_kinds:
  "is_rd (kcut_tcp_recvmsg_thunk cfg fd n)" "\<not> is_plain (kcut_tcp_recvmsg_thunk cfg fd n)"
  "is_wr (kcut_tcp_sendmsg_thunk cfg fd n)" "\<not> is_plain (kcut_tcp_sendmsg_thunk cfg fd n)"
  by (simp_all add: kcut_tcp_recvmsg_thunk_def kcut_tcp_sendmsg_thunk_def is_rd_def is_wr_def is_plain_def)

text \<open>
  What the calls need of the surroundings: the stack offset can be looked up where a call switches the
  stack, and the processor is known and granted where the program takes one.
\<close>

definition kc_os_ok :: "kcut_cfg \<Rightarrow> kc_os \<Rightarrow> bool" where
  "kc_os_ok cfg W \<longleftrightarrow>
     (BRACKET_STACK cfg \<or> EVACUATE cfg \<longrightarrow> os_tos W \<noteq> None)
     \<and> (EVACUATE cfg \<longrightarrow> (\<exists>c. os_getcpu W = Some c \<and> (\<forall>tr. os_ret W tr (K_acquire_cpu c) = 0)))"

lemma stack_switch_ok:
  assumes "os_tos W \<noteq> None"
  shows "\<exists>v. stack_switch_kcall W c s = Inr (os_ret W (kc_trace s) c, kc_do c (s\<lparr>kc_tos := v\<rparr>))"
proof (cases "kc_tos s = 0")
  case True
  then show ?thesis
    using assms by (auto simp: stack_switch_kcall_def kcut_tos_offset_def kcut_resolve_sym_def kc_call_in_def)
next
  case False
  then have "stack_switch_kcall W c s = Inr (os_ret W (kc_trace s) c, kc_do c (s\<lparr>kc_tos := kc_tos s\<rparr>))"
    by (simp add: stack_switch_kcall_def kcut_tos_offset_def kc_call_in_def)
  then show ?thesis by blast
qed

lemma kcut_enter_ok:
  assumes "kc_os_ok cfg W" and "\<not> BRACKET_PRIV cfg"
  shows "\<exists>v. kcut_enter cfg W c s = Inr (to_int (os_ret W (kc_trace s) c), kc_do c (s\<lparr>kc_tos := v\<rparr>))"
proof (cases "BRACKET_STACK cfg")
  case True
  then show ?thesis
    using assms stack_switch_ok[of W c s]
    by (auto simp: kcut_enter_def ELEVATE_ME_def LOWER_ME_def kc_os_ok_def)
next
  case False
  then have "kcut_enter cfg W c s = Inr (to_int (os_ret W (kc_trace s) c), kc_do c (s\<lparr>kc_tos := kc_tos s\<rparr>))"
    using assms by (simp add: kcut_enter_def ELEVATE_ME_def LOWER_ME_def kc_call_in_def)
  then show ?thesis by blast
qed

lemma int_dec_pos: "0 < n \<Longrightarrow> int_dec n = Inr (n - 1)"
  by (simp add: int_dec_def INT_MIN_def)

lemma kcut_tcp_read_sched:
  assumes ok: "kc_os_ok cfg W" and b: "\<not> BRACKET_PRIV cfg" and s: "kc_sched T s"
  shows "\<exists>r s'. kcut_tcp_read cfg W fd n s = Inr (r, s') \<and> kc_sched T s'"
proof (cases "kc_rd_cnt s = 0")
  case True
  let ?c = "Sys_read fd n"
  have "sched T (filter is_rd (kc_trace s) @ [?c]) (int T)"
    using s True by (intro sched_plain) (auto simp: kc_sched_def is_plain_def)
  then have "kc_sched T ((kc_do ?c s)\<lparr>kc_rd_cnt := kc_threshold (kc_do ?c s)\<rparr>)"
    using s by - (rule kc_sched_reads[OF s, where c="?c"], simp_all add: kc_do_def is_rd_def kc_sched_def)
  then show ?thesis using b True by (simp add: kcut_tcp_read_def kc_call_in_def)
next
  case False
  let ?c = "kcut_tcp_recvmsg_thunk cfg fd n"
  have sc: "sched T (filter is_rd (kc_trace s) @ [?c]) (kc_rd_cnt s - 1)" "0 < kc_rd_cnt s"
    using sched_shortcut[OF _ False thunk_kinds(2)] s[unfolded kc_sched_def] by blast+
  obtain v where v: "kcut_enter cfg W ?c s = Inr (to_int (os_ret W (kc_trace s) ?c), kc_do ?c (s\<lparr>kc_tos := v\<rparr>))"
    using kcut_enter_ok[OF ok b] by blast
  have "kc_sched T ((kc_do ?c (s\<lparr>kc_tos := v\<rparr>))\<lparr>kc_rd_cnt := kc_rd_cnt s - 1\<rparr>)"
    using sc(1) by - (rule kc_sched_reads[OF s, where c="?c"], simp_all add: kc_do_def thunk_kinds)
  then show ?thesis
    using b False v int_dec_pos[OF sc(2)] by (simp add: kcut_tcp_read_def kc_do_def)
qed

lemma kcut_tcp_write_sched:
  assumes ok: "kc_os_ok cfg W" and b: "\<not> BRACKET_PRIV cfg" and s: "kc_sched T s"
  shows "\<exists>r s'. kcut_tcp_write cfg W fd n s = Inr (r, s') \<and> kc_sched T s'"
proof (cases "kc_wr_cnt s = 0")
  case True
  let ?c = "Sys_write fd n"
  have "sched T (filter is_wr (kc_trace s) @ [?c]) (int T)"
    using s True by (intro sched_plain) (auto simp: kc_sched_def is_plain_def)
  then have "kc_sched T ((kc_do ?c s)\<lparr>kc_wr_cnt := kc_threshold (kc_do ?c s)\<rparr>)"
    using s by - (rule kc_sched_writes[OF s, where c="?c"], simp_all add: kc_do_def is_wr_def kc_sched_def)
  then show ?thesis using b True by (simp add: kcut_tcp_write_def kc_call_in_def)
next
  case False
  let ?c = "kcut_tcp_sendmsg_thunk cfg fd n"
  have sc: "sched T (filter is_wr (kc_trace s) @ [?c]) (kc_wr_cnt s - 1)" "0 < kc_wr_cnt s"
    using sched_shortcut[OF _ False thunk_kinds(4)] s[unfolded kc_sched_def] by blast+
  obtain v where v: "kcut_enter cfg W ?c s = Inr (to_int (os_ret W (kc_trace s) ?c), kc_do ?c (s\<lparr>kc_tos := v\<rparr>))"
    using kcut_enter_ok[OF ok b] by blast
  have "kc_sched T ((kc_do ?c (s\<lparr>kc_tos := v\<rparr>))\<lparr>kc_wr_cnt := kc_wr_cnt s - 1\<rparr>)"
    using sc(1) by - (rule kc_sched_writes[OF s, where c="?c"], simp_all add: kc_do_def thunk_kinds)
  then show ?thesis
    using b False v int_dec_pos[OF sc(2)] by (simp add: kcut_tcp_write_def kc_do_def)
qed

lemma kcut_ops_sched:
  assumes "kc_os_ok cfg W" and "\<not> BRACKET_PRIV cfg" and "kc_sched T s"
  shows "\<exists>s'. kcut_ops cfg W ops s = Inr s' \<and> kc_sched T s'"
  using assms(3)
proof (induction ops arbitrary: s)
  case (Cons op ops)
  have "\<exists>r s'. kcut_op cfg W op s = Inr (r, s') \<and> kc_sched T s'"
    using kcut_tcp_read_sched[OF assms(1,2) Cons.prems] kcut_tcp_write_sched[OF assms(1,2) Cons.prems]
    by (cases op) (simp_all add: kcut_op_def)
  then obtain r s' where "kcut_op cfg W op s = Inr (r, s')" "kc_sched T s'" by blast
  then show ?case using Cons.IH by simp
qed simp

lemma kcut_evacuate_ok:
  assumes "kc_os_ok cfg W" and "EVACUATE cfg"
  shows "\<exists>v c. kcut_evacuate W acq s =
      Inr (kc_do K_lower (kc_do (if acq then K_acquire_cpu c else K_release_cpu c) ((kc_do K_elevate s)\<lparr>kc_tos := v\<rparr>)))"
proof -
  obtain cpu where c: "os_getcpu W = Some cpu" "\<And>tr. os_ret W tr (K_acquire_cpu cpu) = 0" and o: "os_tos W \<noteq> None"
    using assms by (auto simp: kc_os_ok_def)
  obtain v where "stack_switch_kcall W (if acq then K_acquire_cpu cpu else K_release_cpu cpu) (kc_do K_elevate s) =
      Inr (os_ret W (kc_trace (kc_do K_elevate s)) (if acq then K_acquire_cpu cpu else K_release_cpu cpu),
           kc_do (if acq then K_acquire_cpu cpu else K_release_cpu cpu) ((kc_do K_elevate s)\<lparr>kc_tos := v\<rparr>))"
    using stack_switch_ok[OF o] by blast
  then show ?thesis using c by (cases acq) (auto simp: kcut_evacuate_def to_int_def)
qed

lemma kcut_evacuate_fields:
  assumes "kc_os_ok cfg W" and "EVACUATE cfg"
  shows "\<exists>s'. kcut_evacuate W acq s = Inr s' \<and> kc_threshold s' = kc_threshold s
    \<and> kc_rd_cnt s' = kc_rd_cnt s \<and> kc_wr_cnt s' = kc_wr_cnt s
    \<and> filter is_rd (kc_trace s') = filter is_rd (kc_trace s) \<and> filter is_wr (kc_trace s') = filter is_wr (kc_trace s)"
  using kcut_evacuate_ok[OF assms, of acq s] by (auto simp: kc_do_def is_rd_def is_wr_def split: if_splits)

lemma kcut_init_sched:
  assumes "kc_os_ok cfg W" and "(case os_threshold W of Some n \<Rightarrow> n | None \<Rightarrow> 20) = int T"
  shows "\<exists>s. kcut_init cfg W kcut_start = Inr s \<and> kc_sched T s"
proof -
  obtain s1 where s1: "(if EVACUATE cfg then kcut_evacuate W True kcut_start else Inr kcut_start) = Inr s1"
    and f: "kc_rd_cnt s1 = 0" "kc_wr_cnt s1 = 0" "filter is_rd (kc_trace s1) = []" "filter is_wr (kc_trace s1) = []"
    using kcut_evacuate_fields[OF assms(1), of True kcut_start] by (cases "EVACUATE cfg") (auto simp: kcut_start_def)
  have "kc_sched T (s1\<lparr>kc_threshold := int T\<rparr>)"
    using f by (simp add: kc_sched_def sched_def plain_every_def)
  then have "kc_sched T (kc_do K_lower (kc_do K_current_pid (kc_do K_elevate (s1\<lparr>kc_threshold := int T\<rparr>))))"
    by (intro kc_sched_other) (simp_all add: is_rd_def is_wr_def)
  then show ?thesis
    using s1 kc_sched_other[where c=K_elevate] assms(2) by (simp add: kcut_init_def Let_def is_rd_def is_wr_def)
qed

lemma kcut_cleanup_sched:
  assumes "kc_os_ok cfg W" and "kc_sched T s"
  shows "\<exists>s'. kcut_cleanup cfg W s = Inr s' \<and> kc_sched T s'"
proof -
  obtain s1 where "(if EVACUATE cfg then kcut_evacuate W False s else Inr s) = Inr s1" "kc_sched T s1"
    using kcut_evacuate_fields[OF assms(1), of False s] assms(2) by (cases "EVACUATE cfg") (auto simp: kc_sched_def)
  then show ?thesis
    using kc_sched_other[where c=K_lower] by (simp add: kcut_cleanup_def is_rd_def is_wr_def)
qed

section \<open>Properties\<close>

text \<open>
  C10. Every run of a program that returns, whatever the build switches, the kernel's answers and the
  order of its reads and writes, has called functions of the kernel only with its privilege raised and has
  its privilege lowered at the end.\<close>

theorem kcut_session_privilege:
  assumes "kcut_session cfg W ops = Inr s"
  shows "priv_run kc_rule False (kc_trace s) = Some False"
proof -
  obtain s1 s2 where "kcut_init cfg W kcut_start = Inr s1" "kcut_ops cfg W ops s1 = Inr s2" "kcut_cleanup cfg W s2 = Inr s"
    using assms by (auto simp: kcut_session_def rbind_eq_Inr)
  then show ?thesis using kcut.session_ends_lowered[OF _ kcut_ops_seq] by blast
qed

definition demo_cfg :: kcut_cfg where
  "demo_cfg = \<lparr>BRACKET_PRIV = False, BRACKET_STACK = True, SHORTCUT = True, EVACUATE = True\<rparr>"

definition demo_os :: kc_os where
  "demo_os = \<lparr>os_ret = (\<lambda>_ _. 0), os_tos = Some 0x20, os_getcpu = Some 3, os_threshold = Some 1\<rparr>"

lemma demo_os_ok: "kc_os_ok demo_cfg demo_os"
  by (simp add: kc_os_ok_def demo_cfg_def demo_os_def)

theorem kcut_session_privilege_witness:
  "\<exists>s. kcut_session demo_cfg demo_os [Op_read 5 64, Op_write 5 64, Op_read 5 64] = Inr s
     \<and> priv_run kc_rule False (kc_trace s) = Some False"
proof -
  have "isl (kcut_session demo_cfg demo_os [Op_read 5 64, Op_write 5 64, Op_read 5 64]) = False"
    by code_simp
  then obtain s where "kcut_session demo_cfg demo_os [Op_read 5 64, Op_write 5 64, Op_read 5 64] = Inr s"
    by (cases "kcut_session demo_cfg demo_os [Op_read 5 64, Op_write 5 64, Op_read 5 64]") auto
  then show ?thesis using kcut_session_privilege by blast
qed

text \<open>
  C11. Without bracketing and with a threshold \<open>T\<close> that is not negative, every run succeeds when the
  surroundings do, no counter overflows, and of the reads (and likewise of the writes, each counted apart)
  exactly those at the positions \<open>0\<close>, \<open>T + 1\<close>, \<open>2 (T + 1)\<close>, ... are plain system calls; all others go
  straight into the kernel.\<close>

theorem kcut_session_schedule:
  assumes "kc_os_ok cfg W" and "\<not> BRACKET_PRIV cfg"
    and "(case os_threshold W of Some n \<Rightarrow> n | None \<Rightarrow> 20) = int T"
  shows "\<exists>s. kcut_session cfg W ops = Inr s
    \<and> plain_every T (filter is_rd (kc_trace s)) \<and> plain_every T (filter is_wr (kc_trace s))"
proof -
  obtain s1 where s1: "kcut_init cfg W kcut_start = Inr s1" "kc_sched T s1"
    using kcut_init_sched[OF assms(1,3)] by blast
  obtain s2 where s2: "kcut_ops cfg W ops s1 = Inr s2" "kc_sched T s2"
    using kcut_ops_sched[OF assms(1,2) s1(2)] by blast
  show ?thesis
    using s1 s2 kcut_cleanup_sched[OF assms(1) s2(2)] by (auto simp: kcut_session_def kc_sched_def sched_def)
qed

theorem kcut_session_schedule_witness:
  "\<exists>s. kcut_session demo_cfg demo_os [Op_read 5 64, Op_write 5 64, Op_read 5 64] = Inr s
    \<and> plain_every 1 (filter is_rd (kc_trace s)) \<and> plain_every 1 (filter is_wr (kc_trace s))"
  using kcut_session_schedule[OF demo_os_ok, of 1 "[Op_read 5 64, Op_write 5 64, Op_read 5 64]"]
  by (simp add: demo_cfg_def demo_os_def)

end
