(* ===== verification/Kcut_Threads.thy ===== *)
theory Kcut_Threads
  imports Prelude
begin

text \<open>
  The thread test of \<open>kcuttest/main.c\<close>: the main thread creates \<open>num_spawns\<close> threads and joins them; each thread
  waits at a barrier, increments a shared counter \<open>num_increments\<close> times under a lock and waits at the
  barrier again.

  The threads are a transition system: one step is one action of one thread, in any order. \<open>counter++\<close> is a load
  and a store of an \<open>unsigned int\<close>. The barrier lets everybody go when the number of threads it was initialised with has arrived. What a
  thread touches in between (its stack and the heaps) does not involve the shared state.
\<close>

section \<open>State and steps\<close>

datatype pc =
    Start
  | Wait1
  | Loop nat
  | Locked nat
  | Loaded nat u32
  | Stored nat
  | Wait2
  | Done

datatype main_pc = Creating | Joining nat | Undefined | Joined

record kt =
  kt_pcs :: "pc list"
  kt_main :: main_pc
  kt_mutex :: "nat option"
  kt_arrived :: nat
  kt_counter :: u32

definition kt_init :: kt where
  "kt_init = \<lparr>kt_pcs = [], kt_main = Creating, kt_mutex = None, kt_arrived = 0, kt_counter = 0\<rparr>"

definition goto :: "nat \<Rightarrow> pc \<Rightarrow> kt \<Rightarrow> kt" where
  "goto t p s = s\<lparr>kt_pcs := (kt_pcs s)[t := p]\<rparr>"

text \<open>\<open>pthread_barrier_wait\<close> of thread \<open>t\<close>: it waits in \<open>w\<close> and goes on in \<open>r\<close>.\<close>

definition barrier_wait :: "nat \<Rightarrow> nat \<Rightarrow> pc \<Rightarrow> pc \<Rightarrow> kt \<Rightarrow> kt" where
  "barrier_wait N t w r s =
     (let s = goto t w s
      in if Suc (kt_arrived s) = N
         then s\<lparr>kt_pcs := map (\<lambda>p. if p = w then r else p) (kt_pcs s), kt_arrived := 0\<rparr>
         else s\<lparr>kt_arrived := Suc (kt_arrived s)\<rparr>)"

text \<open>The body of \<open>threadfn\<close> for \<open>inc\<close> increments.\<close>

inductive threadfn :: "nat \<Rightarrow> nat \<Rightarrow> nat \<Rightarrow> kt \<Rightarrow> kt \<Rightarrow> bool" for N inc t where
  first_wait: "t < length (kt_pcs s) \<Longrightarrow> kt_pcs s ! t = Start \<Longrightarrow> threadfn N inc t s (barrier_wait N t Wait1 (Loop 0) s)"
| lock: "t < length (kt_pcs s) \<Longrightarrow> kt_pcs s ! t = Loop i \<Longrightarrow> i < inc \<Longrightarrow> kt_mutex s = None \<Longrightarrow>
    threadfn N inc t s ((goto t (Locked i) s)\<lparr>kt_mutex := Some t\<rparr>)"
| load: "t < length (kt_pcs s) \<Longrightarrow> kt_pcs s ! t = Locked i \<Longrightarrow> threadfn N inc t s (goto t (Loaded i (kt_counter s)) s)"
| store: "t < length (kt_pcs s) \<Longrightarrow> kt_pcs s ! t = Loaded i v \<Longrightarrow>
    threadfn N inc t s ((goto t (Stored i) s)\<lparr>kt_counter := v + 1\<rparr>)"
| unlock: "t < length (kt_pcs s) \<Longrightarrow> kt_pcs s ! t = Stored i \<Longrightarrow>
    threadfn N inc t s ((goto t (Loop (Suc i)) s)\<lparr>kt_mutex := None\<rparr>)"
| second_wait: "t < length (kt_pcs s) \<Longrightarrow> kt_pcs s ! t = Loop inc \<Longrightarrow> threadfn N inc t s (barrier_wait N t Wait2 Done s)"

text \<open>
  The main thread. When \<open>pthread_create\<close> fails it stops creating but joins all \<open>N\<close> handles; joining a
  handle that was never set is undefined.
\<close>

inductive spawn_join :: "nat \<Rightarrow> kt \<Rightarrow> kt \<Rightarrow> bool" for N where
  create: "kt_main s = Creating \<Longrightarrow> length (kt_pcs s) < N \<Longrightarrow> spawn_join N s (s\<lparr>kt_pcs := kt_pcs s @ [Start]\<rparr>)"
| create_fails: "kt_main s = Creating \<Longrightarrow> length (kt_pcs s) < N \<Longrightarrow> spawn_join N s (s\<lparr>kt_main := Joining 0\<rparr>)"
| created: "kt_main s = Creating \<Longrightarrow> length (kt_pcs s) = N \<Longrightarrow> spawn_join N s (s\<lparr>kt_main := Joining 0\<rparr>)"
| join: "kt_main s = Joining j \<Longrightarrow> j < N \<Longrightarrow> j < length (kt_pcs s) \<Longrightarrow> kt_pcs s ! j = Done \<Longrightarrow>
    spawn_join N s (s\<lparr>kt_main := Joining (Suc j)\<rparr>)"
| join_unset: "kt_main s = Joining j \<Longrightarrow> j < N \<Longrightarrow> length (kt_pcs s) \<le> j \<Longrightarrow> spawn_join N s (s\<lparr>kt_main := Undefined\<rparr>)"
| joined: "kt_main s = Joining j \<Longrightarrow> \<not> j < N \<Longrightarrow> spawn_join N s (s\<lparr>kt_main := Joined\<rparr>)"

definition kt_step :: "nat \<Rightarrow> nat \<Rightarrow> kt \<Rightarrow> kt \<Rightarrow> bool" where
  "kt_step N inc s s' \<longleftrightarrow> spawn_join N s s' \<or> (\<exists>t. threadfn N inc t s s')"

text \<open>The states after \<open>k\<close> steps.\<close>

inductive kt_reach :: "nat \<Rightarrow> nat \<Rightarrow> nat \<Rightarrow> kt \<Rightarrow> bool" for N inc where
  reach_init: "kt_reach N inc 0 kt_init"
| reach_step: "kt_reach N inc k s \<Longrightarrow> kt_step N inc s s' \<Longrightarrow> kt_reach N inc (Suc k) s'"

section \<open>The lock and the counter\<close>

definition holds :: "pc \<Rightarrow> bool" where
  "holds p = (case p of Locked _ \<Rightarrow> True | Loaded _ _ \<Rightarrow> True | Stored _ \<Rightarrow> True | _ \<Rightarrow> False)"

definition count_of :: "nat \<Rightarrow> pc \<Rightarrow> nat" where
  "count_of inc p = (case p of
     Start \<Rightarrow> 0 | Wait1 \<Rightarrow> 0 | Loop i \<Rightarrow> i | Locked i \<Rightarrow> i | Loaded i _ \<Rightarrow> i | Stored i \<Rightarrow> Suc i | Wait2 \<Rightarrow> inc | Done \<Rightarrow> inc)"

lemma holds_simps [simp]:
  "\<not> holds Start" "\<not> holds Wait1" "\<not> holds (Loop i)" "holds (Locked i)" "holds (Loaded i v)" "holds (Stored i)"
  "\<not> holds Wait2" "\<not> holds Done"
  by (simp_all add: holds_def)

lemma count_of_simps [simp]:
  "count_of inc Start = 0" "count_of inc Wait1 = 0" "count_of inc (Loop i) = i" "count_of inc (Locked i) = i"
  "count_of inc (Loaded i v) = i" "count_of inc (Stored i) = Suc i" "count_of inc Wait2 = inc" "count_of inc Done = inc"
  by (simp_all add: count_of_def)

definition kt_total :: "nat \<Rightarrow> kt \<Rightarrow> nat" where
  "kt_total inc s = sum_list (map (count_of inc) (kt_pcs s))"

text \<open>One thread at most holds the lock; what it has loaded is still the counter's value.\<close>

definition lock_inv :: "nat \<Rightarrow> kt \<Rightarrow> bool" where
  "lock_inv inc s \<longleftrightarrow>
     (\<forall>t < length (kt_pcs s). holds (kt_pcs s ! t) \<longleftrightarrow> kt_mutex s = Some t) \<and>
     (\<forall>t < length (kt_pcs s). \<forall>i v. kt_pcs s ! t = Loaded i v \<longrightarrow> v = kt_counter s) \<and>
     kt_counter s = of_nat (kt_total inc s) \<and> (\<forall>t. kt_mutex s = Some t \<longrightarrow> t < length (kt_pcs s))"

lemma sum_list_update_nat:
  "t < length xs \<Longrightarrow> sum_list (map f (xs[t := y])) + f (xs ! t) = sum_list (map f xs) + (f y :: nat)"
  by (induction xs arbitrary: t) (auto split: nat.split simp: nth_Cons')

lemma kt_total_goto:
  "t < length (kt_pcs s) \<Longrightarrow> kt_total inc (goto t p s) + count_of inc (kt_pcs s ! t) = kt_total inc s + count_of inc p"
  unfolding kt_total_def goto_def by (simp add: sum_list_update_nat)

lemma kt_total_update [simp]:
  "kt_total inc (s\<lparr>kt_mutex := m\<rparr>) = kt_total inc s" "kt_total inc (s\<lparr>kt_counter := c\<rparr>) = kt_total inc s"
  "kt_total inc (s\<lparr>kt_arrived := a\<rparr>) = kt_total inc s" "kt_total inc (s\<lparr>kt_main := x\<rparr>) = kt_total inc s"
  by (simp_all add: kt_total_def)

lemma barrier_wait_pcs:
  "kt_pcs (barrier_wait N t w r s) =
     (if Suc (kt_arrived s) = N then map (\<lambda>p. if p = w then r else p) ((kt_pcs s)[t := w]) else (kt_pcs s)[t := w])"
  "kt_counter (barrier_wait N t w r s) = kt_counter s" "kt_mutex (barrier_wait N t w r s) = kt_mutex s"
  "kt_main (barrier_wait N t w r s) = kt_main s"
  "kt_arrived (barrier_wait N t w r s) = (if Suc (kt_arrived s) = N then 0 else Suc (kt_arrived s))"
  by (simp_all add: barrier_wait_def goto_def Let_def)

lemma barrier_wait_total:
  assumes "t < length (kt_pcs s)" and "count_of inc (kt_pcs s ! t) = count_of inc w" and "count_of inc r = count_of inc w"
  shows "kt_total inc (barrier_wait N t w r s) = kt_total inc s"
proof -
  have "map (count_of inc) (map (\<lambda>p. if p = w then r else p) ps) = map (count_of inc) ps" for ps
    using assms(3) by simp
  then show ?thesis
    using kt_total_goto[OF assms(1), of inc w] assms(2) unfolding kt_total_def barrier_wait_pcs
    by (simp only: goto_def kt.simps if_cancel split: if_split) simp
qed

lemma barrier_wait_lock:
  assumes "lock_inv inc s" and "t < length (kt_pcs s)" and "count_of inc (kt_pcs s ! t) = count_of inc w"
    and "count_of inc r = count_of inc w" and "\<not> holds (kt_pcs s ! t)" "\<not> holds w" "\<not> holds r"
  shows "lock_inv inc (barrier_wait N t w r s)"
proof -
  let ?s = "barrier_wait N t w r s"
  have l: "length (kt_pcs ?s) = length (kt_pcs s)" by (simp add: barrier_wait_pcs)
  have n: "kt_pcs ?s ! u = kt_pcs s ! u \<or> \<not> holds (kt_pcs ?s ! u) \<and> \<not> holds (kt_pcs s ! u)" if "u < length (kt_pcs s)" for u
    using that assms(2,5-7) by (auto simp: barrier_wait_pcs nth_list_update)
  have h: "holds (kt_pcs ?s ! u) = holds (kt_pcs s ! u)" if "u < length (kt_pcs s)" for u using n[OF that] by auto
  have "v = kt_counter s" if "u < length (kt_pcs s)" "kt_pcs ?s ! u = Loaded i v" for u i v
  proof -
    have "kt_pcs s ! u = Loaded i v" using n[OF that(1)] that(2) by auto
    then show ?thesis using assms(1) that(1) unfolding lock_inv_def by blast
  qed
  then show ?thesis
    using assms(1) h barrier_wait_total[OF assms(2-4)] unfolding lock_inv_def l
    by (simp add: barrier_wait_pcs(2,3))
qed

lemma threadfn_lock:
  assumes "threadfn N inc t s s'" and "lock_inv inc s"
  shows "lock_inv inc s'"
  using assms
proof cases
  case first_wait
  then show ?thesis using assms(2) by (auto intro: barrier_wait_lock)
next
  case second_wait
  then show ?thesis using assms(2) by (auto intro: barrier_wait_lock)
next
  case (lock i)
  then show ?thesis using assms(2) kt_total_goto[of t s inc "Locked i"]
    by (auto simp: lock_inv_def goto_def nth_list_update)
next
  case (load i)
  then show ?thesis using assms(2) kt_total_goto[of t s inc "Loaded i (kt_counter s)"]
    by (auto simp: lock_inv_def goto_def nth_list_update)
next
  case (store i v)
  have m: "kt_mutex s = Some t" "v = kt_counter s" using store assms(2) by (auto simp: lock_inv_def)
  have "kt_pcs s ! u \<noteq> Loaded j w" if "u < length (kt_pcs s)" "u \<noteq> t" for u j w
    using that assms(2) m by (auto simp: lock_inv_def)
  then show ?thesis using store m assms(2) kt_total_goto[of t s inc "Stored i"]
    by (auto simp: lock_inv_def goto_def nth_list_update)
next
  case (unlock i)
  have "kt_mutex s = Some t" using unlock assms(2) by (auto simp: lock_inv_def)
  then show ?thesis using unlock assms(2) kt_total_goto[of t s inc "Loop (Suc i)"]
    by (auto simp: lock_inv_def goto_def nth_list_update)
qed

lemma spawn_join_lock: "spawn_join N s s' \<Longrightarrow> lock_inv inc s \<Longrightarrow> lock_inv inc s'"
  by (induction rule: spawn_join.induct) (auto simp: lock_inv_def kt_total_def nth_append less_Suc_eq)

section \<open>The barrier\<close>

definition waits :: "pc \<Rightarrow> bool" where
  "waits p \<longleftrightarrow> p = Wait1 \<or> p = Wait2"

definition running :: "nat \<Rightarrow> pc \<Rightarrow> bool" where
  "running inc p = (case p of
     Loop i \<Rightarrow> i \<le> inc | Locked i \<Rightarrow> i < inc | Loaded i _ \<Rightarrow> i < inc | Stored i \<Rightarrow> i < inc | Wait2 \<Rightarrow> True | _ \<Rightarrow> False)"

text \<open>
  The threads go through the test together: before the first barrier; between the two, once all have been
  created; after the second. The barrier counts those that wait.
\<close>

definition before :: "nat \<Rightarrow> kt \<Rightarrow> bool" where
  "before N s \<longleftrightarrow> (\<forall>p \<in> set (kt_pcs s). p = Start \<or> p = Wait1) \<and> (0 < N \<longrightarrow> kt_arrived s < N)"

definition between :: "nat \<Rightarrow> nat \<Rightarrow> kt \<Rightarrow> bool" where
  "between N inc s \<longleftrightarrow> length (kt_pcs s) = N \<and> (\<forall>p \<in> set (kt_pcs s). running inc p) \<and> (0 < N \<longrightarrow> kt_arrived s < N)"

definition after :: "nat \<Rightarrow> kt \<Rightarrow> bool" where
  "after N s \<longleftrightarrow> length (kt_pcs s) = N \<and> (\<forall>p \<in> set (kt_pcs s). p = Done)"

definition barrier_inv :: "nat \<Rightarrow> nat \<Rightarrow> kt \<Rightarrow> bool" where
  "barrier_inv N inc s \<longleftrightarrow> length (kt_pcs s) \<le> N \<and> kt_arrived s = length (filter waits (kt_pcs s)) \<and>
     (before N s \<or> between N inc s \<or> after N s)"

lemma phase_of_thread:
  assumes "barrier_inv N inc s" and "t < length (kt_pcs s)"
  obtains "before N s" "kt_pcs s ! t = Start \<or> kt_pcs s ! t = Wait1"
  | "between N inc s" "running inc (kt_pcs s ! t)"
  | "after N s" "kt_pcs s ! t = Done"
  using assms nth_mem[OF assms(2)] unfolding barrier_inv_def before_def between_def after_def by blast

lemma length_filter_update:
  "t < length xs \<Longrightarrow> \<not> P (xs ! t) \<Longrightarrow> P y \<Longrightarrow> length (filter P (xs[t := y])) = Suc (length (filter P xs))"
  "t < length xs \<Longrightarrow> \<not> P (xs ! t) \<Longrightarrow> \<not> P y \<Longrightarrow> filter P (xs[t := y]) = filter P xs"
  by (induction xs arbitrary: t) (auto simp: nth_Cons' split: nat.split)

lemma all_if_length_filter: "length xs \<le> length (filter P xs) \<Longrightarrow> x \<in> set xs \<Longrightarrow> P x"
  by (metis filter_id_conv length_filter_le le_antisym length_filter_less not_less)

text \<open>Everybody leaves the barrier in the same step.\<close>

lemma barrier_opens:
  assumes "length (kt_pcs s) \<le> N" and "kt_arrived s = length (filter waits (kt_pcs s))" and "Suc (kt_arrived s) = N"
    and "t < length (kt_pcs s)" and "\<not> waits (kt_pcs s ! t)" and "waits w"
    and only: "\<And>p. p \<in> set (kt_pcs s) \<Longrightarrow> waits p \<Longrightarrow> p = w"
  shows "length (kt_pcs s) = N" and "kt_pcs (barrier_wait N t w r s) = replicate N r"
proof -
  let ?ps = "(kt_pcs s)[t := w]"
  have f: "length (filter waits ?ps) = N"
    using length_filter_update(1)[OF assms(4-6)] assms(2,3) by simp
  then show l: "length (kt_pcs s) = N" using length_filter_le[of waits ?ps] assms(1) by simp
  have "p = w" if "p \<in> set ?ps" for p
    using all_if_length_filter[of ?ps waits p] that f l only set_update_subset_insert[of "kt_pcs s" t w] by auto
  then have "\<forall>x \<in> set (map (\<lambda>p. if p = w then r else p) ?ps). x = r" by auto
  then have "map (\<lambda>p. if p = w then r else p) ?ps = replicate (length ?ps) r"
    by (metis (no_types, lifting) length_map replicate_eqI)
  then show "kt_pcs (barrier_wait N t w r s) = replicate N r" using l assms(3) by (simp add: barrier_wait_pcs)
qed

lemma before_wait:
  assumes "barrier_inv N inc s" and t: "t < length (kt_pcs s)" "kt_pcs s ! t = Start"
  shows "barrier_inv N inc (barrier_wait N t Wait1 (Loop 0) s)"
proof -
  have b: "before N s" using t(2) by (cases rule: phase_of_thread[OF assms(1,2)]) (auto simp: running_def)
  show ?thesis
  proof (cases "Suc (kt_arrived s) = N")
    case True
    have l: "length (kt_pcs s) \<le> N" "kt_arrived s = length (filter waits (kt_pcs s))" using assms(1) by (simp_all add: barrier_inv_def)
    have w: "\<not> waits (kt_pcs s ! t)" "waits Wait1" using t(2) by (simp_all add: waits_def)
    have only: "p = Wait1" if "p \<in> set (kt_pcs s)" "waits p" for p using that b by (auto simp: before_def waits_def)
    have "kt_pcs (barrier_wait N t Wait1 (Loop 0) s) = replicate N (Loop 0)"
      by (rule barrier_opens(2)[OF l True t(1) w only])
    then show ?thesis using True by (auto simp: barrier_inv_def between_def running_def barrier_wait_pcs(5) waits_def)
  next
    case False
    have "length (filter waits ((kt_pcs s)[t := Wait1])) = Suc (kt_arrived s)"
      using length_filter_update(1)[OF t(1), where P=waits and y=Wait1] t(2) assms(1) by (simp add: barrier_inv_def waits_def)
    moreover have "\<forall>p \<in> set ((kt_pcs s)[t := Wait1]). p = Start \<or> p = Wait1"
      using b set_update_subset_insert[of "kt_pcs s" t Wait1] by (auto simp: before_def)
    ultimately show ?thesis using assms b False by (auto simp: barrier_inv_def before_def barrier_wait_pcs)
  qed
qed

lemma between_wait:
  assumes "barrier_inv N inc s" and t: "t < length (kt_pcs s)" "kt_pcs s ! t = Loop inc"
  shows "barrier_inv N inc (barrier_wait N t Wait2 Done s)"
proof -
  have b: "between N inc s" using t(2) by (cases rule: phase_of_thread[OF assms(1,2)]) (auto simp: running_def)
  have n: "\<not> waits (kt_pcs s ! t)" using t(2) by (simp add: waits_def)
  show ?thesis
  proof (cases "Suc (kt_arrived s) = N")
    case True
    have l: "length (kt_pcs s) \<le> N" "kt_arrived s = length (filter waits (kt_pcs s))" using assms(1) by (simp_all add: barrier_inv_def)
    have only: "p = Wait2" if "p \<in> set (kt_pcs s)" "waits p" for p using that b by (auto simp: between_def waits_def running_def)
    have "kt_pcs (barrier_wait N t Wait2 Done s) = replicate N Done"
      by (rule barrier_opens(2)[OF l True t(1) n _ only]) (simp_all add: waits_def)
    then show ?thesis using True by (auto simp: barrier_inv_def after_def barrier_wait_pcs(5) waits_def)
  next
    case False
    have "length (filter waits ((kt_pcs s)[t := Wait2])) = Suc (kt_arrived s)"
      using length_filter_update(1)[OF t(1), where P=waits and y=Wait2] n assms(1) by (simp add: barrier_inv_def waits_def)
    moreover have "\<forall>p \<in> set ((kt_pcs s)[t := Wait2]). running inc p"
      using b set_update_subset_insert[of "kt_pcs s" t Wait2] by (auto simp: between_def running_def)
    ultimately show ?thesis using assms b False by (auto simp: barrier_inv_def between_def barrier_wait_pcs)
  qed
qed

text \<open>A step inside the loop.\<close>

lemma running_goto:
  assumes "barrier_inv N inc s" and t: "t < length (kt_pcs s)" "running inc (kt_pcs s ! t)" "\<not> waits (kt_pcs s ! t)"
    and p: "running inc p" "\<not> waits p"
  shows "barrier_inv N inc (goto t p s)"
proof -
  have b: "between N inc s" using t(2) by (cases rule: phase_of_thread[OF assms(1) t(1)]) (auto simp: running_def)
  have "\<forall>q \<in> set ((kt_pcs s)[t := p]). running inc q"
    using b p set_update_subset_insert[of "kt_pcs s" t p] by (auto simp: between_def)
  then show ?thesis
    using assms(1) b length_filter_update(2)[OF t(1,3) p(2)] by (auto simp: barrier_inv_def between_def goto_def)
qed

lemma barrier_inv_update [simp]:
  "barrier_inv N inc (s\<lparr>kt_mutex := m\<rparr>) = barrier_inv N inc s" "barrier_inv N inc (s\<lparr>kt_counter := c\<rparr>) = barrier_inv N inc s"
  "barrier_inv N inc (s\<lparr>kt_main := x\<rparr>) = barrier_inv N inc s"
  by (simp_all add: barrier_inv_def before_def between_def after_def)

text \<open>A thread in the loop has not made all its increments.\<close>

lemma running_bound:
  assumes "barrier_inv N inc s" and "t < length (kt_pcs s)" and "kt_pcs s ! t \<in> {Locked i, Loaded i v, Stored i}"
  shows "i < inc"
  using assms(3) by (cases rule: phase_of_thread[OF assms(1,2)]) (auto simp: running_def)

lemma threadfn_barrier:
  assumes "threadfn N inc t s s'" and "barrier_inv N inc s"
  shows "barrier_inv N inc s'"
  using assms
proof cases
  case first_wait
  then show ?thesis using before_wait assms(2) by simp
next
  case second_wait
  then show ?thesis using between_wait assms(2) by simp
next
  case (lock i)
  then show ?thesis using running_goto[OF assms(2), of t "Locked i"] by (simp add: running_def waits_def)
next
  case (load i)
  then show ?thesis
    using running_goto[OF assms(2), of t "Loaded i (kt_counter s)"] running_bound[OF assms(2), of t i]
    by (simp add: running_def waits_def)
next
  case (store i v)
  then show ?thesis
    using running_goto[OF assms(2), of t "Stored i"] running_bound[OF assms(2), of t i v] by (simp add: running_def waits_def)
next
  case (unlock i)
  then show ?thesis
    using running_goto[OF assms(2), of t "Loop (Suc i)"] running_bound[OF assms(2), of t i] by (simp add: running_def waits_def)
qed

lemma spawn_join_barrier:
  assumes "spawn_join N s s'" and "barrier_inv N inc s"
  shows "barrier_inv N inc s'"
  using assms
proof cases
  case create
  then have "before N s" using assms(2) by (auto simp: barrier_inv_def between_def after_def)
  then show ?thesis using create assms(2) by (auto simp: barrier_inv_def before_def waits_def)
qed (use assms(2) in simp_all)

section \<open>Joining\<close>

definition join_inv :: "nat \<Rightarrow> kt \<Rightarrow> bool" where
  "join_inv N s = (case kt_main s of
     Creating \<Rightarrow> True
   | Joining j \<Rightarrow> j \<le> N \<and> (\<forall>i < j. i < length (kt_pcs s) \<and> kt_pcs s ! i = Done)
   | Undefined \<Rightarrow> length (kt_pcs s) < N
   | Joined \<Rightarrow> \<forall>i < N. i < length (kt_pcs s) \<and> kt_pcs s ! i = Done)"

lemma threadfn_frame:
  assumes "threadfn N inc t s s'"
  shows "kt_main s' = kt_main s" "length (kt_pcs s') = length (kt_pcs s)"
    "i < length (kt_pcs s) \<Longrightarrow> kt_pcs s ! i = Done \<Longrightarrow> kt_pcs s' ! i = Done"
  using assms by (auto elim!: threadfn.cases simp: barrier_wait_pcs goto_def nth_list_update)

lemma threadfn_join: "threadfn N inc t s s' \<Longrightarrow> join_inv N s \<Longrightarrow> join_inv N s'"
  using threadfn_frame[of N inc t s s'] by (auto simp: join_inv_def split: main_pc.splits)

lemma spawn_join_join: "spawn_join N s s' \<Longrightarrow> join_inv N s \<Longrightarrow> join_inv N s'"
  by (induction rule: spawn_join.induct) (auto simp: join_inv_def less_Suc_eq)

text \<open>All invariants together.\<close>

definition kt_inv :: "nat \<Rightarrow> nat \<Rightarrow> kt \<Rightarrow> bool" where
  "kt_inv N inc s \<longleftrightarrow> lock_inv inc s \<and> barrier_inv N inc s \<and> join_inv N s"

lemma kt_step_inv: "kt_step N inc s s' \<Longrightarrow> kt_inv N inc s \<Longrightarrow> kt_inv N inc s'"
  unfolding kt_step_def kt_inv_def
  by (blast intro: threadfn_lock threadfn_barrier threadfn_join spawn_join_lock spawn_join_barrier spawn_join_join)

lemma kt_init_inv: "kt_inv N inc kt_init"
  by (simp add: kt_inv_def kt_init_def lock_inv_def barrier_inv_def join_inv_def before_def kt_total_def)

lemma kt_reach_inv: "kt_reach N inc k s \<Longrightarrow> kt_inv N inc s"
  by (induction rule: kt_reach.induct) (auto intro: kt_step_inv kt_init_inv)

lemma joined_total: "kt_inv N inc s \<Longrightarrow> kt_main s = Joined \<Longrightarrow> kt_total inc s = N * inc \<and> kt_pcs s = replicate N Done"
proof -
  assume i: "kt_inv N inc s" and j: "kt_main s = Joined"
  have d: "\<forall>u < N. u < length (kt_pcs s) \<and> kt_pcs s ! u = Done" using i j by (simp add: kt_inv_def join_inv_def)
  have "\<not> length (kt_pcs s) < N" using d by blast
  then have "length (kt_pcs s) = N" using i by (simp add: kt_inv_def barrier_inv_def)
  then have "kt_pcs s = replicate N Done" using d by (simp add: list_eq_iff_nth_eq)
  then show ?thesis by (simp add: kt_total_def sum_list_replicate)
qed

section \<open>Progress\<close>

definition steps_left :: "nat \<Rightarrow> pc \<Rightarrow> nat" where
  "steps_left inc p = (case p of
     Start \<Rightarrow> 4 * inc + 4 | Wait1 \<Rightarrow> 4 * inc + 3 | Loop i \<Rightarrow> 4 * (inc - i) + 2 | Locked i \<Rightarrow> 4 * (inc - i) + 1
   | Loaded i _ \<Rightarrow> 4 * (inc - i) | Stored i \<Rightarrow> 4 * (inc - i) - 1 | Wait2 \<Rightarrow> 1 | Done \<Rightarrow> 0)"

definition kt_left :: "nat \<Rightarrow> nat \<Rightarrow> kt \<Rightarrow> nat" where
  "kt_left N inc s = (N - length (kt_pcs s)) * (4 * inc + 5) + sum_list (map (steps_left inc) (kt_pcs s)) +
     (case kt_main s of Creating \<Rightarrow> N + 2 | Joining j \<Rightarrow> N + 1 - j | Undefined \<Rightarrow> 0 | Joined \<Rightarrow> 0)"

lemma steps_left_goto:
  assumes "t < length (kt_pcs s)" and "steps_left inc p < steps_left inc (kt_pcs s ! t)"
  shows "sum_list (map (steps_left inc) (kt_pcs (goto t p s))) < sum_list (map (steps_left inc) (kt_pcs s))"
  using sum_list_update_nat[OF assms(1), of "steps_left inc" p] assms(2) unfolding goto_def by simp

lemma steps_left_barrier:
  assumes "t < length (kt_pcs s)" and "steps_left inc w < steps_left inc (kt_pcs s ! t)" and "steps_left inc r \<le> steps_left inc w"
  shows "sum_list (map (steps_left inc) (kt_pcs (barrier_wait N t w r s))) < sum_list (map (steps_left inc) (kt_pcs s))"
proof -
  have "sum_list (map (steps_left inc) (map (\<lambda>p. if p = w then r else p) ps)) \<le> sum_list (map (steps_left inc) ps)" for ps
    using assms(3) by (induction ps) auto
  then have "sum_list (map (steps_left inc) (kt_pcs (barrier_wait N t w r s))) \<le> sum_list (map (steps_left inc) (kt_pcs (goto t w s)))"
    unfolding barrier_wait_pcs(1) goto_def by auto
  then show ?thesis using steps_left_goto[OF assms(1,2)] by simp
qed

lemma threadfn_left:
  assumes "threadfn N inc t s s'" and "barrier_inv N inc s"
  shows "kt_left N inc s' < kt_left N inc s"
proof -
  have "sum_list (map (steps_left inc) (kt_pcs s')) < sum_list (map (steps_left inc) (kt_pcs s))"
    using assms(1)
  proof cases
    case first_wait
    then show ?thesis using steps_left_barrier[of t s inc Wait1 "Loop 0"] by (simp add: steps_left_def)
  next
    case (lock i)
    then show ?thesis using steps_left_goto[of t s inc "Locked i"] by (simp add: steps_left_def)
  next
    case (load i)
    then show ?thesis using steps_left_goto[of t s inc "Loaded i (kt_counter s)"] by (simp add: steps_left_def)
  next
    case (store i v)
    then show ?thesis
      using steps_left_goto[of t s inc "Stored i"] running_bound[OF assms(2), of t i v] by (simp add: steps_left_def)
  next
    case (unlock i)
    then show ?thesis
      using steps_left_goto[of t s inc "Loop (Suc i)"] running_bound[OF assms(2), of t i] by (simp add: steps_left_def)
  next
    case second_wait
    then show ?thesis using steps_left_barrier[of t s inc Wait2 Done] by (simp add: steps_left_def)
  qed
  then show ?thesis using threadfn_frame(1,2)[OF assms(1)] by (simp add: kt_left_def)
qed

lemma spawn_join_left:
  assumes "spawn_join N s s'" and "join_inv N s"
  shows "kt_left N inc s' < kt_left N inc s"
  using assms(1)
proof cases
  case create
  then have "N - length (kt_pcs s) = Suc (N - length (kt_pcs s'))" by simp
  then show ?thesis using create by (simp add: kt_left_def steps_left_def)
qed (use assms(2) in \<open>auto simp: kt_left_def join_inv_def\<close>)

lemma kt_reach_left: "kt_reach N inc k s \<Longrightarrow> k + kt_left N inc s \<le> N * (4 * inc + 6) + 2"
proof (induction rule: kt_reach.induct)
  case reach_init
  then show ?case by (simp add: kt_left_def kt_init_def algebra_simps)
next
  case (reach_step k s s')
  have "kt_left N inc s' < kt_left N inc s"
    using kt_reach_inv[OF reach_step(1)] reach_step(2) threadfn_left spawn_join_left
    unfolding kt_step_def kt_inv_def by blast
  then show ?case using reach_step by simp
qed

text \<open>Some thread can go on as long as one has not finished.\<close>

lemma thread_progress:
  assumes inv: "kt_inv N inc s" and "length (kt_pcs s) = N" and j: "j < N" "kt_pcs s ! j \<noteq> Done"
  shows "\<exists>t s'. threadfn N inc t s s'"
proof -
  have l: "j < length (kt_pcs s)" using j assms(2) by simp
  have b: "barrier_inv N inc s" and lk: "lock_inv inc s" using inv by (simp_all add: kt_inv_def)
  have a: "kt_arrived s = length (filter waits (kt_pcs s))" using b by (simp add: barrier_inv_def)
  have ex: "\<exists>t < length (kt_pcs s). \<not> waits (kt_pcs s ! t)" if "kt_arrived s < N"
  proof (rule ccontr)
    assume "\<not> (\<exists>t < length (kt_pcs s). \<not> waits (kt_pcs s ! t))"
    then have "filter waits (kt_pcs s) = kt_pcs s" by (auto simp: filter_id_conv in_set_conv_nth)
    then show False using that a assms(2) by simp
  qed
  show ?thesis
  proof (cases rule: phase_of_thread[OF b l])
    case 1
    obtain t where t: "t < length (kt_pcs s)" "\<not> waits (kt_pcs s ! t)" using ex 1(1) j by (auto simp: before_def)
    have "kt_pcs s ! t = Start" using 1(1) t nth_mem[OF t(1)] unfolding before_def waits_def by blast
    then show ?thesis using first_wait[OF t(1)] by blast
  next
    case 2
    obtain t where t: "t < length (kt_pcs s)" "\<not> waits (kt_pcs s ! t)" using ex 2(1) j by (auto simp: between_def)
    have r: "running inc (kt_pcs s ! t)" using 2(1) nth_mem[OF t(1)] unfolding between_def by blast
    have h: "\<exists>s'. threadfn N inc u s s'" if "u < length (kt_pcs s)" "holds (kt_pcs s ! u)" for u
      using that load[OF that(1)] store[OF that(1)] unlock[OF that(1)]
      by (cases "kt_pcs s ! u") (auto simp: holds_def)
    show ?thesis
    proof (cases "kt_mutex s")
      case (Some u)
      then have "u < length (kt_pcs s)" using lk by (simp add: lock_inv_def)
      moreover from this have "holds (kt_pcs s ! u)" using Some lk by (simp add: lock_inv_def)
      ultimately show ?thesis using h by blast
    next
      case None
      then have "\<not> holds (kt_pcs s ! t)" using lk t(1) by (simp add: lock_inv_def)
      then obtain i where i: "kt_pcs s ! t = Loop i" "i \<le> inc"
        using r t(2) by (auto simp: running_def waits_def split: pc.splits)
      show ?thesis
        using lock[OF t(1) i(1) _ None, of inc N] second_wait[OF t(1), of inc N] i le_neq_implies_less[OF i(2)] by blast
    qed
  next
    case 3
    then show ?thesis using j by simp
  qed
qed

definition create_failed :: "nat \<Rightarrow> kt \<Rightarrow> bool" where
  "create_failed N s \<longleftrightarrow> kt_main s \<noteq> Creating \<and> length (kt_pcs s) < N"

lemma kt_progress:
  assumes "kt_inv N inc s" and "\<not> create_failed N s" and "kt_main s \<noteq> Joined"
  shows "\<exists>s'. kt_step N inc s s'"
proof (cases "kt_main s")
  case Creating
  have "length (kt_pcs s) \<le> N" using assms(1) by (simp add: kt_inv_def barrier_inv_def)
  then show ?thesis using create[OF Creating, of N] created[OF Creating, of N] unfolding kt_step_def by (metis le_neq_implies_less)
next
  case (Joining j)
  have l: "length (kt_pcs s) = N"
    using assms(1,2) Joining by (simp add: create_failed_def kt_inv_def barrier_inv_def)
  show ?thesis
  proof (cases "j < N")
    case True
    show ?thesis
    proof (cases "kt_pcs s ! j = Done")
      case d: True
      show ?thesis using join[OF Joining True] True l d unfolding kt_step_def by blast
    next
      case False
      show ?thesis using thread_progress[OF assms(1) l True False] unfolding kt_step_def by blast
    qed
  next
    case False
    then show ?thesis using joined[OF Joining] unfolding kt_step_def by blast
  qed
next
  case Undefined
  then show ?thesis using assms(1,2) by (simp add: create_failed_def kt_inv_def join_inv_def)
qed (use assms(3) in simp)

lemma create_failed_step: "kt_step N inc s s' \<Longrightarrow> create_failed N s \<Longrightarrow> create_failed N s'"
  using threadfn_frame[of N inc _ s s'] unfolding kt_step_def create_failed_def
  by (auto elim!: spawn_join.cases)

section \<open>Properties\<close>

text \<open>
  C7. In every interleaving at most one thread is between locking and unlocking, no increment is lost, and when the
  main thread has joined all threads the counter is the number of increments of all threads, as a 32-bit number.
\<close>

theorem kt_counts:
  assumes "kt_reach N inc k s"
  shows "(\<forall>t < length (kt_pcs s). \<forall>u < length (kt_pcs s). holds (kt_pcs s ! t) \<longrightarrow> holds (kt_pcs s ! u) \<longrightarrow> t = u) \<and>
    kt_counter s = of_nat (kt_total inc s) \<and>
    (kt_main s = Joined \<longrightarrow> kt_counter s = of_nat (N * inc) \<and> kt_pcs s = replicate N Done)"
proof -
  have i: "kt_inv N inc s" using kt_reach_inv[OF assms] .
  then have "lock_inv inc s" by (simp add: kt_inv_def)
  then show ?thesis using joined_total[OF i] by (auto simp: lock_inv_def)
qed

text \<open>A run of one thread with one increment.\<close>

definition kt_demo :: "pc list \<Rightarrow> main_pc \<Rightarrow> nat option \<Rightarrow> u32 \<Rightarrow> kt" where
  "kt_demo ps m mu c = \<lparr>kt_pcs = ps, kt_main = m, kt_mutex = mu, kt_arrived = 0, kt_counter = c\<rparr>"

lemma kt_demo_create: "kt_reach N inc 1 (kt_demo [Start] Creating None 0)" if "0 < N"
  using reach_step[OF reach_init, of N inc "kt_demo [Start] Creating None 0"] create[of kt_init N] that
  by (simp add: kt_step_def kt_init_def kt_demo_def)

lemma kt_demo_run: "kt_reach 1 1 10 (kt_demo [Done] Joined None 1)"
proof -
  note d = kt_demo_def kt_step_def goto_def barrier_wait_def
  have "kt_reach 1 1 2 (kt_demo [Start] (Joining 0) None 0)"
    using reach_step[OF kt_demo_create[of 1 1]] created[of "kt_demo [Start] Creating None 0" 1]
    by (simp add: d eval_nat_numeral)
  from reach_step[OF this] have "kt_reach 1 1 3 (kt_demo [Loop 0] (Joining 0) None 0)"
    using first_wait[of 0 "kt_demo [Start] (Joining 0) None 0" 1 1] by (simp add: d eval_nat_numeral) blast
  from reach_step[OF this] have "kt_reach 1 1 4 (kt_demo [Locked 0] (Joining 0) (Some 0) 0)"
    using lock[of 0 "kt_demo [Loop 0] (Joining 0) None 0" 0 1 1] by (simp add: d eval_nat_numeral) blast
  from reach_step[OF this] have "kt_reach 1 1 5 (kt_demo [Loaded 0 0] (Joining 0) (Some 0) 0)"
    using load[of 0 "kt_demo [Locked 0] (Joining 0) (Some 0) 0" 0 1 1] by (simp add: d eval_nat_numeral) blast
  from reach_step[OF this] have "kt_reach 1 1 6 (kt_demo [Stored 0] (Joining 0) (Some 0) 1)"
    using store[of 0 "kt_demo [Loaded 0 0] (Joining 0) (Some 0) 0" 0 0 1 1] by (simp add: d eval_nat_numeral) blast
  from reach_step[OF this] have "kt_reach 1 1 7 (kt_demo [Loop 1] (Joining 0) None 1)"
    using unlock[of 0 "kt_demo [Stored 0] (Joining 0) (Some 0) 1" 0 1 1] by (simp add: d eval_nat_numeral) blast
  from reach_step[OF this] have "kt_reach 1 1 8 (kt_demo [Done] (Joining 0) None 1)"
    using second_wait[of 0 "kt_demo [Loop 1] (Joining 0) None 1" 1 1] by (simp add: d eval_nat_numeral) blast
  from reach_step[OF this] have "kt_reach 1 1 9 (kt_demo [Done] (Joining 1) None 1)"
    using join[of "kt_demo [Done] (Joining 0) None 1" 0 1] by (simp add: d eval_nat_numeral)
  from reach_step[OF this] show ?thesis
    using joined[of "kt_demo [Done] (Joining 1) None 1" 1 1] by (simp add: d eval_nat_numeral)
qed

theorem kt_counts_witness:
  "kt_reach 1 1 10 (kt_demo [Done] Joined None 1) \<and> kt_counter (kt_demo [Done] Joined None 1) = of_nat (1 * 1) \<and>
   kt_pcs (kt_demo [Done] Joined None 1) = replicate 1 Done"
proof -
  have "kt_main (kt_demo [Done] Joined None 1) = Joined" by (simp add: kt_demo_def)
  then show ?thesis using kt_demo_run kt_counts[OF kt_demo_run] by blast
qed

text \<open>
  C29. The test ends: no run has more than \<open>N * (4 * inc + 6) + 2\<close> steps, and unless creating a thread has
  failed, a run that cannot go on has joined all threads: there is no deadlock, at either barrier or on the lock.
\<close>

theorem kt_terminates:
  assumes "kt_reach N inc k s"
  shows "k \<le> N * (4 * inc + 6) + 2 \<and>
    (\<not> create_failed N s \<longrightarrow> (\<forall>s'. \<not> kt_step N inc s s') \<longrightarrow> kt_main s = Joined)"
  using kt_reach_left[OF assms] kt_progress[OF kt_reach_inv[OF assms]] by auto

theorem kt_terminates_witness:
  "kt_reach 1 1 10 (kt_demo [Done] Joined None 1) \<and> (10::nat) \<le> 1 * (4 * 1 + 6) + 2"
  using kt_demo_run kt_terminates[OF kt_demo_run] by blast

text \<open>
  C39. When \<open>pthread_create\<close> fails the test hangs or worse: from then on every thread stays in front of the first
  barrier, which waits for threads that do not exist, nothing is counted, and the main thread never gets past joining.
\<close>

theorem create_failure_hangs:
  assumes "kt_reach N inc k s" and "create_failed N s" and "(kt_step N inc)\<^sup>*\<^sup>* s s'"
  shows "kt_main s' \<noteq> Joined \<and> (\<forall>p \<in> set (kt_pcs s'). p = Start \<or> p = Wait1) \<and> kt_counter s' = 0"
proof -
  have "kt_inv N inc s' \<and> create_failed N s'"
    using assms(3)
  proof (induction rule: rtranclp_induct)
    case base
    show ?case using kt_reach_inv[OF assms(1)] assms(2) by simp
  next
    case (step y z)
    then show ?case using kt_step_inv create_failed_step by blast
  qed
  then have i: "kt_inv N inc s'" and f: "create_failed N s'" by simp_all
  then have b: "\<forall>p \<in> set (kt_pcs s'). p = Start \<or> p = Wait1"
    by (auto simp: kt_inv_def barrier_inv_def before_def between_def after_def create_failed_def)
  then have "kt_total inc s' = 0" unfolding kt_total_def by (induction "kt_pcs s'") auto
  then have "kt_counter s' = 0" using i by (simp add: kt_inv_def lock_inv_def)
  then show ?thesis using i f b by (auto simp: kt_inv_def join_inv_def create_failed_def)
qed

theorem create_failure_hangs_witness:
  "kt_reach 2 5 2 (kt_demo [Start] (Joining 0) None 0) \<and> create_failed 2 (kt_demo [Start] (Joining 0) None 0) \<and>
   kt_main (kt_demo [Start] (Joining 0) None 0) \<noteq> Joined \<and> kt_counter (kt_demo [Start] (Joining 0) None 0) = 0"
proof -
  have r: "kt_reach 2 5 2 (kt_demo [Start] (Joining 0) None 0)"
    using reach_step[OF kt_demo_create[of 2 5]] create_fails[of "kt_demo [Start] Creating None 0" 2]
    by (simp add: kt_demo_def kt_step_def eval_nat_numeral)
  have f: "create_failed 2 (kt_demo [Start] (Joining 0) None 0)" by (simp add: create_failed_def kt_demo_def)
  show ?thesis using create_failure_hangs[OF r f rtranclp.rtrancl_refl] r f by blast
qed

end
