(* ===== verification/Echo_Server.thy ===== *)
theory Echo_Server
  imports Prelude
begin

text \<open>
  The non-blocking echo server (\<open>kcuttcp/esrv.c\<close>): \<open>main\<close> with its accept loop, the loop that drains a
  socket and the loop that writes everything back.

  The kernel's answers to \<open>accept\<close>, \<open>read\<close>, \<open>write\<close> and \<open>epoll_wait\<close> are lists, consumed in the order of the
  calls; a loop that needs an answer that is not there has the value \<open>Inl Out_of_fuel\<close>. A build with
  \<open>KCUT_TCP\<close> calls \<open>kcut_tcp_read\<close> and \<open>kcut_tcp_write\<close> instead, which may return a negative error number
  without setting \<open>errno\<close>: the answers \<open>R_raw\<close> and \<open>W_raw\<close>.
\<close>

section \<open>Answers of the kernel\<close>

definition BUF_SIZE :: nat where "BUF_SIZE = 4096"

datatype rd_ans = R_data "char list" | R_fail int | R_raw int

text \<open>\<open>W_take k\<close>: a write of \<open>n\<close> bytes, not 0, takes \<open>k + 1\<close> of them, or all when there are fewer.\<close>

datatype wr_ans = W_take nat | W_fail int | W_raw int

text \<open>The value returned and \<open>errno\<close> after the call.\<close>

definition rd_result :: "rd_ans \<Rightarrow> int \<Rightarrow> int \<times> int" where
  "rd_result a err = (case a of R_data ds \<Rightarrow> (int (length ds), err) | R_fail e \<Rightarrow> (-1, e) | R_raw n \<Rightarrow> (n, err))"

definition rd_bytes :: "rd_ans \<Rightarrow> char list" where
  "rd_bytes a = (case a of R_data ds \<Rightarrow> ds | _ \<Rightarrow> [])"

definition wr_result :: "wr_ans \<Rightarrow> nat \<Rightarrow> int \<Rightarrow> int \<times> int" where
  "wr_result a n err = (case a of W_take k \<Rightarrow> (int (min (k + 1) n), err) | W_fail e \<Rightarrow> (-1, e) | W_raw m \<Rightarrow> (m, err))"

text \<open>
  A new connection: its descriptor, the results of the two calls of \<open>fcntl\<close> and of \<open>epoll_ctl\<close>.
\<close>

record conn =
  cn_fd :: int
  cn_getfl :: int
  cn_setfl :: "int \<Rightarrow> int"
  cn_add :: int

datatype acc_ans = A_conn conn | A_fail int

datatype wait_ans = E_fail int | E_events "(int \<times> u32) list"

definition O_NONBLOCK :: u32 where "O_NONBLOCK = 0x800"

text \<open>The open client descriptors, those registered with the epoll instance, what was sent to whom.\<close>

record esrv =
  es_open :: "int list"
  es_epoll :: "int list"
  es_errno :: int
  es_rds :: "rd_ans list"
  es_wrs :: "wr_ans list"
  es_accs :: "acc_ans list"
  es_sent :: "(int \<times> char list) list"

section \<open>The operations\<close>

definition set_nonblock :: "int \<Rightarrow> (int \<Rightarrow> int) \<Rightarrow> int" where
  "set_nonblock flags setfl = (if flags = -1 then -1 else setfl (uint ((of_int flags :: u32) OR O_NONBLOCK)))"

definition close_fd :: "int \<Rightarrow> esrv \<Rightarrow> esrv" where
  "close_fd fd s = s\<lparr>es_epoll := remove1 fd (es_epoll s), es_open := remove1 fd (es_open s)\<rparr>"

text \<open>
  The loop that writes \<open>nr\<close> bytes of the buffer back. The result says whether the connection is to be closed and
  which bytes the kernel took; reading the buffer in front of its start is a fault.
\<close>

fun echo_loop :: "char list \<Rightarrow> int \<Rightarrow> int \<Rightarrow> wr_ans list \<Rightarrow> int \<Rightarrow> (bool \<times> char list \<times> wr_ans list \<times> int) res" where
  "echo_loop buf nr sent wrs err =
     (if \<not> sent < nr then Inr (False, [], wrs, err)
      else if sent < 0 then Inl Out_of_bounds
      else case wrs of
        [] \<Rightarrow> Inl Out_of_fuel
      | a # wrs \<Rightarrow>
          let (nw, err) = wr_result a (nat (nr - sent)) err
          in if nw = -1
             then if err = EAGAIN then echo_loop buf nr sent wrs err else Inr (True, [], wrs, err)
             else rbind (echo_loop buf nr (sent + nw) wrs err) (\<lambda>(closed, out, wrs, err).
                  Inr (closed, take (nat nw) (drop (nat sent) buf) @ out, wrs, err)))"

declare echo_loop.simps [simp del]

text \<open>The loop that drains a socket; more bytes than the buffer holds would be a fault.\<close>

fun drain :: "rd_ans list \<Rightarrow> wr_ans list \<Rightarrow> int \<Rightarrow>
    (bool \<times> char list \<times> rd_ans list \<times> wr_ans list \<times> int) res" where
  "drain [] wrs err = Inl Out_of_fuel"
| "drain (a # rds) wrs err =
     (let (nr, err) = rd_result a err
      in if length (rd_bytes a) > BUF_SIZE then Inl Out_of_bounds
         else if nr = -1 then Inr (err \<noteq> EAGAIN, [], rds, wrs, err)
         else if nr = 0 then Inr (True, [], rds, wrs, err)
         else rbind (echo_loop (rd_bytes a) nr 0 wrs err) (\<lambda>(closed, out, wrs, err).
              if closed then Inr (True, out, rds, wrs, err)
              else rbind (drain rds wrs err) (\<lambda>(closed, out2, rds, wrs, err).
                   Inr (closed, out @ out2, rds, wrs, err))))"

text \<open>The loop that accepts connections until none is left.\<close>

fun accept_loop :: "acc_ans list \<Rightarrow> esrv \<Rightarrow> esrv res" where
  "accept_loop [] s = Inl Out_of_fuel"
| "accept_loop (A_fail e # accs) s = Inr (s\<lparr>es_accs := accs, es_errno := e\<rparr>)"
| "accept_loop (A_conn c # accs) s =
     (let s = s\<lparr>es_open := cn_fd c # es_open s\<rparr>
      in if set_nonblock (cn_getfl c) (cn_setfl c) = -1
         then accept_loop accs (s\<lparr>es_open := remove1 (cn_fd c) (es_open s)\<rparr>)
         else if cn_add c = -1
         then accept_loop accs (s\<lparr>es_open := remove1 (cn_fd c) (es_open s)\<rparr>)
         else accept_loop accs (s\<lparr>es_epoll := cn_fd c # es_epoll s\<rparr>))"

text \<open>One event of a batch.\<close>

definition data_ready :: "int \<Rightarrow> esrv \<Rightarrow> esrv res" where
  "data_ready fd s =
     rbind (drain (es_rds s) (es_wrs s) (es_errno s)) (\<lambda>(closed, out, rds, wrs, err).
     let s = s\<lparr>es_rds := rds, es_wrs := wrs, es_errno := err, es_sent := es_sent s @ [(fd, out)]\<rparr>
     in Inr (if closed then close_fd fd s else s))"

definition handle_event :: "int \<Rightarrow> int \<times> u32 \<Rightarrow> esrv \<Rightarrow> esrv res" where
  "handle_event lfd ev s =
     (let (fd, e) = ev
      in if fd = lfd then accept_loop (es_accs s) s
         else if e AND (EPOLLERR OR EPOLLHUP) \<noteq> 0 then Inr (close_fd fd s)
         else if e AND EPOLLIN \<noteq> 0 then data_ready fd s
         else Inr s)"

primrec handle_events :: "int \<Rightarrow> (int \<times> u32) list \<Rightarrow> esrv \<Rightarrow> esrv res" where
  "handle_events lfd [] s = Inr s"
| "handle_events lfd (ev # evs) s = rbind (handle_event lfd ev s) (handle_events lfd evs)"

text \<open>
  The loop of \<open>main\<close>: the result says whether it was left (\<open>epoll_wait\<close> failed); otherwise the server waits
  for more events.
\<close>

fun server_loop :: "int \<Rightarrow> wait_ans list \<Rightarrow> esrv \<Rightarrow> (bool \<times> esrv) res" where
  "server_loop lfd [] s = Inr (False, s)"
| "server_loop lfd (E_fail e # ws) s =
     (let s = s\<lparr>es_errno := e\<rparr> in if e = EINTR then server_loop lfd ws s else Inr (True, s))"
| "server_loop lfd (E_events evs # ws) s = rbind (handle_events lfd evs s) (server_loop lfd ws)"

text \<open>
  \<open>main\<close> up to the end of its loop: the results of the calls of the start-up; every failure returns 1. \<open>None\<close> while the
  server is running. In a build with \<open>KCUT_TCP\<close> the loop is enclosed by \<open>kcut_init\<close> and \<open>kcut_cleanup\<close>, which are the subject of theory
  \<open>Kcut\<close> and do not touch the state of the server.
\<close>

record startup =
  su_lfd :: int
  su_bind :: int
  su_listen :: int
  su_getfl :: int
  su_setfl :: "int \<Rightarrow> int"
  su_epfd :: int
  su_add :: int

definition esrv_main :: "startup \<Rightarrow> wait_ans list \<Rightarrow> esrv \<Rightarrow> (int option \<times> esrv) res" where
  "esrv_main u ws s =
     (if su_lfd u = -1 then Inr (Some 1, s)
      else if su_bind u = -1 then Inr (Some 1, s)
      else if su_listen u = -1 then Inr (Some 1, s)
      else if set_nonblock (su_getfl u) (su_setfl u) = -1 then Inr (Some 1, s)
      else if su_epfd u = -1 then Inr (Some 1, s)
      else if su_add u = -1 then Inr (Some 1, s)
      else rbind (server_loop (su_lfd u) ws s) (\<lambda>(left, s). Inr (if left then Some 0 else None, s)))"

text \<open>
  The end of \<open>main\<close>: closing the epoll instance drops all registrations; the listening socket is closed. The connections stay open until the process is gone.
\<close>

definition esrv_end :: "esrv \<Rightarrow> esrv" where
  "esrv_end s = s\<lparr>es_epoll := []\<rparr>"

definition esrv_run :: "startup \<Rightarrow> wait_ans list \<Rightarrow> esrv \<Rightarrow> (int option \<times> esrv) res" where
  "esrv_run u ws s = rbind (esrv_main u ws s) (\<lambda>(rc, s). Inr (rc, if rc = Some 0 then esrv_end s else s))"

section \<open>Everything is written back\<close>

lemma echo_loop_done [simp]: "\<not> sent < nr \<Longrightarrow> echo_loop buf nr sent wrs err = Inr (False, [], wrs, err)"
  by (simp add: echo_loop.simps)

lemma echo_loop_again:
  "0 \<le> sent \<Longrightarrow> sent < nr \<Longrightarrow> echo_loop buf nr sent (W_fail EAGAIN # wrs) err = echo_loop buf nr sent wrs EAGAIN"
  by (subst echo_loop.simps) (simp add: wr_result_def)

lemma echo_loop_take:
  assumes "0 \<le> sent" and "sent < nr" and "m = min (k + 1) (nat (nr - sent))"
  shows "echo_loop buf nr sent (W_take k # wrs) err =
    rbind (echo_loop buf nr (sent + int m) wrs err) (\<lambda>(closed, out, wrs, err).
      Inr (closed, take m (drop (nat sent) buf) @ out, wrs, err))"
  using assms by (subst echo_loop.simps) (simp add: wr_result_def)

text \<open>
  A list of answers is \<open>willing\<close> when writes may be put off but never fail; \<open>takes\<close> counts those that
  take at least a byte.
\<close>

definition willing :: "wr_ans list \<Rightarrow> bool" where
  "willing wrs \<longleftrightarrow> (\<forall>a \<in> set wrs. (\<exists>k. a = W_take k) \<or> a = W_fail EAGAIN)"

definition takes :: "wr_ans list \<Rightarrow> nat" where
  "takes wrs = length (filter (\<lambda>a. \<exists>k. a = W_take k) wrs)"

lemma willing_simps [simp]:
  "willing []" "willing (W_take k # wrs) = willing wrs" "willing (W_fail e # wrs) = (e = EAGAIN \<and> willing wrs)"
  "\<not> willing (W_raw n # wrs)"
  by (auto simp: willing_def)

lemma takes_simps [simp]:
  "takes [] = 0" "takes (W_take k # wrs) = Suc (takes wrs)" "takes (W_fail e # wrs) = takes wrs"
  by (simp_all add: takes_def)

lemma echo_loop_writes_rest:
  assumes "willing wrs" and "length (drop p buf) \<le> takes wrs" and "p \<le> length buf"
  shows "\<exists>wrs' err'. echo_loop buf (int (length buf)) (int p) wrs err = Inr (False, drop p buf, wrs', err') \<and>
    willing wrs' \<and> takes wrs \<le> takes wrs' + length (drop p buf)"
  using assms
proof (induction wrs arbitrary: p err)
  case Nil
  then show ?case by simp
next
  case (Cons a wrs)
  show ?case
  proof (cases "p < length buf")
    case False
    then show ?thesis using Cons.prems by simp
  next
    case True
    show ?thesis
    proof (cases a)
      case (W_take k)
      define m where "m = min (k + 1) (length buf - p)"
      have m: "1 \<le> m" "p + m \<le> length buf" "m = min (k + 1) (nat (int (length buf) - int p))"
        using True by (auto simp: m_def nat_diff_distrib)
      have "willing wrs" "length (drop (p + m) buf) \<le> takes wrs" using Cons.prems W_take m(1) by auto
      then obtain wrs' err' where
        "echo_loop buf (int (length buf)) (int (p + m)) wrs err = Inr (False, drop (p + m) buf, wrs', err')"
        "willing wrs'" "takes wrs \<le> takes wrs' + length (drop (p + m) buf)"
        using Cons.IH[of "p + m" err] m(2) by blast
      moreover have "take m (drop p buf) @ drop (p + m) buf = drop p buf"
        by (metis append_take_drop_id drop_drop add.commute)
      ultimately show ?thesis
        using W_take True m(1,2) echo_loop_take[of "int p" "int (length buf)" m k buf wrs err] m(3)
        by (auto simp del: drop_drop length_drop) auto
    next
      case (W_fail e)
      then show ?thesis
        using Cons.IH[of p EAGAIN] Cons.prems True echo_loop_again[of "int p" "int (length buf)" buf wrs err] by auto
    qed (use Cons.prems in simp)
  qed
qed

text \<open>The answers that end a run of reads: an error, among them that nothing is left, and end of file.\<close>

definition ends_reads :: "rd_ans \<Rightarrow> bool" where
  "ends_reads a \<longleftrightarrow> (\<exists>e. a = R_fail e) \<or> a = R_data []"

lemma drain_ends:
  "ends_reads a \<Longrightarrow> \<exists>err'. drain (a # rds) wrs err = Inr (a \<noteq> R_fail EAGAIN, [], rds, wrs, err')"
  by (auto simp: ends_reads_def rd_result_def rd_bytes_def)

lemma drain_echoes:
  assumes "\<forall>d \<in> set ds. d \<noteq> [] \<and> length d \<le> BUF_SIZE" and "ends_reads a"
    and "willing wrs" and "length (concat ds) \<le> takes wrs"
  shows "\<exists>wrs' err'. drain (map R_data ds @ a # rds) wrs err = Inr (a \<noteq> R_fail EAGAIN, concat ds, rds, wrs', err') \<and>
    willing wrs' \<and> takes wrs \<le> takes wrs' + length (concat ds)"
  using assms
proof (induction ds arbitrary: wrs err)
  case Nil
  obtain err' where "drain (a # rds) wrs err = Inr (a \<noteq> R_fail EAGAIN, [], rds, wrs, err')"
    using drain_ends[OF Nil(2)] by blast
  then show ?case using Nil(3) by (simp del: drain.simps)
next
  case (Cons d ds)
  obtain wrs' err' where e: "echo_loop d (int (length d)) 0 wrs err = Inr (False, d, wrs', err')"
    "willing wrs'" "takes wrs \<le> takes wrs' + length d"
    using echo_loop_writes_rest[of wrs 0 d err] Cons.prems by auto
  obtain w2 e2 where "drain (map R_data ds @ a # rds) wrs' err' = Inr (a \<noteq> R_fail EAGAIN, concat ds, rds, w2, e2)"
      "willing w2" "takes wrs' \<le> takes w2 + length (concat ds)"
    using Cons.IH[of wrs' err'] Cons.prems e by auto
  then show ?case using e Cons.prems(1) by (simp add: rd_result_def rd_bytes_def)
qed

text \<open>One readiness event on a connection that is not closed in it, and several of them.\<close>

lemma data_ready_event:
  assumes "es_rds s = map R_data ds @ R_fail EAGAIN # rds" and "\<forall>d \<in> set ds. d \<noteq> [] \<and> length d \<le> BUF_SIZE"
    and "willing (es_wrs s)" and "length (concat ds) \<le> takes (es_wrs s)"
  shows "\<exists>s'. data_ready fd s = Inr s' \<and> es_sent s' = es_sent s @ [(fd, concat ds)] \<and> es_rds s' = rds \<and> es_open s' = es_open s \<and>
    willing (es_wrs s') \<and> takes (es_wrs s) \<le> takes (es_wrs s') + length (concat ds)"
  using drain_echoes[OF assms(2) _ assms(3,4), of "R_fail EAGAIN" rds "es_errno s"] assms(1)
  by (auto simp: data_ready_def ends_reads_def)

lemma server_loop_echoes:
  assumes "fd \<noteq> lfd"
  shows "es_rds s = concat (map (\<lambda>ds. map R_data ds @ [R_fail EAGAIN]) dss) @ rds \<Longrightarrow>
    \<forall>d \<in> set (concat dss). d \<noteq> [] \<and> length d \<le> BUF_SIZE \<Longrightarrow> willing (es_wrs s) \<Longrightarrow> length (concat (concat dss)) \<le> takes (es_wrs s) \<Longrightarrow>
    \<exists>s'. server_loop lfd (map (\<lambda>_. E_events [(fd, EPOLLIN)]) dss) s = Inr (False, s') \<and>
      es_sent s' = es_sent s @ map (\<lambda>ds. (fd, concat ds)) dss \<and> es_rds s' = rds \<and> es_open s' = es_open s"
proof (induction dss arbitrary: s)
  case (Cons ds dss)
  obtain s1 where s1: "data_ready fd s = Inr s1" "es_sent s1 = es_sent s @ [(fd, concat ds)]"
      "es_rds s1 = concat (map (\<lambda>ds. map R_data ds @ [R_fail EAGAIN]) dss) @ rds" "es_open s1 = es_open s"
      "willing (es_wrs s1)" "takes (es_wrs s) \<le> takes (es_wrs s1) + length (concat ds)"
    using data_ready_event[of s ds "concat (map (\<lambda>ds. map R_data ds @ [R_fail EAGAIN]) dss) @ rds" fd] Cons.prems by auto
  obtain s' where "server_loop lfd (map (\<lambda>_. E_events [(fd, EPOLLIN)]) dss) s1 = Inr (False, s')"
      "es_sent s' = es_sent s1 @ map (\<lambda>ds. (fd, concat ds)) dss" "es_rds s' = rds" "es_open s' = es_open s1"
    using Cons.IH[OF s1(3)] Cons.prems s1(5,6) by auto
  moreover have "handle_event lfd (fd, EPOLLIN) s = Inr s1"
    using s1(1) assms by (simp add: handle_event_def EPOLLIN_def EPOLLERR_def EPOLLHUP_def)
  ultimately show ?case using s1(2,4) by simp
qed simp

section \<open>No connection is forgotten\<close>

text \<open>Every open client descriptor is registered, so that its events and its end are noticed.\<close>

definition watched :: "esrv \<Rightarrow> bool" where
  "watched s \<longleftrightarrow> es_open s = es_epoll s"

lemma close_fd_watched: "watched s \<Longrightarrow> watched (close_fd fd s)"
  by (simp add: watched_def close_fd_def)

lemma watched_updates [simp]:
  "watched (s\<lparr>es_open := x # es_open s, es_epoll := x # es_epoll s\<rparr>) = watched s"
  "watched (s\<lparr>es_accs := accs, es_errno := e\<rparr>) = watched s" "s\<lparr>es_open := es_open s\<rparr> = s"
  by (simp_all add: watched_def)

lemma accept_loop_watched: "accept_loop accs s = Inr s' \<Longrightarrow> watched s \<Longrightarrow> watched s'"
  by (induction accs s rule: accept_loop.induct) (auto simp: Let_def split: if_splits)

lemma data_ready_watched: "data_ready fd s = Inr s' \<Longrightarrow> watched s \<Longrightarrow> watched s'"
  by (auto simp: data_ready_def rbind_eq_Inr Let_def watched_def close_fd_def)

lemma handle_event_watched: "handle_event lfd ev s = Inr s' \<Longrightarrow> watched s \<Longrightarrow> watched s'"
  by (auto simp: handle_event_def split: if_splits prod.splits
      dest: accept_loop_watched data_ready_watched close_fd_watched)

lemma handle_events_watched: "handle_events lfd evs s = Inr s' \<Longrightarrow> watched s \<Longrightarrow> watched s'"
  by (induction evs arbitrary: s) (auto simp: rbind_eq_Inr dest: handle_event_watched)

lemma server_loop_watched: "server_loop lfd ws s = Inr (left, s') \<Longrightarrow> watched s \<Longrightarrow> watched s'"
proof (induction lfd ws s rule: server_loop.induct)
  case (2 lfd e ws s)
  have "watched (s\<lparr>es_errno := e\<rparr>)" using 2(3) by (simp add: watched_def)
  then show ?case using 2(1,2) by (auto simp: Let_def split: if_splits)
next
  case (3 lfd evs ws s)
  then show ?case by (auto simp: rbind_eq_Inr dest: handle_events_watched)
qed simp

section \<open>Properties\<close>

text \<open>
  C27. The server echoes: when the socket holds the pieces \<open>ds\<close> of a stream and every write takes some byte
  or is put off, however the writes are split, handling the event ends, exactly the bytes received are sent back, in their order,
  nothing of what follows is read, and the connection is closed exactly when the reads ended otherwise than with
  \<open>EAGAIN\<close>.
\<close>

theorem data_ready_echoes:
  assumes "es_rds s = map R_data ds @ a # rds" and "ends_reads a"
    and "\<forall>d \<in> set ds. d \<noteq> [] \<and> length d \<le> BUF_SIZE"
    and "willing (es_wrs s)" and "length (concat ds) \<le> takes (es_wrs s)"
  shows "\<exists>s'. data_ready fd s = Inr s' \<and> es_sent s' = es_sent s @ [(fd, concat ds)] \<and> es_rds s' = rds \<and>
    es_open s' = (if a = R_fail EAGAIN then es_open s else remove1 fd (es_open s))"
  using drain_echoes[OF assms(3,2,4,5), of rds "es_errno s"] assms(1)
  by (auto simp: data_ready_def close_fd_def)

definition demo_esrv :: esrv where
  "demo_esrv = \<lparr>es_open = [7], es_epoll = [7], es_errno = 0, es_rds = [R_data ''abc'', R_data ''de'', R_fail EAGAIN],
     es_wrs = [W_take 0, W_fail EAGAIN, W_take 5, W_take 0, W_take 0, W_take 0], es_accs = [], es_sent = []\<rparr>"

theorem data_ready_echoes_witness:
  "\<exists>s'. data_ready 7 demo_esrv = Inr s' \<and> es_sent s' = [(7, ''abcde'')] \<and> es_open s' = [7]"
  using data_ready_echoes[of demo_esrv "[''abc'', ''de'']" "R_fail EAGAIN" "[]" 7]
  by (simp add: demo_esrv_def ends_reads_def BUF_SIZE_def) blast

text \<open>
  C28. No connection is forgotten: whatever the kernel answers, at every moment of a run at which the server waits for events or
  has left its loop, the open client descriptors are exactly those registered with the epoll instance.
\<close>

theorem esrv_main_watches:
  assumes "esrv_main u ws s = Inr (rc, s')" and "es_open s = []" and "es_epoll s = []"
  shows "es_open s' = es_epoll s'"
proof -
  have "watched s" using assms(2,3) by (simp add: watched_def)
  moreover have "s' = s \<or> (\<exists>left. server_loop (su_lfd u) ws s = Inr (left, s'))"
    using assms(1) by (auto simp: esrv_main_def rbind_eq_Inr split: if_splits)
  ultimately have "watched s'" using server_loop_watched by blast
  then show ?thesis by (simp add: watched_def)
qed

text \<open>The same for the whole \<open>main\<close>: while it runs the two agree, and when it has returned 0 nothing is registered any more.\<close>

lemma esrv_run_watches:
  assumes "esrv_run u ws s = Inr (rc, s')" and "es_open s = []" and "es_epoll s = []"
  shows "if rc = Some 0 then es_epoll s' = [] else es_open s' = es_epoll s'"
proof -
  obtain s1 where m: "esrv_main u ws s = Inr (rc, s1)" "s' = (if rc = Some 0 then esrv_end s1 else s1)"
    using assms(1) by (auto simp: esrv_run_def rbind_eq_Inr)
  have "s1 = s \<or> (\<exists>left. server_loop (su_lfd u) ws s = Inr (left, s1))"
    using m(1) by (auto simp: esrv_main_def rbind_eq_Inr split: if_splits)
  then have "watched s1" using server_loop_watched assms(2,3) by (auto simp: watched_def)
  then show ?thesis using m(2) by (simp add: esrv_end_def watched_def)
qed

definition demo_startup :: startup where
  "demo_startup = \<lparr>su_lfd = 3, su_bind = 0, su_listen = 0, su_getfl = 2, su_setfl = (\<lambda>_. 0), su_epfd = 4, su_add = 0\<rparr>"

definition demo_accepts :: esrv where
  "demo_accepts = demo_esrv\<lparr>es_open := [], es_epoll := [],
     es_accs := [A_conn \<lparr>cn_fd = 5, cn_getfl = 2, cn_setfl = (\<lambda>_. 0), cn_add = 0\<rparr>,
                 A_conn \<lparr>cn_fd = 6, cn_getfl = -1, cn_setfl = (\<lambda>_. 0), cn_add = 0\<rparr>,
                 A_conn \<lparr>cn_fd = 6, cn_getfl = 2, cn_setfl = (\<lambda>_. 0), cn_add = -1\<rparr>, A_fail EAGAIN]\<rparr>"

theorem esrv_main_watches_witness:
  "\<exists>s'. esrv_main demo_startup [E_events [(3, EPOLLIN)], E_fail EINTR] demo_accepts = Inr (None, s') \<and>
     es_open s' = [5] \<and> es_open s' = es_epoll s'"
proof -
  have "\<exists>s'. esrv_main demo_startup [E_events [(3, EPOLLIN)], E_fail EINTR] demo_accepts = Inr (None, s') \<and> es_open s' = [5]"
    by (simp add: esrv_main_def demo_startup_def demo_accepts_def set_nonblock_def handle_event_def)
  then show ?thesis
    using esrv_main_watches[of demo_startup "[E_events [(3, EPOLLIN)], E_fail EINTR]" demo_accepts None]
    by (auto simp: demo_accepts_def)
qed

text \<open>
  Built with the shortcuts, the server mishandles the errors that they return as negative numbers: a failed
  read neither ends the drain loop nor closes the connection, it is repeated as often as it fails; and after a failed write that
  returns such a number, the next one reads in front of the buffer.
\<close>

theorem kcut_errors_mishandled:
  assumes "n < -1" and "d \<noteq> []" and "length d \<le> BUF_SIZE"
  shows "drain (replicate k (R_raw n) @ rds) wrs err = drain rds wrs err \<and>
    drain (R_data d # rds) (W_raw n # wrs) err = Inl Out_of_bounds"
proof
  have "drain (R_raw n # rds) wrs err = drain rds wrs err" for rds
    using assms(1) by (cases "drain rds wrs err") (auto simp: rd_result_def rd_bytes_def)
  then show "drain (replicate k (R_raw n) @ rds) wrs err = drain rds wrs err"
    by (induction k) simp_all
  have "echo_loop d (int (length d)) n wrs err = Inl Out_of_bounds"
    using assms by (subst echo_loop.simps) simp
  then have "echo_loop d (int (length d)) 0 (W_raw n # wrs) err = Inl Out_of_bounds"
    using assms by (subst echo_loop.simps) (simp add: wr_result_def)
  then show "drain (R_data d # rds) (W_raw n # wrs) err = Inl Out_of_bounds"
    using assms by (simp add: rd_result_def rd_bytes_def)
qed

theorem kcut_errors_mishandled_witness:
  "drain (replicate 3 (R_raw (-104)) @ [R_data []]) [] 0 = drain [R_data []] [] 0 \<and>
   drain [R_data ''a''] [W_raw (-11)] 0 = Inl Out_of_bounds"
  using kcut_errors_mishandled[of "-104" "''a''" 3 "[R_data []]" "[]" 0]
    kcut_errors_mishandled[of "-11" "''a''" 3 "[]" "[]" 0] by (auto simp: BUF_SIZE_def simp del: drain.simps)

end
