(* ===== verification/Echo_Client.thy ===== *)
theory Echo_Client
  imports Echo_Server
begin

text \<open>
  The benchmark client of the echo server (\<open>kcuttcp/eclnt.c\<close>): its options, the sizes it computes from them,
  the loops that send and receive a packet, and the paced measurement loop with its array of samples.

  Clock readings are \<open>double\<close>s that the program only stores and compares: a sample is a value of a type
  \<open>'d\<close>, and for each turn of a loop the surroundings say whether a signal has arrived and whether the time is up. The
  statistics of \<open>print_stats\<close> are floating point arithmetic and output and are left out.
\<close>

section \<open>Options and sizes\<close>

definition MAX_SAMPLES :: int where "MAX_SAMPLES = 4000000"

record ecfg =
  c_host :: string
  c_port :: int
  c_pkt_size :: int
  c_rate :: int
  c_duration :: int
  c_max_txns :: int
  c_warmup :: int
  c_verbose :: bool

definition ecfg_default :: ecfg where
  "ecfg_default = \<lparr>c_host = ''127.0.0.1'', c_port = 8080, c_pkt_size = 64, c_rate = 100, c_duration = 10, c_max_txns = 0,
     c_warmup = 1, c_verbose = False\<rparr>"

text \<open>What \<open>getopt\<close> returns, with the number that \<open>atoi\<close> or \<open>atol\<close> reads from the argument.\<close>

datatype eopt =
    Opt_H string | Opt_p int | Opt_s int | Opt_r int | Opt_d int | Opt_n int | Opt_w int | Opt_v | Opt_h | Opt_other

text \<open>The loop over the options: \<open>Inl\<close> of the exit status when \<open>main\<close> returns.\<close>

fun eclnt_opts :: "eopt list \<Rightarrow> ecfg \<Rightarrow> int + ecfg" where
  "eclnt_opts [] c = Inr c"
| "eclnt_opts (Opt_H h # os) c = eclnt_opts os (c\<lparr>c_host := h\<rparr>)"
| "eclnt_opts (Opt_p n # os) c = eclnt_opts os (c\<lparr>c_port := n\<rparr>)"
| "eclnt_opts (Opt_s n # os) c = eclnt_opts os (c\<lparr>c_pkt_size := n\<rparr>)"
| "eclnt_opts (Opt_r n # os) c = eclnt_opts os (c\<lparr>c_rate := n\<rparr>)"
| "eclnt_opts (Opt_d n # os) c = eclnt_opts os (c\<lparr>c_duration := n\<rparr>)"
| "eclnt_opts (Opt_n n # os) c = eclnt_opts os (c\<lparr>c_max_txns := n\<rparr>)"
| "eclnt_opts (Opt_w n # os) c = eclnt_opts os (c\<lparr>c_warmup := n\<rparr>)"
| "eclnt_opts (Opt_v # os) c = eclnt_opts os (c\<lparr>c_verbose := True\<rparr>)"
| "eclnt_opts (Opt_h # os) c = Inl 0"
| "eclnt_opts (Opt_other # os) c = Inl 1"

definition eclnt_config :: "eopt list \<Rightarrow> int + ecfg" where
  "eclnt_config os = (case eclnt_opts os ecfg_default of
     Inl rc \<Rightarrow> Inl rc
   | Inr c \<Rightarrow> if c_pkt_size c \<le> 0 then Inl 1 else if c_rate c \<le> 0 then Inl 1 else Inr c)"

text \<open>The number of samples that fit; \<open>duration + 4\<close> is an \<open>int\<close>, the product is a \<open>long\<close>.\<close>

definition sample_cap :: "ecfg \<Rightarrow> int res" where
  "sample_cap c =
     rbind (if c_max_txns c > 0 then Inr (c_max_txns c)
            else if c_duration c + 4 > INT_MAX then Inl Int_overflow
            else Inr (c_rate c * (c_duration c + 4))) (\<lambda>cap.
     let cap = (if cap < 1024 then 1024 else cap)
     in Inr (if cap > MAX_SAMPLES then MAX_SAMPLES else cap))"

text \<open>
  \<open>(long)(1e9 / (double)rate)\<close>. For every \<open>int\<close> rate the rounding error of the division is far below
  \<open>1 / rate\<close>, the distance of the quotient from the next integer, so this is integer division.
\<close>

definition period_ns :: "ecfg \<Rightarrow> int" where
  "period_ns c = (if c_rate c > 0 then 1000000000 div c_rate c else 0)"

section \<open>Time\<close>

record timespec =
  tv_sec :: int
  tv_nsec :: int

definition ts_add_ns :: "int \<Rightarrow> timespec \<Rightarrow> timespec" where
  "ts_add_ns ns ts =
     (let ts = ts\<lparr>tv_nsec := tv_nsec ts + ns\<rparr>
      in if tv_nsec ts \<ge> 1000000000 then ts\<lparr>tv_nsec := tv_nsec ts - 1000000000, tv_sec := tv_sec ts + 1\<rparr> else ts)"

section \<open>Sending and receiving\<close>

text \<open>The client makes plain system calls, whose only negative result is \<open>-1\<close>.\<close>

definition sys_write :: "wr_ans \<Rightarrow> nat \<Rightarrow> int" where
  "sys_write a n = (case a of W_take k \<Rightarrow> int (min (k + 1) n) | _ \<Rightarrow> -1)"

text \<open>\<open>write_all\<close>: the result, the pieces that the kernel took and the remaining answers.\<close>

fun write_all :: "char list \<Rightarrow> wr_ans list \<Rightarrow> (int \<times> char list list \<times> wr_ans list) res" where
  "write_all [] wrs = Inr (0, [], wrs)"
| "write_all p [] = Inl Out_of_fuel"
| "write_all p (a # wrs) =
     (let w = sys_write a (length p)
      in if w \<le> 0 then Inr (-1, [], wrs)
         else rbind (write_all (drop (nat w) p) wrs) (\<lambda>(rc, ps, wrs). Inr (rc, take (nat w) p # ps, wrs)))"

text \<open>
  \<open>read_all\<close>: the result, the bytes received and the remaining answers. A read of \<open>n\<close> bytes gets at most
  \<open>n\<close> of what has arrived and leaves the rest.
\<close>

fun read_all :: "nat \<Rightarrow> rd_ans list \<Rightarrow> (int \<times> char list \<times> rd_ans list) res" where
  "read_all n [] = (if n = 0 then Inr (0, [], []) else Inl Out_of_fuel)"
| "read_all n (a # rds) =
     (if n = 0 then Inr (0, [], a # rds)
      else case a of
        R_data ds \<Rightarrow>
          if ds = [] then Inr (-1, [], rds)
          else if length ds > n then Inr (0, take n ds, R_data (drop n ds) # rds)
          else rbind (read_all (n - length ds) rds) (\<lambda>(rc, bs, rds). Inr (rc, ds @ bs, rds))
      | _ \<Rightarrow> Inr (-1, [], rds))"

text \<open>\<open>tcp_connect\<close>: the results of the calls; the descriptor, or \<open>-1\<close> with nothing left open.\<close>

definition tcp_connect :: "int \<Rightarrow> int \<Rightarrow> int \<Rightarrow> int list \<Rightarrow> int \<times> int list" where
  "tcp_connect sock pton conn opened =
     (if sock < 0 then (-1, opened)
      else let opened = sock # opened
           in if pton \<noteq> 1 then (-1, remove1 sock opened)
              else if conn \<noteq> 0 then (-1, remove1 sock opened)
              else (sock, opened))"

section \<open>The loops of \<open>main\<close>\<close>

record 'd tick =
  tk_stop :: bool
  tk_time_up :: bool
  tk_rtt :: 'd

record 'd bench =
  b_n :: int
  b_lat :: "'d list"
  b_nxt :: timespec
  b_wrs :: "wr_ans list"
  b_rds :: "rd_ans list"

definition sndbuf :: "ecfg \<Rightarrow> char list" where
  "sndbuf c = replicate (nat (c_pkt_size c)) (CHR 0x42)"

text \<open>One packet to the server and back; the result is negative when either way fails.\<close>

definition transaction :: "ecfg \<Rightarrow> 'd bench \<Rightarrow> (int \<times> 'd bench) res" where
  "transaction c b =
     rbind (write_all (sndbuf c) (b_wrs b)) (\<lambda>(rc, _, wrs).
     let b = b\<lparr>b_wrs := wrs\<rparr>
     in if rc < 0 then Inr (-1, b)
        else rbind (read_all (nat (c_pkt_size c)) (b_rds b)) (\<lambda>(rc, _, rds).
             let b = b\<lparr>b_rds := rds\<rparr> in Inr (if rc < 0 then -1 else 0, b)))"

text \<open>The warm-up: whether all went well. The clock is read before the flag of the signal handler.\<close>

fun warm_up :: "ecfg \<Rightarrow> 'd tick list \<Rightarrow> 'd bench \<Rightarrow> (bool \<times> 'd bench) res" where
  "warm_up c [] b = Inl Out_of_fuel"
| "warm_up c (t # ts) b =
     (if tk_time_up t \<or> tk_stop t then Inr (True, b)
      else rbind (transaction c b) (\<lambda>(rc, b).
           if rc < 0 then Inr (False, b)
           else warm_up c ts (b\<lparr>b_nxt := ts_add_ns (period_ns c) (b_nxt b)\<rparr>)))"

text \<open>The measurement; a store outside the array of samples is a fault.\<close>

fun measure_loop :: "ecfg \<Rightarrow> int \<Rightarrow> 'd tick list \<Rightarrow> 'd bench \<Rightarrow> 'd bench res" where
  "measure_loop c cap [] b = Inl Out_of_fuel"
| "measure_loop c cap (t # ts) b =
     (if tk_stop t then Inr b
      else if (if c_max_txns c > 0 then b_n b \<ge> c_max_txns c else tk_time_up t) then Inr b
      else if b_n b \<ge> cap then Inr b
      else let b = (if period_ns c > 0 then b\<lparr>b_nxt := ts_add_ns (period_ns c) (b_nxt b)\<rparr> else b)
           in rbind (transaction c b) (\<lambda>(rc, b).
              if rc < 0 then Inr b
              else if b_n b < 0 \<or> int (length (b_lat b)) \<le> b_n b then Inl Out_of_bounds
              else measure_loop c cap ts (b\<lparr>b_lat := (b_lat b)[nat (b_n b) := tk_rtt t], b_n := b_n b + 1\<rparr>)))"

text \<open>
  From the configuration to the samples: the array is allocated with the computed size, the clock is
  read anew after the warm-up.
\<close>

definition run_bench :: "ecfg \<Rightarrow> 'd \<Rightarrow> timespec \<Rightarrow> timespec \<Rightarrow> 'd tick list \<Rightarrow> 'd tick list \<Rightarrow>
    wr_ans list \<Rightarrow> rd_ans list \<Rightarrow> 'd bench res" where
  "run_bench c junk t0 t1 warm ticks wrs rds =
     rbind (sample_cap c) (\<lambda>cap.
     let b = \<lparr>b_n = 0, b_lat = replicate (nat cap) junk, b_nxt = t0, b_wrs = wrs, b_rds = rds\<rparr>
     in rbind (if c_warmup c > 0 then warm_up c warm b else Inr (True, b)) (\<lambda>(ok, b).
        let b = b\<lparr>b_n := 0, b_nxt := t1\<rparr> in if ok then measure_loop c cap ticks b else Inr b))"

section \<open>Packets\<close>

lemma write_all_sends:
  assumes "willing wrs" and "\<forall>e. W_fail e \<notin> set wrs" and "length p \<le> length wrs"
  shows "\<exists>ps wrs'. write_all p wrs = Inr (0, ps, wrs') \<and> concat ps = p \<and> [] \<notin> set ps"
  using assms
proof (induction p wrs rule: write_all.induct)
  case (3 v va a wrs)
  let ?p = "v # va"
  obtain k where k: "a = W_take k" using 3(2,3) by (auto simp: willing_def)
  define m where "m = min (k + 1) (length ?p)"
  have m: "1 \<le> m" "nat (sys_write a (length ?p)) = m" "\<not> sys_write a (length ?p) \<le> 0"
    by (simp_all add: m_def k sys_write_def)
  have "length (drop m ?p) \<le> length wrs" using 3(4) m(1) by simp
  then obtain ps wrs' where "write_all (drop m ?p) wrs = Inr (0, ps, wrs')" "concat ps = drop m ?p" "[] \<notin> set ps"
    using 3(1)[OF refl m(3), unfolded m(2)] 3(2,3) k by auto
  moreover have "take m ?p \<noteq> []" using m(1) by simp
  ultimately show ?case using m(2,3) by (simp add: Let_def)
qed auto

lemma read_all_receives:
  assumes "[] \<notin> set ds" and "length (concat ds) = n"
  shows "read_all n (map R_data ds @ rds) = Inr (0, concat ds, rds)"
  using assms
proof (induction ds arbitrary: n)
  case Nil
  then show ?case by (cases rds) simp_all
next
  case (Cons d ds)
  then show ?case using Cons.IH[of "n - length d"] by auto
qed

section \<open>Time and samples\<close>

definition ts_wf :: "timespec \<Rightarrow> bool" where
  "ts_wf ts \<longleftrightarrow> 0 \<le> tv_nsec ts \<and> tv_nsec ts < 1000000000"

definition ts_ns :: "timespec \<Rightarrow> int" where
  "ts_ns ts = tv_sec ts * 1000000000 + tv_nsec ts"

lemma ts_add_ns_exact:
  assumes "ts_wf ts" and "0 \<le> ns" and "ns \<le> 1000000000"
  shows "ts_wf (ts_add_ns ns ts)" "ts_ns (ts_add_ns ns ts) = ts_ns ts + ns"
  using assms by (auto simp: ts_wf_def ts_ns_def ts_add_ns_def Let_def)

lemma period_ns_bounds: "0 \<le> period_ns c" "period_ns c \<le> 1000000000"
proof -
  have "1000000000 div c_rate c \<le> 1000000000" if "0 < c_rate c"
    using that zdiv_mono2[of 1000000000 1 "c_rate c"] by simp
  then show "0 \<le> period_ns c" "period_ns c \<le> 1000000000"
    by (simp_all add: period_ns_def pos_imp_zdiv_nonneg_iff)
qed

lemma sample_cap_bounds: "sample_cap c = Inr cap \<Longrightarrow> 1024 \<le> cap \<and> cap \<le> MAX_SAMPLES"
  by (auto simp: sample_cap_def rbind_eq_Inr Let_def MAX_SAMPLES_def split: if_splits)

lemma sample_cap_no_oob: "sample_cap c \<noteq> Inl Out_of_bounds"
  by (auto simp: sample_cap_def rbind_eq_Inl Let_def split: if_splits)

lemma write_all_no_oob: "write_all p wrs \<noteq> Inl Out_of_bounds"
  by (induction p wrs rule: write_all.induct) (auto simp: rbind_eq_Inl Let_def)

lemma read_all_no_oob: "read_all n rds \<noteq> Inl Out_of_bounds"
  by (induction n rds rule: read_all.induct) (auto simp: rbind_eq_Inl split: rd_ans.splits)

lemma transaction_no_oob: "transaction c b \<noteq> Inl Out_of_bounds"
  by (auto simp: transaction_def rbind_eq_Inl Let_def write_all_no_oob read_all_no_oob)

lemma transaction_frame:
  "transaction c b = Inr (rc, b') \<Longrightarrow> b_n b' = b_n b \<and> b_lat b' = b_lat b \<and> b_nxt b' = b_nxt b"
  by (auto simp: transaction_def rbind_eq_Inr Let_def split: if_splits)

lemma warm_up_frame:
  "warm_up c ts b = Inr (ok, b') \<Longrightarrow> b_lat b' = b_lat b"
  by (induction c ts b rule: warm_up.induct) (auto simp: rbind_eq_Inr split: if_splits dest: transaction_frame)

lemma warm_up_no_oob: "warm_up c ts b \<noteq> Inl Out_of_bounds"
  by (induction c ts b rule: warm_up.induct) (auto simp: rbind_eq_Inl transaction_no_oob)

text \<open>The array of samples between two turns of the measurement loop.\<close>

definition bench_inv :: "int \<Rightarrow> 'd bench \<Rightarrow> bool" where
  "bench_inv cap b \<longleftrightarrow> 0 \<le> b_n b \<and> b_n b \<le> cap \<and> int (length (b_lat b)) = cap \<and> ts_wf (b_nxt b)"

text \<open>What the loop has done when it ends: \<open>k\<close> samples stored, and as many steps of the clock, or one more.\<close>

definition measured :: "ecfg \<Rightarrow> 'd tick list \<Rightarrow> 'd bench \<Rightarrow> 'd bench \<Rightarrow> nat \<Rightarrow> bool" where
  "measured c ts b b' k \<longleftrightarrow> b_n b' = b_n b + int k \<and>
     take (nat (b_n b')) (b_lat b') = take (nat (b_n b)) (b_lat b) @ map tk_rtt (take k ts) \<and>
     (ts_ns (b_nxt b') - ts_ns (b_nxt b) \<in> {int k * period_ns c, (int k + 1) * period_ns c})"

definition paced :: "ecfg \<Rightarrow> 'd bench \<Rightarrow> 'd bench" where
  "paced c b = (if period_ns c > 0 then b\<lparr>b_nxt := ts_add_ns (period_ns c) (b_nxt b)\<rparr> else b)"

lemma paced_sel:
  "b_n (paced c b) = b_n b" "b_lat (paced c b) = b_lat b"
  "bench_inv cap b \<Longrightarrow> bench_inv cap (paced c b)"
  "ts_wf (b_nxt b) \<Longrightarrow> ts_ns (b_nxt (paced c b)) = ts_ns (b_nxt b) + period_ns c"
  using period_ns_bounds[of c] ts_add_ns_exact[of "b_nxt b" "period_ns c"]
  by (auto simp: paced_def bench_inv_def)

text \<open>A sample is stored; then the rest of the loop.\<close>

lemma measured_step:
  fixes b b1 :: "'d bench" and t :: "'d tick"
  defines "b2 \<equiv> b1\<lparr>b_lat := (b_lat b1)[nat (b_n b1) := tk_rtt t], b_n := b_n b1 + 1\<rparr>"
  assumes b1: "b_n b1 = b_n b" "b_lat b1 = b_lat b" "ts_ns (b_nxt b1) = ts_ns (b_nxt b) + period_ns c"
    and inv: "bench_inv cap b" "b_n b < cap" and m: "measured c ts b2 b' k"
  shows "measured c (t # ts) b b' (Suc k)"
proof -
  have n: "nat (b_n b + 1) = Suc (nat (b_n b))" "nat (b_n b) < length (b_lat b)"
    using inv by (auto simp: bench_inv_def)
  have "take (nat (b_n b2)) (b_lat b2) = take (nat (b_n b)) (b_lat b) @ [tk_rtt t]"
    using n b1 by (simp add: b2_def take_Suc_conv_app_nth)
  then show ?thesis using m b1 by (auto simp: measured_def b2_def algebra_simps)
qed

lemma measure_loop_sound:
  assumes "bench_inv cap b" and "c_max_txns c > 0 \<longrightarrow> b_n b \<le> c_max_txns c"
  shows "measure_loop c cap ts b \<noteq> Inl Out_of_bounds \<and>
    (\<forall>b'. measure_loop c cap ts b = Inr b' \<longrightarrow>
       bench_inv cap b' \<and> (c_max_txns c > 0 \<longrightarrow> b_n b' \<le> c_max_txns c) \<and> (\<exists>k. measured c ts b b' k))"
  using assms
proof (induction ts arbitrary: b)
  case Nil
  then show ?case by simp
next
  case (Cons t ts)
  have stop: "measured c (t # ts) b b 0" by (simp add: measured_def)
  let ?stop = "tk_stop t \<or> (if c_max_txns c > 0 then b_n b \<ge> c_max_txns c else tk_time_up t) \<or> b_n b \<ge> cap"
  show ?case
  proof (cases ?stop)
    case True
    then have "measure_loop c cap (t # ts) b = Inr b" by auto
    then show ?thesis using Cons.prems stop by auto
  next
    case False
    have inv: "bench_inv cap (paced c b)" "b_n b < cap" using False paced_sel(3)[OF Cons.prems(1)] by simp_all
    have wf: "ts_wf (b_nxt b)" using Cons.prems by (simp add: bench_inv_def)
    have loop: "measure_loop c cap (t # ts) b = rbind (transaction c (paced c b)) (\<lambda>(rc, b).
        if rc < 0 then Inr b
        else if b_n b < 0 \<or> int (length (b_lat b)) \<le> b_n b then Inl Out_of_bounds
        else measure_loop c cap ts (b\<lparr>b_lat := (b_lat b)[nat (b_n b) := tk_rtt t], b_n := b_n b + 1\<rparr>))"
      using False by (auto simp: paced_def)
    show ?thesis
    proof (cases "transaction c (paced c b)")
      case (Inl e)
      then show ?thesis using loop transaction_no_oob[of c "paced c b"] by auto
    next
      case (Inr p)
      obtain rc b1 where p: "p = (rc, b1)" by (cases p)
      have b1: "b_n b1 = b_n b" "b_lat b1 = b_lat b" "b_nxt b1 = b_nxt (paced c b)"
        using transaction_frame[of c "paced c b" rc b1] Inr p paced_sel by auto
      have ns: "ts_ns (b_nxt b1) = ts_ns (b_nxt b) + period_ns c" using b1(3) paced_sel(4)[OF wf] by simp
      let ?b2 = "b1\<lparr>b_lat := (b_lat b1)[nat (b_n b1) := tk_rtt t], b_n := b_n b1 + 1\<rparr>"
      have i1: "bench_inv cap b1" "bench_inv cap ?b2"
        using inv b1 Cons.prems by (auto simp: bench_inv_def paced_sel)
      have oob: "\<not> (b_n b1 < 0 \<or> int (length (b_lat b1)) \<le> b_n b1)" using i1(1) inv(2) b1 by (auto simp: bench_inv_def)
      have mx: "c_max_txns c > 0 \<longrightarrow> b_n ?b2 \<le> c_max_txns c" using False b1 by auto
      show ?thesis
      proof (cases "rc < 0")
        case True
        have "measured c (t # ts) b b1 0" using b1 ns by (simp add: measured_def)
        then show ?thesis using loop Inr p True i1 Cons.prems b1 by auto
      next
        case rc: False
        have e: "measure_loop c cap (t # ts) b = measure_loop c cap ts ?b2" using loop Inr p rc oob by simp
        show ?thesis
          using Cons.IH[OF i1(2) mx] measured_step[OF b1(1,2) ns Cons.prems(1) inv(2)] unfolding e by blast
      qed
    qed
  qed
qed

section \<open>Properties\<close>

text \<open>
  The client never stores outside its array of samples, whatever the options and the answers of the
  kernel; the array has between 1024 and 4000000 entries; there are never more samples than were asked
  for, and they are the ones measured, in order.
\<close>

theorem run_bench_in_bounds:
  assumes "ts_wf t1"
  shows "run_bench c junk t0 t1 warm ticks wrs rds \<noteq> Inl Out_of_bounds \<and>
    (\<forall>b. run_bench c junk t0 t1 warm ticks wrs rds = Inr b \<longrightarrow>
       1024 \<le> length (b_lat b) \<and> length (b_lat b) \<le> 4000000 \<and> 0 \<le> b_n b \<and> b_n b \<le> int (length (b_lat b)) \<and>
       (0 < c_max_txns c \<longrightarrow> b_n b \<le> c_max_txns c) \<and>
       take (nat (b_n b)) (b_lat b) = map tk_rtt (take (nat (b_n b)) ticks))"
proof (cases "sample_cap c")
  case (Inl e)
  then show ?thesis using sample_cap_no_oob[of c] by (auto simp: run_bench_def)
next
  case (Inr cap)
  note cap = sample_cap_bounds[OF Inr, unfolded MAX_SAMPLES_def]
  let ?b = "\<lparr>b_n = 0, b_lat = replicate (nat cap) junk, b_nxt = t0, b_wrs = wrs, b_rds = rds\<rparr>"
  let ?w = "if c_warmup c > 0 then warm_up c warm ?b else Inr (True, ?b)"
  show ?thesis
  proof (cases ?w)
    case w: (Inl e)
    then show ?thesis using Inr warm_up_no_oob[of c warm ?b] by (auto simp: run_bench_def Let_def split: if_splits)
  next
    case w: (Inr p)
    obtain ok b1 where p: "p = (ok, b1)" by (cases p)
    have "b_lat b1 = replicate (nat cap) junk"
      using w p warm_up_frame[of c warm ?b ok b1] by (auto split: if_splits)
    then have inv: "bench_inv cap (b1\<lparr>b_n := 0, b_nxt := t1\<rparr>)" using cap assms by (simp add: bench_inv_def)
    have r: "run_bench c junk t0 t1 warm ticks wrs rds =
        (if ok then measure_loop c cap ticks (b1\<lparr>b_n := 0, b_nxt := t1\<rparr>) else Inr (b1\<lparr>b_n := 0, b_nxt := t1\<rparr>))"
      using Inr w p by (simp add: run_bench_def Let_def)
    have s: "measure_loop c cap ticks (b1\<lparr>b_n := 0, b_nxt := t1\<rparr>) \<noteq> Inl Out_of_bounds \<and>
      (\<forall>b'. measure_loop c cap ticks (b1\<lparr>b_n := 0, b_nxt := t1\<rparr>) = Inr b' \<longrightarrow> bench_inv cap b' \<and>
         (c_max_txns c > 0 \<longrightarrow> b_n b' \<le> c_max_txns c) \<and> (\<exists>k. measured c ticks (b1\<lparr>b_n := 0, b_nxt := t1\<rparr>) b' k))"
      by (rule measure_loop_sound[OF inv]) simp
    show ?thesis using s cap inv unfolding r by (cases ok) (auto simp: bench_inv_def measured_def)
  qed
qed

definition demo_ecfg :: ecfg where
  "demo_ecfg = ecfg_default\<lparr>c_pkt_size := 1, c_max_txns := 2, c_warmup := 0\<rparr>"

definition demo_ticks :: "nat tick list" where
  "demo_ticks = map (\<lambda>r. \<lparr>tk_stop = False, tk_time_up = False, tk_rtt = r\<rparr>) [30, 40, 50]"

lemma ts_wf_0: "ts_wf \<lparr>tv_sec = 0, tv_nsec = 0\<rparr>"
  by (simp add: ts_wf_def)

lemma demo_run_bench:
  "\<exists>b. run_bench demo_ecfg 0 \<lparr>tv_sec = 0, tv_nsec = 0\<rparr> \<lparr>tv_sec = 0, tv_nsec = 0\<rparr> [] demo_ticks [W_take 0, W_take 0] [R_data ''BB''] = Inr b \<and>
     b_n b = 2"
  by (simp add: run_bench_def sample_cap_def demo_ecfg_def ecfg_default_def MAX_SAMPLES_def demo_ticks_def
      transaction_def sndbuf_def sys_write_def period_ns_def)

theorem run_bench_in_bounds_witness:
  "\<exists>b. run_bench demo_ecfg 0 \<lparr>tv_sec = 0, tv_nsec = 0\<rparr> \<lparr>tv_sec = 0, tv_nsec = 0\<rparr> [] demo_ticks [W_take 0, W_take 0] [R_data ''BB''] = Inr b \<and>
     b_n b = 2 \<and> take 2 (b_lat b) = [30, 40] \<and> 1024 \<le> length (b_lat b)"
proof -
  obtain b where b: "run_bench demo_ecfg 0 \<lparr>tv_sec = 0, tv_nsec = 0\<rparr> \<lparr>tv_sec = 0, tv_nsec = 0\<rparr> [] demo_ticks
      [W_take 0, W_take 0] [R_data ''BB''] = Inr b" "b_n b = 2"
    using demo_run_bench by blast
  then show ?thesis
    using run_bench_in_bounds[OF ts_wf_0, of demo_ecfg 0 "\<lparr>tv_sec = 0, tv_nsec = 0\<rparr>" "[]" demo_ticks
        "[W_take 0, W_take 0]" "[R_data ''BB'']"]
    by (simp add: demo_ticks_def)
qed

text \<open>
  Pacing does not drift: with every accepted configuration, however many transactions \<open>k\<close> are made, the
  next slot is exactly \<open>k\<close> periods after the first, or \<open>k + 1\<close> when the last transaction failed, as
  a normalised time.
\<close>

theorem measure_loop_paced:
  assumes "eclnt_config os = Inr c" and "bench_inv cap b" and "b_n b = 0"
    and "measure_loop c cap ts b = Inr b'"
  shows "ts_wf (b_nxt b') \<and> 0 < c_rate c \<and>
    ts_ns (b_nxt b') - ts_ns (b_nxt b) \<in> {b_n b' * (1000000000 div c_rate c), (b_n b' + 1) * (1000000000 div c_rate c)}"
proof -
  have "0 < c_rate c" using assms(1) by (auto simp: eclnt_config_def split: sum.splits if_splits)
  moreover have "bench_inv cap b' \<and> (\<exists>k. measured c ts b b' k)"
    using measure_loop_sound[OF assms(2), of c ts] assms(3,4) by auto
  ultimately show ?thesis using assms(3) by (auto simp: measured_def bench_inv_def period_ns_def)
qed

theorem measure_loop_paced_witness:
  "\<exists>c b b'. eclnt_config [Opt_r 3, Opt_n 2, Opt_s 1] = Inr c \<and> measure_loop c 1024 demo_ticks b = Inr b' \<and>
     b_nxt b = \<lparr>tv_sec = 0, tv_nsec = 900000000\<rparr> \<and> ts_wf (b_nxt b') \<and>
     ts_ns (b_nxt b') - 900000000 \<in> {b_n b' * 333333333, (b_n b' + 1) * 333333333}"
proof -
  let ?c = "ecfg_default\<lparr>c_rate := 3, c_max_txns := 2, c_pkt_size := 1\<rparr>"
  let ?b = "\<lparr>b_n = 0, b_lat = replicate 1024 0, b_nxt = \<lparr>tv_sec = 0, tv_nsec = 900000000\<rparr>,
    b_wrs = [W_take 0, W_take 0], b_rds = [R_data ''BB'']\<rparr>"
  have c: "eclnt_config [Opt_r 3, Opt_n 2, Opt_s 1] = Inr ?c" by (simp add: eclnt_config_def ecfg_default_def)
  have i: "bench_inv 1024 ?b" by (simp add: bench_inv_def ts_wf_def)
  have "\<exists>b'. measure_loop ?c 1024 demo_ticks ?b = Inr b'"
    by (simp add: demo_ticks_def transaction_def sndbuf_def sys_write_def ecfg_default_def Let_def)
  then obtain b' where m: "measure_loop ?c 1024 demo_ticks ?b = Inr b'" by blast
  show ?thesis using measure_loop_paced[OF c i _ m] c m by (intro exI[of _ ?c] exI[of _ ?b] exI[of _ b']) (simp add: ts_ns_def)
qed

end
