(* ===== verification/Findlib.thy ===== *)
theory Findlib
  imports Clib
begin

text \<open>
  Finding a library in the address space (\<open>misc/findlibkallsyms.c\<close>): \<open>find_libkallsyms\<close> reads
  \<open>/proc/self/maps\<close> line by line and converts the two addresses of the first line whose last path component
  contains the name, without the C library's conversions.
\<close>

section \<open>The operations\<close>

definition LINE_MAX :: nat where "LINE_MAX = 256"

definition newline :: char where "newline = CHR 0x0A"

definition kallsyms_name :: string where "kallsyms_name = ''libkallsyms.so''"

definition iskallsyms :: "string \<Rightarrow> bool" where
  "iskallsyms path = strstr path kallsyms_name"

text \<open>\<open>hexstr2ull\<close>: the first loop counts digits, the second goes back over them; the arithmetic wraps.\<close>

function digits_loop :: "string \<Rightarrow> nat \<Rightarrow> nat \<Rightarrow> nat" where
  "digits_loop str len i =
     (if i < len \<and> i < length str \<and> hexval (str ! i) \<noteq> None then digits_loop str len (Suc i) else i)"
  by pat_completeness auto
termination by (relation "measure (\<lambda>(str, len, i). len - i)") auto

declare digits_loop.simps [simp del]

primrec value_loop :: "string \<Rightarrow> nat \<Rightarrow> u64 \<Rightarrow> u64 \<Rightarrow> u64 option" where
  "value_loop str 0 v p = Some v"
| "value_loop str (Suc i) v p = (case hexval (str ! i) of
     None \<Rightarrow> None
   | Some d \<Rightarrow> value_loop str i (v + of_nat d * p) (p * 16))"

text \<open>The number of digits, and the value when it is stored.\<close>

definition hexstr2ull :: "string \<Rightarrow> nat \<Rightarrow> nat \<times> u64 option" where
  "hexstr2ull str len =
     (let rc = digits_loop str len 0
      in case value_loop str rc 0 1 of None \<Rightarrow> (0, None) | Some v \<Rightarrow> (rc, Some v))"

text \<open>\<open>fgets(line, n + 1, f)\<close>: at most \<open>n\<close> characters, up to and with a newline.\<close>

primrec fgets :: "nat \<Rightarrow> string \<Rightarrow> string \<times> string" where
  "fgets 0 s = ([], s)"
| "fgets (Suc n) s = (case s of
     [] \<Rightarrow> ([], [])
   | c # s \<Rightarrow> if c = newline \<or> n = 0 then ([c], s) else (let (l, r) = fgets n s in (c # l, r)))"

text \<open>What one line gives: nothing, or the addresses stored and the result with which the loop is left.\<close>

definition maps_line :: "string \<Rightarrow> (u64 \<times> u64 \<times> bool) option" where
  "maps_line line = (case strrchr line slash of
     None \<Rightarrow> None
   | Some path \<Rightarrow>
       if strstr line ''[stack]'' \<or> strstr line ''[heap]'' then None
       else
         let nl = (last path = newline);
             path = (if nl then butlast path else path);
             line = (if nl then butlast line else line)
         in if \<not> iskallsyms path then None
            else case hexstr2ull line (length line) of
                (n, x) \<Rightarrow>
                  if n = 0 then Some (0, 0, False)
                  else let n = n + 1 in
                    case hexstr2ull (drop n line) (length line - n) of
                      (m, y) \<Rightarrow> if m = 0 then Some (the x, 0, False) else Some (the x, the y, True))"

text \<open>\<open>find_libkallsyms\<close> on the text of the file; \<open>None\<close> when it cannot be opened. The line buffer holds \<open>LINE_MAX\<close> bytes.\<close>

lemma fgets_shorter: "s \<noteq> [] \<Longrightarrow> length (snd (fgets (Suc n) s)) < length s"
proof (induction n arbitrary: s)
  case 0
  then show ?case by (auto split: list.splits)
next
  case (Suc n)
  then obtain c t where s: "s = c # t" by (cases s) auto
  show ?case
  proof (cases "t = []")
    case True
    then show ?thesis using s by simp
  next
    case False
    then show ?thesis using s Suc.IH[of t] by (auto simp del: fgets.simps(2) simp add: fgets.simps(2)[of "Suc n"] split: prod.splits)
  qed
qed

function find_loop :: "string \<Rightarrow> u64 \<times> u64 \<times> bool" where
  "find_loop s =
     (if s = [] then (0, 0, False)
      else let (line, rest) = fgets (LINE_MAX - 1) s
           in case maps_line line of None \<Rightarrow> find_loop rest | Some r \<Rightarrow> r)"
  by pat_completeness auto
termination
proof (relation "measure length")
  fix s :: string and x line rest
  assume "s \<noteq> []" "x = fgets (LINE_MAX - 1) s" "(line, rest) = x"
  then show "(rest, s) \<in> measure length"
    using fgets_shorter[of s 254] by (auto simp: LINE_MAX_def numeral_eq_Suc dest: sym)
qed simp

declare find_loop.simps [simp del]

definition find_libkallsyms :: "string option \<Rightarrow> u64 \<times> u64 \<times> bool" where
  "find_libkallsyms maps = (case maps of None \<Rightarrow> (0, 0, False) | Some s \<Rightarrow> find_loop s)"

section \<open>Numbers\<close>

lemma digits_loop_eq:
  "i \<le> length (takeWhile (\<lambda>c. hexval c \<noteq> None) (take len str)) \<Longrightarrow>
   digits_loop str len i = length (takeWhile (\<lambda>c. hexval c \<noteq> None) (take len str))"
proof (induction str len i rule: digits_loop.induct)
  case (1 str len i)
  let ?ds = "takeWhile (\<lambda>c. hexval c \<noteq> None) (take len str)"
  show ?case
  proof (cases "i < length ?ds")
    case True
    then have "i < len" "i < length str" by (auto dest: less_le_trans[OF _ length_takeWhile_le])
    moreover from True have "hexval (str ! i) \<noteq> None"
      using nth_mem[OF True] set_takeWhileD[of "?ds ! i" "\<lambda>c. hexval c \<noteq> None" "take len str"]
        takeWhile_nth[OF True] calculation by simp
    ultimately show ?thesis using 1 True by (subst digits_loop.simps) simp
  next
    case False
    then have i: "i = length ?ds" using 1(2) by simp
    have "\<not> (i < len \<and> i < length str \<and> hexval (str ! i) \<noteq> None)"
      using nth_length_takeWhile[of "\<lambda>c. hexval c \<noteq> None" "take len str"] unfolding i by auto
    then have "digits_loop str len i = i" by (subst digits_loop.simps) (simp only: if_False)
    then show ?thesis using i by simp
  qed
qed

lemma hexnum_snoc: "hexnum (ds @ [c]) = 16 * hexnum ds + the (hexval c)"
  by (simp add: hexnum_def)

lemma value_loop_eq:
  assumes "\<forall>j < i. hexval (str ! j) \<noteq> None" and "i \<le> length str"
  shows "value_loop str i v p = Some (v + of_nat (hexnum (take i str)) * p)"
  using assms
proof (induction i arbitrary: v p)
  case 0
  then show ?case by (simp add: hexnum_def)
next
  case (Suc i)
  obtain d where d: "hexval (str ! i) = Some d" using Suc.prems by auto
  have "hexnum (take (Suc i) str) = 16 * hexnum (take i str) + d"
    using Suc.prems d by (simp add: take_Suc_conv_app_nth hexnum_snoc)
  then show ?case using Suc d by (simp add: algebra_simps)
qed

text \<open>Both loops against the value of the string of digits.\<close>

lemma hexstr2ull_eq:
  "hexstr2ull str len =
    (let ds = takeWhile (\<lambda>c. hexval c \<noteq> None) (take len str) in (length ds, Some (of_nat (hexnum ds))))"
proof -
  let ?ds = "takeWhile (\<lambda>c. hexval c \<noteq> None) (take len str)"
  have l: "length ?ds \<le> length str" using length_takeWhile_le[of "\<lambda>c. hexval c \<noteq> None" "take len str"] by simp
  have t: "take (length ?ds) str = ?ds"
    using takeWhile_eq_take[of "\<lambda>c. hexval c \<noteq> None" "take len str"] length_takeWhile_le[of "\<lambda>c. hexval c \<noteq> None" "take len str"]
    by (simp add: min_absorb1)
  have "hexval (str ! j) \<noteq> None" if "j < length ?ds" for j
  proof -
    have "str ! j = ?ds ! j" using t that by (metis nth_take)
    then show ?thesis using nth_mem[OF that] by (auto dest: set_takeWhileD)
  qed
  then have "value_loop str (length ?ds) 0 1 = Some (of_nat (hexnum ?ds))"
    using value_loop_eq[OF _ l, of 0 1] t by simp
  then show ?thesis using digits_loop_eq[of 0 len str] by (simp add: hexstr2ull_def Let_def)
qed

section \<open>Lines\<close>

lemma fgets_line: "newline \<notin> set l \<Longrightarrow> length l < n \<Longrightarrow> fgets n (l @ newline # r) = (l @ [newline], r)"
proof (induction l arbitrary: n)
  case Nil
  then show ?case by (cases n) auto
next
  case (Cons c l)
  then obtain m where m: "n = Suc m" "length l < m" by (cases n) auto
  then show ?case using Cons by auto
qed

lemma find_loop_line:
  assumes "newline \<notin> set l" and "length l < LINE_MAX - 1"
  shows "find_loop (l @ newline # r) = (case maps_line (l @ [newline]) of None \<Rightarrow> find_loop r | Some x \<Rightarrow> x)"
  using fgets_line[OF assms] by (subst find_loop.simps) simp

lemma find_loop_skip:
  assumes "\<forall>l \<in> set ls. newline \<notin> set l \<and> length l < LINE_MAX - 1 \<and> maps_line (l @ [newline]) = None"
  shows "find_loop (concat (map (\<lambda>l. l @ [newline]) ls) @ r) = find_loop r"
  using assms by (induction ls) (simp_all add: find_loop_line)

text \<open>
  A line as the kernel writes it: two addresses of \<open>k\<close> digits, and more text that has the path.
\<close>

definition maps_text :: "nat \<Rightarrow> u64 \<Rightarrow> u64 \<Rightarrow> string \<Rightarrow> string" where
  "maps_text k a b tail = hexstr k (unat a) @ CHR ''-'' # hexstr k (unat b) @ CHR '' '' # tail"

text \<open>The lines that name the library: the last component of the path has the name in it.\<close>

definition names_lib :: "string \<Rightarrow> bool" where
  "names_lib l \<longleftrightarrow> slash \<in> set l \<and> strstr (slash # after_last slash l) kallsyms_name \<and>
     \<not> strstr l ''[stack]'' \<and> \<not> strstr l ''[heap]''"

lemma hexval_hexstr: "c \<in> set (hexstr k n) \<Longrightarrow> hexval c \<noteq> None"
  using hexstr_digits[of c k n] hexval_hexdigit by auto

lemma hexval_stops: "hexval (CHR ''-'') = None" "hexval (CHR '' '') = None"
  by code_simp+

lemma hexstr2ull_hexstr:
  assumes "16 ^ k = (m :: nat)" and "unat a < m" and "hexval c = None"
  shows "hexstr2ull (hexstr k (unat a) @ c # s) (length (hexstr k (unat a) @ c # s)) = (k, Some a)"
proof -
  have "takeWhile (\<lambda>c. hexval c \<noteq> None) (hexstr k (unat a) @ c # s) = hexstr k (unat a)"
    using takeWhile_append_stop[of "hexstr k (unat a)" "\<lambda>c. hexval c \<noteq> None" c s] assms(3) hexval_hexstr by blast
  moreover have "hexnum (hexstr k (unat a)) = unat a" using assms(1,2) by (simp add: hexnum_hexstr)
  ultimately show ?thesis by (simp add: hexstr2ull_eq)
qed

lemma after_last_snoc: "x \<noteq> c \<Longrightarrow> after_last c (s @ [x]) = after_last c s @ [x]"
  by (simp add: after_last_def)

lemma strstr_snoc:
  assumes "x \<notin> set t"
  shows "strstr (s @ [x]) t \<longleftrightarrow> strstr s t"
proof
  assume "strstr (s @ [x]) t"
  then obtain p q where pq: "s @ [x] = p @ t @ q" using strstr_iff by blast
  show "strstr s t"
  proof (cases q rule: rev_cases)
    case Nil
    then have "t = []" using pq assms by (cases t rule: rev_cases) auto
    then show ?thesis using strstr_iff by blast
  next
    case (snoc q' y)
    then have "s = p @ t @ q'" using pq by simp
    then show ?thesis using strstr_iff by blast
  qed
next
  assume "strstr s t"
  then show "strstr (s @ [x]) t" using strstr_iff by (metis append.assoc)
qed

lemma newline_notin:
  "newline \<notin> set kallsyms_name" "newline \<notin> set ''[stack]''" "newline \<notin> set ''[heap]''" "newline \<noteq> slash"
  by (simp_all add: newline_def kallsyms_name_def)

lemma maps_line_names:
  assumes "newline \<notin> set l"
  shows "maps_line (l @ [newline]) =
    (if \<not> names_lib l then None
     else case hexstr2ull l (length l) of
       (n, x) \<Rightarrow> if n = 0 then Some (0, 0, False)
         else case hexstr2ull (drop (n + 1) l) (length l - (n + 1)) of
           (m, y) \<Rightarrow> if m = 0 then Some (the x, 0, False) else Some (the x, the y, True))"
  using newline_notin
  by (auto simp: maps_line_def strrchr_def names_lib_def iskallsyms_def strstr_snoc after_last_snoc Let_def
      split: prod.splits)

lemma maps_line_text:
  assumes "names_lib (maps_text k a b tail)" and "newline \<notin> set (maps_text k a b tail)"
    and "0 < k" and "unat a < 16 ^ k" and "unat b < 16 ^ k"
  shows "maps_line (maps_text k a b tail @ [newline]) = Some (a, b, True)"
proof -
  let ?l = "maps_text k a b tail"
  have 1: "hexstr2ull ?l (length ?l) = (k, Some a)"
    unfolding maps_text_def by (rule hexstr2ull_hexstr[OF refl assms(4) hexval_stops(1)])
  have d: "drop (k + 1) ?l = hexstr k (unat b) @ CHR '' '' # tail" by (simp add: maps_text_def)
  have 2: "hexstr2ull (drop (k + 1) ?l) (length ?l - (k + 1)) = (k, Some b)"
    using hexstr2ull_hexstr[OF refl assms(5) hexval_stops(2), of tail] unfolding d[symmetric] by simp
  show ?thesis using assms(1-3) 1 2 by (simp add: maps_line_names)
qed

section \<open>Properties\<close>

text \<open>
  The conversion of \<open>hexstr2ull\<close>, a loop over the digits from the last to the first with a running power, is the
  number that the leading hexadecimal digits of the string denote, modulo \<open>2 ^ 64\<close>; the result is how many digits there are.
\<close>

theorem hexstr2ull_reference:
  "hexstr2ull str len =
    (length (takeWhile (\<lambda>c. hexval c \<noteq> None) (take len str)),
     Some (of_nat (hexnum (takeWhile (\<lambda>c. hexval c \<noteq> None) (take len str)))))"
  by (simp add: hexstr2ull_eq Let_def)

text \<open>
  \<open>find_libkallsyms\<close> finds the first mapping of the library: when the lines before do not name it, the two
  addresses that the kernel wrote on the first line that does are returned, whatever follows.
\<close>

theorem find_libkallsyms_first:
  assumes "\<forall>l \<in> set ls. newline \<notin> set l \<and> length l < 255 \<and> \<not> names_lib l"
    and "names_lib (maps_text k a b tail)" and "newline \<notin> set (maps_text k a b tail)" and "length (maps_text k a b tail) < 255"
    and "0 < k" and "unat a < 16 ^ k" and "unat b < 16 ^ k"
  shows "find_libkallsyms (Some (concat (map (\<lambda>l. l @ [newline]) ls) @ maps_text k a b tail @ newline # rest)) = (a, b, True)"
proof -
  have "\<forall>l \<in> set ls. newline \<notin> set l \<and> length l < LINE_MAX - 1 \<and> maps_line (l @ [newline]) = None"
    using assms(1) by (simp add: maps_line_names LINE_MAX_def)
  then have "find_loop (concat (map (\<lambda>l. l @ [newline]) ls) @ maps_text k a b tail @ newline # rest) =
      find_loop (maps_text k a b tail @ newline # rest)"
    by (rule find_loop_skip)
  also have "\<dots> = (a, b, True)"
    using find_loop_line[OF assms(3), of rest] assms(4) maps_line_text[OF assms(2,3,5-7)] by (simp add: LINE_MAX_def)
  finally show ?thesis by (simp add: find_libkallsyms_def)
qed

theorem find_libkallsyms_first_witness:
  "find_libkallsyms (Some (concat (map (\<lambda>l. l @ [newline]) [''7f00-7f01 r--p [heap]'', ''7f01-7f02 r-xp /lib/libc.so''])
     @ maps_text 4 0x7f02 0x7f09 ''r-xp /lib/libkallsyms.so'' @ newline # [])) = (0x7f02, 0x7f09, True)"
proof -
  have t: "maps_text 4 0x7f02 0x7f09 ''r-xp /lib/libkallsyms.so'' = ''7f02-7f09 r-xp /lib/libkallsyms.so''"
    by (simp add: maps_text_def hexstr_eval)
  have n: "names_lib (maps_text 4 0x7f02 0x7f09 ''r-xp /lib/libkallsyms.so'')" unfolding t by code_simp
  have m: "\<not> names_lib ''7f00-7f01 r--p [heap]''" "\<not> names_lib ''7f01-7f02 r-xp /lib/libc.so''" by code_simp+
  have l: "newline \<notin> set (maps_text 4 0x7f02 0x7f09 ''r-xp /lib/libkallsyms.so'')" unfolding t by code_simp
  show ?thesis
    by (rule find_libkallsyms_first[OF _ n l]) (simp_all add: m t newline_def)
qed

end
