(* ===== verification/Kldso.thy ===== *)
theory Kldso
  imports Prelude
begin

text \<open>
  The program interpreter \<open>kld.so\<close> (\<open>tools/src/kldso/main.c\<close>): an entry point without a C library that starts a script
  with the arguments of the program it was invoked for.

  A \<open>char *\<close> is the memory from where it points on, with the terminating NUL in it; running off
  the end of it is a fault.
\<close>

section \<open>Strings\<close>

fun my_strlen :: "char list \<Rightarrow> nat res" where
  "my_strlen [] = Inl Out_of_bounds"
| "my_strlen (c # s) = (if c = NUL then Inr 0 else rbind (my_strlen s) (\<lambda>n. Inr (Suc n)))"

fun starts_with :: "char list \<Rightarrow> char list \<Rightarrow> bool res" where
  "starts_with s [] = Inl Out_of_bounds"
| "starts_with s (p # ps) =
     (if p = NUL then Inr True
      else case s of [] \<Rightarrow> Inl Out_of_bounds | c # cs \<Rightarrow> if p \<noteq> c then Inr False else starts_with cs ps)"

definition char_at :: "char list \<Rightarrow> nat \<Rightarrow> char res" where
  "char_at s i = (if i < length s then Inr (s ! i) else Inl Out_of_bounds)"

text \<open>The environment is an array of strings up to a NULL, the end of the list.\<close>

fun get_env_value :: "char list list \<Rightarrow> char list \<Rightarrow> (char list option) res" where
  "get_env_value [] key = Inr None"
| "get_env_value (current # envp) key =
     rbind (starts_with current key) (\<lambda>b.
     if b then rbind (my_strlen key) (\<lambda>key_len.
               rbind (char_at current key_len) (\<lambda>c.
               if c = CHR ''='' then Inr (Some (drop (key_len + 1) current)) else get_env_value envp key))
     else get_env_value envp key)"

section \<open>The entry point\<close>

text \<open>The system calls that are made; an array of pointers as \<open>execve\<close> gets it, NULL as \<open>None\<close>.\<close>

datatype so_call =
    Sys_write int "char list"
  | Sys_execve "char list" "char list option list" "char list list"
  | Sys_exit int

text \<open>\<open>sys_write(2, argv[i], my_strlen(argv[i]))\<close> for all arguments, each after a blank.\<close>

primrec debug_args :: "char list list \<Rightarrow> so_call list res" where
  "debug_args [] = Inr []"
| "debug_args (a # as) =
     rbind (my_strlen a) (\<lambda>n. rbind (debug_args as) (\<lambda>cs. Inr (Sys_write 2 '' '' # Sys_write 2 (take n a) # cs)))"

text \<open>\<open>newargv[i + 1] = argv[i]\<close> for \<open>i\<close> up to \<open>argc\<close>, from the arrays as the C code has them.\<close>

function copy_args :: "char list option list \<Rightarrow> nat \<Rightarrow> nat \<Rightarrow> char list option list \<Rightarrow> (char list option list) res" where
  "copy_args argv argc i newargv =
     (if i < argc + 1
      then if length argv \<le> i \<or> length newargv \<le> i + 1 then Inl Out_of_bounds
           else copy_args argv argc (i + 1) (newargv[i + 1 := argv ! i])
      else Inr newargv)"
  by pat_completeness auto
termination by (relation "measure (\<lambda>(argv, argc, i, newargv). argc + 1 - i)") auto

declare copy_args.simps [simp del]

text \<open>
  \<open>c_entry\<close>: \<open>args\<close> are the strings of \<open>argv\<close>, after which the kernel puts NULL and the environment; \<open>junk\<close> is what
  the new array holds before it is filled. The calls are those made when \<open>execve\<close> fails.
\<close>

definition c_entry :: "char list \<Rightarrow> char list option \<Rightarrow> char list list \<Rightarrow> char list list \<Rightarrow> so_call list res" where
  "c_entry script_path junk args envp =
     (let argc = length args; argv = map Some args @ [None]
      in rbind (get_env_value envp (''KLD_DEBUG'' @ [NUL])) (\<lambda>v.
         rbind (if v \<noteq> None
                then rbind (debug_args args) (\<lambda>cs. Inr (Sys_write 2 ''[KLD.SO]:'' # cs @ [Sys_write 2 [CHR 0x0A]]))
                else Inr []) (\<lambda>dbg.
         let newargv = (replicate (argc + 2) junk)[0 := Some script_path]
         in rbind (copy_args argv argc 0 newargv) (\<lambda>newargv.
            Inr (dbg @ [Sys_execve script_path newargv envp, Sys_exit 1])))))"

section \<open>Correctness\<close>

definition c_string :: "string \<Rightarrow> char list" where
  "c_string s = s @ [NUL]"

lemma my_strlen_c_string: "NUL \<notin> set s \<Longrightarrow> my_strlen (c_string s) = Inr (length s)"
  by (induction s) (auto simp: c_string_def)

lemma starts_with_c_string:
  "NUL \<notin> set s \<Longrightarrow> NUL \<notin> set p \<Longrightarrow> starts_with (c_string s) (c_string p) = Inr (take (length p) s = p)"
proof (induction p arbitrary: s)
  case Nil
  then show ?case by (simp add: c_string_def)
next
  case (Cons c p)
  then show ?case by (cases s) (auto simp: c_string_def)
qed

text \<open>The reference: the first assignment to the name, what follows its \<open>=\<close>.\<close>

definition env_lookup :: "string list \<Rightarrow> string \<Rightarrow> string option" where
  "env_lookup es key = map_option (drop (length key + 1)) (find (\<lambda>e. take (length key + 1) e = key @ ''='') es)"

lemma prefix_eq_step:
  assumes "NUL \<notin> set e" and "take (length key) e = key"
  shows "take (length key + 1) e = key @ ''='' \<longleftrightarrow> c_string e ! length key = CHR ''=''" "length key < length (c_string e)"
proof -
  obtain r where r: "e = key @ r" using assms(2) by (metis append_take_drop_id)
  show "length key < length (c_string e)" by (simp add: r c_string_def)
  show "take (length key + 1) e = key @ ''='' \<longleftrightarrow> c_string e ! length key = CHR ''=''"
    by (cases r) (auto simp: r c_string_def nth_append)
qed

lemma get_env_value_eq:
  assumes "\<forall>e \<in> set es. NUL \<notin> set e" and "NUL \<notin> set key"
  shows "get_env_value (map c_string es) (c_string key) = Inr (map_option c_string (env_lookup es key))"
  using assms
proof (induction es)
  case Nil
  then show ?case by (simp add: env_lookup_def)
next
  case (Cons e es)
  have s: "starts_with (c_string e) (c_string key) = Inr (take (length key) e = key)"
    using Cons.prems by (intro starts_with_c_string) auto
  show ?case
  proof (cases "take (length key) e = key")
    case False
    then have "take (length key + 1) e \<noteq> key @ ''=''" by (metis append_eq_conv_conj take_take min.absorb1 le_add1)
    then show ?thesis using s False Cons by (simp add: env_lookup_def)
  next
    case True
    note p = prefix_eq_step[of e key, OF _ True]
    have n: "NUL \<notin> set e" using Cons.prems by simp
    have d: "drop (length key + 1) (c_string e) = c_string (drop (length key + 1) e)" if "take (length key + 1) e = key @ ''=''"
    proof -
      have "length key + 1 \<le> length e" using arg_cong[OF that, of length] by simp
      then show ?thesis by (simp add: c_string_def)
    qed
    show ?thesis
      using s True Cons p[OF n] d my_strlen_c_string[OF Cons.prems(2)]
      by (cases "take (length key + 1) e = key @ ''=''") (simp_all add: env_lookup_def char_at_def)
  qed
qed

lemma debug_args_eq:
  "\<forall>a \<in> set as. NUL \<notin> set a \<Longrightarrow>
    debug_args (map c_string as) = Inr (concat (map (\<lambda>a. [Sys_write 2 '' '', Sys_write 2 a]) as))"
  by (induction as) (simp_all add: my_strlen_c_string, simp add: c_string_def)

lemma copy_args_eq:
  assumes "i \<le> length argv" and "length argv = argc + 1" and "length junk = argc + 1 - i"
  shows "copy_args argv argc i (s # take i argv @ junk) = Inr (s # argv)"
  using assms
proof (induction "argc + 1 - i" arbitrary: i junk)
  case 0
  then show ?case by (subst copy_args.simps) simp
next
  case (Suc n)
  obtain j js where j: "junk = j # js" using Suc by (cases junk) auto
  have i: "i < argc + 1" using Suc by simp
  have "(s # take i argv @ junk)[i + 1 := argv ! i] = s # take (i + 1) argv @ js"
    using i Suc.prems j by (simp add: list_update_append take_Suc_conv_app_nth)
  then show ?case
    using Suc.hyps(1)[of "i + 1" js] Suc.hyps(2) Suc.prems i j
    by (subst copy_args.simps) simp
qed

section \<open>Properties\<close>

text \<open>
  \<open>get_env_value\<close> reads no byte outside the strings and returns what follows the \<open>=\<close> of the first entry for
  exactly that name: an entry for a longer name with the same beginning does not count.
\<close>

theorem get_env_value_reference:
  assumes "\<forall>e \<in> set es. NUL \<notin> set e" and "NUL \<notin> set key"
  shows "get_env_value (map c_string es) (c_string key) = Inr (map_option c_string (env_lookup es key))"
  by (rule get_env_value_eq[OF assms])

theorem get_env_value_reference_witness:
  "get_env_value (map c_string [''HOMEPATH=/x'', ''HOME=/root'']) (c_string ''HOME'') = Inr (Some (c_string ''/root''))"
proof -
  have "env_lookup [''HOMEPATH=/x'', ''HOME=/root''] ''HOME'' = Some ''/root''" by code_simp
  then show ?thesis using get_env_value_reference[of "[''HOMEPATH=/x'', ''HOME=/root'']" "''HOME''"] by simp
qed

text \<open>
  \<open>c_entry\<close> executes the script with its own path put in front of the arguments, a NULL after the last and
  the environment unchanged, stays inside its array, and exits with status 1 if that fails; with
  \<open>KLD_DEBUG\<close> set it writes the arguments to the standard error first, and otherwise nothing.
\<close>

theorem c_entry_execs:
  assumes "\<forall>a \<in> set as. NUL \<notin> set a" and "\<forall>e \<in> set es. NUL \<notin> set e"
  shows "c_entry script junk (map c_string as) (map c_string es) = Inr (
    (if env_lookup es ''KLD_DEBUG'' = None then []
     else Sys_write 2 ''[KLD.SO]:'' # concat (map (\<lambda>a. [Sys_write 2 '' '', Sys_write 2 a]) as) @ [Sys_write 2 [CHR 0x0A]]) @
    [Sys_execve script (Some script # map (Some \<circ> c_string) as @ [None]) (map c_string es), Sys_exit 1])"
proof -
  let ?argv = "map Some (map c_string as) @ [None]"
  have "copy_args ?argv (length as) 0 (Some script # take 0 ?argv @ replicate (length as + 1) junk) = Inr (Some script # ?argv)"
    by (rule copy_args_eq) simp_all
  then have c: "copy_args ?argv (length as) 0 ((replicate (length as + 2) junk)[0 := Some script]) = Inr (Some script # ?argv)"
    by simp
  have g: "get_env_value (map c_string es) (''KLD_DEBUG'' @ [NUL]) = Inr (map_option c_string (env_lookup es ''KLD_DEBUG''))"
    using get_env_value_eq[OF assms(2), of "''KLD_DEBUG''"] by (simp add: c_string_def)
  show ?thesis using c g debug_args_eq[OF assms(1)] by (simp add: c_entry_def Let_def del: replicate_Suc add_2_eq_Suc')
qed

theorem c_entry_execs_witness:
  "c_entry (c_string ''/kldd.sh'') None (map c_string [''prog'', ''-x'']) (map c_string [''HOME=/root'']) =
   Inr [Sys_execve (c_string ''/kldd.sh'') [Some (c_string ''/kldd.sh''), Some (c_string ''prog''), Some (c_string ''-x''), None]
          [c_string ''HOME=/root''], Sys_exit 1]"
proof -
  have "env_lookup [''HOME=/root''] ''KLD_DEBUG'' = None" by code_simp
  then show ?thesis using c_entry_execs[of "[''prog'', ''-x'']" "[''HOME=/root'']" "c_string ''/kldd.sh''" None] by simp
qed

end
