(* ===== verification/Load_Mod.thy ===== *)
theory Load_Mod
  imports Idt_Handlers Dpld
begin

text \<open>
  The loader that the examples carry (\<open>idtr_interposer/load_mod.c\<close>, and the shorter one of
  \<open>printk/load_mod.c\<close> that \<open>read_idtr\<close> and \<open>swap_phys_pages\<close> have too): it calls the kernel's \<open>init_module\<close> entry point with a
  register frame of its own making, and resolves the functions of the module by name.

  \<open>SYM_ON_KERN_STACK_DO\<close> belongs to a library outside: running a function on the kernel's stack is one call of
  the trace, made at normal privilege. The entry point takes its three arguments from the saved registers, as the system call
  convention has it.
\<close>

section \<open>State and surroundings\<close>

datatype lm_call =
    Lm_elevate
  | Lm_lower
  | Lm_kern_stack u64 u64 u64
  | Lm_lookup string

record lm =
  lm_loaded :: bool
  lm_ktos :: u64
  lm_trace :: "lm_call list"

text \<open>
  The dynamic linker, the kernel, the embedded module, and the memory and the place on the stack where the argument array lies.
\<close>

record lm_env =
  lm_dlsym :: "string \<Rightarrow> u64 option"
  lm_init :: "u64 \<Rightarrow> u64 \<Rightarrow> u64 \<Rightarrow> int"
  lm_kallsyms :: "string \<Rightarrow> u64"
  lm_ko_start :: u64
  lm_ko_size :: u64
  lm_uargs :: u64
  lm_mem :: "u64 \<Rightarrow> u64"
  lm_sp :: u64

definition lm_log :: "lm_call \<Rightarrow> lm \<Rightarrow> lm" where
  "lm_log c s = s\<lparr>lm_trace := lm_trace s @ [c]\<rparr>"

text \<open>A \<open>struct pt_regs\<close> in memory, by words of eight bytes.\<close>

definition regs_at :: "(u64 \<Rightarrow> u64) \<Rightarrow> u64 \<Rightarrow> pt_regs" where
  "regs_at mem p = pt_at (map (\<lambda>i. mem (p + 8 * of_nat i)) [0..<21])"

definition x64_sys_init_module :: "lm_env \<Rightarrow> pt_regs \<Rightarrow> int" where
  "x64_sys_init_module E r = lm_init E (pt_di r) (pt_si r) (pt_dx r)"

section \<open>The operations\<close>

text \<open>The array of three words, and the frame that starts \<open>0x60\<close> bytes in front of it.\<close>

definition load_frame :: "lm_env \<Rightarrow> u64 \<Rightarrow> u64 \<Rightarrow> u64 \<Rightarrow> pt_regs" where
  "load_frame E umod len uargs =
     (let args = lm_sp E;
          mem = (lm_mem E)(args := uargs, args + 8 := len, args + 16 := umod)
      in regs_at mem (args - 0x60))"

definition do_load_module :: "lm_env \<Rightarrow> u64 \<Rightarrow> u64 \<Rightarrow> u64 \<Rightarrow> int" where
  "do_load_module E umod len uargs = x64_sys_init_module E (load_frame E umod len uargs)"

definition lm_resolve_sym :: "lm_env \<Rightarrow> string \<Rightarrow> bool \<times> u64" where
  "lm_resolve_sym E name = (case lm_dlsym E name of None \<Rightarrow> (False, 0) | Some v \<Rightarrow> (True, v))"

definition lm_force_symres_now :: "lm_env \<Rightarrow> bool" where
  "lm_force_symres_now E =
     (if \<not> fst (lm_resolve_sym E ''__x64_sys_init_module'') then False
      else if \<not> fst (lm_resolve_sym E ''cpu_current_top_of_stack'') then False
      else True)"

text \<open>\<open>SYM_ON_KERN_STACK_DO(do_load_module(..))\<close>.\<close>

definition load_on_kern_stack :: "lm_env \<Rightarrow> lm \<Rightarrow> int \<times> lm" where
  "load_on_kern_stack E s =
     (do_load_module E (lm_ko_start E) (lm_ko_size E) (lm_uargs E),
      lm_log (Lm_kern_stack (lm_ko_start E) (lm_ko_size E) (lm_uargs E)) s)"

definition load_included_module :: "lm_env \<Rightarrow> lm \<Rightarrow> int \<times> lm" where
  "load_included_module E s =
     (if \<not> lm_force_symres_now E then (0, s)
      else load_on_kern_stack E (s\<lparr>lm_ktos := snd (lm_resolve_sym E ''cpu_current_top_of_stack'')\<rparr>))"

definition load_included_module_static :: "lm_env \<Rightarrow> lm \<Rightarrow> int \<times> lm" where
  "load_included_module_static E s = load_on_kern_stack E s"

text \<open>\<open>base_resolver\<close> with either way to load.\<close>

definition base_resolver :: "(lm_env \<Rightarrow> lm \<Rightarrow> int \<times> lm) \<Rightarrow> lm_env \<Rightarrow> string \<Rightarrow> lm \<Rightarrow> u64 outcome \<times> lm" where
  "base_resolver load_mod E symbol_name s =
     (let (rc, s) = (if lm_loaded s then (0, s) else load_mod E s)
      in if rc \<noteq> 0 then (Exits 1, s)
         else let s = s\<lparr>lm_loaded := True\<rparr>;
                  s = lm_log Lm_lower (lm_log (Lm_lookup symbol_name) (lm_log Lm_elevate s));
                  addr = lm_kallsyms E symbol_name
              in if addr = 0 then (Exits 1, s) else (Ret addr, s))"

definition lm_start :: lm where
  "lm_start = \<lparr>lm_loaded = False, lm_ktos = 0, lm_trace = []\<rparr>"

section \<open>Privilege\<close>

definition lm_rule :: "lm_call rule" where
  "lm_rule el c = (case c of
     Lm_elevate \<Rightarrow> if el then None else Some True
   | Lm_lower \<Rightarrow> if el then Some False else None
   | Lm_kern_stack _ _ _ \<Rightarrow> if el then None else Some False
   | Lm_lookup _ \<Rightarrow> if el then Some True else None)"

lemma lm_rule_simps [simp]:
  "lm_rule False Lm_elevate = Some True" "lm_rule True Lm_lower = Some False"
  "lm_rule False (Lm_kern_stack a b c) = Some False" "lm_rule True (Lm_lookup n) = Some True"
  by (simp_all add: lm_rule_def)

lemma lm_log_sel [simp]:
  "lm_trace (lm_log c s) = lm_trace s @ [c]" "lm_loaded (lm_log c s) = lm_loaded s"
  by (simp_all add: lm_log_def)

text \<open>The ways to load: none of them, or one call on the kernel's stack.\<close>

definition loads_module :: "lm_env \<Rightarrow> (lm_env \<Rightarrow> lm \<Rightarrow> int \<times> lm) \<Rightarrow> bool" where
  "loads_module E load_mod \<longleftrightarrow> (\<forall>s. lm_loaded (snd (load_mod E s)) = lm_loaded s \<and>
     (lm_trace (snd (load_mod E s)) = lm_trace s \<or>
      lm_trace (snd (load_mod E s)) = lm_trace s @ [Lm_kern_stack (lm_ko_start E) (lm_ko_size E) (lm_uargs E)]))"

lemma loads_module_dynsym: "loads_module E load_included_module"
  by (simp add: loads_module_def load_included_module_def load_on_kern_stack_def)

lemma loads_module_static: "loads_module E load_included_module_static"
  by (simp add: loads_module_def load_included_module_static_def load_on_kern_stack_def)

definition is_load :: "lm_call \<Rightarrow> bool" where
  "is_load c = (case c of Lm_kern_stack _ _ _ \<Rightarrow> True | _ \<Rightarrow> False)"

lemma is_load_simps [simp]: "\<not> is_load Lm_elevate" "\<not> is_load Lm_lower" "\<not> is_load (Lm_lookup n)" "is_load (Lm_kern_stack a b c)"
  by (simp_all add: is_load_def)

text \<open>What one resolution appends to the trace, however it ends, and what it returns.\<close>

lemma base_resolver_appends:
  assumes "base_resolver load_mod E n s = (r, s')" and "loads_module E load_mod"
  shows "\<exists>l. lm_trace s' = lm_trace s @ l \<and> priv_run lm_rule False l = Some False \<and> (lm_loaded s \<longrightarrow> lm_loaded s') \<and>
    length (filter is_load l) \<le> (if lm_loaded s then 0 else 1) \<and>
    r = (if \<not> lm_loaded s \<and> fst (load_mod E s) \<noteq> 0 \<or> lm_kallsyms E n = 0 then Exits 1 else Ret (lm_kallsyms E n)) \<and>
    (r = Ret a \<longrightarrow> lm_loaded s')"
proof (cases "lm_loaded s")
  case True
  then show ?thesis using assms(1)
    by (intro exI[of _ "[Lm_elevate, Lm_lookup n, Lm_lower]"]) (auto simp: base_resolver_def Let_def split: if_splits)
next
  case False
  obtain rc s1 where l: "load_mod E s = (rc, s1)" by (cases "load_mod E s")
  obtain k where k: "lm_trace s1 = lm_trace s @ k" "k = [] \<or> k = [Lm_kern_stack (lm_ko_start E) (lm_ko_size E) (lm_uargs E)]"
    using assms(2) l unfolding loads_module_def by (metis append_Nil2 snd_conv)
  show ?thesis using assms(1) l False k
    by (intro exI[of _ "if rc \<noteq> 0 then k else k @ [Lm_elevate, Lm_lookup n, Lm_lower]"]) (auto simp: base_resolver_def Let_def split: if_splits)
qed

text \<open>The operation as seen by a program, and that it keeps the privilege, also when it ends the process.\<close>

definition resolves :: "(lm_env \<Rightarrow> lm \<Rightarrow> int \<times> lm) \<Rightarrow> lm_env \<Rightarrow> string \<Rightarrow> lm \<Rightarrow> lm \<Rightarrow> bool" where
  "resolves load_mod E n s s' \<longleftrightarrow> loads_module E load_mod \<and> (\<exists>r. base_resolver load_mod E n s = (r, s'))"

lemma resolves_keeps:
  "priv_run lm_rule False (lm_trace s) = Some False \<Longrightarrow> resolves load_mod E n s s' \<Longrightarrow>
    priv_run lm_rule False (lm_trace s') = Some False"
  unfolding resolves_def using base_resolver_appends by fastforce

interpretation load_mod: balanced_session lm_rule lm_trace False "resolves load_mod E" "\<lambda>s. s = lm_start" "\<lambda>s s'. s' = s"
  for load_mod E
  by unfold_locales (auto dest: resolves_keeps simp: lm_start_def)

text \<open>
  A program that calls several functions of its module: each is resolved when it is called first, one that cannot be
  resolved ends the process.
\<close>

primrec resolve_run :: "(lm_env \<Rightarrow> lm \<Rightarrow> int \<times> lm) \<Rightarrow> lm_env \<Rightarrow> string list \<Rightarrow> lm \<Rightarrow> u64 list outcome \<times> lm" where
  "resolve_run load_mod E [] s = (Ret [], s)"
| "resolve_run load_mod E (n # ns) s =
     (case base_resolver load_mod E n s of
        (Ret a, s) \<Rightarrow> (case resolve_run load_mod E ns s of (Ret as, s) \<Rightarrow> (Ret (a # as), s) | r \<Rightarrow> r)
      | (Exits c, s) \<Rightarrow> (Exits c, s)
      | (Aborts, s) \<Rightarrow> (Aborts, s))"

lemma resolve_run_seq:
  "resolve_run load_mod E ns s = (r, s') \<Longrightarrow> loads_module E load_mod \<Longrightarrow> \<exists>xs. op_seq (resolves load_mod E) xs s s'"
proof (induction ns arbitrary: s r)
  case (Cons n ns)
  obtain r1 s1 where b: "base_resolver load_mod E n s = (r1, s1)" by (cases "base_resolver load_mod E n s")
  have h: "resolves load_mod E n s s1" using b Cons.prems(2) by (simp add: resolves_def)
  show ?case
  proof (cases "\<exists>a. r1 = Ret a")
    case True
    then obtain r2 where "resolve_run load_mod E ns s1 = (r2, s')"
      using Cons.prems(1) b by (auto split: prod.splits outcome.splits)
    then obtain xs where "op_seq (resolves load_mod E) xs s1 s'" using Cons.IH Cons.prems(2) by blast
    then show ?thesis using h by (intro exI[of _ "n # xs"]) auto
  next
    case False
    then have "s' = s1" using Cons.prems(1) b by (cases r1) auto
    then show ?thesis using h by (intro exI[of _ "[n]"]) simp
  qed
qed (auto intro: op_seq_Nil)

lemma resolve_run_loads:
  "resolve_run load_mod E ns s = (r, s') \<Longrightarrow> loads_module E load_mod \<Longrightarrow>
    length (filter is_load (lm_trace s')) \<le> length (filter is_load (lm_trace s)) + (if lm_loaded s then 0 else 1)"
proof (induction ns arbitrary: s r)
  case (Cons n ns)
  obtain r1 s1 where b: "base_resolver load_mod E n s = (r1, s1)" by (cases "base_resolver load_mod E n s")
  note a = base_resolver_appends[OF b Cons.prems(2)]
  show ?case
  proof (cases r1)
    case (Ret x)
    then obtain r2 where "resolve_run load_mod E ns s1 = (r2, s')"
      using Cons.prems(1) b by (auto split: prod.splits outcome.splits)
    then have "length (filter is_load (lm_trace s')) \<le> length (filter is_load (lm_trace s1)) + (if lm_loaded s1 then 0 else 1)"
      using Cons.IH Cons.prems(2) by blast
    then show ?thesis using a[of x] Ret by auto
  qed (use Cons.prems(1) b a in auto)
qed simp

lemma resolve_run_result:
  assumes "loads_module E load_mod"
  shows "fst (resolve_run load_mod E ns s) =
    (if ns \<noteq> [] \<and> \<not> lm_loaded s \<and> fst (load_mod E s) \<noteq> 0 \<or> (\<exists>n \<in> set ns. lm_kallsyms E n = 0) then Exits 1
     else Ret (map (lm_kallsyms E) ns))"
proof (induction ns arbitrary: s)
  case (Cons n ns)
  obtain r1 s1 where b: "base_resolver load_mod E n s = (r1, s1)" by (cases "base_resolver load_mod E n s")
  note a = base_resolver_appends[OF b assms, of "lm_kallsyms E n"]
  show ?case
  proof (cases "\<not> lm_loaded s \<and> fst (load_mod E s) \<noteq> 0 \<or> lm_kallsyms E n = 0")
    case True
    then show ?thesis using a b by auto
  next
    case False
    then have r: "r1 = Ret (lm_kallsyms E n)" "lm_loaded s1" using a by auto
    obtain r2 s2 where "resolve_run load_mod E ns s1 = (r2, s2)" by (cases "resolve_run load_mod E ns s1")
    then show ?thesis using Cons.IH[of s1] b r False by auto
  qed
qed simp

section \<open>Properties\<close>

text \<open>
  The register frame that \<open>do_load_module\<close> makes up hands the arguments over: whatever is in memory and
  wherever the array lies, the kernel's entry point finds the address of the module in \<open>rdi\<close>, its length in \<open>rsi\<close> and its
  parameters in \<open>rdx\<close>.
\<close>

theorem do_load_module_passes:
  "do_load_module E umod len uargs = lm_init E umod len uargs \<and>
   pt_di (load_frame E umod len uargs) = umod \<and> pt_si (load_frame E umod len uargs) = len \<and>
   pt_dx (load_frame E umod len uargs) = uargs"
proof -
  have "lm_sp E - 0x60 + 8 * of_nat 12 = lm_sp E" "lm_sp E - 0x60 + 8 * of_nat 13 = lm_sp E + 8"
    "lm_sp E - 0x60 + 8 * of_nat 14 = lm_sp E + 16"
    by simp_all
  then have r: "pt_di (load_frame E umod len uargs) = umod" "pt_si (load_frame E umod len uargs) = len"
    "pt_dx (load_frame E umod len uargs) = uargs"
    by (simp_all add: load_frame_def regs_at_def pt_at_def Let_def)
  then show ?thesis by (simp add: do_load_module_def x64_sys_init_module_def)
qed

text \<open>
  C37. A program that resolves any number of symbols with either loader, however the run ends: the kernel's lookup is called only
  with raised privilege, the privilege is lowered at the end, and the module is loaded at most once, at normal privilege. The run returns the
  addresses of all symbols, unless loading failed or one of them is unknown to the kernel; then the process exits with status 1.
\<close>

theorem base_resolver_session:
  "case resolve_run (if static then load_included_module_static else load_included_module) E ns lm_start of (r, s) \<Rightarrow>
     priv_run lm_rule False (lm_trace s) = Some False \<and> length (filter is_load (lm_trace s)) \<le> 1 \<and>
     r = (if ns \<noteq> [] \<and> fst ((if static then load_included_module_static else load_included_module) E lm_start) \<noteq> 0
            \<or> (\<exists>n. n \<in> set ns \<and> lm_kallsyms E n = 0) then Exits 1
          else Ret (map (lm_kallsyms E) ns))"
proof -
  let ?L = "if static then load_included_module_static else load_included_module"
  have L: "loads_module E ?L" using loads_module_dynsym loads_module_static by simp
  obtain r s where r: "resolve_run ?L E ns lm_start = (r, s)" by (cases "resolve_run ?L E ns lm_start")
  obtain xs where "op_seq (resolves ?L E) xs lm_start s" using resolve_run_seq[OF r L] by blast
  from load_mod.session_ends_lowered[OF refl this refl] have "priv_run lm_rule False (lm_trace s) = Some False" .
  then show ?thesis using resolve_run_loads[OF r L] resolve_run_result[OF L, of ns lm_start] r by (auto simp: lm_start_def)
qed

definition demo_lm_env :: lm_env where
  "demo_lm_env = \<lparr>lm_dlsym = (\<lambda>_. Some 0x40), lm_init = (\<lambda>_ _ _. 0), lm_kallsyms = (\<lambda>n. of_nat (length n)),
     lm_ko_start = 0x1000, lm_ko_size = 0x200, lm_uargs = 0x3000, lm_mem = (\<lambda>_. 7), lm_sp = 0x8000\<rparr>"

theorem base_resolver_session_witness:
  "\<exists>s. resolve_run load_included_module demo_lm_env [''ab'', ''c''] lm_start = (Ret [2, 1], s) \<and>
    priv_run lm_rule False (lm_trace s) = Some False \<and> length (filter is_load (lm_trace s)) = 1"
proof -
  obtain r s where r: "resolve_run load_included_module demo_lm_env [''ab'', ''c''] lm_start = (r, s)"
    by (cases "resolve_run load_included_module demo_lm_env [''ab'', ''c''] lm_start")
  have d: "fst (load_included_module demo_lm_env lm_start) = 0" "lm_kallsyms demo_lm_env = (\<lambda>n. of_nat (length n))"
    by (simp_all add: load_included_module_def lm_force_symres_now_def lm_resolve_sym_def load_on_kern_stack_def do_load_module_def
        x64_sys_init_module_def demo_lm_env_def)
  have "filter is_load (lm_trace (snd (resolve_run load_included_module demo_lm_env [''ab'', ''c''] lm_start))) = [Lm_kern_stack 0x1000 0x200 0x3000]"
    by (simp add: base_resolver_def load_included_module_def load_on_kern_stack_def lm_force_symres_now_def lm_resolve_sym_def do_load_module_def
        x64_sys_init_module_def demo_lm_env_def lm_start_def lm_log_def)
  then show ?thesis using base_resolver_session[where static=False and E=demo_lm_env and ns="[''ab'', ''c'']"] r d by auto
qed

text \<open>
  When the symbols it needs cannot be resolved, the loader of \<open>idtr_interposer\<close> reports success: the
  module counts as loaded from then on although it never was, and the lookup goes ahead.
\<close>

theorem unresolved_counts_as_loaded:
  assumes "lm_dlsym E ''__x64_sys_init_module'' = None \<or> lm_dlsym E ''cpu_current_top_of_stack'' = None"
  shows "lm_loaded (snd (base_resolver load_included_module E n lm_start)) \<and>
    filter is_load (lm_trace (snd (base_resolver load_included_module E n lm_start))) = []"
  using assms
  by (auto simp: base_resolver_def load_included_module_def lm_force_symres_now_def lm_resolve_sym_def lm_start_def Let_def)

theorem unresolved_counts_as_loaded_witness:
  "lm_loaded (snd (base_resolver load_included_module (demo_lm_env\<lparr>lm_dlsym := \<lambda>_. None\<rparr>) ''f'' lm_start))"
  using unresolved_counts_as_loaded[of "demo_lm_env\<lparr>lm_dlsym := \<lambda>_. None\<rparr>" "''f''"] by simp

end
