(* ===== verification/Pages.thy ===== *)
theory Pages
  imports Privilege
begin

text \<open>
  Exchanging the physical pages behind two addresses (\<open>swap_phys_pages/kmod/greeter.c\<close>) and the program that shows it
  (\<open>swap_phys_pages/main.c\<close>).

  The walk through the page table (\<open>pgd_offset\<close> to \<open>pte_offset_kernel\<close>) is made of kernel macros: it is the parameter \<open>walk\<close>, the slot that holds the
  entry of an address, and all that is used of it is that two addresses have the same slot exactly when they lie on the same page. The
  processor translates an address through its own buffer of entries or, when that has none, through the table, and keeps what it has found.
\<close>

section \<open>Addresses, entries and translation\<close>

definition page :: "u64 \<Rightarrow> u64" where
  "page v = drop_bit 12 v"

definition page_offset :: "u64 \<Rightarrow> u64" where
  "page_offset v = take_bit 12 v"

text \<open>The number of the frame in an entry: bits 12 to 51.\<close>

definition pte_frame :: "u64 \<Rightarrow> u64" where
  "pte_frame e = take_bit 40 (drop_bit 12 e)"

record vm =
  vm_ptes :: "u64 \<Rightarrow> u64"
  vm_phys :: "u64 \<Rightarrow> u64 \<Rightarrow> char"
  vm_tlb :: "nat \<Rightarrow> u64 \<Rightarrow> u64 option"

definition walk_ok :: "(u64 \<Rightarrow> u64) \<Rightarrow> bool" where
  "walk_ok walk \<longleftrightarrow> (\<forall>v w. walk v = walk w \<longleftrightarrow> page v = page w)"

text \<open>The entry that processor \<open>c\<close> uses for an address, and the state after it was looked up.\<close>

definition pte_used :: "(u64 \<Rightarrow> u64) \<Rightarrow> nat \<Rightarrow> u64 \<Rightarrow> vm \<Rightarrow> u64" where
  "pte_used walk c v s = (case vm_tlb s c (page v) of Some e \<Rightarrow> e | None \<Rightarrow> vm_ptes s (walk v))"

definition fill_tlb :: "(u64 \<Rightarrow> u64) \<Rightarrow> nat \<Rightarrow> u64 \<Rightarrow> vm \<Rightarrow> vm" where
  "fill_tlb walk c v s = s\<lparr>vm_tlb := (vm_tlb s)(c := (vm_tlb s c)(page v := Some (pte_used walk c v s)))\<rparr>"

definition load :: "(u64 \<Rightarrow> u64) \<Rightarrow> nat \<Rightarrow> u64 \<Rightarrow> vm \<Rightarrow> char \<times> vm" where
  "load walk c v s = (vm_phys s (pte_frame (pte_used walk c v s)) (page_offset v), fill_tlb walk c v s)"

definition store :: "(u64 \<Rightarrow> u64) \<Rightarrow> nat \<Rightarrow> u64 \<Rightarrow> char \<Rightarrow> vm \<Rightarrow> vm" where
  "store walk c v b s =
     (let f = pte_frame (pte_used walk c v s)
      in (fill_tlb walk c v s)\<lparr>vm_phys := (vm_phys s)(f := (vm_phys s f)(page_offset v := b))\<rparr>)"

definition invlpg :: "nat \<Rightarrow> u64 \<Rightarrow> vm \<Rightarrow> vm" where
  "invlpg c v s = s\<lparr>vm_tlb := (vm_tlb s)(c := (vm_tlb s c)(page v := None))\<rparr>"

section \<open>The operation\<close>

definition swap_phys_pages :: "(u64 \<Rightarrow> u64) \<Rightarrow> nat \<Rightarrow> u64 \<Rightarrow> u64 \<Rightarrow> vm \<Rightarrow> vm" where
  "swap_phys_pages walk c vaddr1 vaddr2 s =
     (let pte1 = walk vaddr1; pte2 = walk vaddr2;
          tmp = vm_ptes s pte1;
          s = s\<lparr>vm_ptes := (vm_ptes s)(pte1 := vm_ptes s pte2)\<rparr>;
          s = s\<lparr>vm_ptes := (vm_ptes s)(pte2 := tmp)\<rparr>
      in invlpg c vaddr2 (invlpg c vaddr1 s))"

section \<open>What an address holds\<close>

text \<open>The buffer of a processor agrees with the table.\<close>

definition tlb_ok :: "(u64 \<Rightarrow> u64) \<Rightarrow> nat \<Rightarrow> vm \<Rightarrow> bool" where
  "tlb_ok walk c s \<longleftrightarrow> (\<forall>v e. vm_tlb s c (page v) = Some e \<longrightarrow> e = vm_ptes s (walk v))"

text \<open>The byte at an address according to the table, the reference for \<open>load\<close>.\<close>

definition byte_at :: "(u64 \<Rightarrow> u64) \<Rightarrow> u64 \<Rightarrow> vm \<Rightarrow> char" where
  "byte_at walk v s = vm_phys s (pte_frame (vm_ptes s (walk v))) (page_offset v)"

lemma pte_used_ok: "tlb_ok walk c s \<Longrightarrow> pte_used walk c v s = vm_ptes s (walk v)"
  by (auto simp: tlb_ok_def pte_used_def split: option.splits)

lemma fill_tlb_ok:
  assumes "walk_ok walk" and "tlb_ok walk c s"
  shows "tlb_ok walk c (fill_tlb walk c v s)"
  unfolding tlb_ok_def
proof (intro allI impI)
  fix w e
  assume e: "vm_tlb (fill_tlb walk c v s) c (page w) = Some e"
  show "e = vm_ptes (fill_tlb walk c v s) (walk w)"
  proof (cases "page w = page v")
    case True
    then have "walk w = walk v" using assms(1) by (simp add: walk_ok_def)
    then show ?thesis using e True pte_used_ok[OF assms(2), of v] by (simp add: fill_tlb_def)
  next
    case False
    then show ?thesis using e assms(2) by (auto simp: fill_tlb_def tlb_ok_def)
  qed
qed

lemma load_eq:
  assumes "tlb_ok walk c s"
  shows "fst (load walk c v s) = byte_at walk v s"
  by (simp add: load_def byte_at_def pte_used_ok[OF assms])

lemma fill_tlb_sel [simp]: "vm_ptes (fill_tlb walk c v s) = vm_ptes s" "vm_phys (fill_tlb walk c v s) = vm_phys s"
  by (simp_all add: fill_tlb_def)

lemma byte_at_fill [simp]: "byte_at walk w (fill_tlb walk c v s) = byte_at walk w s"
  by (simp add: byte_at_def)

text \<open>The addresses of one page, and of another.\<close>

definition same_place :: "u64 \<Rightarrow> u64 \<Rightarrow> u64 \<Rightarrow> u64 \<Rightarrow> bool" where
  "same_place x v y w \<longleftrightarrow> page x = page v \<and> page y = page w \<and> page_offset x = page_offset y"

lemma swap_ptes:
  "vm_ptes (swap_phys_pages walk c v1 v2 s) = (vm_ptes s)(walk v1 := vm_ptes s (walk v2), walk v2 := vm_ptes s (walk v1))"
  "vm_phys (swap_phys_pages walk c v1 v2 s) = vm_phys s"
  "vm_tlb (swap_phys_pages walk c v1 v2 s) = (vm_tlb s)(c := (vm_tlb s c)(page v1 := None, page v2 := None))"
  by (simp_all add: swap_phys_pages_def invlpg_def Let_def)

lemma swap_byte_at:
  assumes "walk_ok walk"
  shows "same_place x v1 y v2 \<Longrightarrow> byte_at walk x (swap_phys_pages walk c v1 v2 s) = byte_at walk y s"
    and "same_place x v2 y v1 \<Longrightarrow> byte_at walk x (swap_phys_pages walk c v1 v2 s) = byte_at walk y s"
    and "page x \<noteq> page v1 \<Longrightarrow> page x \<noteq> page v2 \<Longrightarrow> byte_at walk x (swap_phys_pages walk c v1 v2 s) = byte_at walk x s"
proof -
  have w: "walk a = walk b \<longleftrightarrow> page a = page b" for a b using assms by (simp add: walk_ok_def)
  have e: "walk a = walk b" if "page a = page b" for a b using w that by blast
  show "same_place x v1 y v2 \<Longrightarrow> byte_at walk x (swap_phys_pages walk c v1 v2 s) = byte_at walk y s"
    using e[of x v1] e[of y v2] by (auto simp: byte_at_def swap_ptes same_place_def)
  show "same_place x v2 y v1 \<Longrightarrow> byte_at walk x (swap_phys_pages walk c v1 v2 s) = byte_at walk y s"
    using e[of x v2] e[of y v1] by (auto simp: byte_at_def swap_ptes same_place_def)
  show "page x \<noteq> page v1 \<Longrightarrow> page x \<noteq> page v2 \<Longrightarrow> byte_at walk x (swap_phys_pages walk c v1 v2 s) = byte_at walk x s"
    by (simp add: byte_at_def swap_ptes w)
qed

lemma swap_tlb_ok:
  assumes "walk_ok walk" and "tlb_ok walk c s"
  shows "tlb_ok walk c (swap_phys_pages walk c v1 v2 s)"
  unfolding tlb_ok_def
proof (intro allI impI)
  fix w e
  assume e: "vm_tlb (swap_phys_pages walk c v1 v2 s) c (page w) = Some e"
  then have "page w \<noteq> page v1" and "page w \<noteq> page v2" and "vm_tlb s c (page w) = Some e"
    by (auto simp: swap_ptes split: if_splits)
  then show "e = vm_ptes (swap_phys_pages walk c v1 v2 s) (walk w)"
    using assms by (simp add: tlb_ok_def swap_ptes walk_ok_def)
qed

section \<open>Addresses inside an aligned page\<close>

lemma page_add:
  assumes "page_offset v = 0" and "i < 4096"
  shows "page (v + of_nat i) = page v" and "page_offset (v + of_nat i) = of_nat i"
proof -
  have u: "unat v mod 4096 = 0"
  proof -
    have "take_bit 12 (unat v) = unat (page_offset v)"
      by (simp only: page_offset_def unsigned_take_bit_eq)
    then show ?thesis by (simp add: assms(1) take_bit_nat_def)
  qed
  obtain k where k: "unat v = 4096 * k" using u by (auto simp: mod_eq_0_iff_dvd elim: dvdE)
  then have "k < 2 ^ 52" using unat_bound64[of v] by simp
  then have b: "unat v + i < 2 ^ 64" using k assms(2) by simp
  have i: "unat (of_nat i :: u64) = i" using assms(2) by (simp add: unat_of_nat_small)
  have s: "unat (v + of_nat i) = unat v + i"
    using b unat_add_lem[of v "of_nat i"] by (simp add: i)
  have d: "(unat v + i) div 4096 = unat v div 4096" and m: "(unat v + i) mod 4096 = i"
    using k assms(2) by simp_all
  show "page (v + of_nat i) = page v"
    unfolding page_def by (rule unsigned_word_eqI[where 'a = nat], unfold unat_drop_bit_eq s) (simp add: drop_bit_eq_div d)
  show "page_offset (v + of_nat i) = of_nat i"
    unfolding page_offset_def
    by (rule unsigned_word_eqI[where 'a = nat], unfold unsigned_take_bit_eq s) (simp add: take_bit_nat_def m i)
qed

section \<open>Strings in memory\<close>

text \<open>\<open>strcpy\<close> stores the characters and the NUL one after the other.\<close>

primrec store_bytes :: "(u64 \<Rightarrow> u64) \<Rightarrow> nat \<Rightarrow> u64 \<Rightarrow> nat \<Rightarrow> char list \<Rightarrow> vm \<Rightarrow> vm" where
  "store_bytes walk c v i [] s = s"
| "store_bytes walk c v i (b # bs) s = store_bytes walk c v (Suc i) bs (store walk c (v + of_nat i) b s)"

definition strcpy :: "(u64 \<Rightarrow> u64) \<Rightarrow> nat \<Rightarrow> u64 \<Rightarrow> string \<Rightarrow> vm \<Rightarrow> vm" where
  "strcpy walk c v str s = store_bytes walk c v 0 (str @ [NUL]) s"

text \<open>\<open>%s\<close> reads up to the NUL; the fuel is the number of bytes of the block.\<close>

fun read_str :: "(u64 \<Rightarrow> u64) \<Rightarrow> nat \<Rightarrow> u64 \<Rightarrow> nat \<Rightarrow> nat \<Rightarrow> vm \<Rightarrow> (string \<times> vm) res" where
  "read_str walk c v i 0 s = Inl Out_of_bounds"
| "read_str walk c v i (Suc n) s =
     (let (b, s) = load walk c (v + of_nat i) s
      in if b = NUL then Inr ([], s)
         else rbind (read_str walk c v (Suc i) n s) (\<lambda>(bs, s). Inr (b # bs, s)))"

section \<open>The program\<close>

definition BLOCK_SIZE :: nat where "BLOCK_SIZE = 4096"

definition print_strs :: "(u64 \<Rightarrow> u64) \<Rightarrow> nat \<Rightarrow> u64 \<Rightarrow> u64 \<Rightarrow> vm \<Rightarrow> (demo_call list \<times> vm) res" where
  "print_strs walk c str1 str2 s =
     rbind (read_str walk c str1 0 BLOCK_SIZE s) (\<lambda>(a, s).
     rbind (read_str walk c str2 0 BLOCK_SIZE s) (\<lambda>(b, s).
     Inr ([D_printf (''str1: '' @ a), D_printf (''str2: '' @ b)], s)))"

text \<open>\<open>str1\<close> and \<open>str2\<close> are what \<open>aligned_alloc\<close> returns, 0 when it fails.\<close>

definition swap_main :: "(u64 \<Rightarrow> u64) \<Rightarrow> nat \<Rightarrow> u64 \<Rightarrow> u64 \<Rightarrow> vm \<Rightarrow> (demo_call list \<times> vm) res" where
  "swap_main walk c str1 str2 s =
     (if str1 = 0 \<or> str2 = 0 then Inl Null_deref
      else let s = strcpy walk c str2 ''This is string 2'' (strcpy walk c str1 ''This is string 1'' s)
           in rbind (print_strs walk c str1 str2 s) (\<lambda>(before, s).
              let s = swap_phys_pages walk c str1 str2 s
              in rbind (print_strs walk c str1 str2 s) (\<lambda>(after, s).
                 Inr (D_printf ''Before swap:'' # before @ [D_elevate, D_kernel ''swap_phys_pages'', D_printf ''After swap:''] @ after
                      @ [D_lower, D_libc ''free'', D_libc ''free'', D_printf ''DONE''], s))))"

section \<open>Stores and strings\<close>

text \<open>A frame that belongs to one page only.\<close>

definition own_frame :: "(u64 \<Rightarrow> u64) \<Rightarrow> u64 \<Rightarrow> u64 \<Rightarrow> vm \<Rightarrow> bool" where
  "own_frame walk v w s \<longleftrightarrow> pte_frame (vm_ptes s (walk v)) \<noteq> pte_frame (vm_ptes s (walk w))"

lemma store_sel [simp]:
  "vm_ptes (store walk c v b s) = vm_ptes s" "vm_tlb (store walk c v b s) = vm_tlb (fill_tlb walk c v s)"
  by (simp_all add: store_def Let_def)

lemma tlb_ok_phys: "vm_ptes s' = vm_ptes s \<Longrightarrow> vm_tlb s' = vm_tlb s \<Longrightarrow> tlb_ok walk c s' = tlb_ok walk c s"
  by (simp add: tlb_ok_def)

lemma store_tlb_ok: "walk_ok walk \<Longrightarrow> tlb_ok walk c s \<Longrightarrow> tlb_ok walk c (store walk c v b s)"
  using fill_tlb_ok tlb_ok_phys[of "store walk c v b s" "fill_tlb walk c v s"] by simp

lemma store_byte_at:
  assumes "tlb_ok walk c s"
  shows "byte_at walk w (store walk c v b s) =
    (if pte_frame (vm_ptes s (walk w)) = pte_frame (vm_ptes s (walk v)) \<and> page_offset w = page_offset v then b
     else byte_at walk w s)"
  by (auto simp: byte_at_def store_def Let_def pte_used_ok[OF assms])

text \<open>The bytes of an aligned page, as one list.\<close>

definition page_bytes :: "(u64 \<Rightarrow> u64) \<Rightarrow> u64 \<Rightarrow> vm \<Rightarrow> char list" where
  "page_bytes walk v s = map (\<lambda>j. byte_at walk (v + of_nat j) s) [0..<BLOCK_SIZE]"

definition aligned :: "u64 \<Rightarrow> bool" where
  "aligned v \<longleftrightarrow> page_offset v = 0"

lemma length_page_bytes [simp]: "length (page_bytes walk v s) = BLOCK_SIZE"
  by (simp add: page_bytes_def)

lemma page_bytes_nth: "j < BLOCK_SIZE \<Longrightarrow> page_bytes walk v s ! j = byte_at walk (v + of_nat j) s"
  by (simp add: page_bytes_def)

lemma page_bytes_cong: "vm_ptes s' = vm_ptes s \<Longrightarrow> vm_phys s' = vm_phys s \<Longrightarrow> page_bytes walk v s' = page_bytes walk v s"
  by (simp add: page_bytes_def byte_at_def)

lemma walk_add: "walk_ok walk \<Longrightarrow> aligned v \<Longrightarrow> i < BLOCK_SIZE \<Longrightarrow> walk (v + of_nat i) = walk v"
  by (simp add: walk_ok_def page_add aligned_def BLOCK_SIZE_def)

lemma offset_inj: "i < BLOCK_SIZE \<Longrightarrow> j < BLOCK_SIZE \<Longrightarrow> (of_nat i :: u64) = of_nat j \<longleftrightarrow> i = j"
proof -
  assume "i < BLOCK_SIZE" and "j < BLOCK_SIZE"
  then have "unat (of_nat i :: u64) = i" and "unat (of_nat j :: u64) = j"
    by (simp_all add: unat_of_nat_small BLOCK_SIZE_def)
  then show ?thesis by metis
qed

lemma store_page_bytes:
  assumes "walk_ok walk" and "tlb_ok walk c s" and "aligned v" and "i < BLOCK_SIZE"
  shows "page_bytes walk v (store walk c (v + of_nat i) b s) = (page_bytes walk v s)[i := b]"
proof (rule nth_equalityI)
  fix j assume "j < length (page_bytes walk v (store walk c (v + of_nat i) b s))"
  then have j: "j < BLOCK_SIZE" by simp
  then show "page_bytes walk v (store walk c (v + of_nat i) b s) ! j = (page_bytes walk v s)[i := b] ! j"
    using assms by (simp add: page_bytes_nth store_byte_at walk_add page_add[of v] aligned_def BLOCK_SIZE_def offset_inj[unfolded BLOCK_SIZE_def])
qed simp

lemma store_page_other:
  assumes "walk_ok walk" and "tlb_ok walk c s" and "aligned v" and "i < BLOCK_SIZE" and "aligned w" and "own_frame walk v w s"
  shows "page_bytes walk w (store walk c (v + of_nat i) b s) = page_bytes walk w s"
proof (rule nth_equalityI)
  fix j assume "j < length (page_bytes walk w (store walk c (v + of_nat i) b s))"
  then have j: "j < BLOCK_SIZE" by simp
  then show "page_bytes walk w (store walk c (v + of_nat i) b s) ! j = page_bytes walk w s ! j"
    using assms by (simp add: page_bytes_nth store_byte_at walk_add own_frame_def)
qed simp

lemma write_at_Cons: "i < length b \<Longrightarrow> write_at b i (x # xs) = write_at (b[i := x]) (Suc i) xs"
  by (simp add: write_at_def take_Suc_conv_app_nth)

lemma store_bytes_page:
  assumes "walk_ok walk" and "aligned v" and "aligned w"
  shows "tlb_ok walk c s \<Longrightarrow> i + length bs \<le> BLOCK_SIZE \<Longrightarrow> own_frame walk v w s \<Longrightarrow>
    (let s' = store_bytes walk c v i bs s
     in tlb_ok walk c s' \<and> vm_ptes s' = vm_ptes s \<and> page_bytes walk v s' = write_at (page_bytes walk v s) i bs
        \<and> page_bytes walk w s' = page_bytes walk w s)"
proof (induction bs arbitrary: i s)
  case Nil
  then show ?case by (simp add: write_at_def)
next
  case (Cons b bs)
  let ?s = "store walk c (v + of_nat i) b s"
  have i: "i < BLOCK_SIZE" using Cons.prems by simp
  have o: "own_frame walk v w ?s" using Cons.prems(3) by (simp add: own_frame_def)
  show ?case
    using Cons.IH[OF store_tlb_ok[OF assms(1) Cons.prems(1)] _ o] Cons.prems(2) i
    by (simp add: Let_def store_page_bytes[OF assms(1) Cons.prems(1) assms(2) i] write_at_Cons
        store_page_other[OF assms(1) Cons.prems(1) assms(2) i assms(3) Cons.prems(3)])
qed

lemma read_str_page:
  assumes "walk_ok walk"
  shows "tlb_ok walk c s \<Longrightarrow> i + n = BLOCK_SIZE \<Longrightarrow> NUL \<in> set (drop i (page_bytes walk v s)) \<Longrightarrow>
    \<exists>s'. read_str walk c v i n s = Inr (cstr_at (page_bytes walk v s) i, s') \<and> tlb_ok walk c s'
      \<and> vm_ptes s' = vm_ptes s \<and> vm_phys s' = vm_phys s"
proof (induction n arbitrary: i s)
  case 0
  then show ?case by simp
next
  case (Suc n)
  let ?b = "byte_at walk (v + of_nat i) s" and ?s = "fill_tlb walk c (v + of_nat i) s"
  have i: "i < BLOCK_SIZE" using Suc.prems(2) by simp
  have d: "drop i (page_bytes walk v s) = ?b # drop (Suc i) (page_bytes walk v s)"
    using i by (simp add: Cons_nth_drop_Suc[symmetric] page_bytes_nth)
  have l: "load walk c (v + of_nat i) s = (?b, ?s)"
    using load_eq[OF Suc.prems(1)] by (simp add: load_def)
  have t: "tlb_ok walk c ?s" using fill_tlb_ok[OF assms Suc.prems(1)] .
  have p: "page_bytes walk v ?s = page_bytes walk v s" by (rule page_bytes_cong) simp_all
  show ?case
  proof (cases "?b = NUL")
    case True
    then show ?thesis using t l d by (simp add: cstr_at_def cstr_def)
  next
    case False
    then show ?thesis
      using Suc.IH[OF t, of "Suc i"] Suc.prems(2,3) l d p by (auto simp: cstr_at_def cstr_def)
  qed
qed

lemma swap_page_bytes:
  assumes "walk_ok walk" and "aligned v1" and "aligned v2"
  shows "page_bytes walk v1 (swap_phys_pages walk c v1 v2 s) = page_bytes walk v2 s"
    and "page_bytes walk v2 (swap_phys_pages walk c v1 v2 s) = page_bytes walk v1 s"
proof -
  have "same_place (v1 + of_nat j) v1 (v2 + of_nat j) v2" if "j < BLOCK_SIZE" for j
    using that assms(2,3) by (simp add: same_place_def page_add aligned_def BLOCK_SIZE_def)
  then show "page_bytes walk v1 (swap_phys_pages walk c v1 v2 s) = page_bytes walk v2 s"
    by (intro nth_equalityI) (simp_all add: page_bytes_nth swap_byte_at(1)[OF assms(1)])
  have "same_place (v2 + of_nat j) v2 (v1 + of_nat j) v1" if "j < BLOCK_SIZE" for j
    using that assms(2,3) by (simp add: same_place_def page_add aligned_def BLOCK_SIZE_def)
  then show "page_bytes walk v2 (swap_phys_pages walk c v1 v2 s) = page_bytes walk v1 s"
    by (intro nth_equalityI) (simp_all add: page_bytes_nth swap_byte_at(2)[OF assms(1)])
qed

text \<open>A short string that \<open>strcpy\<close> stores in a page.\<close>

lemma strcpy_page:
  assumes "walk_ok walk" and "aligned v" and "aligned w" and "tlb_ok walk c s" and "own_frame walk v w s"
    and "length str < BLOCK_SIZE"
  shows "tlb_ok walk c (strcpy walk c v str s)" and "vm_ptes (strcpy walk c v str s) = vm_ptes s"
    and "page_bytes walk v (strcpy walk c v str s) = write_at (page_bytes walk v s) 0 (str @ [NUL])"
    and "page_bytes walk w (strcpy walk c v str s) = page_bytes walk w s"
  using store_bytes_page[OF assms(1-4), of 0 "str @ [NUL]"] assms(5,6) unfolding strcpy_def Let_def by simp_all

text \<open>The two pages hold the two strings.\<close>

definition holds_str :: "(u64 \<Rightarrow> u64) \<Rightarrow> u64 \<Rightarrow> string \<Rightarrow> vm \<Rightarrow> bool" where
  "holds_str walk v str s \<longleftrightarrow> cstr_at (page_bytes walk v s) 0 = str \<and> NUL \<in> set (page_bytes walk v s)"

lemma holds_write:
  assumes "NUL \<notin> set str" and "length str < BLOCK_SIZE" and "page_bytes walk v s' = write_at (page_bytes walk v s) 0 (str @ [NUL])"
  shows "holds_str walk v str s'"
  using assms cstr_at_write_at[of str 0 "page_bytes walk v s"] by (simp add: holds_str_def write_at_def)

lemma print_strs_page:
  assumes "walk_ok walk" and "tlb_ok walk c s" and "holds_str walk v1 a s" and "holds_str walk v2 b s"
  shows "\<exists>s'. print_strs walk c v1 v2 s = Inr ([D_printf (''str1: '' @ a), D_printf (''str2: '' @ b)], s')
    \<and> tlb_ok walk c s' \<and> vm_ptes s' = vm_ptes s \<and> vm_phys s' = vm_phys s"
proof -
  obtain s1 where s1: "read_str walk c v1 0 BLOCK_SIZE s = Inr (a, s1)" "tlb_ok walk c s1"
      "vm_ptes s1 = vm_ptes s" "vm_phys s1 = vm_phys s"
    using read_str_page[OF assms(1,2), of 0 BLOCK_SIZE v1] assms(3) by (auto simp: holds_str_def)
  have "page_bytes walk v2 s1 = page_bytes walk v2 s" using s1 by (intro page_bytes_cong)
  then obtain s2 where "read_str walk c v2 0 BLOCK_SIZE s1 = Inr (b, s2)" "tlb_ok walk c s2"
      "vm_ptes s2 = vm_ptes s" "vm_phys s2 = vm_phys s"
    using read_str_page[OF assms(1) s1(2), of 0 BLOCK_SIZE v2] assms(4) s1 by (auto simp: holds_str_def)
  with s1 show ?thesis by (simp add: print_strs_def)
qed

lemma holds_cong: "page_bytes walk v s' = page_bytes walk w s \<Longrightarrow> holds_str walk v str s' = holds_str walk w str s"
  by (simp add: holds_str_def)

section \<open>Properties\<close>

text \<open>
  C32. Exchanging two pages is exact on the processor that does it. When its buffer agrees with the page table before, it does so afterwards, a load from any address of
  either page gives the byte that the other page held at the same offset, a load from any other page is unchanged, and doing it a second time undoes it.\<close>

theorem swap_exchanges_pages:
  assumes "walk_ok walk" and "tlb_ok walk c s"
  shows "let s' = swap_phys_pages walk c v1 v2 s
    in tlb_ok walk c s'
      \<and> (\<forall>x y. same_place x v1 y v2 \<longrightarrow> fst (load walk c x s') = fst (load walk c y s) \<and> fst (load walk c y s') = fst (load walk c x s))
      \<and> (\<forall>x. page x \<noteq> page v1 \<longrightarrow> page x \<noteq> page v2 \<longrightarrow> fst (load walk c x s') = fst (load walk c x s))
      \<and> (\<forall>x. fst (load walk c x (swap_phys_pages walk c v1 v2 s')) = fst (load walk c x s))"
proof -
  let ?s = "swap_phys_pages walk c v1 v2 s"
  note ok = swap_tlb_ok[OF assms, of v1 v2]
  note ld = load_eq[OF assms(2)] load_eq[OF ok] load_eq[OF swap_tlb_ok[OF assms(1) ok]]
  have p: "vm_ptes (swap_phys_pages walk c v1 v2 ?s) = vm_ptes s"
    by (auto simp: swap_ptes fun_eq_iff)
  have "byte_at walk x (swap_phys_pages walk c v1 v2 ?s) = byte_at walk x s" for x
    by (simp add: byte_at_def p swap_ptes(2))
  moreover have "same_place y v2 x v1" if "same_place x v1 y v2" for x y
    using that by (simp add: same_place_def)
  ultimately show ?thesis
    using ok swap_byte_at[OF assms(1)] by (simp add: Let_def ld)
qed

text \<open>A machine whose table maps every page to the frame of the same number.\<close>

definition demo_walk :: "u64 \<Rightarrow> u64" where
  "demo_walk v = drop_bit 12 v"

definition demo_vm :: vm where
  "demo_vm = \<lparr>vm_ptes = (\<lambda>n. push_bit 12 n), vm_phys = (\<lambda>f _. if f = 1 then CHR ''a'' else CHR ''b''),
     vm_tlb = (\<lambda>c. if c = 1 then [1 \<mapsto> 0x1000] else Map.empty)\<rparr>"

lemma demo_walk_ok: "walk_ok demo_walk"
  by (simp add: walk_ok_def demo_walk_def page_def)

lemma demo_tlb_ok: "tlb_ok demo_walk 0 demo_vm"
  by (simp add: tlb_ok_def demo_vm_def)

theorem swap_exchanges_pages_witness:
  "fst (load demo_walk 0 0x1005 (swap_phys_pages demo_walk 0 0x1000 0x2000 demo_vm)) = fst (load demo_walk 0 0x2005 demo_vm)
    \<and> fst (load demo_walk 0 0x1005 demo_vm) \<noteq> fst (load demo_walk 0 0x2005 demo_vm)"
proof -
  have "same_place 0x1005 0x1000 0x2005 0x2000" by (simp add: same_place_def page_def page_offset_def)
  then have "fst (load demo_walk 0 0x1005 (swap_phys_pages demo_walk 0 0x1000 0x2000 demo_vm)) = fst (load demo_walk 0 0x2005 demo_vm)"
    using swap_exchanges_pages[OF demo_walk_ok demo_tlb_ok, of "0x1000" "0x2000"] unfolding Let_def by blast
  moreover have "fst (load demo_walk 0 0x1005 demo_vm) \<noteq> fst (load demo_walk 0 0x2005 demo_vm)"
    unfolding load_eq[OF demo_tlb_ok] by (simp add: byte_at_def demo_vm_def demo_walk_def pte_frame_def)
  ultimately show ?thesis by blast
qed

text \<open>
  Only the processor that exchanges the pages drops its entries. Another one that has used an address of the first page goes on reading, and writing, the frame that the page had
  before, although the page table maps the page to the other frame.\<close>

theorem swap_leaves_stale_entries:
  assumes "c' \<noteq> c" and "vm_tlb s c' (page v1) = Some (vm_ptes s (walk v1))" and "page x = page v1"
  shows "let s' = swap_phys_pages walk c v1 v2 s
    in fst (load walk c' x s') = fst (load walk c' x s)
      \<and> vm_ptes s' (walk v1) = vm_ptes s (walk v2)
      \<and> vm_phys (store walk c' x b s') (pte_frame (vm_ptes s (walk v1))) (page_offset x) = b"
proof -
  have "pte_used walk c' x (swap_phys_pages walk c v1 v2 s) = vm_ptes s (walk v1)"
    and "pte_used walk c' x s = vm_ptes s (walk v1)"
    using assms by (simp_all add: pte_used_def swap_ptes)
  then show ?thesis by (simp add: load_def store_def Let_def swap_ptes)
qed

theorem swap_leaves_stale_entries_witness:
  "fst (load demo_walk 1 0x1005 (swap_phys_pages demo_walk 0 0x1000 0x2000 demo_vm)) = fst (load demo_walk 1 0x1005 demo_vm)
    \<and> vm_ptes (swap_phys_pages demo_walk 0 0x1000 0x2000 demo_vm) (demo_walk 0x1000) = 0x2000"
  using swap_leaves_stale_entries[of 1 0 demo_vm "0x1000" demo_walk "0x1005" "0x2000"]
  by (simp add: Let_def page_def demo_walk_def) (simp add: demo_vm_def)

text \<open>
  The program shows the exchange. Given two aligned blocks on different frames, it returns after printing the strings in the order they were stored and, after the exchange, in the
  opposite order; it calls the module only while its privilege is raised and has lowered it at the end. Should an allocation fail, it dereferences NULL.\<close>

theorem swap_main_shows_exchange:
  assumes "walk_ok walk" and "tlb_ok walk c s" and "aligned v1" and "aligned v2" and "v1 \<noteq> 0" and "v2 \<noteq> 0" and "own_frame walk v1 v2 s"
  shows "\<exists>tr s'. swap_main walk c v1 v2 s = Inr (tr, s')
      \<and> filter (\<lambda>d. case d of D_printf _ \<Rightarrow> True | _ \<Rightarrow> False) tr = map D_printf [''Before swap:'', ''str1: This is string 1'', ''str2: This is string 2'',
          ''After swap:'', ''str1: This is string 2'', ''str2: This is string 1'', ''DONE'']
      \<and> priv_run demo_rule False tr = Some False
      \<and> swap_main walk c 0 v2 s = Inl Null_deref \<and> swap_main walk c v1 0 s = Inl Null_deref"
proof -
  define a b where ab: "a = ''This is string 1''" "b = ''This is string 2''"
  let ?s1 = "strcpy walk c v1 a s"
  let ?s2 = "strcpy walk c v2 b ?s1"
  have l: "length a < BLOCK_SIZE" "length b < BLOCK_SIZE" by (simp_all add: BLOCK_SIZE_def ab)
  have n: "NUL \<notin> set a" "NUL \<notin> set b" by (simp_all add: ab)
  have o: "own_frame walk v2 v1 s" using assms(7) by (simp add: own_frame_def)
  note c1 = strcpy_page[OF assms(1,3,4,2,7) l(1)]
  have o1: "own_frame walk v2 v1 ?s1" using o c1(2) by (simp add: own_frame_def)
  note c2 = strcpy_page[OF assms(1,4,3) c1(1) o1 l(2)]
  have h: "holds_str walk v1 a ?s2" "holds_str walk v2 b ?s2"
    using holds_write[OF n(1) l(1) c1(3)] holds_write[OF n(2) l(2) c2(3)] holds_cong[OF c2(4)] by simp_all
  obtain s3 where s3: "print_strs walk c v1 v2 ?s2 = Inr ([D_printf (''str1: '' @ a), D_printf (''str2: '' @ b)], s3)"
      "tlb_ok walk c s3" "vm_ptes s3 = vm_ptes ?s2" "vm_phys s3 = vm_phys ?s2"
    using print_strs_page[OF assms(1) c2(1) h] by blast
  let ?s4 = "swap_phys_pages walk c v1 v2 s3"
  have "page_bytes walk v1 ?s4 = page_bytes walk v2 ?s2" and "page_bytes walk v2 ?s4 = page_bytes walk v1 ?s2"
    using swap_page_bytes[OF assms(1,3,4)] page_bytes_cong[OF s3(3,4)] by simp_all
  then have "holds_str walk v1 b ?s4" and "holds_str walk v2 a ?s4" using h by (simp_all add: holds_str_def)
  then obtain s5 where "print_strs walk c v1 v2 ?s4 = Inr ([D_printf (''str1: '' @ b), D_printf (''str2: '' @ a)], s5)"
    using print_strs_page[OF assms(1) swap_tlb_ok[OF assms(1) s3(2)]] by blast
  then have "swap_main walk c v1 v2 s = Inr (D_printf ''Before swap:'' # [D_printf (''str1: '' @ a), D_printf (''str2: '' @ b)]
      @ [D_elevate, D_kernel ''swap_phys_pages'', D_printf ''After swap:''] @ [D_printf (''str1: '' @ b), D_printf (''str2: '' @ a)]
      @ [D_lower, D_libc ''free'', D_libc ''free'', D_printf ''DONE''], s5)"
    unfolding swap_main_def ab[symmetric] Let_def using s3(1) assms(5,6) by simp
  then show ?thesis by (simp add: swap_main_def ab)
qed

theorem swap_main_shows_exchange_witness:
  "\<exists>tr s'. swap_main demo_walk 0 0x1000 0x2000 demo_vm = Inr (tr, s') \<and> priv_run demo_rule False tr = Some False"
proof -
  have "own_frame demo_walk 0x1000 0x2000 demo_vm"
    by (simp add: own_frame_def demo_walk_def demo_vm_def pte_frame_def)
  then show ?thesis
    using swap_main_shows_exchange[OF demo_walk_ok demo_tlb_ok, of "0x1000" "0x2000"]
    by (auto simp: aligned_def page_offset_def)
qed

end
