(* ===== verification/Cpu_Migration.thy ===== *)
theory Cpu_Migration
  imports Privilege
begin

text \<open>
  The program that watches itself migrate between processors (\<open>cpu_migration/main.c\<close>) and the function of its extension that packs the two flags it prints (\<open>greeter.kc\<close>).

  The kernel's answers are a record: what it reports in every round and how far it serves the system calls of the I/O mode. The calls are kept as a trace with the rule of \<open>Privilege\<close>.
\<close>

section \<open>Busy work\<close>

text \<open>
  The inner loop over \<open>uint64_t\<close>, where \<open>i * i\<close> wraps around; the first argument is fuel.
\<close>

fun trial :: "nat \<Rightarrow> u64 \<Rightarrow> u64 \<Rightarrow> bool res" where
  "trial 0 num i = Inl Out_of_fuel"
| "trial (Suc n) num i =
     (if i * i \<le> num
      then if i = 0 then Inl Div_zero
           else if num mod i = 0 then Inr False
           else trial n num (i + 1)
      else Inr True)"

fun count_primes :: "nat \<Rightarrow> u64 \<Rightarrow> u64 \<Rightarrow> u64 \<Rightarrow> u64 res" where
  "count_primes 0 limit num count = (if num < limit then Inl Out_of_fuel else Inr count)"
| "count_primes (Suc n) limit num count =
     (if num < limit
      then rbind (trial (unat num) num 2) (\<lambda>is_prime. count_primes n limit (num + 1) (if is_prime then count + 1 else count))
      else Inr count)"

definition busy_work :: "u64 res" where
  "busy_work = count_primes 10000000 10000000 2 0"

section \<open>Input and output\<close>

definition BUFFER_SIZE :: nat where "BUFFER_SIZE = 1024 * 1024 * 256"

record mig =
  mg_init :: bool
  mg_buf :: "char list"
  mg_file :: "char list"

text \<open>The answers to the calls of one round: descriptors, and how many bytes are written and read; \<open>None\<close> is an error.\<close>

record io_ans =
  io_wfd :: int
  io_written :: "nat option"
  io_rfd :: int
  io_read :: "nat option"

definition pattern :: "char list" where
  "pattern = map (\<lambda>i. char_of (i mod 256)) [0..<BUFFER_SIZE]"

definition io_work :: "io_ans \<Rightarrow> mig \<Rightarrow> demo_call list \<times> mig" where
  "io_work a s =
     (let s = (if \<not> mg_init s then s\<lparr>mg_buf := pattern, mg_init := True\<rparr> else s);
          s = (if io_wfd a \<ge> 0
               then case io_written a of None \<Rightarrow> s | Some n \<Rightarrow> s\<lparr>mg_file := write_at (mg_file s) 0 (take n (mg_buf s))\<rparr>
               else s);
          s = (if io_rfd a \<ge> 0
               then case io_read a of None \<Rightarrow> s | Some n \<Rightarrow> s\<lparr>mg_buf := write_at (mg_buf s) 0 (take (min n BUFFER_SIZE) (mg_file s))\<rparr>
               else s)
      in (D_libc ''open'' # (if io_wfd a \<ge> 0 then [D_libc ''write'', D_libc ''fsync'', D_libc ''close''] else [])
          @ D_libc ''open'' # (if io_rfd a \<ge> 0 then [D_libc ''read'', D_libc ''close''] else []), s))"

section \<open>The program\<close>

datatype mig_mode = MODE_SLEEP | MODE_BUSY | MODE_IO

text \<open>The mode and what is printed about it; \<open>argv\<close> without the name of the program.\<close>

definition parse_mode :: "string list \<Rightarrow> mig_mode \<times> demo_call list" where
  "parse_mode argv = (case argv of
     [] \<Rightarrow> (MODE_SLEEP, [])
   | a # _ \<Rightarrow> if a = ''sleep'' then (MODE_SLEEP, []) else if a = ''busy'' then (MODE_BUSY, []) else if a = ''io'' then (MODE_IO, [])
            else (MODE_SLEEP, [D_printf (''Unknown mode '' @ [CHR 0x27] @ a @ [CHR 0x27] @ '', defaulting to sleep'')]))"

definition mode_name :: "mig_mode \<Rightarrow> string" where
  "mode_name m = (case m of MODE_SLEEP \<Rightarrow> ''Sleep'' | MODE_BUSY \<Rightarrow> ''Busy'' | MODE_IO \<Rightarrow> ''I/O'')"

text \<open>\<open>get_current_symbi_state\<close> of the extension, and how the program takes its value apart.\<close>

definition get_current_symbi_state :: "1 word \<Rightarrow> 1 word \<Rightarrow> u32" where
  "get_current_symbi_state elevated migrated = push_bit 1 (ucast elevated) OR ucast migrated"

definition sym_elev :: "u32 \<Rightarrow> u32" where "sym_elev symbi_state = drop_bit 1 symbi_state AND 0x1"

definition sym_mig :: "u32 \<Rightarrow> u32" where "sym_mig symbi_state = symbi_state AND 0x1"

text \<open>What the kernel reports in a round, and the line that is printed of it.\<close>

record report =
  rp_task :: u64
  rp_pid :: int
  rp_cpu :: int
  rp_gs :: u64
  rp_cr3 :: u64
  rp_state :: u32

type_synonym hello = "int \<times> u64 \<times> int \<times> u64 \<times> u64 \<times> u32 \<times> u32"

definition hello_line :: "report \<Rightarrow> hello" where
  "hello_line r = (rp_pid r, rp_task r, rp_cpu r, rp_gs r, rp_cr3 r, sym_elev (rp_state r), sym_mig (rp_state r))"

definition work :: "mig_mode \<Rightarrow> io_ans \<Rightarrow> mig \<Rightarrow> (demo_call list \<times> mig) res" where
  "work mode a s = (case mode of
     MODE_SLEEP \<Rightarrow> Inr ([D_libc ''usleep''], s)
   | MODE_BUSY \<Rightarrow> rbind busy_work (\<lambda>_. Inr ([], s))
   | MODE_IO \<Rightarrow> Inr (io_work a s))"

definition queries :: "demo_call list" where
  "queries = [D_kernel ''get_current_task_struct'', D_kernel ''get_current_pid'', D_kernel ''get_current_cpu_id'', D_kernel ''get_current_gs_base'',
     D_kernel ''get_current_cr3'', D_kernel ''get_current_symbi_state'', D_kernel ''_printk'']"

primrec rounds :: "mig_mode \<Rightarrow> (report \<times> io_ans) list \<Rightarrow> mig \<Rightarrow> (demo_call list \<times> hello list \<times> mig) res" where
  "rounds mode [] s = Inr ([], [], s)"
| "rounds mode (ra # ras) s =
     rbind (work mode (snd ra) s) (\<lambda>(cs, s).
     rbind (rounds mode ras s) (\<lambda>(ds, ls, s). Inr (queries @ cs @ ds, hello_line (fst ra) # ls, s)))"

text \<open>The 100 rounds; \<open>answers\<close> is what the kernel answers in each of them.\<close>

definition mig_main :: "string list \<Rightarrow> (nat \<Rightarrow> report \<times> io_ans) \<Rightarrow> mig \<Rightarrow> (demo_call list \<times> hello list \<times> mig) res" where
  "mig_main argv answers s =
     (let (mode, out) = parse_mode argv
      in rbind (rounds mode (map answers [0..<100]) s) (\<lambda>(cs, ls, s).
         Inr (out @ [D_printf (''Running in '' @ mode_name mode @ '' mode''), D_elevate] @ cs @ [D_lower, D_printf ''DONE'']
              @ (if mode = MODE_IO then [D_libc ''unlink''] else []),
              ls, if mode = MODE_IO then s\<lparr>mg_file := []\<rparr> else s)))"

section \<open>The primes are counted\<close>

definition is_prime_nat :: "nat \<Rightarrow> bool" where
  "is_prime_nat n \<longleftrightarrow> 2 \<le> n \<and> (\<forall>d. 2 \<le> d \<and> d < n \<longrightarrow> \<not> d dvd n)"

text \<open>Enough divisors have been tried when the square of the next one is too large.\<close>

lemma no_small_divisor:
  assumes "2 \<le> n" and "n < k * k" and "\<And>d. 2 \<le> d \<Longrightarrow> d < k \<Longrightarrow> \<not> d dvd n"
  shows "is_prime_nat n"
  unfolding is_prime_nat_def
proof (intro conjI allI impI)
  fix d assume d: "2 \<le> d \<and> d < n"
  show "\<not> d dvd n"
  proof
    assume "d dvd n"
    then obtain e where e: "n = d * e" ..
    have "2 \<le> e" using d e by (cases e) (auto simp: numeral_2_eq_2 less_Suc_eq_le)
    have "d < k \<or> e < k"
    proof (rule ccontr)
      assume "\<not> (d < k \<or> e < k)"
      then have "k * k \<le> d * e" by (intro mult_le_mono) auto
      then show False using assms(2) e by simp
    qed
    then show False using assms(3)[of d] assms(3)[of e] d \<open>2 \<le> e\<close> e by auto
  qed
qed (use assms(1) in simp)

lemma trial_prime:
  assumes "unat num < 2 ^ 62" and "2 \<le> unat num"
  shows "f + unat i = unat num + 2 \<Longrightarrow> 2 \<le> unat i \<Longrightarrow> unat i \<le> unat num \<Longrightarrow> (unat i - 1) * (unat i - 1) \<le> unat num
    \<Longrightarrow> (\<And>d. 2 \<le> d \<Longrightarrow> d < unat i \<Longrightarrow> \<not> d dvd unat num) \<Longrightarrow> trial f num i = Inr (is_prime_nat (unat num))"
proof (induction f arbitrary: i)
  case 0
  then show ?case by simp
next
  case (Suc f)
  let ?n = "unat num" and ?k = "unat i"
  have "(?k - 1) * (?k - 1) < 2 ^ 31 * 2 ^ 31" using Suc.prems(4) assms(1) by simp
  then have "\<not> (2 ^ 31 \<le> ?k - 1)" using mult_le_mono[of "2 ^ 31" "?k - 1" "2 ^ 31" "?k - 1"] by linarith
  then have k: "?k \<le> 2 ^ 31" by simp
  then have "?k * ?k \<le> 2 ^ 31 * 2 ^ 31" by (rule mult_le_mono) (rule k)
  then have sq: "unat (i * i) = ?k * ?k" using unat_mult_lem[of i i] by simp
  have i0: "i \<noteq> 0" using Suc.prems(2) by auto
  show ?case
  proof (cases "i * i \<le> num")
    case False
    then have "?n < ?k * ?k" using sq by (simp add: word_le_nat_alt)
    then show ?thesis using no_small_divisor[OF assms(2) _ Suc.prems(5)] False by simp
  next
    case True
    then have le: "?k * ?k \<le> ?n" using sq by (simp add: word_le_nat_alt)
    have kn: "?k < ?n" using le Suc.prems(2) mult_le_mono1[of 2 ?k ?k] by linarith
    have md: "num mod i = 0 \<longleftrightarrow> ?k dvd ?n" 
      using unat_eq_0[of "num mod i"] by (simp add: unat_mod_distrib mod_eq_0_iff_dvd)
    show ?thesis
    proof (cases "?k dvd ?n")
      case True
      then have "\<not> is_prime_nat ?n" using Suc.prems(2) kn by (auto simp: is_prime_nat_def)
      then show ?thesis using \<open>i * i \<le> num\<close> i0 md True by simp
    next
      case False
      have s: "unat (i + 1) = ?k + 1" using unat_add_lem[of i 1] kn assms(1) by simp
      have "\<not> d dvd ?n" if "2 \<le> d" "d < unat (i + 1)" for d
        using that False Suc.prems(5)[of d] s by (cases "d = ?k") auto
      then have "trial f num (i + 1) = Inr (is_prime_nat ?n)"
        using Suc.IH[of "i + 1"] Suc.prems(1,2) s kn le by simp
      then show ?thesis using \<open>i * i \<le> num\<close> i0 md False by simp
    qed
  qed
qed

lemma trial_start:
  assumes "unat num < 2 ^ 62" and "2 \<le> unat num"
  shows "trial (unat num) num 2 = Inr (is_prime_nat (unat num))"
  by (rule trial_prime[OF assms]) (use assms in auto)

definition primes_below :: "nat \<Rightarrow> nat set" where
  "primes_below n = {p. p < n \<and> is_prime_nat p}"

lemma primes_below_Suc: "primes_below (Suc n) = (if is_prime_nat n then insert n (primes_below n) else primes_below n)"
  by (auto simp: primes_below_def less_Suc_eq)

lemma card_primes_Suc: "card (primes_below (Suc n)) = card (primes_below n) + (if is_prime_nat n then 1 else 0)"
  by (simp add: primes_below_Suc) (simp add: primes_below_def)

lemma count_primes_exact:
  assumes "unat limit < 2 ^ 62"
  shows "unat limit \<le> f + unat num \<Longrightarrow> 2 \<le> unat num \<Longrightarrow> unat num \<le> unat limit
    \<Longrightarrow> count_primes f limit num count = Inr (count + of_nat (card (primes_below (unat limit)) - card (primes_below (unat num))))"
proof (induction f arbitrary: num count)
  case 0
  then show ?case by (simp add: word_less_nat_alt)
next
  case (Suc f)
  show ?case
  proof (cases "num < limit")
    case False
    then have "unat num = unat limit" using Suc.prems(3) by (simp add: word_less_nat_alt)
    then show ?thesis using False by simp
  next
    case True
    let ?n = "unat num"
    have l: "?n < unat limit" using True by (simp add: word_less_nat_alt)
    have s: "unat (num + 1) = Suc ?n" using unat_add_lem[of num 1] l assms by simp
    have t: "trial ?n num 2 = Inr (is_prime_nat ?n)" using trial_start Suc.prems(2) l assms by simp
    have m: "card (primes_below (Suc ?n)) \<le> card (primes_below (unat limit))"
      using l by (intro card_mono) (auto simp: primes_below_def)
    show ?thesis
      using Suc.IH[of "num + 1"] Suc.prems(1,2) l m True t by (auto simp: s card_primes_Suc of_nat_diff)
  qed
qed

lemma busy_work_eq: "busy_work = Inr (of_nat (card (primes_below 10000000)))"
proof -
  have e: "primes_below 2 = {}" by (auto simp: primes_below_def is_prime_nat_def)
  have "count_primes 10000000 10000000 2 0 = Inr (0 + of_nat (card (primes_below (unat (10000000 :: u64))) - card (primes_below (unat (2 :: u64)))))"
    by (rule count_primes_exact) simp_all
  then show ?thesis by (simp add: busy_work_def e)
qed

section \<open>Files and flags\<close>

text \<open>The file holds a prefix of the pattern, and the buffer the whole of it once it was filled.\<close>

definition io_inv :: "mig \<Rightarrow> bool" where
  "io_inv s \<longleftrightarrow> (mg_init s \<longrightarrow> mg_buf s = pattern) \<and> (\<exists>k. mg_file s = take k pattern)"

lemma length_pattern [simp]: "length pattern = BUFFER_SIZE"
  by (simp add: pattern_def)

lemma write_same: "write_at ys 0 (take n ys) = ys"
  by (cases "n \<le> length ys") (simp_all add: write_at_def)

lemma write_prefix: "write_at (take k xs) 0 (take n xs) = take (max k n) xs"
proof (cases "n \<le> k")
  case True
  then show ?thesis using write_same[of "take k xs" n] by (simp add: min_absorb1 max_absorb1)
next
  case False
  then show ?thesis by (simp add: write_at_def max_def)
qed

lemma io_work_inv:
  assumes "io_inv s"
  shows "io_inv (snd (io_work a s)) \<and> mg_buf (snd (io_work a s)) = pattern \<and> mg_init (snd (io_work a s))"
proof -
  define s0 where "s0 = (if \<not> mg_init s then s\<lparr>mg_buf := pattern, mg_init := True\<rparr> else s)"
  have 0: "mg_buf s0 = pattern" "mg_init s0" "\<exists>k. mg_file s0 = take k pattern" using assms by (auto simp: s0_def io_inv_def)
  define s1 where "s1 = (if io_wfd a \<ge> 0
     then case io_written a of None \<Rightarrow> s0 | Some n \<Rightarrow> s0\<lparr>mg_file := write_at (mg_file s0) 0 (take n (mg_buf s0))\<rparr> else s0)"
  obtain k where k: "mg_file s0 = take k pattern" using 0(3) ..
  have "write_at (mg_file s0) 0 (take n (mg_buf s0)) = take (max k n) pattern" for n by (simp add: k 0(1) write_prefix)
  then have 1: "mg_buf s1 = pattern" "mg_init s1" "\<exists>k. mg_file s1 = take k pattern" using 0 by (auto simp: s1_def split: option.splits)
  obtain j where j: "mg_file s1 = take j pattern" using 1(3) ..
  have "write_at pattern 0 (take m (take j pattern)) = pattern" for m by (simp add: write_same)
  then have r: "write_at (mg_buf s1) 0 (take m (mg_file s1)) = pattern" for m by (simp add: j 1(1))
  have "snd (io_work a s) = (if io_rfd a \<ge> 0
     then case io_read a of None \<Rightarrow> s1 | Some n \<Rightarrow> s1\<lparr>mg_buf := write_at (mg_buf s1) 0 (take (min n BUFFER_SIZE) (mg_file s1))\<rparr> else s1)"
    unfolding io_work_def Let_def s0_def s1_def by simp
  then show ?thesis using 1 r by (auto simp: io_inv_def split: option.splits)
qed

lemma symbi_flags:
  "sym_elev (get_current_symbi_state e m) = ucast e" "sym_mig (get_current_symbi_state e m) = ucast m"
proof -
  have b: "w = 0 \<or> w = 1" for w :: "1 word"
  proof -
    have "unat w < 2" using unsigned_less[where 'a = nat, of w] by simp
    then have "unat w = 0 \<or> unat w = 1" by linarith
    then show ?thesis by (metis unat_0 unat_1 unsigned_word_eqI)
  qed
  show "sym_elev (get_current_symbi_state e m) = ucast e" "sym_mig (get_current_symbi_state e m) = ucast m"
    using b[of e] b[of m] by (auto simp: sym_elev_def sym_mig_def get_current_symbi_state_def)
qed

section \<open>A run\<close>

lemma io_work_calls: "priv_run demo_rule el (fst (io_work a s)) = Some el" "D_libc ''unlink'' \<notin> set (fst (io_work a s))"
  unfolding io_work_def Let_def fst_conv by simp_all

lemma work_ok:
  assumes "io_inv s"
  shows "\<exists>cs s'. work m a s = Inr (cs, s') \<and> priv_run demo_rule True cs = Some True \<and> D_libc ''unlink'' \<notin> set cs \<and> io_inv s'
    \<and> (m = MODE_IO \<longrightarrow> mg_buf s' = pattern)"
  using assms io_work_calls io_work_inv[OF assms, of a]
  by (cases m) (auto simp: work_def busy_work_eq intro!: exI[of _ "fst (io_work a s)"] exI[of _ "snd (io_work a s)"])

lemma rounds_ok:
  "io_inv s \<Longrightarrow> \<exists>cs s'. rounds m ras s = Inr (cs, map (hello_line \<circ> fst) ras, s') \<and> priv_run demo_rule True cs = Some True
    \<and> D_libc ''unlink'' \<notin> set cs \<and> io_inv s' \<and> (m = MODE_IO \<and> ras \<noteq> [] \<longrightarrow> mg_buf s' = pattern)"
proof (induction ras arbitrary: s)
  case (Cons ra ras)
  obtain cs s1 where w: "work m (snd ra) s = Inr (cs, s1)" "priv_run demo_rule True cs = Some True" "D_libc ''unlink'' \<notin> set cs" "io_inv s1"
      "m = MODE_IO \<longrightarrow> mg_buf s1 = pattern"
    using work_ok[OF Cons.prems] by blast
  obtain ds s' where r: "rounds m ras s1 = Inr (ds, map (hello_line \<circ> fst) ras, s')" "priv_run demo_rule True ds = Some True"
      "D_libc ''unlink'' \<notin> set ds" "io_inv s'" "m = MODE_IO \<and> ras \<noteq> [] \<longrightarrow> mg_buf s' = pattern"
    using Cons.IH[OF w(4)] by blast
  have q: "priv_run demo_rule True queries = Some True" "D_libc ''unlink'' \<notin> set queries" by (simp_all add: queries_def)
  have "m = MODE_IO \<longrightarrow> mg_buf s' = pattern" using w(5) r(1,5) by (cases ras) auto
  then show ?case using w r q by simp
qed simp

text \<open>
  The busy mode counts the primes below ten million: the loops end, no product wraps around, and the counter is the number of primes.\<close>

theorem busy_work_counts_primes: "busy_work = Inr (of_nat (card {p. p < 10000000 \<and> is_prime_nat p}))"
  using busy_work_eq by (simp only: primes_below_def)

text \<open>
  Every run returns, in every mode and for every argument. It calls the kernel only with its privilege raised and has lowered it at the end; it reports 100 times, with the two flags exactly as the extension packed them;
  in I/O mode, and only there, it removes its file, and however many bytes the kernel wrote and read, its buffer holds what it was filled with.\<close>

theorem mig_main_reports:
  assumes "mg_init s = False" and "mg_file s = []"
    and "\<forall>i. rp_state (fst (answers i)) = get_current_symbi_state (elevated i) (migrated i)"
  shows "\<exists>tr ls s'. mig_main argv answers s = Inr (tr, ls, s') \<and> priv_run demo_rule False tr = Some False
    \<and> map (\<lambda>(_, _, _, _, _, e, m). (e, m)) ls = map (\<lambda>i. (ucast (elevated i), ucast (migrated i))) [0..<100]
    \<and> (D_libc ''unlink'' \<in> set tr \<longleftrightarrow> take 1 argv = [''io'']) \<and> (take 1 argv = [''io''] \<longrightarrow> mg_buf s' = pattern)"
proof -
  let ?ras = "map answers [0..<100]"
  obtain mode msg where p: "parse_mode argv = (mode, msg)" by fastforce
  have i: "io_inv s" using assms(1,2) by (auto simp: io_inv_def intro: exI[of _ 0])
  obtain cs s1 where r: "rounds mode ?ras s = Inr (cs, map (hello_line \<circ> fst) ?ras, s1)" "priv_run demo_rule True cs = Some True"
      "D_libc ''unlink'' \<notin> set cs" "mode = MODE_IO \<longrightarrow> mg_buf s1 = pattern"
    using rounds_ok[OF i, of mode ?ras] by auto
  have m: "mode = MODE_IO \<longleftrightarrow> take 1 argv = [''io'']" "priv_run demo_rule False msg = Some False" "D_libc ''unlink'' \<notin> set msg"
    using p by (auto simp: parse_mode_def split: list.splits if_splits)
  have l: "map (\<lambda>(_, _, _, _, _, e, m). (e, m)) (map (hello_line \<circ> fst) ?ras) = map (\<lambda>i. (ucast (elevated i), ucast (migrated i))) [0..<100]"
    using assms(3) by (simp add: hello_line_def symbi_flags)
  show ?thesis
    using r m l by (simp add: mig_main_def p)
qed

theorem mig_main_reports_witness:
  "\<exists>tr ls s'. mig_main [''io''] (\<lambda>_. (\<lparr>rp_task = 0, rp_pid = 7, rp_cpu = 1, rp_gs = 0, rp_cr3 = 0, rp_state = get_current_symbi_state 1 0\<rparr>,
      \<lparr>io_wfd = 3, io_written = Some 10, io_rfd = 3, io_read = Some 5\<rparr>)) \<lparr>mg_init = False, mg_buf = [], mg_file = []\<rparr> = Inr (tr, ls, s')
    \<and> mg_buf s' = pattern \<and> priv_run demo_rule False tr = Some False"
  using mig_main_reports[of "\<lparr>mg_init = False, mg_buf = [], mg_file = []\<rparr>"
      "\<lambda>_. (\<lparr>rp_task = 0, rp_pid = 7, rp_cpu = 1, rp_gs = 0, rp_cr3 = 0, rp_state = get_current_symbi_state 1 0\<rparr>,
      \<lparr>io_wfd = 3, io_written = Some 10, io_rfd = 3, io_read = Some 5\<rparr>)" "\<lambda>_. 1" "\<lambda>_. 0" "[''io'']"]
  by auto

end
