(* ===== verification/Demos.thy ===== *)
theory Demos
  imports Clib Load_Mod Idt_Table
begin

text \<open>
  The demonstration programs: \<open>printk/main.c\<close> and \<open>back_linkage/main.c\<close> with the functions of their kernel modules, \<open>read_idtr\<close> (program and module) and \<open>idtr_interposer/main.c\<close>.

  Each program is the trace of its calls. Functions that are bound when they are first needed go through the resolver of \<open>Load_Mod\<close>. The module of \<open>read_idtr\<close> reads the
  interrupt table byte by byte; it is compared with the table of \<open>Idt_Table\<close>.
\<close>

section \<open>Functions of the modules\<close>

definition kernel_add :: "int \<Rightarrow> int \<Rightarrow> int res" where
  "kernel_add a b = int_add a b"

definition user_add :: "int \<Rightarrow> int \<Rightarrow> int res" where
  "user_add a b = int_add a b"

text \<open>A function of the module that calls back into the program; the pointer it goes through is an argument, \<open>None\<close> when it is NULL.\<close>

definition kernel_user_add :: "(int \<Rightarrow> int \<Rightarrow> int res) option \<Rightarrow> int \<Rightarrow> int \<Rightarrow> int res" where
  "kernel_user_add ptr a b = (case ptr of None \<Rightarrow> Inl Null_deref | Some f \<Rightarrow> f a b)"

section \<open>Symbols of the program inside the module\<close>

text \<open>
  \<open>resolve_app_symbols\<close>: an entry of the module's symbol table is its offset in the string table and its address; \<open>dlsym\<close> is 0 for an unknown name, and the memory of the
  module is a function.
\<close>

definition user_sym_prefix :: string where "user_sym_prefix = ''__user_sym__''"

definition strncmp_eq :: "string \<Rightarrow> string \<Rightarrow> nat \<Rightarrow> bool" where
  "strncmp_eq s t n \<longleftrightarrow> take n s = take n t"

definition sym_name :: "char list \<Rightarrow> nat \<Rightarrow> string" where
  "sym_name strtab st_name = (if st_name \<noteq> 0 then cstr_at strtab st_name else [])"

primrec resolve_app_symbols :: "(string \<Rightarrow> u64) \<Rightarrow> char list \<Rightarrow> (nat \<times> u64) list \<Rightarrow> (u64 \<Rightarrow> u64) \<Rightarrow> (u64 \<Rightarrow> u64)" where
  "resolve_app_symbols dlsym strtab [] mem = mem"
| "resolve_app_symbols dlsym strtab (e # es) mem =
     (let name = sym_name strtab (fst e)
      in resolve_app_symbols dlsym strtab es
           (if strncmp_eq name user_sym_prefix 11 \<and> snd e \<noteq> 0 then mem(snd e := dlsym (drop 11 name)) else mem))"

section \<open>The programs\<close>

definition printk_main :: "int \<Rightarrow> (demo_call list) res" where
  "printk_main pid =
     rbind (kernel_add 3 4) (\<lambda>sum.
     Inr [D_printf ''main: calling elevate'', D_elevate, D_printf ''main: called elevate'',
          D_kernel ''kernel_add'', D_printf (''printf: kernel_add(3, 4) = '' @ dec_int sum), D_kernel (''printk: kernel_add(3, 4) = '' @ dec_int sum),
          D_kernel ''current_pid'', D_printf (''printf: current_pid() = '' @ dec_int pid), D_kernel (''printk: current_pid() = '' @ dec_int pid),
          D_lower, D_printf ''DONE''])"

definition back_linkage_main :: "(int \<Rightarrow> int \<Rightarrow> int res) option \<Rightarrow> int \<Rightarrow> (demo_call list) res" where
  "back_linkage_main ptr pid =
     rbind (kernel_add 3 4) (\<lambda>sum. rbind (kernel_user_add ptr 10 15) (\<lambda>sum2.
     Inr [D_printf ''main: calling elevate'', D_printf ''main: cpu_current_top_of_stack addr'', D_printf ''main: user_printf addr'',
          D_printf ''user_printf: hello from user_printf!, test: 123'', D_elevate, D_printf ''main: called elevate'',
          D_kernel ''kernel_add'', D_printf (''printf: kernel_add(3, 4) = '' @ dec_int sum),
          D_kernel ''current_pid'', D_printf (''printf: current_pid() = '' @ dec_int pid),
          D_kernel ''kernel_user_add'', D_kernel (''printk: kernel_user_add(10, 15) = '' @ dec_int sum2), D_lower,
          D_printf (''printf: kernel_user_add(10, 15) = '' @ dec_int sum2), D_printf ''DONE'']))"

definition read_idtr_main :: "demo_call list" where
  "read_idtr_main = [D_printf ''main: calling elevate'', D_elevate, D_printf ''main: called elevate'', D_kernel ''print_idt_entries'',
     D_printf ''printf: called print_idt_entries()'', D_lower, D_printf ''DONE'']"

text \<open>
  \<open>idtr_interposer\<close>: two functions of the module are called on the kernel's stack, whose address is in the variable \<open>ktos\<close> that the resolver sets. The argument \<open>ktos\<close> is read before the function is
  called, so it matters whether functions are bound at the start (\<open>LD_BIND_NOW\<close>) or by their first call.
\<close>

datatype im_call = Im_on_stack u64 string | Im_printf string

definition im_bind :: "lm_env \<Rightarrow> string \<Rightarrow> lm \<Rightarrow> u64 outcome \<times> lm" where
  "im_bind E name s = base_resolver load_included_module E name s"

definition im_run :: "bool \<Rightarrow> lm_env \<Rightarrow> string \<Rightarrow> string \<Rightarrow> im_call list \<times> lm \<Rightarrow> (im_call list \<times> lm) outcome" where
  "im_run eager E name line cs =
     (let ktos = lm_ktos (snd cs)
      in if eager then Ret (fst cs @ [Im_on_stack ktos name, Im_printf line], snd cs)
         else case im_bind E name (snd cs) of
                (Ret a, s) \<Rightarrow> Ret (fst cs @ [Im_on_stack ktos name, Im_printf line], s)
              | (Exits n, s) \<Rightarrow> Exits n
              | (Aborts, s) \<Rightarrow> Aborts)"

definition obind :: "'a outcome \<Rightarrow> ('a \<Rightarrow> 'b outcome) \<Rightarrow> 'b outcome" where
  "obind m f = (case m of Ret x \<Rightarrow> f x | Exits n \<Rightarrow> Exits n | Aborts \<Rightarrow> Aborts)"

definition im_start :: "bool \<Rightarrow> lm_env \<Rightarrow> lm outcome" where
  "im_start eager E =
     (if eager
      then case im_bind E ''print_idt_entries'' lm_start of
             (Ret _, s) \<Rightarrow> (case im_bind E ''setup_df_interposition'' s of (Ret _, s) \<Rightarrow> Ret s | (Exits n, _) \<Rightarrow> Exits n | (Aborts, _) \<Rightarrow> Aborts)
           | (Exits n, _) \<Rightarrow> Exits n | (Aborts, _) \<Rightarrow> Aborts
      else Ret lm_start)"

definition interposer_main :: "bool \<Rightarrow> lm_env \<Rightarrow> (im_call list) outcome" where
  "interposer_main eager E =
     obind (im_start eager E) (\<lambda>s.
     obind (im_run eager E ''setup_df_interposition'' ''printf: called setup_df_interposition()'' ([], s)) (\<lambda>cs.
     obind (im_run eager E ''print_idt_entries'' ''printf: called print_idt_entries() again'' cs) (\<lambda>cs.
     Ret (fst cs @ [Im_printf ''DONE'']))))"

section \<open>Properties of the programs\<close>

text \<open>
  A module that looks up the symbols of its program does not find them. Every slot whose symbol is \<open>__user_sym__f\<close> receives the address of \<open>_f\<close>, with an underscore that is left over because the prefix of
  twelve characters is compared and skipped with a length of eleven; all memory that no such symbol names is untouched.\<close>

theorem resolve_app_symbols_underscore:
  assumes "distinct (map snd es)"
  shows "(\<forall>e \<in> set es. \<forall>f. sym_name strtab (fst e) = user_sym_prefix @ f \<longrightarrow> snd e \<noteq> 0 \<longrightarrow>
      resolve_app_symbols dlsym strtab es mem (snd e) = dlsym (CHR ''_'' # f))
    \<and> (\<forall>a. a \<notin> snd ` set es \<longrightarrow> resolve_app_symbols dlsym strtab es mem a = mem a)"
  using assms
proof (induction es arbitrary: mem)
  case (Cons e es)
  have p: "strncmp_eq (user_sym_prefix @ f) user_sym_prefix 11" "drop 11 (user_sym_prefix @ f) = CHR ''_'' # f" for f
    by (simp_all add: strncmp_eq_def user_sym_prefix_def)
  have "snd e \<notin> snd ` set es" using Cons.prems by auto
  then show ?case using Cons.IH Cons.prems p by (auto simp: Let_def)
qed simp

theorem resolve_app_symbols_underscore_witness:
  "resolve_app_symbols (\<lambda>n. if n = ''user_add'' then 0x400 else 0) (NUL # ''__user_sym__user_add'' @ [NUL]) [(1, 0x1000)] (\<lambda>_. 7) 0x1000 = 0"
proof -
  have "sym_name (NUL # ''__user_sym__user_add'' @ [NUL]) 1 = user_sym_prefix @ ''user_add''"
    by (simp add: sym_name_def cstr_at_def cstr_def user_sym_prefix_def)
  then show ?thesis
    using resolve_app_symbols_underscore[of "[(1, 0x1000)]" "NUL # ''__user_sym__user_add'' @ [NUL]" "\<lambda>n. if n = ''user_add'' then 0x400 else 0" "\<lambda>_. 7"]
    by simp
qed

text \<open>
  The programs of \<open>printk\<close>, \<open>back_linkage\<close> and \<open>read_idtr\<close> return, call the kernel only with their privilege raised, lower it in the end, and print the sums 7 and 25; \<open>back_linkage\<close> dereferences NULL when its module
  has not found the program's function.\<close>

theorem demo_programs_run:
  "(\<exists>tr. printk_main pid = Inr tr \<and> priv_run demo_rule False tr = Some False \<and> D_printf (''printf: kernel_add(3, 4) = '' @ dec_int 7) \<in> set tr)
   \<and> (\<exists>tr. back_linkage_main (Some user_add) pid = Inr tr \<and> priv_run demo_rule False tr = Some False
        \<and> D_printf (''printf: kernel_user_add(10, 15) = '' @ dec_int 25) \<in> set tr)
   \<and> back_linkage_main None pid = Inl Null_deref
   \<and> priv_run demo_rule False read_idtr_main = Some False"
proof -
  have a: "kernel_add 3 4 = Inr 7" "kernel_user_add (Some user_add) 10 15 = Inr 25"
    by (simp_all add: kernel_add_def kernel_user_add_def user_add_def int_add_def INT_MIN_def INT_MAX_def)
  show ?thesis
    by (simp add: printk_main_def back_linkage_main_def read_idtr_main_def a) (simp add: kernel_user_add_def)
qed

lemma im_bind_first:
  assumes "lm_force_symres_now E" and "do_load_module E (lm_ko_start E) (lm_ko_size E) (lm_uargs E) = 0" and "lm_kallsyms E name \<noteq> 0"
    and "\<not> lm_loaded s"
  shows "\<exists>s'. im_bind E name s = (Ret (lm_kallsyms E name), s') \<and> lm_loaded s' \<and> lm_ktos s' = snd (lm_resolve_sym E ''cpu_current_top_of_stack'')"
  using assms by (simp add: im_bind_def base_resolver_def load_included_module_def load_on_kern_stack_def lm_log_def)

lemma im_bind_again:
  assumes "lm_loaded s" and "lm_kallsyms E name \<noteq> 0"
  shows "\<exists>s'. im_bind E name s = (Ret (lm_kallsyms E name), s') \<and> lm_loaded s' \<and> lm_ktos s' = lm_ktos s"
  using assms by (simp add: im_bind_def base_resolver_def lm_log_def)

text \<open>
  The interposer's program needs its functions bound at the start. Then both run on the kernel's stack that the resolver has found; bound by their first call, the first of them is run with the stack address 0, because the
  address is read before the resolver that sets it has run.\<close>

theorem interposer_main_needs_bind_now:
  assumes "lm_force_symres_now E" and "do_load_module E (lm_ko_start E) (lm_ko_size E) (lm_uargs E) = 0"
    and "lm_kallsyms E ''setup_df_interposition'' \<noteq> 0" and "lm_kallsyms E ''print_idt_entries'' \<noteq> 0"
  shows "\<forall>eager. interposer_main eager E =
    (let ktos = snd (lm_resolve_sym E ''cpu_current_top_of_stack'')
     in Ret [Im_on_stack (if eager then ktos else 0) ''setup_df_interposition'', Im_printf ''printf: called setup_df_interposition()'',
             Im_on_stack ktos ''print_idt_entries'', Im_printf ''printf: called print_idt_entries() again'', Im_printf ''DONE''])"
proof
  fix eager
  let ?k = "snd (lm_resolve_sym E ''cpu_current_top_of_stack'')" and ?p = "''print_idt_entries''" and ?d = "''setup_df_interposition''"
  have l: "\<not> lm_loaded lm_start" "lm_ktos lm_start = 0" by (simp_all add: lm_start_def)
  obtain s1 where s1: "im_bind E ?p lm_start = (Ret (lm_kallsyms E ?p), s1)" "lm_loaded s1" "lm_ktos s1 = ?k"
    using im_bind_first[OF assms(1,2,4) l(1)] by blast
  obtain s2 where s2: "im_bind E ?d s1 = (Ret (lm_kallsyms E ?d), s2)" "lm_ktos s2 = ?k" using im_bind_again[OF s1(2) assms(3)] s1(3) by auto
  obtain t1 where t1: "im_bind E ?d lm_start = (Ret (lm_kallsyms E ?d), t1)" "lm_loaded t1" "lm_ktos t1 = ?k"
    using im_bind_first[OF assms(1-3) l(1)] by blast
  obtain t2 where t2: "im_bind E ?p t1 = (Ret (lm_kallsyms E ?p), t2)" using im_bind_again[OF t1(2) assms(4)] by auto
  show "interposer_main eager E = (let ktos = ?k
     in Ret [Im_on_stack (if eager then ktos else 0) ?d, Im_printf ''printf: called setup_df_interposition()'',
             Im_on_stack ktos ?p, Im_printf ''printf: called print_idt_entries() again'', Im_printf ''DONE''])"
    using s1 s2 t1 t2 l by (cases eager) (simp_all add: interposer_main_def im_start_def im_run_def obind_def Let_def)
qed

theorem interposer_main_needs_bind_now_witness:
  "interposer_main False (demo_lm_env\<lparr>lm_dlsym := (\<lambda>_. Some 0x20), lm_init := (\<lambda>_ _ _. 0), lm_kallsyms := (\<lambda>_. 0x900)\<rparr>) =
    Ret [Im_on_stack 0 ''setup_df_interposition'', Im_printf ''printf: called setup_df_interposition()'',
         Im_on_stack 0x20 ''print_idt_entries'', Im_printf ''printf: called print_idt_entries() again'', Im_printf ''DONE'']"
proof -
  let ?E = "demo_lm_env\<lparr>lm_dlsym := (\<lambda>_. Some 0x20), lm_init := (\<lambda>_ _ _. 0), lm_kallsyms := (\<lambda>_. 0x900)\<rparr>"
  have "lm_force_symres_now ?E" "do_load_module ?E (lm_ko_start ?E) (lm_ko_size ?E) (lm_uargs ?E) = 0" "lm_kallsyms ?E n \<noteq> 0" for n
    by (simp_all add: lm_force_symres_now_def lm_resolve_sym_def do_load_module_def x64_sys_init_module_def)
  then show ?thesis using interposer_main_needs_bind_now[of ?E] by (simp add: lm_resolve_sym_def)
qed

end
