(* ===== verification/Read_Idtr.thy ===== *)
theory Read_Idtr
  imports Idt_Table
begin

text \<open>
  The module of \<open>read_idtr\<close> (\<open>kmod/greeter.c\<close>) that prints the interrupt descriptor table, on the level of bytes: the ten bytes that \<open>sidt\<close> stores, of which the
  base address is read with a cast at offset 2, and the 16 bytes of every entry with its bit fields. It prints what \<open>print_idt_entries\<close> of the interposer prints of the same table.
\<close>

section \<open>Bytes\<close>

definition mem16 :: "(u64 \<Rightarrow> u8) \<Rightarrow> u64 \<Rightarrow> u16" where
  "mem16 m a = ucast (m a) OR push_bit 8 (ucast (m (a + 1)))"

definition mem32 :: "(u64 \<Rightarrow> u8) \<Rightarrow> u64 \<Rightarrow> u32" where
  "mem32 m a = ucast (mem16 m a) OR push_bit 16 (ucast (mem16 m (a + 2)))"

definition mem64 :: "(u64 \<Rightarrow> u8) \<Rightarrow> u64 \<Rightarrow> u64" where
  "mem64 m a = ucast (mem32 m a) OR push_bit 32 (ucast (mem32 m (a + 4)))"

definition bytes16 :: "u16 \<Rightarrow> u8 list" where
  "bytes16 w = [ucast w, ucast (drop_bit 8 w)]"

definition bytes32 :: "u32 \<Rightarrow> u8 list" where
  "bytes32 w = bytes16 (ucast w) @ bytes16 (ucast (drop_bit 16 w))"

definition bytes64 :: "u64 \<Rightarrow> u8 list" where
  "bytes64 w = bytes32 (ucast w) @ bytes32 (ucast (drop_bit 32 w))"

primrec bytes_at :: "(u64 \<Rightarrow> u8) \<Rightarrow> u64 \<Rightarrow> u8 list \<Rightarrow> bool" where
  "bytes_at m a [] = True"
| "bytes_at m a (b # bs) = (m a = b \<and> bytes_at m (a + 1) bs)"

lemma bytes_at_append: "bytes_at m a (xs @ ys) \<longleftrightarrow> bytes_at m a xs \<and> bytes_at m (a + of_nat (length xs)) ys"
  by (induction xs arbitrary: a) (auto simp: algebra_simps)

lemma length_bytes [simp]: "length (bytes16 w) = 2" "length (bytes32 v) = 4" "length (bytes64 u) = 8"
  by (simp_all add: bytes16_def bytes32_def bytes64_def)

lemma mem16_bytes: "bytes_at m a (bytes16 w) \<Longrightarrow> mem16 m a = w"
proof -
  assume "bytes_at m a (bytes16 w)"
  then have "mem16 m a = ucast (ucast w :: u8) OR push_bit 8 (ucast (ucast (drop_bit 8 w) :: u8))" by (simp add: bytes16_def mem16_def)
  also have "\<dots> = w" by (rule bit_word_eqI) (auto simp: bit_simps bit_ucast_iff)
  finally show ?thesis .
qed

lemma mem32_bytes: "bytes_at m a (bytes32 w) \<Longrightarrow> mem32 m a = w"
proof -
  assume "bytes_at m a (bytes32 w)"
  then have "mem16 m a = ucast w" "mem16 m (a + 2) = ucast (drop_bit 16 w)"
    by (auto simp: bytes32_def bytes_at_append intro!: mem16_bytes)
  then have "mem32 m a = ucast (ucast w :: u16) OR push_bit 16 (ucast (ucast (drop_bit 16 w) :: u16))" by (simp add: mem32_def)
  also have "\<dots> = w" by (rule bit_word_eqI) (auto simp: bit_simps bit_ucast_iff)
  finally show ?thesis .
qed

lemma mem64_bytes: "bytes_at m a (bytes64 w) \<Longrightarrow> mem64 m a = w"
proof -
  assume "bytes_at m a (bytes64 w)"
  then have "mem32 m a = ucast w" "mem32 m (a + 4) = ucast (drop_bit 32 w)"
    by (auto simp: bytes64_def bytes_at_append intro!: mem32_bytes)
  then have "mem64 m a = ucast (ucast w :: u32) OR push_bit 32 (ucast (ucast (drop_bit 32 w) :: u32))" by (simp add: mem64_def)
  also have "\<dots> = w" by (rule bit_word_eqI) (auto simp: bit_simps bit_ucast_iff)
  finally show ?thesis .
qed

section \<open>The module\<close>

text \<open>\<open>struct idt_entry\<close>: the 16 bits at offset 4 hold \<open>ist\<close> (3 bits), 5 unnamed, \<open>type\<close> (4), 1 unnamed, \<open>dpl\<close> (2) and \<open>p\<close> (1), lowest first.\<close>

definition idt_entry_at :: "(u64 \<Rightarrow> u8) \<Rightarrow> u64 \<Rightarrow> idt_entry" where
  "idt_entry_at m a =
     (let bits = mem16 m (a + 4)
      in \<lparr>ie_offset0 = mem16 m a, ie_selector = mem16 m (a + 2), ie_ist = ucast bits, ie_type = ucast (drop_bit 8 bits),
          ie_dpl = ucast (drop_bit 13 bits), ie_p = ucast (drop_bit 15 bits), ie_offset1 = mem16 m (a + 6), ie_offset2 = mem32 m (a + 8),
          ie_reserved = mem32 m (a + 12)\<rparr>)"

text \<open>\<open>*(uint64_t *)&idtr[2]\<close>, where \<open>idtr\<close> is the buffer that \<open>sidt\<close> filled.\<close>

definition idtr_base :: "(u64 \<Rightarrow> u8) \<Rightarrow> u64 \<Rightarrow> u64" where
  "idtr_base m idtr = mem64 m (idtr + 2)"

definition read_idt_entries :: "(u64 \<Rightarrow> u8) \<Rightarrow> u64 \<Rightarrow> u64 \<times> (nat \<times> u64 \<times> u16 \<times> u8 \<times> u8) list" where
  "read_idt_entries m idtr =
     (let idt = idtr_base m idtr
      in (idt, map (\<lambda>i. let e = idt_entry_at m (idt + 16 * of_nat i)
                        in (i, push_bit 32 (ucast (ie_offset2 e)) OR push_bit 16 (ucast (ie_offset1 e)) OR ucast (ie_offset0 e), ie_selector e,
                            ucast (ie_ist e), (ucast (ie_type e) AND 0x0F) OR push_bit 5 (ucast (ie_dpl e) AND 0x03) OR push_bit 7 (ucast (ie_p e) AND 0x01)))
           [0..<256]))"

section \<open>What memory holds\<close>

text \<open>What \<open>sidt\<close> stores, and an entry of the table with arbitrary unnamed bits \<open>z\<close>.\<close>

definition sidt_bytes :: "dtr \<Rightarrow> u8 list" where
  "sidt_bytes d = bytes16 (dtr_limit d) @ bytes64 (dtr_base d)"

definition attr_bits :: "idt_entry \<Rightarrow> u16 \<Rightarrow> u16" where
  "attr_bits e z = ucast (ie_ist e) OR push_bit 8 (ucast (ie_type e)) OR push_bit 13 (ucast (ie_dpl e)) OR push_bit 15 (ucast (ie_p e)) OR (z AND 0x10F8)"

definition entry_bytes :: "idt_entry \<Rightarrow> u16 \<Rightarrow> u8 list" where
  "entry_bytes e z = bytes16 (ie_offset0 e) @ bytes16 (ie_selector e) @ bytes16 (attr_bits e z) @ bytes16 (ie_offset1 e)
     @ bytes32 (ie_offset2 e) @ bytes32 (ie_reserved e)"

lemma unnamed: "(0x10F8 :: u16) = push_bit 3 (mask 5) OR push_bit 12 (mask 1)"
  by (simp add: mask_numeral)

lemma bit_unnamed: "bit (0x10F8 :: u16) n \<longleftrightarrow> 3 \<le> n \<and> n < 8 \<or> n = 12"
  unfolding unnamed bit_or_iff bit_push_bit_iff bit_mask_iff by auto

lemma attr_fields:
  "(ucast (attr_bits e z) :: 3 word) = ie_ist e" "(ucast (drop_bit 8 (attr_bits e z)) :: 4 word) = ie_type e"
  "(ucast (drop_bit 13 (attr_bits e z)) :: 2 word) = ie_dpl e" "(ucast (drop_bit 15 (attr_bits e z)) :: 1 word) = ie_p e"
proof -
  define u where "u = (0x10F8 :: u16)"
  have b: "bit u n \<longleftrightarrow> 3 \<le> n \<and> n < 8 \<or> n = 12" for n using bit_unnamed by (simp add: u_def)
  have n3: "\<not> bit (ie_ist e) (8 + n)" "\<not> bit (ie_ist e) (13 + n)" "\<not> bit (ie_ist e) (15 + n)" for n
    by (simp_all add: impossible_bit)
  have n4: "\<not> bit (ie_type e) (5 + n)" "\<not> bit (ie_type e) (7 + n)" and n2: "\<not> bit (ie_dpl e) (2 + n)" for n
    by (simp_all add: impossible_bit)
  show "(ucast (attr_bits e z) :: 3 word) = ie_ist e" "(ucast (drop_bit 8 (attr_bits e z)) :: 4 word) = ie_type e"
    "(ucast (drop_bit 13 (attr_bits e z)) :: 2 word) = ie_dpl e" "(ucast (drop_bit 15 (attr_bits e z)) :: 1 word) = ie_p e"
    unfolding attr_bits_def u_def[symmetric]
    by (rule bit_word_eqI; auto simp: b bit_simps bit_ucast_iff n3 n4 n2 n3(3)[of 0, simplified] n4(2)[of 0, simplified] n2[of 0, simplified])+
qed

lemma idt_entry_at_bytes:
  assumes "bytes_at m a (entry_bytes e z)"
  shows "idt_entry_at m a = e"
proof -
  have "mem16 m a = ie_offset0 e" "mem16 m (a + 2) = ie_selector e" "mem16 m (a + 4) = attr_bits e z" "mem16 m (a + 6) = ie_offset1 e"
    "mem32 m (a + 8) = ie_offset2 e" "mem32 m (a + 12) = ie_reserved e"
    using assms by (auto simp: entry_bytes_def bytes_at_append add.assoc intro!: mem16_bytes mem32_bytes)
  then show ?thesis by (simp add: idt_entry_at_def attr_fields)
qed

text \<open>
  Reading the table byte by byte is the same as reading it as entries: with the ten bytes of the register in the buffer and the 16 bytes of each of the 256 entries in memory, whatever the unnamed bits are, the module prints the
  base address and the lines that \<open>print_idt_entries\<close> of the interposer prints.\<close>

theorem read_idt_entries_eq:
  assumes "bytes_at m idtr (sidt_bytes d)" and "\<forall>i < 256. bytes_at m (dtr_base d + 16 * of_nat i) (entry_bytes (t ! i) (z i))"
  shows "read_idt_entries m idtr = (dtr_base d, print_idt_entries t)"
proof -
  have b: "idtr_base m idtr = dtr_base d"
    using assms(1) by (auto simp: idtr_base_def sidt_bytes_def bytes_at_append intro!: mem64_bytes)
  have "idt_entry_at m (dtr_base d + 16 * of_nat i) = t ! i" if "i < 256" for i
    using assms(2) that idt_entry_at_bytes by blast
  then show ?thesis
    unfolding read_idt_entries_def b print_idt_entries_def idt_offset_def idt_type_attr_def Let_def by simp
qed

text \<open>A memory of zeros holds 256 empty entries and a register that points to them.\<close>

theorem read_idt_entries_eq_witness:
  "read_idt_entries (\<lambda>_. 0) 0x100 = (0, print_idt_entries (replicate 256 \<lparr>ie_offset0 = 0, ie_selector = 0, ie_ist = 0, ie_type = 0, ie_dpl = 0, ie_p = 0,
     ie_offset1 = 0, ie_offset2 = 0, ie_reserved = 0\<rparr>))"
proof -
  let ?e = "\<lparr>ie_offset0 = 0, ie_selector = 0, ie_ist = 0, ie_type = 0, ie_dpl = 0, ie_p = 0, ie_offset1 = 0, ie_offset2 = 0, ie_reserved = 0\<rparr>"
  have "bytes_at (\<lambda>_. 0) 0x100 (sidt_bytes \<lparr>dtr_limit = 0, dtr_base = 0\<rparr>)"
    by (simp add: sidt_bytes_def bytes16_def bytes64_def bytes32_def)
  moreover have "bytes_at (\<lambda>_. 0) a (entry_bytes ?e 0)" for a
    by (simp add: entry_bytes_def bytes16_def bytes32_def attr_bits_def)
  ultimately show ?thesis
    using read_idt_entries_eq[of "\<lambda>_. 0" "0x100" "\<lparr>dtr_limit = 0, dtr_base = 0\<rparr>" "replicate 256 ?e" "\<lambda>_. 0"] by simp
qed

end
