(* ===== verification/Idt_Adaptor.thy ===== *)
theory Idt_Adaptor
  imports Idt_Table
begin

text \<open>
  The kernel extensions of \<open>kcuttest\<close> that change the interrupt descriptor table: \<open>idtadaptor.kc\<close> (copying a table, activating it on all processors, giving it back),
  \<open>pfadaptor.kc\<close> (three fault handlers) and \<open>efadaptor.kc\<close> (a stack of its own and a stub for every vector).

  The state adds the variables of the extensions to the processors and tables of \<open>Idt_Table\<close>. A table that is not allocated, or was freed, has no entry in
  \<open>mc_tables\<close>, so that using it is a fault. Allocations are arguments, 0 when they fail; the addresses of the assembly routines are the records \<open>pf_fixes\<close> and \<open>ef_code\<close>.
\<close>

section \<open>State\<close>

record adaptor =
  ad_mach :: machine
  ad_orig_idt :: u64
  ad_current_idt :: u64
  ad_pf :: u64
  ad_df :: u64
  ad_gp :: u64
  ad_ist :: "u64 list"
  ad_orig_isrs :: "u64 list"
  ad_freed :: "u64 list"
  ad_df_location :: u64

abbreviation tables :: "adaptor \<Rightarrow> u64 \<Rightarrow> idt_entry list option" where
  "tables s \<equiv> mc_tables (ad_mach s)"

abbreviation cpus :: "adaptor \<Rightarrow> dtr list" where
  "cpus s \<equiv> mc_cpus (ad_mach s)"

definition set_table :: "u64 \<Rightarrow> idt_entry list option \<Rightarrow> adaptor \<Rightarrow> adaptor" where
  "set_table a t s = s\<lparr>ad_mach := (ad_mach s)\<lparr>mc_tables := (tables s)(a := t)\<rparr>\<rparr>"

lemma set_table_sel [simp]:
  "tables (set_table a t s) = (tables s)(a := t)" "cpus (set_table a t s) = cpus s"
  "ad_orig_idt (set_table a t s) = ad_orig_idt s" "ad_current_idt (set_table a t s) = ad_current_idt s"
  "ad_pf (set_table a t s) = ad_pf s" "ad_df (set_table a t s) = ad_df s" "ad_gp (set_table a t s) = ad_gp s"
  "ad_ist (set_table a t s) = ad_ist s" "ad_orig_isrs (set_table a t s) = ad_orig_isrs s" "ad_freed (set_table a t s) = ad_freed s"
  "ad_df_location (set_table a t s) = ad_df_location s"
  by (simp_all add: set_table_def)

section \<open>Copying, activating, giving back\<close>

text \<open>The entries at an address, as the code uses them: a page that holds 256 of them.\<close>

definition idt_at :: "u64 \<Rightarrow> adaptor \<Rightarrow> (idt_entry list) res" where
  "idt_at a s = (case tables s a of None \<Rightarrow> Inl (if a = 0 then Null_deref else Use_after_free)
     | Some t \<Rightarrow> if length t < 256 then Inl Out_of_bounds else Inr (take 256 t))"

definition idt_adaptor_clone :: "nat \<Rightarrow> u64 \<Rightarrow> adaptor \<Rightarrow> (u64 \<times> adaptor) res" where
  "idt_adaptor_clone cpu page s =
     (if page = 0 then Inr (0, s)
      else let s = (if ad_current_idt s \<noteq> 0 then s
                    else s\<lparr>ad_orig_idt := if ad_orig_idt s = 0 then dtr_base (cpus s ! cpu) else ad_orig_idt s\<rparr>);
               src_idt = (if ad_current_idt s \<noteq> 0 then ad_current_idt s else ad_orig_idt s)
           in rbind (idt_at src_idt s) (\<lambda>t. Inr (page, set_table page (Some t) s)))"

definition idt_adaptor_release :: "u64 \<Rightarrow> adaptor \<Rightarrow> adaptor" where
  "idt_adaptor_release idt s = (if idt = 0 then s else set_table idt None s)"

definition idt_adaptor_activate :: "u64 \<Rightarrow> adaptor \<Rightarrow> adaptor" where
  "idt_adaptor_activate idt s =
     (let idtr = \<lparr>dtr_limit = of_nat (IDT_ENTRY_SIZE * 256 - 1), dtr_base = idt\<rparr>;
          s = s\<lparr>ad_mach := on_each_cpu (load_idt_on_cpu idtr) (ad_mach s)\<rparr>;
          s = (if ad_current_idt s \<noteq> 0 then set_table (ad_current_idt s) None s else s)
      in s\<lparr>ad_current_idt := idt\<rparr>)"

section \<open>The page fault adaptor\<close>

record pf_fixes =
  fx_u :: u64
  fx_uw :: u64
  fx_gp :: u64

datatype gate_fix = Unexpected | Kept | Fixed

definition fix_gate :: "nat \<Rightarrow> u64 \<Rightarrow> u64 \<Rightarrow> u64 \<Rightarrow> adaptor \<Rightarrow> (gate_fix \<times> adaptor) res" where
  "fix_gate vec orig fx idt s =
     rbind (idt_at idt s) (\<lambda>t. rbind (read_gate t vec) (\<lambda>gate.
     let val = idt_offset gate
     in if val \<noteq> orig then Inr (if val \<noteq> fx then Unexpected else Kept, s)
        else Inr (Fixed, set_table idt (Some (t[vec := gate_set_offset gate fx])) s)))"

text \<open>The three gates in turn; \<open>None\<close> is the jump to \<open>error\<close>, otherwise whether the table was changed.\<close>

definition pf_fix_gates :: "pf_fixes \<Rightarrow> u64 \<Rightarrow> u64 \<Rightarrow> u64 \<Rightarrow> u64 \<Rightarrow> adaptor \<Rightarrow> (bool option \<times> adaptor) res" where
  "pf_fix_gates H pf df gp idt s =
     rbind (fix_gate 14 pf (fx_u H) idt (s\<lparr>ad_pf := if ad_pf s = 0 then pf else ad_pf s\<rparr>)) (\<lambda>(r1, s).
     if r1 = Unexpected then Inr (None, s) else
     rbind (fix_gate 8 df (fx_uw H) idt (s\<lparr>ad_df := if ad_df s = 0 then df else ad_df s\<rparr>)) (\<lambda>(r2, s).
     if r2 = Unexpected then Inr (None, s) else
     rbind (fix_gate 13 gp (fx_gp H) idt (s\<lparr>ad_gp := if ad_gp s = 0 then gp else ad_gp s\<rparr>)) (\<lambda>(r3, s).
     if r3 = Unexpected then Inr (None, s) else Inr (Some (Fixed \<in> {r1, r2, r3}), s))))"

text \<open>\<open>print_idt_entries\<close> reads the table of the processor it runs on.\<close>

definition local_idt :: "nat \<Rightarrow> adaptor \<Rightarrow> (idt_entry list) res" where
  "local_idt cpu s = idt_at (dtr_base (cpus s ! cpu)) s"

definition pf_adaptor_init :: "pf_fixes \<Rightarrow> nat \<Rightarrow> u64 \<Rightarrow> u64 \<Rightarrow> u64 \<Rightarrow> u64 \<Rightarrow> adaptor \<Rightarrow> (int \<times> adaptor) res" where
  "pf_adaptor_init H cpu page pf df gp s =
     rbind (local_idt cpu s) (\<lambda>_.
     rbind (idt_adaptor_clone cpu page s) (\<lambda>(idt, s).
     rbind (pf_fix_gates H pf df gp idt s) (\<lambda>(r, s).
     case r of
       None \<Rightarrow> Inr (0, idt_adaptor_release idt s)
     | Some dirty \<Rightarrow>
         let s = (if dirty then idt_adaptor_activate idt s else idt_adaptor_release idt s)
         in rbind (local_idt cpu s) (\<lambda>_. Inr (1, s)))))"

definition set_local_df_handler_location :: "nat \<Rightarrow> adaptor \<Rightarrow> adaptor res" where
  "set_local_df_handler_location cpu s =
     rbind (local_idt cpu s) (\<lambda>t. rbind (read_gate t 8) (\<lambda>e. Inr (s\<lparr>ad_df_location := idt_offset e\<rparr>)))"

section \<open>The exception frame adaptor\<close>

record ef_code =
  ef_isrs :: u64
  ef_isr_len :: u64
  ef_tsthdlr :: u64

definition PAGE_BYTES :: u64 where "PAGE_BYTES = 0x1000"

text \<open>The IST slot of one processor; \<open>page\<close> is what \<open>__get_free_pages\<close> answers there.\<close>

definition ef_adaptor_setup_tss :: "(nat \<Rightarrow> u64) \<Rightarrow> nat \<Rightarrow> int \<times> adaptor \<Rightarrow> int \<times> adaptor" where
  "ef_adaptor_setup_tss page cpu = (\<lambda>(rc, s).
     if ad_ist s ! cpu = 0
     then if page cpu = 0 then (or rc (- ENOMEM), s)
          else (rc, s\<lparr>ad_ist := (ad_ist s)[cpu := page cpu + PAGE_BYTES]\<rparr>)
     else (rc, s))"

text \<open>The slot is cleared before its value is used to free the page.\<close>

definition ef_adaptor_cleanup_tss :: "nat \<Rightarrow> adaptor \<Rightarrow> adaptor" where
  "ef_adaptor_cleanup_tss cpu s =
     (if ad_ist s ! cpu \<noteq> 0
      then let s = s\<lparr>ad_ist := (ad_ist s)[cpu := 0]\<rparr>
           in s\<lparr>ad_freed := ad_freed s @ [ad_ist s ! cpu - PAGE_BYTES]\<rparr>
      else s)"

text \<open>With the test handler asked for, a present gate is first made one that leads to it.\<close>

definition ef_gate :: "ef_code \<Rightarrow> bool \<Rightarrow> idt_entry \<Rightarrow> idt_entry" where
  "ef_gate E tsthdlr gate = (if ie_p gate \<noteq> 0 \<and> tsthdlr
     then gate_set_offset (gate\<lparr>ie_selector := 0x10, ie_type := 0xE, ie_ist := 0, ie_dpl := 3, ie_p := 1\<rparr>) (ef_tsthdlr E)
     else gate)"

definition process_vec :: "ef_code \<Rightarrow> u64 \<Rightarrow> bool \<Rightarrow> nat \<Rightarrow> adaptor \<Rightarrow> (int \<times> adaptor) res" where
  "process_vec E idt tsthdlr vec s =
     rbind (idt_at idt s) (\<lambda>t. rbind (read_gate t vec) (\<lambda>gate.
     let gate = ef_gate E tsthdlr gate;
         hdlr = idt_offset gate
     in if ie_ist gate \<noteq> 0 then Inr (0, s)
        else let gate = gate\<lparr>ie_ist := 7\<rparr>;
                 savedhdlr = ad_orig_isrs s ! vec;
                 s = (if savedhdlr = 0 then s\<lparr>ad_orig_isrs := (ad_orig_isrs s)[vec := hdlr]\<rparr> else s)
             in if savedhdlr \<noteq> 0 \<and> savedhdlr \<noteq> hdlr then Inr (- 1, s)
                else Inr (1, set_table idt (Some (t[vec := gate_set_offset gate (ef_isrs E + ef_isr_len E * of_nat vec)])) s)))"

text \<open>The vectors in order; \<open>None\<close> is the jump to \<open>error\<close>.\<close>

primrec process_vecs :: "ef_code \<Rightarrow> u64 \<Rightarrow> bool \<Rightarrow> nat list \<Rightarrow> int \<Rightarrow> adaptor \<Rightarrow> (int option \<times> adaptor) res" where
  "process_vecs E idt tst [] dirty s = Inr (Some dirty, s)"
| "process_vecs E idt tst (vec # vecs) dirty s =
     rbind (process_vec E idt tst vec s) (\<lambda>(rc, s).
     if rc < 0 then Inr (None, s) else process_vecs E idt tst vecs (dirty + rc) s)"

definition ef_range :: "int \<Rightarrow> int \<Rightarrow> nat list" where
  "ef_range vstart vend = (if vstart \<ge> 0 \<and> vend > vstart then map nat [vstart..vend] else [])"

definition ef_error :: "u64 \<Rightarrow> adaptor \<Rightarrow> int \<times> adaptor" where
  "ef_error idt s =
     (let s = foldl (\<lambda>s cpu. ef_adaptor_cleanup_tss cpu s) s [0..<length (cpus s)]
      in (- EINVAL, idt_adaptor_release idt s))"

definition ef_adaptor_init :: "ef_code \<Rightarrow> (nat \<Rightarrow> u64) \<Rightarrow> nat \<Rightarrow> u64 \<Rightarrow> nat list \<Rightarrow> int \<Rightarrow> int \<Rightarrow> bool \<Rightarrow> adaptor \<Rightarrow> (int \<times> adaptor) res" where
  "ef_adaptor_init E stacks cpu page vecs vstart vend tst s =
     (let (rc, s) = foldl (\<lambda>rs c. ef_adaptor_setup_tss stacks c rs) (0, s) [0..<length (cpus s)]
      in if rc < 0 then Inr (ef_error 0 s)
         else rbind (idt_adaptor_clone cpu page s) (\<lambda>(idt, s).
              rbind (process_vecs E idt tst (vecs @ ef_range vstart vend) 0 s) (\<lambda>(r, s).
              case r of
                None \<Rightarrow> Inr (ef_error idt s)
              | Some dirty \<Rightarrow>
                  Inr (dirty, if dirty \<noteq> 0 then idt_adaptor_activate idt s else idt_adaptor_release idt s))))"

text \<open>\<open>extension_init\<close> as built: all 256 vectors, no test handler.\<close>

definition extension_init :: "ef_code \<Rightarrow> (nat \<Rightarrow> u64) \<Rightarrow> nat \<Rightarrow> u64 \<Rightarrow> adaptor \<Rightarrow> (int \<times> adaptor) res" where
  "extension_init E stacks cpu page s =
     rbind (set_local_df_handler_location cpu s) (\<lambda>s.
     rbind (ef_adaptor_init E stacks cpu page [] 0 255 False s) (\<lambda>(ret, s).
     Inr (if ret > 0 then 0 else ret, s)))"

section \<open>The table in use\<close>

text \<open>
  All processors use the table \<open>t\<close> at the address \<open>b\<close>; it is the one the extensions remember, or the one the machine came with.
\<close>

definition in_use :: "adaptor \<Rightarrow> u64 \<Rightarrow> idt_entry list \<Rightarrow> bool" where
  "in_use s b t \<longleftrightarrow> cpus s \<noteq> [] \<and> (\<forall>c < length (cpus s). dtr_base (cpus s ! c) = b) \<and> b \<noteq> 0 \<and> tables s b = Some t \<and> length t = 256
     \<and> (if ad_current_idt s \<noteq> 0 then ad_current_idt s = b else ad_orig_idt s = 0 \<or> ad_orig_idt s = b)"

lemma idt_at_Some: "tables s a = Some t \<Longrightarrow> length t = 256 \<Longrightarrow> idt_at a s = Inr t"
  by (simp add: idt_at_def)

lemma local_idt_in_use: "in_use s b t \<Longrightarrow> cpu < length (cpus s) \<Longrightarrow> local_idt cpu s = Inr t"
  by (simp add: local_idt_def in_use_def idt_at_Some)

text \<open>What one round of copying and editing leaves alone.\<close>

definition same_but :: "u64 \<Rightarrow> adaptor \<Rightarrow> adaptor \<Rightarrow> bool" where
  "same_but a s s' \<longleftrightarrow> cpus s' = cpus s \<and> ad_current_idt s' = ad_current_idt s \<and> ad_orig_idt s' = ad_orig_idt s
     \<and> (\<forall>x. x \<noteq> a \<longrightarrow> tables s' x = tables s x)"

lemma same_but_trans: "same_but a s s1 \<Longrightarrow> same_but a s1 s2 \<Longrightarrow> same_but a s s2"
  by (simp add: same_but_def)

lemma clone_in_use:
  assumes "in_use s b t" and "cpu < length (cpus s)" and "page \<noteq> 0" and "tables s page = None"
  shows "\<exists>s1. idt_adaptor_clone cpu page s = Inr (page, s1) \<and> in_use s1 b t \<and> tables s1 = (tables s)(page := Some t) \<and> cpus s1 = cpus s
    \<and> ad_current_idt s1 = ad_current_idt s \<and> ad_orig_isrs s1 = ad_orig_isrs s \<and> ad_ist s1 = ad_ist s
    \<and> ad_pf s1 = ad_pf s \<and> ad_df s1 = ad_df s \<and> ad_gp s1 = ad_gp s \<and> ad_df_location s1 = ad_df_location s"
proof -
  have b: "b \<noteq> page" using assms(1,4) by (auto simp: in_use_def)
  have u: "idt_at b s = Inr t" using assms(1) by (simp add: in_use_def idt_at_Some)
  show ?thesis
  proof (cases "ad_current_idt s = 0")
    case True
    then have o: "(if ad_orig_idt s = 0 then dtr_base (cpus s ! cpu) else ad_orig_idt s) = b"
      using assms(1,2) by (auto simp: in_use_def)
    have "idt_at b (s\<lparr>ad_orig_idt := b\<rparr>) = Inr t" using u by (simp add: idt_at_def)
    then show ?thesis
      using assms(1,3) True b by (simp add: idt_adaptor_clone_def o in_use_def)
  next
    case False
    then have c: "ad_current_idt s = b" using assms(1) by (simp add: in_use_def)
    then show ?thesis using assms(1,3) False b u by (simp add: idt_adaptor_clone_def in_use_def)
  qed
qed

lemma release_in_use:
  assumes "in_use s b t" and "a \<noteq> b" and "same_but a s s'"
  shows "in_use (idt_adaptor_release a s') b t"
  using assms by (auto simp: in_use_def idt_adaptor_release_def same_but_def split: if_splits)

lemma activate_tables:
  "tables (idt_adaptor_activate a s) = (if ad_current_idt s \<noteq> 0 then (tables s)(ad_current_idt s := None) else tables s)"
  "cpus (idt_adaptor_activate a s) = replicate (length (cpus s)) (new_dtr a)"
  "ad_current_idt (idt_adaptor_activate a s) = a" "ad_orig_idt (idt_adaptor_activate a s) = ad_orig_idt s"
  "ad_orig_isrs (idt_adaptor_activate a s) = ad_orig_isrs s" "ad_ist (idt_adaptor_activate a s) = ad_ist s"
  "ad_pf (idt_adaptor_activate a s) = ad_pf s" "ad_df (idt_adaptor_activate a s) = ad_df s" "ad_gp (idt_adaptor_activate a s) = ad_gp s"
  "ad_df_location (idt_adaptor_activate a s) = ad_df_location s"
  by (simp_all add: idt_adaptor_activate_def Let_def on_each_cpu_load new_dtr_def IDT_ENTRY_SIZE_def)

text \<open>Activating: the page that is freed is one that no processor uses any more.\<close>

lemma activate_in_use:
  assumes "in_use s b t" and "a \<noteq> b" and "a \<noteq> 0" and "same_but a s s'" and "tables s' a = Some t'" and "length t' = 256"
  shows "in_use (idt_adaptor_activate a s') a t'"
  using assms by (auto simp: in_use_def activate_tables same_but_def new_dtr_def split: if_splits)

section \<open>Rounds of copying and editing\<close>

text \<open>
  The contract of the part between copying and activating. It works on the copy only, it never faults on a copy with 256 entries, and it either gives up or leaves the table that
  \<open>spec\<close> describes, having changed it when it says so.
\<close>

locale idt_edit =
  fixes edit :: "u64 \<Rightarrow> adaptor \<Rightarrow> ('r \<times> adaptor) res" and ok :: "'r \<Rightarrow> bool" and changed :: "'r \<Rightarrow> bool"
    and spec :: "adaptor \<Rightarrow> idt_entry list \<Rightarrow> idt_entry list option"
  assumes edits: "tables s a = Some t \<Longrightarrow> length t = 256 \<Longrightarrow> \<exists>r s' t'. edit a s = Inr (r, s') \<and> same_but a s s' \<and> tables s' a = Some t' \<and> length t' = 256
    \<and> (case spec s t of None \<Rightarrow> \<not> ok r | Some u \<Rightarrow> ok r \<and> t' = u \<and> (changed r \<or> u = t))"
begin

lemma round_in_use:
  assumes "in_use s b t" and "tables s a = Some t" and "a \<noteq> b" and "a \<noteq> 0"
  shows "\<exists>r s'. edit a s = Inr (r, s') \<and> same_but a s s' \<and> (ok r \<longleftrightarrow> spec s t \<noteq> None)
    \<and> (\<not> ok r \<longrightarrow> in_use (idt_adaptor_release a s') b t)
    \<and> (ok r \<and> changed r \<longrightarrow> in_use (idt_adaptor_activate a s') a (the (spec s t)))
    \<and> (ok r \<and> \<not> changed r \<longrightarrow> in_use (idt_adaptor_release a s') b (the (spec s t)) \<and> the (spec s t) = t)"
proof -
  have "length t = 256" using assms(1) by (simp add: in_use_def)
  then obtain r s' t' where e: "edit a s = Inr (r, s')" "same_but a s s'" "tables s' a = Some t'" "length t' = 256"
    and sp: "case spec s t of None \<Rightarrow> \<not> ok r | Some u \<Rightarrow> ok r \<and> t' = u \<and> (changed r \<or> u = t)"
    using edits[OF assms(2)] by blast
  have rel: "in_use (idt_adaptor_release a s') b t" using release_in_use[OF assms(1,3) e(2)] .
  have act: "in_use (idt_adaptor_activate a s') a t'" using activate_in_use[OF assms(1,3,4) e(2-4)] .
  show ?thesis using e(1,2) sp rel act by (intro exI[of _ r] exI[of _ s']) (auto split: option.splits)
qed

end

section \<open>The page fault adaptor's round\<close>

lemma gate_set_offset_same: "gate_set_offset e (idt_offset e) = e"
proof -
  have "\<not> bit (w :: u16) (16 + n)" "\<not> bit (w :: u16) (32 + n)" for w n by (simp_all add: impossible_bit)
  then have "(ucast (idt_offset e) :: u16) = ie_offset0 e" and "(ucast (drop_bit 16 (idt_offset e)) :: u16) = ie_offset1 e"
    and "(ucast (drop_bit 32 (idt_offset e)) :: u32) = ie_offset2 e"
    by (auto intro!: bit_word_eqI simp: idt_offset_def bit_simps bit_ucast_iff)
  then show ?thesis by (simp add: gate_set_offset_def)
qed

definition expected :: "u64 \<Rightarrow> u64 \<Rightarrow> idt_entry \<Rightarrow> bool" where
  "expected orig fx e \<longleftrightarrow> idt_offset e = orig \<or> idt_offset e = fx"

definition pf_spec :: "pf_fixes \<Rightarrow> u64 \<Rightarrow> u64 \<Rightarrow> u64 \<Rightarrow> idt_entry list \<Rightarrow> idt_entry list option" where
  "pf_spec H pf df gp t =
     (if expected pf (fx_u H) (t ! 14) \<and> expected df (fx_uw H) (t ! 8) \<and> expected gp (fx_gp H) (t ! 13)
      then Some (t[14 := gate_set_offset (t ! 14) (fx_u H), 8 := gate_set_offset (t ! 8) (fx_uw H), 13 := gate_set_offset (t ! 13) (fx_gp H)])
      else None)"

lemma fix_gate_eq:
  assumes "tables s a = Some t" and "length t = 256" and "vec < 256"
  shows "\<exists>r s'. fix_gate vec orig fx a s = Inr (r, s') \<and> same_but a s s' \<and> tables s' a = Some (if r = Unexpected then t else t[vec := gate_set_offset (t ! vec) fx])
    \<and> (r = Unexpected \<longleftrightarrow> \<not> expected orig fx (t ! vec)) \<and> (r = Kept \<longrightarrow> t[vec := gate_set_offset (t ! vec) fx] = t)
    \<and> ad_orig_isrs s' = ad_orig_isrs s \<and> ad_pf s' = ad_pf s \<and> ad_df s' = ad_df s \<and> ad_gp s' = ad_gp s"
proof -
  have k: "t[vec := gate_set_offset (t ! vec) fx] = t" if "idt_offset (t ! vec) = fx"
    using that gate_set_offset_same[of "t ! vec"] by simp
  have r: "idt_at a s = Inr t" "read_gate t vec = Inr (t ! vec)" using assms by (simp_all add: idt_at_Some read_gate_def)
  show ?thesis using r k assms(1) by (auto simp: fix_gate_def Let_def same_but_def expected_def)
qed

lemma same_but_pf [simp]:
  "same_but a s (s\<lparr>ad_pf := x\<rparr>)" "same_but a s (s\<lparr>ad_df := x\<rparr>)" "same_but a s (s\<lparr>ad_gp := x\<rparr>)"
  by (simp_all add: same_but_def)

lemma pf_fix_gates_edits:
  assumes "tables s a = Some t" and "length t = 256"
  shows "\<exists>r s' t'. pf_fix_gates H pf df gp a s = Inr (r, s') \<and> same_but a s s' \<and> tables s' a = Some t' \<and> length t' = 256
    \<and> (case pf_spec H pf df gp t of None \<Rightarrow> \<not> r \<noteq> None | Some u \<Rightarrow> r \<noteq> None \<and> t' = u \<and> (r = Some True \<or> u = t))"
proof -
  let ?g = "\<lambda>v fx. gate_set_offset (t ! v) fx"
  let ?s0 = "s\<lparr>ad_pf := if ad_pf s = 0 then pf else ad_pf s\<rparr>"
  have "tables ?s0 a = Some t" using assms(1) by simp
  then obtain r1 s1 where 1: "fix_gate 14 pf (fx_u H) a ?s0 = Inr (r1, s1)" "same_but a ?s0 s1"
      "tables s1 a = Some (if r1 = Unexpected then t else t[14 := ?g 14 (fx_u H)])"
      "r1 = Unexpected \<longleftrightarrow> \<not> expected pf (fx_u H) (t ! 14)" "r1 = Kept \<Longrightarrow> t[14 := ?g 14 (fx_u H)] = t"
    using fix_gate_eq[of ?s0 a t 14 pf "fx_u H"] assms(2) by auto
  have b1: "same_but a s s1" using same_but_trans[OF same_but_pf(1) 1(2)] .
  show ?thesis
  proof (cases "r1 = Unexpected")
    case True
    then show ?thesis using 1 b1 assms(2) by (simp add: pf_fix_gates_def pf_spec_def)
  next
    case u1: False
    let ?t1 = "t[14 := ?g 14 (fx_u H)]" and ?s1 = "s1\<lparr>ad_df := if ad_df s1 = 0 then df else ad_df s1\<rparr>"
    have "tables ?s1 a = Some ?t1" using 1(3) u1 by simp
    then obtain r2 s2 where 2: "fix_gate 8 df (fx_uw H) a ?s1 = Inr (r2, s2)" "same_but a ?s1 s2"
        "tables s2 a = Some (if r2 = Unexpected then ?t1 else ?t1[8 := ?g 8 (fx_uw H)])"
        "r2 = Unexpected \<longleftrightarrow> \<not> expected df (fx_uw H) (t ! 8)" "r2 = Kept \<Longrightarrow> ?t1[8 := ?g 8 (fx_uw H)] = ?t1"
      using fix_gate_eq[of ?s1 a ?t1 8 df "fx_uw H"] assms(2) by auto
    have b2: "same_but a s s2" using same_but_trans[OF b1 same_but_trans[OF same_but_pf(2) 2(2)]] .
    show ?thesis
    proof (cases "r2 = Unexpected")
      case True
      then show ?thesis using 1(1,4) 2 u1 b2 assms(2) by (simp add: pf_fix_gates_def pf_spec_def)
    next
      case u2: False
      let ?t2 = "?t1[8 := ?g 8 (fx_uw H)]" and ?s2 = "s2\<lparr>ad_gp := if ad_gp s2 = 0 then gp else ad_gp s2\<rparr>"
      have "tables ?s2 a = Some ?t2" using 2(3) u2 by simp
      then obtain r3 s3 where 3: "fix_gate 13 gp (fx_gp H) a ?s2 = Inr (r3, s3)" "same_but a ?s2 s3"
          "tables s3 a = Some (if r3 = Unexpected then ?t2 else ?t2[13 := ?g 13 (fx_gp H)])"
          "r3 = Unexpected \<longleftrightarrow> \<not> expected gp (fx_gp H) (t ! 13)" "r3 = Kept \<Longrightarrow> ?t2[13 := ?g 13 (fx_gp H)] = ?t2"
        using fix_gate_eq[of ?s2 a ?t2 13 gp "fx_gp H"] assms(2) by auto
      have b3: "same_but a s s3" using same_but_trans[OF b2 same_but_trans[OF same_but_pf(3) 3(2)]] .
      have k: "?t2[13 := ?g 13 (fx_gp H)] = t" if "Fixed \<notin> {r1, r2, r3}" "r3 \<noteq> Unexpected"
        using that u1 u2 1(5) 2(5) 3(5) by (metis (full_types) gate_fix.exhaust insertCI)
      show ?thesis
        using 1(1,4) 2(1,4) 3 u1 u2 b3 assms(2) k by (simp add: pf_fix_gates_def pf_spec_def) blast
    qed
  qed
qed

interpretation pfa: idt_edit "pf_fix_gates H pf df gp" "\<lambda>r. r \<noteq> None" "\<lambda>r. r = Some True" "\<lambda>_. pf_spec H pf df gp" for H pf df gp
  by (unfold_locales) (rule pf_fix_gates_edits)

lemma fix_gate_frame:
  "fix_gate v orig fx a s = Inr (r, s') \<Longrightarrow> ad_pf s' = ad_pf s \<and> ad_df s' = ad_df s \<and> ad_gp s' = ad_gp s"
  by (auto simp: fix_gate_def Let_def rbind_eq_Inr split: if_splits)

text \<open>The original handlers are remembered the first time only.\<close>

lemma pf_fix_gates_saved:
  assumes "pf_fix_gates H pf df gp a s = Inr (Some d, s')"
  shows "ad_pf s' = (if ad_pf s = 0 then pf else ad_pf s) \<and> ad_df s' = (if ad_df s = 0 then df else ad_df s) \<and> ad_gp s' = (if ad_gp s = 0 then gp else ad_gp s)"
proof -
  obtain r1 s1 r2 s2 r3 where "fix_gate 14 pf (fx_u H) a (s\<lparr>ad_pf := if ad_pf s = 0 then pf else ad_pf s\<rparr>) = Inr (r1, s1)"
    and "fix_gate 8 df (fx_uw H) a (s1\<lparr>ad_df := if ad_df s1 = 0 then df else ad_df s1\<rparr>) = Inr (r2, s2)"
    and "fix_gate 13 gp (fx_gp H) a (s2\<lparr>ad_gp := if ad_gp s2 = 0 then gp else ad_gp s2\<rparr>) = Inr (r3, s')"
    using assms unfolding pf_fix_gates_def rbind_eq_Inr by (fastforce split: if_splits simp: rbind_eq_Inr)
  from this[THEN fix_gate_frame] show ?thesis by simp
qed

lemma gate_offset_set: "idt_offset (gate_set_offset e a) = a" "gate_set_offset (gate_set_offset e a) a = gate_set_offset e a"
proof -
  show 1: "idt_offset (gate_set_offset e a) = a" by (simp add: gate_set_offset_eq idt_offset_set)
  show "gate_set_offset (gate_set_offset e a) a = gate_set_offset e a"
    using gate_set_offset_same[of "gate_set_offset e a"] by (simp add: 1)
qed

lemma pf_spec_again:
  assumes "length t = 256" and "pf_spec H pf df gp t = Some u"
  shows "pf_spec H pf df gp u = Some u" and "length u = 256"
proof -
  have u: "u = t[14 := gate_set_offset (t ! 14) (fx_u H), 8 := gate_set_offset (t ! 8) (fx_uw H), 13 := gate_set_offset (t ! 13) (fx_gp H)]"
    using assms(2) by (simp add: pf_spec_def split: if_splits)
  have n: "u ! 14 = gate_set_offset (t ! 14) (fx_u H)" "u ! 8 = gate_set_offset (t ! 8) (fx_uw H)" "u ! 13 = gate_set_offset (t ! 13) (fx_gp H)"
    using assms(1) by (simp_all add: u)
  show "length u = 256" using assms(1) by (simp add: u)
  have "u[14 := u ! 14, 8 := u ! 8, 13 := u ! 13] = u" by simp
  then show "pf_spec H pf df gp u = Some u" by (simp add: pf_spec_def expected_def n gate_offset_set)
qed

lemma release_page:
  assumes "same_but a s1 s2" and "tables s1 = (tables s)(a := x)" and "tables s a = None" and "a \<noteq> 0"
  shows "tables (idt_adaptor_release a s2) = tables s"
  using assms by (auto simp: idt_adaptor_release_def same_but_def fun_eq_iff)

text \<open>The processor's own table can always be printed.\<close>

lemma pf_adaptor_init_cases:
  assumes "in_use s b t" and "cpu < length (cpus s)" and "page \<noteq> 0" and "tables s page = None"
  shows "\<exists>s' b'. (case pf_spec H pf df gp t of
      None \<Rightarrow> pf_adaptor_init H cpu page pf df gp s = Inr (0, s') \<and> in_use s' b t \<and> tables s' = tables s
    | Some t' \<Rightarrow> pf_adaptor_init H cpu page pf df gp s = Inr (1, s') \<and> in_use s' b' t' \<and> length (cpus s') = length (cpus s)
        \<and> (if t' = t \<and> b' = b then tables s' = tables s else b' = page \<and> (ad_current_idt s \<noteq> 0 \<longrightarrow> tables s' b = None))
        \<and> ad_pf s' = (if ad_pf s = 0 then pf else ad_pf s) \<and> ad_df s' = (if ad_df s = 0 then df else ad_df s) \<and> ad_gp s' = (if ad_gp s = 0 then gp else ad_gp s))"
proof -
  obtain s1 where c: "idt_adaptor_clone cpu page s = Inr (page, s1)" "in_use s1 b t" "tables s1 = (tables s)(page := Some t)"
      "cpus s1 = cpus s" "ad_current_idt s1 = ad_current_idt s" "ad_pf s1 = ad_pf s" "ad_df s1 = ad_df s" "ad_gp s1 = ad_gp s"
    using clone_in_use[OF assms] by blast
  have b: "page \<noteq> b" using assms(1,4) by (auto simp: in_use_def)
  obtain r s2 where e: "pf_fix_gates H pf df gp page s1 = Inr (r, s2)" "same_but page s1 s2" "(r \<noteq> None) \<longleftrightarrow> pf_spec H pf df gp t \<noteq> None"
      "r = None \<Longrightarrow> in_use (idt_adaptor_release page s2) b t"
      "r = Some True \<Longrightarrow> in_use (idt_adaptor_activate page s2) page (the (pf_spec H pf df gp t))"
      "r = Some False \<Longrightarrow> in_use (idt_adaptor_release page s2) b (the (pf_spec H pf df gp t)) \<and> the (pf_spec H pf df gp t) = t"
    using pfa.round_in_use[OF c(2) _ b assms(3), of H pf df gp] c(3) by auto
  note l = local_idt_in_use[OF assms(1,2)] and rel = release_page[OF e(2) c(3) assms(4,3)]
  have cp: "cpus s2 = cpus s" "ad_current_idt s2 = ad_current_idt s" using e(2) c(4,5) by (simp_all add: same_but_def)
  have lr: "cpus (idt_adaptor_release page s2) = cpus s" "ad_pf (idt_adaptor_release page s2) = ad_pf s2"
    "ad_df (idt_adaptor_release page s2) = ad_df s2" "ad_gp (idt_adaptor_release page s2) = ad_gp s2"
    using cp by (simp_all add: idt_adaptor_release_def)
  consider "r = None" | "r = Some False" | "r = Some True" by (cases r) auto
  then show ?thesis
  proof cases
    case 1
    then show ?thesis using e l c(1) rel by (auto simp: pf_adaptor_init_def)
  next
    case 2
    note sv = pf_fix_gates_saved[OF e(1)[unfolded 2]]
    have i: "in_use (idt_adaptor_release page s2) b t" and sp: "pf_spec H pf df gp t = Some t" using e(3,6) 2 by auto
    then show ?thesis
      using e(1) l c rel local_idt_in_use[OF i] assms(2) 2 sv lr by (auto simp: pf_adaptor_init_def)
  next
    case 3
    note sv = pf_fix_gates_saved[OF e(1)[unfolded 3]]
    obtain u where sp: "pf_spec H pf df gp t = Some u" using e(3) 3 by auto
    then have i: "in_use (idt_adaptor_activate page s2) page u" using e(5) 3 by simp
    have "ad_current_idt s \<noteq> 0 \<longrightarrow> ad_current_idt s = b" using assms(1) by (simp add: in_use_def)
    then show ?thesis
      using e(1) l c local_idt_in_use[OF i] assms(2) 3 sv sp i b cp by (auto simp: pf_adaptor_init_def activate_tables)
  qed
qed

section \<open>The exception frame adaptor's round\<close>

definition stub :: "ef_code \<Rightarrow> nat \<Rightarrow> u64" where
  "stub E vec = ef_isrs E + ef_isr_len E * of_nat vec"

text \<open>The effect of a list of vectors on the table and on the remembered handlers.\<close>

primrec ef_spec :: "ef_code \<Rightarrow> bool \<Rightarrow> nat list \<Rightarrow> idt_entry list \<times> u64 list \<Rightarrow> (idt_entry list \<times> u64 list) option" where
  "ef_spec E tst [] ti = Some ti"
| "ef_spec E tst (v # vs) ti =
     (let e = ef_gate E tst (fst ti ! v); h = idt_offset e
      in if ie_ist e \<noteq> 0 then ef_spec E tst vs ti
         else if snd ti ! v \<noteq> 0 \<and> snd ti ! v \<noteq> h then None
         else ef_spec E tst vs ((fst ti)[v := gate_set_offset (e\<lparr>ie_ist := 7\<rparr>) (stub E v)], (snd ti)[v := h]))"

lemma process_vec_eq:
  assumes "tables s a = Some t" and "length t = 256" and "v < 256"
  shows "process_vec E a tst v s =
    (let e = ef_gate E tst (t ! v); h = idt_offset e; old = ad_orig_isrs s ! v
     in if ie_ist e \<noteq> 0 then Inr (0, s)
        else if old \<noteq> 0 \<and> old \<noteq> h then Inr (- 1, s)
        else Inr (1, set_table a (Some (t[v := gate_set_offset (e\<lparr>ie_ist := 7\<rparr>) (stub E v)])) (s\<lparr>ad_orig_isrs := (ad_orig_isrs s)[v := h]\<rparr>)))"
proof -
  have r: "idt_at a s = Inr t" "read_gate t v = Inr (t ! v)" using assms by (simp_all add: idt_at_Some read_gate_def)
  have i: "(ad_orig_isrs s)[v := h] = ad_orig_isrs s" if "ad_orig_isrs s ! v = h" for h using that by auto
  show ?thesis
    unfolding process_vec_def r rbind_Inr Let_def stub_def
    by (cases "ie_ist (ef_gate E tst (t ! v)) = 0"; cases "ad_orig_isrs s ! v = 0") (simp_all add: i)
qed

lemma process_vecs_edits:
  assumes "\<forall>v \<in> set vs. v < 256"
  shows "tables s a = Some t \<Longrightarrow> length t = 256 \<Longrightarrow> \<exists>r s' t'. process_vecs E a tst vs n s = Inr (r, s') \<and> same_but a s s' \<and> tables s' a = Some t' \<and> length t' = 256
    \<and> ad_ist s' = ad_ist s \<and> ad_freed s' = ad_freed s \<and> ad_df_location s' = ad_df_location s
    \<and> (case ef_spec E tst vs (t, ad_orig_isrs s) of None \<Rightarrow> r = None
       | Some (u, os) \<Rightarrow> t' = u \<and> ad_orig_isrs s' = os \<and> (\<exists>d. r = Some d \<and> n \<le> d \<and> (d = n \<longrightarrow> u = t)))"
  using assms
proof (induction vs arbitrary: s t n)
  case Nil
  then show ?case by (simp add: same_but_def)
next
  case (Cons v vs)
  let ?e = "ef_gate E tst (t ! v)" and ?o = "ad_orig_isrs s ! v"
  have eq: "process_vec E a tst v s = (if ie_ist ?e \<noteq> 0 then Inr (0, s) else if ?o \<noteq> 0 \<and> ?o \<noteq> idt_offset ?e then Inr (- 1, s)
      else Inr (1, set_table a (Some (t[v := gate_set_offset (?e\<lparr>ie_ist := 7\<rparr>) (stub E v)])) (s\<lparr>ad_orig_isrs := (ad_orig_isrs s)[v := idt_offset ?e]\<rparr>)))"
    using process_vec_eq[OF Cons.prems(1,2)] Cons.prems(3) by (simp add: Let_def)
  consider "ie_ist ?e \<noteq> 0" | "ie_ist ?e = 0" "?o \<noteq> 0 \<and> ?o \<noteq> idt_offset ?e" | "ie_ist ?e = 0" "\<not> (?o \<noteq> 0 \<and> ?o \<noteq> idt_offset ?e)" by blast
  then show ?case
  proof cases
    case 1
    then show ?thesis using Cons.IH[OF Cons.prems(1,2), of n] Cons.prems(3) eq by (simp add: Let_def)
  next
    case 2
    then show ?thesis using eq Cons.prems(1,2) by (simp add: Let_def same_but_def)
  next
    case 3
    let ?t = "t[v := gate_set_offset (?e\<lparr>ie_ist := 7\<rparr>) (stub E v)]"
    let ?s = "set_table a (Some ?t) (s\<lparr>ad_orig_isrs := (ad_orig_isrs s)[v := idt_offset ?e]\<rparr>)"
    have st: "tables ?s a = Some ?t" "length ?t = 256" using Cons.prems(2) by simp_all
    have b: "same_but a s s'" if "same_but a ?s s'" for s' using that by (simp add: same_but_def)
    have pv: "process_vec E a tst v s = Inr (1, ?s)"
      unfolding eq if_not_P[OF 3(2)] using 3(1) by simp
    then have p: "process_vecs E a tst (v # vs) n s = process_vecs E a tst vs (n + 1) ?s" by simp
    have sp: "ef_spec E tst (v # vs) (t, ad_orig_isrs s) = ef_spec E tst vs (?t, ad_orig_isrs ?s)"
      using 3 by (simp only: ef_spec.simps Let_def fst_conv snd_conv set_table_sel) simp
    have f: "ad_ist ?s = ad_ist s" "ad_freed ?s = ad_freed s" "ad_df_location ?s = ad_df_location s"
      by (simp_all add: set_table_def)
    show ?thesis
      using Cons.IH[OF st, of "n + 1"] Cons.prems(3) b unfolding p sp f by (fastforce split: option.splits)
  qed
qed

definition all_vectors :: "nat list" where
  "all_vectors = ef_range 0 255"

lemma set_all_vectors: "set all_vectors = {0..<256}" "distinct all_vectors"
proof -
  have "nat ` {0..255} = {0..<256}"
  proof
    show "{0..<256} \<subseteq> nat ` {0..255}"
    proof
      fix n :: nat assume "n \<in> {0..<256}"
      then show "n \<in> nat ` {0..255}" by (intro image_eqI[of _ _ "int n"]) auto
    qed
  qed auto
  then show "set all_vectors = {0..<256}" by (simp add: all_vectors_def ef_range_def)
  show "distinct all_vectors" by (auto simp: all_vectors_def ef_range_def distinct_map inj_on_def)
qed

interpretation efa: idt_edit "\<lambda>a s. process_vecs E a tst all_vectors 0 s" "\<lambda>r. r \<noteq> None" "\<lambda>r. r \<noteq> None \<and> r \<noteq> Some 0"
    "\<lambda>s t. map_option fst (ef_spec E tst all_vectors (t, ad_orig_isrs s))" for E tst
proof unfold_locales
  fix s a t assume "tables s a = Some t" and "length t = 256"
  then show "\<exists>r s' t'. process_vecs E a tst all_vectors 0 s = Inr (r, s') \<and> same_but a s s' \<and> tables s' a = Some t' \<and> length t' = 256
    \<and> (case map_option fst (ef_spec E tst all_vectors (t, ad_orig_isrs s)) of None \<Rightarrow> \<not> r \<noteq> None
       | Some u \<Rightarrow> r \<noteq> None \<and> t' = u \<and> ((r \<noteq> None \<and> r \<noteq> Some 0) \<or> u = t))"
    using process_vecs_edits[of all_vectors s a t E tst 0] by (fastforce simp: set_all_vectors split: option.splits)
qed

text \<open>Without the test handler and with consistent records, every gate without a stack of its own is led through its stub, the others stay.\<close>

definition consistent :: "nat list \<Rightarrow> idt_entry list \<times> u64 list \<Rightarrow> bool" where
  "consistent vs ti \<longleftrightarrow> (\<forall>v \<in> set vs. ie_ist (fst ti ! v) = 0 \<longrightarrow> snd ti ! v = 0 \<or> snd ti ! v = idt_offset (fst ti ! v))"

definition through_stub :: "ef_code \<Rightarrow> nat \<Rightarrow> idt_entry \<Rightarrow> idt_entry" where
  "through_stub E v e = gate_set_offset (e\<lparr>ie_ist := 7\<rparr>) (stub E v)"

lemma ef_spec_pointwise:
  assumes "distinct vs" and "length t = 256" and "length os = 256" and "\<forall>v \<in> set vs. v < 256" and "consistent vs (t, os)"
  shows "\<exists>u os'. ef_spec E False vs (t, os) = Some (u, os') \<and> length os' = 256 \<and> (\<forall>v < 256.
    (if v \<in> set vs \<and> ie_ist (t ! v) = 0 then u ! v = through_stub E v (t ! v) \<and> os' ! v = idt_offset (t ! v) else u ! v = t ! v \<and> os' ! v = os ! v))"
  using assms
proof (induction vs arbitrary: t os)
  case (Cons v vs)
  have g: "ef_gate E False (t ! v) = t ! v" by (simp add: ef_gate_def)
  have v: "v \<notin> set vs" "v < 256" using Cons.prems(1,4) by simp_all
  show ?case
  proof (cases "ie_ist (t ! v) = 0")
    case False
    have "consistent vs (t, os)" using Cons.prems(5) by (simp add: consistent_def)
    then obtain u os' where i: "ef_spec E False vs (t, os) = Some (u, os')" "length os' = 256"
        "\<forall>w < 256. if w \<in> set vs \<and> ie_ist (t ! w) = 0 then u ! w = through_stub E w (t ! w) \<and> os' ! w = idt_offset (t ! w) else u ! w = t ! w \<and> os' ! w = os ! w"
      using Cons.IH[of t os] Cons.prems by auto
    have "w \<in> set (v # vs) \<and> ie_ist (t ! w) = 0 \<longleftrightarrow> w \<in> set vs \<and> ie_ist (t ! w) = 0" for w using False by auto
    then show ?thesis using i False g by (auto simp: Let_def)
  next
    case True
    let ?t = "t[v := through_stub E v (t ! v)]" and ?os = "os[v := idt_offset (t ! v)]"
    have n: "?t ! w = t ! w" "?os ! w = os ! w" if "w \<noteq> v" for w using that by simp_all
    have c: "consistent vs (?t, ?os)"
      unfolding consistent_def fst_conv snd_conv
    proof
      fix w assume w: "w \<in> set vs"
      then have "w \<noteq> v" using v(1) by blast
      with w Cons.prems(5) show "ie_ist (?t ! w) = 0 \<longrightarrow> ?os ! w = 0 \<or> ?os ! w = idt_offset (?t ! w)"
        by (simp add: n consistent_def)
    qed
    obtain u os' where i: "ef_spec E False vs (?t, ?os) = Some (u, os')" "length os' = 256"
        "\<forall>w < 256. if w \<in> set vs \<and> ie_ist (?t ! w) = 0 then u ! w = through_stub E w (?t ! w) \<and> os' ! w = idt_offset (?t ! w) else u ! w = ?t ! w \<and> os' ! w = ?os ! w"
      using Cons.IH[of ?t ?os] Cons.prems c by auto
    have sp: "ef_spec E False (v # vs) (t, os) = Some (u, os')"
      using True Cons.prems(5) g i(1) by (auto simp: Let_def consistent_def through_stub_def)
    have "if w \<in> set (v # vs) \<and> ie_ist (t ! w) = 0 then u ! w = through_stub E w (t ! w) \<and> os' ! w = idt_offset (t ! w) else u ! w = t ! w \<and> os' ! w = os ! w"
      if "w < 256" for w
      using i(3) that n[of w] v True Cons.prems(2,3) by (cases "w = v") auto
    then show ?thesis using sp i(2) by blast
  qed
qed simp

section \<open>Stacks\<close>

text \<open>What every processor's slot holds after the setup, when pages were found where they were needed.\<close>

definition ist_after :: "(nat \<Rightarrow> u64) \<Rightarrow> u64 list \<Rightarrow> u64 list" where
  "ist_after stacks ist = map (\<lambda>(c, i). if i = 0 \<and> stacks c \<noteq> 0 then stacks c + PAGE_BYTES else i) (List.enumerate 0 ist)"

lemma ist_after_nth: "c < length ist \<Longrightarrow> ist_after stacks ist ! c = (if ist ! c = 0 \<and> stacks c \<noteq> 0 then stacks c + PAGE_BYTES else ist ! c)"
  by (simp add: ist_after_def nth_enumerate_eq)

lemma length_ist_after [simp]: "length (ist_after stacks ist) = length ist"
  by (simp add: ist_after_def)

definition lacks :: "(nat \<Rightarrow> u64) \<Rightarrow> u64 list \<Rightarrow> nat \<Rightarrow> bool" where
  "lacks stacks ist k \<longleftrightarrow> (\<exists>c < k. ist ! c = 0 \<and> stacks c = 0)"

lemma setup_tss_all:
  "k \<le> length (ad_ist s) \<Longrightarrow> foldl (\<lambda>rs c. ef_adaptor_setup_tss stacks c rs) (0, s) [0..<k] =
    (if lacks stacks (ad_ist s) k then - ENOMEM else 0, s\<lparr>ad_ist := take k (ist_after stacks (ad_ist s)) @ drop k (ad_ist s)\<rparr>)"
proof (induction k)
  case 0
  then show ?case by (simp add: lacks_def)
next
  case (Suc k)
  let ?i = "take k (ist_after stacks (ad_ist s)) @ drop k (ad_ist s)"
  have k: "k < length (ad_ist s)" using Suc.prems by simp
  have nth: "?i ! k = ad_ist s ! k" using k by (simp add: nth_append)
  have upd: "?i[k := x] = take k (ist_after stacks (ad_ist s)) @ x # drop (Suc k) (ad_ist s)" for x
    using k by (simp add: list_update_append Cons_nth_drop_Suc[symmetric])
  have tk: "take (Suc k) (ist_after stacks (ad_ist s)) = take k (ist_after stacks (ad_ist s)) @ [ist_after stacks (ad_ist s) ! k]"
    using k by (simp add: take_Suc_conv_app_nth)
  have lk: "lacks stacks (ad_ist s) (Suc k) \<longleftrightarrow> lacks stacks (ad_ist s) k \<or> (ad_ist s ! k = 0 \<and> stacks k = 0)"
    by (auto simp: lacks_def less_Suc_eq)
  have e: "or 0 (- ENOMEM) = - ENOMEM" "or (- ENOMEM) (- ENOMEM) = - ENOMEM" by (simp_all add: ENOMEM_def)
  have "?i = take (Suc k) (ist_after stacks (ad_ist s)) @ drop (Suc k) (ad_ist s)" if "ad_ist s ! k \<noteq> 0 \<or> stacks k = 0"
    using that k tk ist_after_nth[OF k] by (auto simp: Cons_nth_drop_Suc)
  then show ?case
    using Suc k by (auto simp: ef_adaptor_setup_tss_def nth upd tk lk e ist_after_nth)
qed

section \<open>Properties\<close>

text \<open>
  C15. Installing the fault handlers refines the update of one table. If the three gates lead to the handlers that were named, or already to the ones to be installed, the call returns 1, all processors use a table
  in which exactly those three gates have changed, and the named handlers are remembered unless others were before; a table of its own that it replaces is freed. Otherwise it returns 0 and the tables are
  as they were (named handlers may have been remembered by then). No processor ever uses a table that is freed, and a second call leaves the table as it is.\<close>

theorem pf_adaptor_init_refines:
  assumes "in_use s b t" and "cpu < length (cpus s)" and "page \<noteq> 0" and "tables s page = None" and "page2 \<noteq> 0"
  shows "case pf_spec H pf df gp t of
      None \<Rightarrow> \<exists>s'. pf_adaptor_init H cpu page pf df gp s = Inr (0, s') \<and> in_use s' b t \<and> tables s' = tables s
    | Some t' \<Rightarrow> \<exists>s' b'. pf_adaptor_init H cpu page pf df gp s = Inr (1, s') \<and> in_use s' b' t'
        \<and> (if t' = t \<and> b' = b then tables s' = tables s else b' = page \<and> (ad_current_idt s \<noteq> 0 \<longrightarrow> tables s' b = None))
        \<and> ad_pf s' = (if ad_pf s = 0 then pf else ad_pf s) \<and> ad_df s' = (if ad_df s = 0 then df else ad_df s) \<and> ad_gp s' = (if ad_gp s = 0 then gp else ad_gp s)
        \<and> (tables s' page2 = None \<longrightarrow> (\<exists>s'' b''. pf_adaptor_init H cpu page2 pf df gp s' = Inr (1, s'') \<and> in_use s'' b'' t'))"
proof (cases "pf_spec H pf df gp t")
  case None
  then show ?thesis using pf_adaptor_init_cases[OF assms(1-4), of H pf df gp] by auto
next
  case (Some t')
  then obtain s' b' where s': "pf_adaptor_init H cpu page pf df gp s = Inr (1, s')" "in_use s' b' t'" "length (cpus s') = length (cpus s)"
      "if t' = t \<and> b' = b then tables s' = tables s else b' = page \<and> (ad_current_idt s \<noteq> 0 \<longrightarrow> tables s' b = None)"
      "ad_pf s' = (if ad_pf s = 0 then pf else ad_pf s) \<and> ad_df s' = (if ad_df s = 0 then df else ad_df s) \<and> ad_gp s' = (if ad_gp s = 0 then gp else ad_gp s)"
    using pf_adaptor_init_cases[OF assms(1-4), of H pf df gp] by auto
  have "pf_spec H pf df gp t' = Some t'" using pf_spec_again(1)[OF _ Some] assms(1) by (simp add: in_use_def)
  then have "tables s' page2 = None \<Longrightarrow> \<exists>s'' b''. pf_adaptor_init H cpu page2 pf df gp s' = Inr (1, s'') \<and> in_use s'' b'' t'"
    using pf_adaptor_init_cases[OF s'(2) _ assms(5), of cpu H pf df gp] assms(2) s'(3) by auto
  then have again: "tables s' page2 = None \<longrightarrow> (\<exists>s'' b''. pf_adaptor_init H cpu page2 pf df gp s' = Inr (1, s'') \<and> in_use s'' b'' t')" by blast
  show ?thesis
    unfolding Some option.case by (rule exI[of _ s'], rule exI[of _ b']) (use s'(1,2,4,5) again in argo)
qed

definition demo_adaptor :: adaptor where
  "demo_adaptor = \<lparr>ad_mach = demo_machine, ad_orig_idt = 0, ad_current_idt = 0, ad_pf = 0, ad_df = 0, ad_gp = 0, ad_ist = [0, 0],
     ad_orig_isrs = replicate 256 0, ad_freed = [], ad_df_location = 0\<rparr>"

definition demo_fixes :: pf_fixes where
  "demo_fixes = \<lparr>fx_u = 0xa0, fx_uw = 0xb0, fx_gp = 0xc0\<rparr>"

lemma demo_in_use: "in_use demo_adaptor 0x1000 (replicate 256 demo_entry)" "length (cpus demo_adaptor) = 2" "tables demo_adaptor 0x2000 = None"
  by (auto simp: in_use_def demo_adaptor_def demo_machine_def nth_Cons')

theorem pf_adaptor_init_refines_witness:
  "\<exists>s' b' t'. pf_adaptor_init demo_fixes 1 0x2000 0 0 0 demo_adaptor = Inr (1, s') \<and> in_use s' b' t' \<and> idt_offset (t' ! 14) = 0xa0 \<and> ad_pf s' = 0"
proof -
  have o: "idt_offset demo_entry = 0" by (simp add: idt_offset_def demo_entry_def)
  have n: "replicate 256 demo_entry ! 14 = demo_entry" "replicate 256 demo_entry ! 8 = demo_entry" "replicate 256 demo_entry ! 13 = demo_entry"
    by (simp_all add: nth_replicate)
  define t' where "t' = (replicate 256 demo_entry)[14 := gate_set_offset demo_entry 0xa0, 8 := gate_set_offset demo_entry 0xb0, 13 := gate_set_offset demo_entry 0xc0]"
  have sp: "pf_spec demo_fixes 0 0 0 (replicate 256 demo_entry) = Some t'"
    unfolding pf_spec_def n by (simp add: expected_def o demo_fixes_def t'_def)
  have "idt_offset (t' ! 14) = 0xa0" by (simp add: t'_def gate_offset_set)
  moreover have "ad_pf demo_adaptor = 0" by (simp add: demo_adaptor_def)
  ultimately show ?thesis
    using pf_adaptor_init_refines[OF demo_in_use(1) _ _ demo_in_use(3), of 1 "0x3000" demo_fixes 0 0 0] demo_in_use(2) unfolding sp by auto
qed

lemma in_use_ist [simp]: "in_use (s\<lparr>ad_ist := x\<rparr>) b t = in_use s b t" "in_use (s\<lparr>ad_df_location := y\<rparr>) b t = in_use s b t"
  by (simp_all add: in_use_def)

lemma release_sel [simp]:
  "ad_orig_isrs (idt_adaptor_release a s) = ad_orig_isrs s" "ad_ist (idt_adaptor_release a s) = ad_ist s"
  "ad_df_location (idt_adaptor_release a s) = ad_df_location s" "cpus (idt_adaptor_release a s) = cpus s"
  by (simp_all add: idt_adaptor_release_def)

text \<open>One round over all vectors with stacks for all processors.\<close>

lemma ef_adaptor_init_round:
  assumes "in_use s b t" and "cpu < length (cpus s)" and "page \<noteq> 0" and "tables s page = None"
    and "length (ad_ist s) = length (cpus s)" and "\<not> lacks stacks (ad_ist s) (length (cpus s))"
    and "ef_spec E False all_vectors (t, ad_orig_isrs s) = Some (u, os)"
  shows "\<exists>d s' b'. ef_adaptor_init E stacks cpu page [] 0 255 False s = Inr (d, s') \<and> 0 \<le> d \<and> in_use s' b' u
    \<and> ad_orig_isrs s' = os \<and> ad_ist s' = ist_after stacks (ad_ist s) \<and> ad_df_location s' = ad_df_location s"
proof -
  let ?s1 = "s\<lparr>ad_ist := ist_after stacks (ad_ist s)\<rparr>"
  have f: "foldl (\<lambda>rs c. ef_adaptor_setup_tss stacks c rs) (0, s) [0..<length (cpus s)] = (0, ?s1)"
    using setup_tss_all[of "length (cpus s)" s stacks] assms(5,6) by simp
  have i1: "in_use ?s1 b t" using assms(1) by simp
  obtain s2 where c: "idt_adaptor_clone cpu page ?s1 = Inr (page, s2)" "in_use s2 b t" "tables s2 = (tables ?s1)(page := Some t)"
      "ad_orig_isrs s2 = ad_orig_isrs s" "ad_ist s2 = ist_after stacks (ad_ist s)" "ad_df_location s2 = ad_df_location s"
    using clone_in_use[OF i1, of cpu page] assms(2-4) by auto
  have b: "page \<noteq> b" using assms(1,4) by (auto simp: in_use_def)
  have t2: "tables s2 page = Some t" "length t = 256" using c(3) assms(1) by (simp_all add: in_use_def)
  obtain r s3 where e: "process_vecs E page False all_vectors 0 s2 = Inr (r, s3)" "r \<noteq> None"
      "r \<noteq> Some 0 \<Longrightarrow> in_use (idt_adaptor_activate page s3) page u" "r = Some 0 \<Longrightarrow> in_use (idt_adaptor_release page s3) b u"
    using efa.round_in_use[OF c(2) t2(1) b assms(3), of E False] assms(7) c(4) by auto
  obtain d where d: "r = Some d" "0 \<le> d" "ad_orig_isrs s3 = os" "ad_ist s3 = ad_ist s2" "ad_df_location s3 = ad_df_location s2"
    using process_vecs_edits[of all_vectors s2 page t E False 0] t2 e(1) assms(7) c(4) by (auto simp: set_all_vectors)
  have "ef_adaptor_init E stacks cpu page [] 0 255 False s = Inr (d, if d \<noteq> 0 then idt_adaptor_activate page s3 else idt_adaptor_release page s3)"
    using f c(1) e(1) d(1) by (simp add: ef_adaptor_init_def all_vectors_def)
  then show ?thesis using e(3,4) d c(5,6) by (cases "d = 0") (auto simp: activate_tables)
qed

lemma extension_init_effect:
  assumes "in_use s b t" and "cpu < length (cpus s)" and "page \<noteq> 0" and "tables s page = None"
    and "length (ad_ist s) = length (cpus s)" and "\<forall>c < length (cpus s). stacks c \<noteq> 0 \<and> stacks c \<noteq> - PAGE_BYTES"
    and "length (ad_orig_isrs s) = 256" and "consistent all_vectors (t, ad_orig_isrs s)"
  shows "\<exists>s' b' t'. extension_init E stacks cpu page s = Inr (0, s') \<and> in_use s' b' t'
    \<and> (\<forall>v < 256. if ie_ist (t ! v) = 0 then ie_ist (t' ! v) = 7 \<and> idt_offset (t' ! v) = stub E v \<and> ad_orig_isrs s' ! v = idt_offset (t ! v)
        else t' ! v = t ! v \<and> ad_orig_isrs s' ! v = ad_orig_isrs s ! v)
    \<and> (\<forall>c < length (cpus s). ad_ist s' ! c \<noteq> 0) \<and> ad_ist s' = ist_after stacks (ad_ist s) \<and> ad_df_location s' = idt_offset (t ! 8)"
proof -
  let ?s = "s\<lparr>ad_df_location := idt_offset (t ! 8)\<rparr>"
  have l: "length t = 256" using assms(1) by (simp add: in_use_def)
  have s0: "set_local_df_handler_location cpu s = Inr ?s"
    using local_idt_in_use[OF assms(1,2)] l by (simp add: set_local_df_handler_location_def read_gate_def)
  obtain u os where u: "ef_spec E False all_vectors (t, ad_orig_isrs s) = Some (u, os)" and p: "\<forall>v < 256.
      (if v \<in> set all_vectors \<and> ie_ist (t ! v) = 0 then u ! v = through_stub E v (t ! v) \<and> os ! v = idt_offset (t ! v) else u ! v = t ! v \<and> os ! v = ad_orig_isrs s ! v)"
    using ef_spec_pointwise[OF set_all_vectors(2) l assms(7) _ assms(8), of E] by (auto simp: set_all_vectors)
  have lk: "\<not> lacks stacks (ad_ist ?s) (length (cpus ?s))" using assms(6) by (auto simp: lacks_def)
  obtain d s' b' where i: "ef_adaptor_init E stacks cpu page [] 0 255 False ?s = Inr (d, s')" "0 \<le> d" "in_use s' b' u" "ad_orig_isrs s' = os"
      "ad_ist s' = ist_after stacks (ad_ist s)" "ad_df_location s' = idt_offset (t ! 8)"
    using ef_adaptor_init_round[of ?s b t cpu page stacks E u os] assms(1-5) lk u by auto
  have sb: "ie_ist (through_stub E v e) = 7" "idt_offset (through_stub E v e) = stub E v" for v e
    by (simp_all add: through_stub_def gate_offset_set) (simp add: gate_set_offset_def)
  have "\<forall>v < 256. if ie_ist (t ! v) = 0 then ie_ist (u ! v) = 7 \<and> idt_offset (u ! v) = stub E v \<and> ad_orig_isrs s' ! v = idt_offset (t ! v)
      else u ! v = t ! v \<and> ad_orig_isrs s' ! v = ad_orig_isrs s ! v"
    using p by (auto simp: set_all_vectors sb i(4))
  moreover have "ad_ist s' ! c \<noteq> 0" if c: "c < length (cpus s)" for c
  proof -
    have "stacks c + PAGE_BYTES \<noteq> 0" using assms(6) c by (metis eq_neg_iff_add_eq_0)
    then show ?thesis using assms(5,6) c by (simp add: i(5) ist_after_nth)
  qed
  moreover have "extension_init E stacks cpu page s = Inr (0, s')" using s0 i(1,2) by (simp add: extension_init_def)
  ultimately show ?thesis using i(3,5,6) by blast
qed

text \<open>
  C17. Installing the exception frame adaptor. Given memory and records that agree with the table, \<open>extension_init\<close> returns 0. Every gate that had no stack of its own now uses the adaptor's, leads to the stub of its own vector, and the offset
  it had is recorded under that vector; every other gate and its record are as they were; every processor has a stack for the adaptor, and the address of the double fault handler is recorded. What the stubs make of the records is the subject of
  \<open>Adaptor_Asm\<close>.\<close>

theorem extension_init_redirects:
  assumes "in_use s b t" and "cpu < length (cpus s)" and "page \<noteq> 0" and "tables s page = None"
    and "length (ad_ist s) = length (cpus s)" and "\<forall>c < length (cpus s). stacks c \<noteq> 0 \<and> stacks c \<noteq> - PAGE_BYTES"
    and "length (ad_orig_isrs s) = 256" and "consistent all_vectors (t, ad_orig_isrs s)"
  shows "\<exists>s' b' t'. extension_init E stacks cpu page s = Inr (0, s') \<and> in_use s' b' t'
    \<and> (\<forall>v < 256. if ie_ist (t ! v) = 0 then ie_ist (t' ! v) = 7 \<and> idt_offset (t' ! v) = stub E v \<and> ad_orig_isrs s' ! v = idt_offset (t ! v)
        else t' ! v = t ! v \<and> ad_orig_isrs s' ! v = ad_orig_isrs s ! v)
    \<and> (\<forall>c < length (cpus s). ad_ist s' ! c \<noteq> 0) \<and> ad_df_location s' = idt_offset (t ! 8)"
  using extension_init_effect[OF assms] by blast

definition demo_gates :: "idt_entry list" where
  "demo_gates = replicate 256 (demo_entry\<lparr>ie_ist := 0, ie_offset0 := 1\<rparr>)"

definition demo_code :: ef_code where
  "demo_code = \<lparr>ef_isrs = 0x5000, ef_isr_len = 0x20, ef_tsthdlr = 0x4000\<rparr>"

lemma demo_gates_nth: "v < 256 \<Longrightarrow> demo_gates ! v = demo_entry\<lparr>ie_ist := 0, ie_offset0 := 1\<rparr>"
  unfolding demo_gates_def by (rule nth_replicate)

lemma demo_gate_offset: "idt_offset (demo_entry\<lparr>ie_ist := 0, ie_offset0 := 1\<rparr>) = 1"
  by (simp add: idt_offset_def demo_entry_def)

lemma demo_stub: "stub demo_code v \<noteq> 1"
proof
  assume "stub demo_code v = 1"
  moreover have "even (stub demo_code v)" by (simp add: stub_def demo_code_def)
  ultimately show False by simp
qed

lemma demo_installable:
  defines "s \<equiv> set_table 0x1000 (Some demo_gates) demo_adaptor"
  shows "in_use s 0x1000 demo_gates" "1 < length (cpus s)" "(0x2000 :: u64) \<noteq> 0" "tables s 0x2000 = None" "length (ad_ist s) = length (cpus s)"
    "\<forall>c < length (cpus s). (0x9000 :: u64) \<noteq> 0 \<and> (0x9000 :: u64) \<noteq> - PAGE_BYTES" "length (ad_orig_isrs s) = 256" "consistent all_vectors (demo_gates, ad_orig_isrs s)"
    "\<forall>v < 256. ie_ist (demo_gates ! v) = 0 \<longrightarrow> idt_offset (demo_gates ! v) \<noteq> stub demo_code v" and "ad_ist s = [0, 0]"
proof -
  have c: "length (cpus s) = 2" "ad_ist s = [0, 0]" "ad_orig_isrs s = replicate 256 0" by (simp_all add: s_def demo_adaptor_def demo_machine_def)
  show "in_use s 0x1000 demo_gates" by (auto simp: s_def in_use_def demo_adaptor_def demo_machine_def nth_Cons' demo_gates_def)
  show "consistent all_vectors (demo_gates, ad_orig_isrs s)" unfolding consistent_def c(3) by (auto simp: set_all_vectors)
  show "\<forall>v < 256. ie_ist (demo_gates ! v) = 0 \<longrightarrow> idt_offset (demo_gates ! v) \<noteq> stub demo_code v"
    using demo_stub demo_gate_offset demo_gates_nth by metis
  show "tables s 0x2000 = None" by (simp add: s_def demo_adaptor_def demo_machine_def)
  show "1 < length (cpus s)" "length (ad_ist s) = length (cpus s)" "length (ad_orig_isrs s) = 256" "ad_ist s = [0, 0]" using c by simp_all
qed (simp_all add: PAGE_BYTES_def)

theorem extension_init_redirects_witness:
  "\<exists>s' b' t'. extension_init demo_code (\<lambda>_. 0x9000) 1 0x2000 (set_table 0x1000 (Some demo_gates) demo_adaptor) = Inr (0, s') \<and> in_use s' b' t'
    \<and> ie_ist (t' ! 14) = 7 \<and> idt_offset (t' ! 14) = stub demo_code 14 \<and> ad_orig_isrs s' ! 14 = 1"
proof -
  let ?s = "set_table 0x1000 (Some demo_gates) demo_adaptor"
  from extension_init_redirects[OF demo_installable(1-8), of demo_code]
  obtain s' b' t' where r: "extension_init demo_code (\<lambda>_. 0x9000) 1 0x2000 ?s = Inr (0, s')" "in_use s' b' t'"
    and h: "\<forall>v < 256. if ie_ist (demo_gates ! v) = 0
        then ie_ist (t' ! v) = 7 \<and> idt_offset (t' ! v) = stub demo_code v \<and> ad_orig_isrs s' ! v = idt_offset (demo_gates ! v)
        else t' ! v = demo_gates ! v \<and> ad_orig_isrs s' ! v = ad_orig_isrs ?s ! v"
    by blast
  have "ie_ist (demo_gates ! 14) = 0" "idt_offset (demo_gates ! 14) = 1" by (simp_all add: demo_gates_nth demo_gate_offset)
  then show ?thesis using r h[rule_format, of 14] by auto
qed

lemma cleanup_tss_all:
  "k \<le> length (ad_ist s) \<Longrightarrow> foldl (\<lambda>s c. ef_adaptor_cleanup_tss c s) s [0..<k] =
    s\<lparr>ad_ist := replicate k 0 @ drop k (ad_ist s),
      ad_freed := ad_freed s @ replicate (length (filter (\<lambda>i. i \<noteq> 0) (take k (ad_ist s)))) (- PAGE_BYTES)\<rparr>"
proof (induction k)
  case (Suc k)
  have k: "k < length (ad_ist s)" using Suc.prems by simp
  have d: "drop k (ad_ist s) = ad_ist s ! k # drop (Suc k) (ad_ist s)" using k by (simp add: Cons_nth_drop_Suc)
  have n: "(replicate k 0 @ drop k (ad_ist s)) ! k = ad_ist s ! k" using d by (simp add: nth_append)
  have u: "(replicate k 0 @ drop k (ad_ist s))[k := 0] = replicate (Suc k) 0 @ drop (Suc k) (ad_ist s)"
    using d by (simp add: list_update_append replicate_app_Cons_same)
  have z: "replicate k 0 @ drop k (ad_ist s) = replicate (Suc k) 0 @ drop (Suc k) (ad_ist s)" if "ad_ist s ! k = 0"
    using d that by (simp add: replicate_app_Cons_same)
  have IH: "foldl (\<lambda>s c. ef_adaptor_cleanup_tss c s) s [0..<Suc k] = ef_adaptor_cleanup_tss k (s\<lparr>ad_ist := replicate k 0 @ drop k (ad_ist s),
      ad_freed := ad_freed s @ replicate (length (filter (\<lambda>i. i \<noteq> 0) (take k (ad_ist s)))) (- PAGE_BYTES)\<rparr>)"
    using Suc by simp
  have m: "(replicate (Suc k) 0 @ drop (Suc k) (ad_ist s)) ! k = 0" by (simp add: nth_append del: replicate_Suc)
  show ?case
  proof (cases "ad_ist s ! k = 0")
    case True
    then show ?thesis
      unfolding IH using n z k by (simp add: ef_adaptor_cleanup_tss_def take_Suc_conv_app_nth del: replicate_Suc)
  next
    case False
    then show ?thesis
      unfolding IH using n u m k
      by (simp add: ef_adaptor_cleanup_tss_def take_Suc_conv_app_nth replicate_append_same[symmetric] del: replicate_Suc) (simp add: replicate_append_same)
  qed
qed simp

text \<open>
  When a processor gets no page for its stack, the call fails and clears the slots of all processors, but it gives no stack back: for every slot it frees the address \<open>-4096\<close>, not the page, because it clears the slot before it
  reads it.\<close>

theorem ef_failure_loses_stacks:
  assumes "length (ad_ist s) = length (cpus s)" and "lacks stacks (ad_ist s) (length (cpus s))"
  shows "\<exists>s'. ef_adaptor_init E stacks cpu page vecs vstart vend tst s = Inr (- EINVAL, s') \<and> ad_ist s' = replicate (length (cpus s)) 0
    \<and> tables s' = tables s \<and> cpus s' = cpus s
    \<and> ad_freed s' = ad_freed s @ replicate (length (filter (\<lambda>i. i \<noteq> 0) (ist_after stacks (ad_ist s)))) 0xfffffffffffff000"
proof -
  have p: "- PAGE_BYTES = 0xfffffffffffff000" by (simp add: PAGE_BYTES_def)
  let ?s1 = "s\<lparr>ad_ist := ist_after stacks (ad_ist s)\<rparr>"
  have "foldl (\<lambda>rs c. ef_adaptor_setup_tss stacks c rs) (0, s) [0..<length (cpus s)] = (- ENOMEM, ?s1)"
    using setup_tss_all[of "length (cpus s)" s stacks] assms by simp
  moreover have "- ENOMEM < (0 :: int)" by (simp add: ENOMEM_def)
  ultimately show ?thesis
    using cleanup_tss_all[of "length (cpus s)" ?s1] assms(1)
    by (simp add: ef_adaptor_init_def ef_error_def idt_adaptor_release_def p)
qed

theorem ef_failure_loses_stacks_witness:
  "\<exists>s'. ef_adaptor_init demo_code (\<lambda>c. if c = 0 then 0x9000 else 0) 1 0x2000 [] 0 255 False demo_adaptor = Inr (- EINVAL, s') \<and> ad_freed s' = [0xfffffffffffff000]"
proof -
  let ?st = "\<lambda>c::nat. if c = 0 then 0x9000 else 0"
  have i: "ad_ist demo_adaptor = [0, 0]" "ad_freed demo_adaptor = []" by (simp_all add: demo_adaptor_def)
  have "lacks ?st [0, 0] 2" by (auto simp: lacks_def intro!: exI[of _ 1])
  moreover have "filter (\<lambda>i. i \<noteq> 0) (ist_after ?st [0, 0]) = [0xa000]" by (simp add: ist_after_def PAGE_BYTES_def)
  ultimately show ?thesis
    using ef_failure_loses_stacks[of demo_adaptor ?st demo_code 1 "0x2000" "[]" 0 255 False] demo_in_use(2) i by simp blast
qed

end
