(* ===== verification/Adaptor_Asm.thy ===== *)
theory Adaptor_Asm
  imports Idt_Adaptor
begin

text \<open>
  The assembly behind the interrupt table adaptors (\<open>kcuttest/pfasm.kS\<close> and \<open>efasm.kS\<close>): the handlers that correct an error code, the 256 stubs of the exception frame adaptor, and the code that moves an exception frame from
  the adaptor's stack to the stack on which the kernel handles it.

  The machine has the registers that the code uses, memory as a function from addresses to words of 64 bits (all accesses are at multiples of 8 from the stack pointer), and the two bases that \<open>swapgs\<close> exchanges. What lies behind the
  kernel's base, the stack of the current thread and whether the task is elevated, can be read only while that base is loaded; with any other base the read is a fault. A jump sets the instruction pointer and ends the code. Instructions
  that have no effect here (\<open>cld\<close>, \<open>ENDBR\<close>, \<open>sti\<close> and \<open>cli\<close>, comparisons whose two outcomes lead to the same place) are left out.
\<close>

section \<open>Machine\<close>

record am =
  a_rax :: u64
  a_rdi :: u64
  a_rsi :: u64
  a_rcx :: u64
  a_rsp :: u64
  a_rip :: u64
  a_mem :: "u64 \<Rightarrow> u64"
  a_gs :: u64
  a_kgs :: u64
  a_touched :: "u64 list"
  a_pf_cnt :: u64
  a_df_cnt :: u64
  a_gp_cnt :: u64

text \<open>The kernel: base of its per-processor data, top of the thread's stack and its size, the current task, the faulting address, and the handlers that are jumped to.\<close>

record ax =
  x_base :: u64
  x_sp0 :: u64
  x_thread_size :: u64
  x_current :: u64
  x_elevated :: bool
  x_cr2 :: u64
  x_pf :: u64
  x_df :: u64
  x_gp :: u64
  x_df_location :: u64

definition neg :: "u64 \<Rightarrow> bool" where
  "neg w \<longleftrightarrow> bit w 63"

definition ld :: "am \<Rightarrow> u64 \<Rightarrow> u64" where
  "ld s off = a_mem s (a_rsp s + off)"

definition st :: "u64 \<Rightarrow> u64 \<Rightarrow> am \<Rightarrow> am" where
  "st off v s = s\<lparr>a_mem := (a_mem s)(a_rsp s + off := v)\<rparr>"

definition pushq :: "u64 \<Rightarrow> am \<Rightarrow> am" where
  "pushq v s = s\<lparr>a_rsp := a_rsp s - 8, a_mem := (a_mem s)(a_rsp s - 8 := v)\<rparr>"

definition popped :: "am \<Rightarrow> am" where
  "popped s = s\<lparr>a_rsp := a_rsp s + 8\<rparr>"

definition pop_rax :: "am \<Rightarrow> am" where "pop_rax s = popped (s\<lparr>a_rax := ld s 0\<rparr>)"
definition pop_rdi :: "am \<Rightarrow> am" where "pop_rdi s = popped (s\<lparr>a_rdi := ld s 0\<rparr>)"
definition pop_rsi :: "am \<Rightarrow> am" where "pop_rsi s = popped (s\<lparr>a_rsi := ld s 0\<rparr>)"
definition pop_rcx :: "am \<Rightarrow> am" where "pop_rcx s = popped (s\<lparr>a_rcx := ld s 0\<rparr>)"
definition retq :: "am \<Rightarrow> am" where "retq s = popped (s\<lparr>a_rip := ld s 0\<rparr>)"

definition jmp :: "u64 \<Rightarrow> am \<Rightarrow> am" where "jmp a s = s\<lparr>a_rip := a\<rparr>"

definition swapgs :: "am \<Rightarrow> am" where
  "swapgs s = s\<lparr>a_gs := a_kgs s, a_kgs := a_gs s\<rparr>"

definition percpu :: "ax \<Rightarrow> am \<Rightarrow> (ax \<Rightarrow> 'v) \<Rightarrow> 'v res" where
  "percpu X s f = (if a_gs s = x_base X then Inr (f X) else Inl Out_of_bounds)"

primrec movsq :: "nat \<Rightarrow> am \<Rightarrow> am" where
  "movsq 0 s = s\<lparr>a_rcx := 0\<rparr>"
| "movsq (Suc n) s = movsq n (s\<lparr>a_mem := (a_mem s)(a_rdi s := a_mem s (a_rsi s)), a_rdi := a_rdi s + 8, a_rsi := a_rsi s + 8\<rparr>)"

definition ERRCODE_PF_WRITE :: u64 where "ERRCODE_PF_WRITE = 2"
definition ERRCODE_PF_USER :: u64 where "ERRCODE_PF_USER = 4"
definition RFLAGS_SWAPPED_GS :: u64 where "RFLAGS_SWAPPED_GS = push_bit 29 1"
definition USER_CS :: u64 where "USER_CS = 0x33"
definition USER_SS :: u64 where "USER_SS = 0x2b"

section \<open>Correcting an error code\<close>

text \<open>A handler that runs on a stack of the user first touches the page below: it stores a byte there, the low one of its word.\<close>

definition touch_below :: "am \<Rightarrow> am" where
  "touch_below s =
     (if neg (a_rsp s) then s
      else let a = a_rsp s - 0x1000
           in s\<lparr>a_touched := a_touched s @ [a], a_mem := (a_mem s)(a := (a_mem s a AND NOT 0xff) OR 1)\<rparr>)"

definition fix_err_code_u :: "ax \<Rightarrow> am \<Rightarrow> am res" where
  "fix_err_code_u X s =
     (let s = s\<lparr>a_pf_cnt := a_pf_cnt s + 1\<rparr>; s = pushq (a_rax s) (touch_below s); s = s\<lparr>a_rax := a_gs s\<rparr>
      in rbind (if neg (a_rax s)
                then rbind (percpu X s x_current) (\<lambda>t. Inr (let s = s\<lparr>a_rax := t\<rparr> in if x_elevated X then st 8 (ld s 8 OR ERRCODE_PF_USER) s else s))
                else Inr s) (\<lambda>s.
         Inr (jmp (x_pf X) (pop_rax s))))"

definition fix_err_code_uw :: "ax \<Rightarrow> am \<Rightarrow> am res" where
  "fix_err_code_uw X s =
     (let s = s\<lparr>a_df_cnt := a_df_cnt s + 1\<rparr>; s = pushq (a_rax s) s; s = s\<lparr>a_rax := a_gs s\<rparr>
      in if \<not> neg (a_rax s) then Inr (jmp (x_df X) (pop_rax s))
         else rbind (percpu X s x_current) (\<lambda>t.
              let s = s\<lparr>a_rax := t\<rparr>
              in if \<not> x_elevated X then Inr (jmp (x_df X) (pop_rax s))
                 else Inr (jmp (x_pf X) (pop_rax (st 8 (ld s 8 OR (ERRCODE_PF_USER OR ERRCODE_PF_WRITE)) s)))))"

definition fix_err_code_gp :: "ax \<Rightarrow> am \<Rightarrow> am" where
  "fix_err_code_gp X s = jmp (x_gp X) (touch_below (s\<lparr>a_gp_cnt := a_gp_cnt s + 1\<rparr>))"

lemmas error_code_sel = pushq_def pop_rax_def popped_def st_def ld_def jmp_def

section \<open>Moving an exception frame\<close>

text \<open>The stub of a vector leaves the remembered handler below the frame, as a return address.\<close>

definition ef_isr :: "u64 list \<Rightarrow> nat \<Rightarrow> am \<Rightarrow> am" where
  "ef_isr orig_isrs i s =
     (let s = s\<lparr>a_rsp := a_rsp s - 8\<rparr>;
          s = pushq (a_rdi s) s;
          s = s\<lparr>a_rdi := orig_isrs ! i\<rparr>
      in pop_rdi (st 8 (a_rdi s) s))"

text \<open>The end of both variants: \<open>n\<close> words are copied below the destination, the stack pointer is moved there.\<close>

definition copy_frame :: "nat \<Rightarrow> am \<Rightarrow> am" where
  "copy_frame n s =
     (let s = s\<lparr>a_rdi := a_rdi s - 8 * of_nat n, a_rsi := a_rsp s, a_rcx := of_nat n\<rparr>; s = movsq n s
      in s\<lparr>a_rsp := a_rdi s - 8 * of_nat n\<rparr>)"

definition leave :: "am \<Rightarrow> am" where
  "leave s = retq (pop_rdi (pop_rsi (pop_rcx s)))"

definition fix_ist_no_err_code :: "ax \<Rightarrow> am \<Rightarrow> am res" where
  "fix_ist_no_err_code X s =
     (let s = pushq (a_rdi s) s;
          s = s\<lparr>a_rdi := ld s 0x28\<rparr>;
          s = pushq (a_rcx s) (pushq (a_rsi s) s)
      in rbind (if neg (a_rdi s) then Inr s
                else let s = s\<lparr>a_rdi := a_gs s\<rparr>
                     in if neg (a_rdi s) then rbind (percpu X s x_sp0) (\<lambda>v. Inr (s\<lparr>a_rdi := v\<rparr>))
                        else let s = swapgs s in rbind (percpu X s x_sp0) (\<lambda>v. Inr (swapgs (s\<lparr>a_rdi := v\<rparr>)))) (\<lambda>s.
         Inr (leave (copy_frame 9 s))))"

text \<open>
  With an error code. The first part saves three registers and makes sure that the kernel's base is loaded; a mark in the saved flags says that it was exchanged.
\<close>

definition err_enter :: "am \<Rightarrow> am" where
  "err_enter s =
     (let s = pushq (a_rdi s) s;
          s = s\<lparr>a_rdi := ld s 0x30\<rparr>;
          s = pushq (a_rcx s) (pushq (a_rsi s) s);
          s = s\<lparr>a_rcx := a_gs s\<rparr>
      in if neg (a_rcx s) then s else (let s = swapgs s in st 0x38 (ld s 0x38 OR RFLAGS_SWAPPED_GS) s))"

text \<open>The frame as the handler shall see it: a fault of an elevated task at an address of the user.\<close>

definition err_flags :: "ax \<Rightarrow> am \<Rightarrow> am res" where
  "err_flags X s =
     rbind (percpu X s x_current) (\<lambda>t.
     let s = s\<lparr>a_rsi := t\<rparr>
     in Inr (if x_elevated X
             then let s = s\<lparr>a_rcx := x_cr2 X\<rparr>
                  in if neg (a_rcx s) then s
                     else st 0x48 USER_SS (st 0x30 USER_CS (st 0x20 (ld s 0x20 OR ERRCODE_PF_USER) s))
             else s))"

definition err_leave :: "am \<Rightarrow> am" where
  "err_leave s =
     (let s = copy_frame 10 s
      in leave (if ld s 0x38 AND RFLAGS_SWAPPED_GS \<noteq> 0
                then (let s = swapgs s in st 0x38 (ld s 0x38 AND NOT RFLAGS_SWAPPED_GS) s) else s))"

definition err_double_fault :: "ax \<Rightarrow> am \<Rightarrow> am" where
  "err_double_fault X s = jmp (x_df_location X) (popped (pop_rdi (pop_rsi (pop_rcx s))))"

text \<open>\<open>test\<close> sets the sign from the conjunction of its operands.\<close>

definition fix_ist_err_code :: "ax \<Rightarrow> am \<Rightarrow> am res" where
  "fix_ist_err_code X s =
     (if a_rsp s AND 8 = 0 then fix_ist_no_err_code X s
      else let s = err_enter s
           in if \<not> neg (a_rdi s)
              then rbind (percpu X s x_sp0) (\<lambda>v. rbind (err_flags X (s\<lparr>a_rdi := v\<rparr>)) (\<lambda>s. Inr (err_leave s)))
              else rbind (percpu X s x_sp0) (\<lambda>v.
                   let s = s\<lparr>a_rsi := v - (x_thread_size X + 0x1000), a_rcx := x_cr2 X AND NOT 0xfff\<rparr>
                   in if neg (a_rcx s AND a_rsi s) then Inr (err_double_fault X s)
                      else rbind (err_flags X s) (\<lambda>s. Inr (err_leave s))))"

definition ef_entry :: "u64 list \<Rightarrow> ax \<Rightarrow> nat \<Rightarrow> am \<Rightarrow> am res" where
  "ef_entry orig_isrs X i s = fix_ist_err_code X (ef_isr orig_isrs i s)"

section \<open>Copying words\<close>

lemma mult8_ne:
  assumes "0 < k" "k < 11"
  shows "d + 8 * of_nat k \<noteq> (d :: u64)"
proof -
  have "k = 1 \<or> k = 2 \<or> k = 3 \<or> k = 4 \<or> k = 5 \<or> k = 6 \<or> k = 7 \<or> k = 8 \<or> k = 9 \<or> k = 10" using assms by presburger
  then show ?thesis by auto
qed

lemma movsq_regs [simp]:
  "a_rax (movsq n s) = a_rax s" "a_rsp (movsq n s) = a_rsp s" "a_rip (movsq n s) = a_rip s" "a_gs (movsq n s) = a_gs s" "a_kgs (movsq n s) = a_kgs s"
  "a_touched (movsq n s) = a_touched s" "a_rdi (movsq n s) = a_rdi s + 8 * of_nat n"
  by (induction n arbitrary: s) (simp_all add: algebra_simps)

lemma movsq_other: "(\<And>k. k < n \<Longrightarrow> x \<noteq> a_rdi s + 8 * of_nat k) \<Longrightarrow> a_mem (movsq n s) x = a_mem s x"
proof (induction n arbitrary: s)
  case (Suc n)
  have "x \<noteq> a_rdi s" using Suc.prems[of 0] by simp
  moreover have "x \<noteq> a_rdi s + 8 + 8 * of_nat k" if "k < n" for k using Suc.prems[of "Suc k"] that by (simp add: algebra_simps)
  ultimately show ?case by (simp add: Suc.IH)
qed simp

lemma movsq_copies:
  assumes "n < 11" "\<And>i j. i < n \<Longrightarrow> j < n \<Longrightarrow> a_rdi s + 8 * of_nat i \<noteq> a_rsi s + 8 * of_nat j" "k < n"
  shows "a_mem (movsq n s) (a_rdi s + 8 * of_nat k) = a_mem s (a_rsi s + 8 * of_nat k)"
  using assms
proof (induction n arbitrary: s k)
  case (Suc n)
  let ?s = "s\<lparr>a_mem := (a_mem s)(a_rdi s := a_mem s (a_rsi s)), a_rdi := a_rdi s + 8, a_rsi := a_rsi s + 8\<rparr>"
  show ?case
  proof (cases k)
    case 0
    have "a_mem (movsq n ?s) (a_rdi s) = a_mem ?s (a_rdi s)"
      by (rule movsq_other) (use mult8_ne[of "Suc _" "a_rdi s"] Suc.prems(1) in \<open>simp add: algebra_simps\<close>)
    then show ?thesis using 0 by simp
  next
    case (Suc m)
    have d: "a_rdi ?s + 8 * of_nat i \<noteq> a_rsi ?s + 8 * of_nat j" if "i < n" "j < n" for i j
      using Suc.prems(2)[of "Suc i" "Suc j"] that by (simp add: algebra_simps)
    have "a_mem (movsq n ?s) (a_rdi ?s + 8 * of_nat m) = a_mem ?s (a_rsi ?s + 8 * of_nat m)"
      by (rule Suc.IH[OF _ d]) (use Suc.prems \<open>k = Suc m\<close> in simp_all)
    moreover have "a_rdi s \<noteq> a_rsi s + 8 * of_nat (Suc m)" using Suc.prems(2)[of 0 "Suc m"] Suc.prems(3) \<open>k = Suc m\<close> by simp
    ultimately show ?thesis using \<open>k = Suc m\<close> by (simp add: algebra_simps)
  qed
qed simp

text \<open>The words from an address upwards.\<close>

definition word_at :: "(u64 \<Rightarrow> u64) \<Rightarrow> u64 \<Rightarrow> nat \<Rightarrow> u64" where
  "word_at m a k = m (a + 8 * of_nat k)"

text \<open>Two areas of \<open>n\<close> words that have no word in common.\<close>

definition apart :: "nat \<Rightarrow> u64 \<Rightarrow> u64 \<Rightarrow> bool" where
  "apart n d e \<longleftrightarrow> (\<forall>i < n. \<forall>j < n. d + 8 * of_nat i \<noteq> e + 8 * of_nat j)"

lemma copy_frame_regs [simp]:
  "a_rax (copy_frame n s) = a_rax s" "a_rsp (copy_frame n s) = a_rdi s - 8 * of_nat n" "a_rip (copy_frame n s) = a_rip s"
  "a_gs (copy_frame n s) = a_gs s" "a_kgs (copy_frame n s) = a_kgs s" "a_touched (copy_frame n s) = a_touched s"
  by (simp_all add: copy_frame_def Let_def)

lemma copy_frame_words:
  assumes "n < 11" "apart n (a_rdi s - 8 * of_nat n) (a_rsp s)" "k < n"
  shows "a_mem (copy_frame n s) (a_rdi s - 8 * of_nat n + 8 * of_nat k) = a_mem s (a_rsp s + 8 * of_nat k)"
  using movsq_copies[of n "s\<lparr>a_rdi := a_rdi s - 8 * of_nat n, a_rsi := a_rsp s, a_rcx := of_nat n\<rparr>" k] assms
  by (simp add: copy_frame_def Let_def apart_def)

text \<open>Popping three registers and returning, in terms of the words on the stack.\<close>

lemma leave_sel:
  "a_rcx (leave s) = a_mem s (a_rsp s)" "a_rsi (leave s) = a_mem s (a_rsp s + 8)" "a_rdi (leave s) = a_mem s (a_rsp s + 16)"
  "a_rip (leave s) = a_mem s (a_rsp s + 24)" "a_rsp (leave s) = a_rsp s + 32" "a_mem (leave s) = a_mem s" "a_rax (leave s) = a_rax s"
  "a_gs (leave s) = a_gs s" "a_kgs (leave s) = a_kgs s" "a_touched (leave s) = a_touched s"
  by (simp_all add: leave_def retq_def pop_rdi_def pop_rsi_def pop_rcx_def popped_def ld_def add.commute)

section \<open>The stubs\<close>

lemma ef_isr_sel:
  "a_rsp (ef_isr T i s) = a_rsp s - 8" "a_mem (ef_isr T i s) = (a_mem s)(a_rsp s - 16 := a_rdi s, a_rsp s - 8 := T ! i)"
  "a_rdi (ef_isr T i s) = a_rdi s" "a_rsi (ef_isr T i s) = a_rsi s" "a_rcx (ef_isr T i s) = a_rcx s" "a_rax (ef_isr T i s) = a_rax s"
  "a_gs (ef_isr T i s) = a_gs s" "a_kgs (ef_isr T i s) = a_kgs s" "a_touched (ef_isr T i s) = a_touched s"
  by (simp_all add: ef_isr_def Let_def pushq_def pop_rdi_def popped_def st_def ld_def)

text \<open>The alignment of the stack tells whether there is an error code.\<close>

lemma bit_8: "bit (8 :: u64) n \<longleftrightarrow> n = 3"
proof -
  have "bit (2 ^ 3 :: u64) n \<longleftrightarrow> n = 3" by (auto simp only: bit_exp_iff) (simp_all add: possible_bit_def)
  then show ?thesis by simp
qed

lemma aligned_and_8: "(16 * q) AND 8 = (0 :: u64)" "(16 * q + 8) AND 8 = (8 :: u64)"
proof -
  have p: "16 * q = push_bit 4 q" by (simp add: push_bit_eq_mult mult.commute)
  have b: "bit (push_bit 4 q) n \<Longrightarrow> bit (8 :: u64) n \<Longrightarrow> False" for n
    unfolding bit_8 by (simp add: bit_push_bit_iff)
  show "(16 * q) AND 8 = (0 :: u64)" unfolding p by (rule bit_word_eqI) (use b in \<open>auto simp: bit_and_iff simp del: bit_numeral_iff\<close>)
  have "push_bit 4 q + 8 = push_bit 4 q OR (8 :: u64)" by (rule disjunctive_add) (use b in blast)
  then show "(16 * q + 8) AND 8 = (8 :: u64)" unfolding p by (simp add: bit.conj_disj_distrib2)
qed

lemma stub_aligned: "(16 * q - 8) AND 8 = (8 :: u64)"
  using aligned_and_8(2)[of "q - 1"] by (simp add: algebra_simps)

section \<open>Frames without an error code\<close>

text \<open>The kernel's base is loaded, or it is the one that \<open>swapgs\<close> would load.\<close>

definition gs_ok :: "ax \<Rightarrow> am \<Rightarrow> bool" where
  "gs_ok X s \<longleftrightarrow> neg (x_base X) \<and> (if neg (a_gs s) then a_gs s = x_base X else a_kgs s = x_base X)"

lemma copy9:
  assumes "apart 9 (a_rdi s - 72) (a_rsp s)"
  shows "a_mem (copy_frame 9 s) (a_rdi s - 72) = a_mem s (a_rsp s)" "a_mem (copy_frame 9 s) (a_rdi s - 64) = a_mem s (a_rsp s + 8)"
    "a_mem (copy_frame 9 s) (a_rdi s - 56) = a_mem s (a_rsp s + 16)" "a_mem (copy_frame 9 s) (a_rdi s - 48) = a_mem s (a_rsp s + 24)"
    "a_mem (copy_frame 9 s) (a_rdi s - 40) = a_mem s (a_rsp s + 32)" "a_mem (copy_frame 9 s) (a_rdi s - 32) = a_mem s (a_rsp s + 40)"
    "a_mem (copy_frame 9 s) (a_rdi s - 24) = a_mem s (a_rsp s + 48)" "a_mem (copy_frame 9 s) (a_rdi s - 16) = a_mem s (a_rsp s + 56)"
    "a_mem (copy_frame 9 s) (a_rdi s - 8) = a_mem s (a_rsp s + 64)"
  using copy_frame_words[of 9 s 0] copy_frame_words[of 9 s 1] copy_frame_words[of 9 s 2] copy_frame_words[of 9 s 3] copy_frame_words[of 9 s 4]
    copy_frame_words[of 9 s 5] copy_frame_words[of 9 s 6] copy_frame_words[of 9 s 7] copy_frame_words[of 9 s 8] assms
  by simp_all

text \<open>The destination: the stack that was in use when it was one of the kernel, otherwise the top of the thread's stack.\<close>

definition dest :: "ax \<Rightarrow> u64 \<Rightarrow> u64" where
  "dest X sp = (if neg sp then sp else x_sp0 X)"

text \<open>The words of a frame without and with an error code.\<close>

definition frame5 :: "am \<Rightarrow> u64 list" where
  "frame5 s = map (\<lambda>k. word_at (a_mem s) (a_rsp s) k) [0..<5]"

definition frame6 :: "am \<Rightarrow> u64 list" where
  "frame6 s = map (\<lambda>k. word_at (a_mem s) (a_rsp s) k) [0..<6]"

lemma frame5_words: "frame5 s = [a_mem s (a_rsp s), a_mem s (a_rsp s + 8), a_mem s (a_rsp s + 16), a_mem s (a_rsp s + 24), a_mem s (a_rsp s + 32)]"
  by (simp add: frame5_def word_at_def upt_rec[of 0 5] upt_rec[of "Suc _" 5])

lemma frame6_words:
  "frame6 s = [a_mem s (a_rsp s), a_mem s (a_rsp s + 8), a_mem s (a_rsp s + 16), a_mem s (a_rsp s + 24), a_mem s (a_rsp s + 32), a_mem s (a_rsp s + 40)]"
  by (simp add: frame6_def word_at_def upt_rec[of 0 6] upt_rec[of "Suc _" 6])

definition same_regs :: "am \<Rightarrow> am \<Rightarrow> bool" where
  "same_regs s s' \<longleftrightarrow> a_rax s' = a_rax s \<and> a_rdi s' = a_rdi s \<and> a_rsi s' = a_rsi s \<and> a_rcx s' = a_rcx s \<and> a_gs s' = a_gs s \<and> a_kgs s' = a_kgs s \<and> a_touched s' = a_touched s"

lemma swapgs_sel [simp]:
  "a_gs (swapgs s) = a_kgs s" "a_kgs (swapgs s) = a_gs s" "a_rsp (swapgs s) = a_rsp s" "a_mem (swapgs s) = a_mem s" "a_rdi (swapgs s) = a_rdi s"
  "a_rsi (swapgs s) = a_rsi s" "a_rcx (swapgs s) = a_rcx s" "a_rax (swapgs s) = a_rax s" "a_rip (swapgs s) = a_rip s" "a_touched (swapgs s) = a_touched s"
  by (simp_all add: swapgs_def)

lemma swapgs_back: "swapgs ((swapgs s)\<lparr>a_rdi := v\<rparr>) = s\<lparr>a_rdi := v\<rparr>"
  by (cases s) (simp add: swapgs_def)

definition no_err_saved :: "am \<Rightarrow> am" where
  "no_err_saved s = (let s = pushq (a_rdi s) s; s = s\<lparr>a_rdi := ld s 0x28\<rparr> in pushq (a_rcx s) (pushq (a_rsi s) s))"

lemma no_err_dest:
  assumes "gs_ok X s"
  shows "fix_ist_no_err_code X s = Inr (leave (copy_frame 9 ((no_err_saved s)\<lparr>a_rdi := dest X (a_rdi (no_err_saved s))\<rparr>)))"
proof -
  have gs: "a_gs (no_err_saved s) = a_gs s" "a_kgs (no_err_saved s) = a_kgs s" by (simp_all add: no_err_saved_def Let_def pushq_def)
  show ?thesis
    using assms gs unfolding fix_ist_no_err_code_def Let_def no_err_saved_def[unfolded Let_def, symmetric]
    by (auto simp: gs_ok_def dest_def percpu_def swapgs_back)
qed

lemma no_err_saved_sel:
  "a_rsp (no_err_saved s) = a_rsp s - 24" "a_rdi (no_err_saved s) = a_mem s (a_rsp s + 32)"
  "a_mem (no_err_saved s) = (a_mem s)(a_rsp s - 8 := a_rdi s, a_rsp s - 16 := a_rsi s, a_rsp s - 24 := a_rcx s)"
  "a_rax (no_err_saved s) = a_rax s" "a_gs (no_err_saved s) = a_gs s" "a_kgs (no_err_saved s) = a_kgs s" "a_touched (no_err_saved s) = a_touched s"
  by (simp_all add: no_err_saved_def Let_def pushq_def ld_def) (simp add: add.commute)

text \<open>A frame without an error code arrives at the destination, below which it is, and the remembered handler runs on it with all registers as they were.\<close>

lemma ef_entry_no_err:
  assumes "a_rsp s = 16 * q + 8" "gs_ok X s" "D = dest X (a_mem s (a_rsp s + 24))" "apart 9 (D - 72) (a_rsp s - 32)"
  shows "\<exists>s'. ef_entry T X i s = Inr s' \<and> a_rip s' = T ! i \<and> a_rsp s' = D - 40 \<and> frame5 s' = frame5 s \<and> same_regs s s'"
proof -
  define s1 where "s1 = ef_isr T i s"
  note e = ef_isr_sel[of T i s, folded s1_def]
  have al: "a_rsp s1 AND 8 = 0" using e(1) assms(1) aligned_and_8(1)[of q] by simp
  have g: "gs_ok X s1" using assms(2) e by (simp add: gs_ok_def)
  define s2 where "s2 = (no_err_saved s1)\<lparr>a_rdi := dest X (a_rdi (no_err_saved s1))\<rparr>"
  have r: "ef_entry T X i s = Inr (leave (copy_frame 9 s2))"
    unfolding ef_entry_def fix_ist_err_code_def s1_def[symmetric] s2_def using al no_err_dest[OF g] by simp
  have d: "a_rdi s2 = D" "a_rsp s2 = a_rsp s - 32" by (simp_all add: s2_def no_err_saved_sel e assms(3)) (simp add: add.commute)
  have m: "a_mem s2 = (a_mem s)(a_rsp s - 16 := a_rdi s, a_rsp s - 8 := T ! i, a_rsp s - 24 := a_rsi s, a_rsp s - 32 := a_rcx s)"
    by (auto simp: s2_def no_err_saved_sel e fun_upd_twist)
  have "apart 9 (a_rdi s2 - 72) (a_rsp s2)" using assms(4) d by simp
  note c = copy9[OF this, unfolded d m]
  have "a_rax s2 = a_rax s" "a_gs s2 = a_gs s" "a_kgs s2 = a_kgs s" "a_touched s2 = a_touched s" by (simp_all add: s2_def no_err_saved_sel e)
  then show ?thesis
    unfolding r by (intro exI[of _ "leave (copy_frame 9 s2)"]) (use c d in \<open>simp add: leave_sel frame5_words same_regs_def, simp add: add.commute\<close>)
qed

section \<open>Frames with an error code\<close>

lemma copy10:
  assumes "apart 10 (a_rdi s - 80) (a_rsp s)"
  shows "a_mem (copy_frame 10 s) (a_rdi s - 80) = a_mem s (a_rsp s)" "a_mem (copy_frame 10 s) (a_rdi s - 72) = a_mem s (a_rsp s + 8)"
    "a_mem (copy_frame 10 s) (a_rdi s - 64) = a_mem s (a_rsp s + 16)" "a_mem (copy_frame 10 s) (a_rdi s - 56) = a_mem s (a_rsp s + 24)"
    "a_mem (copy_frame 10 s) (a_rdi s - 48) = a_mem s (a_rsp s + 32)" "a_mem (copy_frame 10 s) (a_rdi s - 40) = a_mem s (a_rsp s + 40)"
    "a_mem (copy_frame 10 s) (a_rdi s - 32) = a_mem s (a_rsp s + 48)" "a_mem (copy_frame 10 s) (a_rdi s - 24) = a_mem s (a_rsp s + 56)"
    "a_mem (copy_frame 10 s) (a_rdi s - 16) = a_mem s (a_rsp s + 64)" "a_mem (copy_frame 10 s) (a_rdi s - 8) = a_mem s (a_rsp s + 72)"
  using copy_frame_words[of 10 s 0] copy_frame_words[of 10 s 1] copy_frame_words[of 10 s 2] copy_frame_words[of 10 s 3] copy_frame_words[of 10 s 4]
    copy_frame_words[of 10 s 5] copy_frame_words[of 10 s 6] copy_frame_words[of 10 s 7] copy_frame_words[of 10 s 8] copy_frame_words[of 10 s 9] assms
  by simp_all

text \<open>After the first part the kernel's base is loaded, and the saved flags carry the mark exactly when it was not before.\<close>

definition marked :: "am \<Rightarrow> u64 \<Rightarrow> u64" where
  "marked s fl = (if neg (a_gs s) then fl else fl OR RFLAGS_SWAPPED_GS)"

lemma err_enter_sel:
  "a_rsp (err_enter s) = a_rsp s - 24" "a_rdi (err_enter s) = a_mem s (a_rsp s + 40)" "a_rax (err_enter s) = a_rax s" "a_touched (err_enter s) = a_touched s"
  "a_gs (err_enter s) = (if neg (a_gs s) then a_gs s else a_kgs s)" "a_kgs (err_enter s) = (if neg (a_gs s) then a_kgs s else a_gs s)"
  "a_mem (err_enter s) (a_rsp s - 24) = a_rcx s" "a_mem (err_enter s) (a_rsp s - 16) = a_rsi s" "a_mem (err_enter s) (a_rsp s - 8) = a_rdi s"
  "a_mem (err_enter s) (a_rsp s) = a_mem s (a_rsp s)" "a_mem (err_enter s) (a_rsp s + 8) = a_mem s (a_rsp s + 8)"
  "a_mem (err_enter s) (a_rsp s + 16) = a_mem s (a_rsp s + 16)" "a_mem (err_enter s) (a_rsp s + 24) = a_mem s (a_rsp s + 24)"
  "a_mem (err_enter s) (a_rsp s + 32) = marked s (a_mem s (a_rsp s + 32))" "a_mem (err_enter s) (a_rsp s + 40) = a_mem s (a_rsp s + 40)"
  "a_mem (err_enter s) (a_rsp s + 48) = a_mem s (a_rsp s + 48)"
  by (simp_all add: err_enter_def Let_def pushq_def ld_def st_def marked_def) (simp_all add: add.commute)

text \<open>What the handler sees in place of an error code, a code segment and a stack segment.\<close>

definition as_user :: "ax \<Rightarrow> bool" where
  "as_user X \<longleftrightarrow> x_elevated X \<and> \<not> neg (x_cr2 X)"

lemma err_flags_sel:
  assumes "a_gs s = x_base X"
  shows "\<exists>s'. err_flags X s = Inr s' \<and> a_rsp s' = a_rsp s \<and> a_rdi s' = a_rdi s \<and> a_rax s' = a_rax s \<and> a_gs s' = a_gs s \<and> a_kgs s' = a_kgs s \<and> a_touched s' = a_touched s
    \<and> a_mem s' = (if as_user X then (a_mem s)(a_rsp s + 32 := a_mem s (a_rsp s + 32) OR ERRCODE_PF_USER, a_rsp s + 48 := USER_CS, a_rsp s + 72 := USER_SS) else a_mem s)"
  using assms by (simp add: err_flags_def percpu_def Let_def as_user_def st_def ld_def)

lemma swapped_bits:
  "fl AND RFLAGS_SWAPPED_GS = 0 \<Longrightarrow> (fl OR RFLAGS_SWAPPED_GS) AND RFLAGS_SWAPPED_GS \<noteq> 0"
  "fl AND RFLAGS_SWAPPED_GS = 0 \<Longrightarrow> (fl OR RFLAGS_SWAPPED_GS) AND NOT RFLAGS_SWAPPED_GS = fl"
proof -
  have ne: "RFLAGS_SWAPPED_GS \<noteq> 0" by (simp add: RFLAGS_SWAPPED_GS_def)
  assume z: "fl AND RFLAGS_SWAPPED_GS = 0"
  show "(fl OR RFLAGS_SWAPPED_GS) AND RFLAGS_SWAPPED_GS \<noteq> 0" using z ne by (simp add: bit.conj_disj_distrib2)
  have b: "\<not> (bit fl n \<and> bit RFLAGS_SWAPPED_GS n)" for n using arg_cong[OF z, of "\<lambda>w. bit w n"] by (simp add: bit_and_iff)
  show "(fl OR RFLAGS_SWAPPED_GS) AND NOT RFLAGS_SWAPPED_GS = fl"
    by (rule bit_word_eqI) (use b in \<open>auto simp: bit_and_iff bit_or_iff bit_not_iff possible_bit_def\<close>)
qed

text \<open>A frame with an error code, as the handler sees it.\<close>

definition shown :: "ax \<Rightarrow> u64 list \<Rightarrow> u64 list" where
  "shown X f = (if as_user X then [f ! 0 OR ERRCODE_PF_USER, f ! 1, USER_CS, f ! 3, f ! 4, USER_SS] else f)"

lemma err_leave_sel:
  assumes "apart 10 (a_rdi s - 80) (a_rsp s)" and "fl0 AND RFLAGS_SWAPPED_GS = 0"
    and "a_mem s (a_rsp s + 56) = (if sw then fl0 OR RFLAGS_SWAPPED_GS else fl0)"
  shows "a_rcx (err_leave s) = a_mem s (a_rsp s)" "a_rsi (err_leave s) = a_mem s (a_rsp s + 8)" "a_rdi (err_leave s) = a_mem s (a_rsp s + 16)"
    "a_rip (err_leave s) = a_mem s (a_rsp s + 24)" "a_rsp (err_leave s) = a_rdi s - 48" "a_rax (err_leave s) = a_rax s" "a_touched (err_leave s) = a_touched s"
    "a_gs (err_leave s) = (if sw then a_kgs s else a_gs s)" "a_kgs (err_leave s) = (if sw then a_gs s else a_kgs s)"
    "frame6 (err_leave s) = [a_mem s (a_rsp s + 32), a_mem s (a_rsp s + 40), a_mem s (a_rsp s + 48), fl0, a_mem s (a_rsp s + 64), a_mem s (a_rsp s + 72)]"
  using copy10[OF assms(1)] assms(2,3) swapped_bits[OF assms(2)]
  by (simp_all add: err_leave_def Let_def leave_sel frame6_words ld_def st_def split: if_splits)

text \<open>The stub and the first part together, in terms of the frame that the processor left at \<open>a_rsp s\<close>.\<close>

definition entered :: "u64 list \<Rightarrow> nat \<Rightarrow> am \<Rightarrow> am" where
  "entered T i s = err_enter (ef_isr T i s)"

lemma entered_sel:
  "a_rsp (entered T i s) = a_rsp s - 32" "a_rdi (entered T i s) = a_mem s (a_rsp s + 32)" "a_rax (entered T i s) = a_rax s" "a_touched (entered T i s) = a_touched s"
  "a_gs (entered T i s) = (if neg (a_gs s) then a_gs s else a_kgs s)" "a_kgs (entered T i s) = (if neg (a_gs s) then a_kgs s else a_gs s)"
  "a_mem (entered T i s) (a_rsp s - 32) = a_rcx s" "a_mem (entered T i s) (a_rsp s - 24) = a_rsi s" "a_mem (entered T i s) (a_rsp s - 16) = a_rdi s"
  "a_mem (entered T i s) (a_rsp s - 8) = T ! i" "a_mem (entered T i s) (a_rsp s) = a_mem s (a_rsp s)"
  "a_mem (entered T i s) (a_rsp s + 8) = a_mem s (a_rsp s + 8)" "a_mem (entered T i s) (a_rsp s + 16) = a_mem s (a_rsp s + 16)"
  "a_mem (entered T i s) (a_rsp s + 24) = marked s (a_mem s (a_rsp s + 24))" "a_mem (entered T i s) (a_rsp s + 32) = a_mem s (a_rsp s + 32)"
  "a_mem (entered T i s) (a_rsp s + 40) = a_mem s (a_rsp s + 40)"
  using err_enter_sel[of "ef_isr T i s"] unfolding ef_isr_sel by (simp_all add: entered_def marked_def ef_isr_sel(7)) (simp_all add: add.commute)

lemma entered_gs: "gs_ok X s \<Longrightarrow> a_gs (entered T i s) = x_base X"
  by (simp add: gs_ok_def entered_sel split: if_splits)

lemma err_path:
  assumes "a_rsp s = 16 * q" "gs_ok X s"
  shows "ef_entry T X i s =
    (let s1 = entered T i s; sp = a_mem s (a_rsp s + 32);
         s2 = s1\<lparr>a_rsi := x_sp0 X - (x_thread_size X + 0x1000), a_rcx := x_cr2 X AND NOT 0xfff\<rparr>
     in if \<not> neg sp then rbind (err_flags X (s1\<lparr>a_rdi := x_sp0 X\<rparr>)) (\<lambda>s. Inr (err_leave s))
        else if neg ((x_cr2 X AND NOT 0xfff) AND (x_sp0 X - (x_thread_size X + 0x1000))) then Inr (err_double_fault X s2)
        else rbind (err_flags X s2) (\<lambda>s. Inr (err_leave s)))"
proof -
  have "a_rsp (ef_isr T i s) AND 8 \<noteq> 0" using stub_aligned[of q] assms(1) by (simp add: ef_isr_sel)
  moreover have "a_gs (entered T i s) = x_base X" by (rule entered_gs[OF assms(2)])
  ultimately show ?thesis
    unfolding ef_entry_def fix_ist_err_code_def entered_def[symmetric] Let_def by (simp add: percpu_def entered_sel(2))
qed

text \<open>A frame with an error code arrives at its destination, unless the stack and the last faulting address both belong to the kernel.\<close>

lemma ef_entry_err:
  assumes "a_rsp s = 16 * q" "gs_ok X s" "frame6 s = f" "f ! 3 AND RFLAGS_SWAPPED_GS = 0" "D = dest X (f ! 4)" "apart 10 (D - 80) (a_rsp s - 32)"
    and "\<not> (neg (f ! 4) \<and> neg ((x_cr2 X AND NOT 0xfff) AND (x_sp0 X - (x_thread_size X + 0x1000))))"
  shows "\<exists>s'. ef_entry T X i s = Inr s' \<and> a_rip s' = T ! i \<and> a_rsp s' = D - 48 \<and> frame6 s' = shown X f \<and> same_regs s s'"
proof -
  have f: "f = [a_mem s (a_rsp s), a_mem s (a_rsp s + 8), a_mem s (a_rsp s + 16), a_mem s (a_rsp s + 24), a_mem s (a_rsp s + 32), a_mem s (a_rsp s + 40)]"
    using assms(3) by (simp add: frame6_words)
  define t where "t = (if neg (f ! 4) then (entered T i s)\<lparr>a_rsi := x_sp0 X - (x_thread_size X + 0x1000), a_rcx := x_cr2 X AND NOT 0xfff\<rparr>
    else (entered T i s)\<lparr>a_rdi := x_sp0 X\<rparr>)"
  have t: "a_mem t = a_mem (entered T i s)" "a_rsp t = a_rsp s - 32" "a_rdi t = D" "a_rax t = a_rax s" "a_touched t = a_touched s"
    "a_gs t = a_gs (entered T i s)" "a_kgs t = a_kgs (entered T i s)"
    by (simp_all add: t_def entered_sel(1-4) assms(5) dest_def f)
  have e: "ef_entry T X i s = rbind (err_flags X t) (\<lambda>s. Inr (err_leave s))"
    unfolding err_path[OF assms(1,2)] Let_def t_def using assms(7) f by simp
  have "a_gs t = x_base X" using t(6) entered_gs[OF assms(2)] by simp
  then obtain u where u: "err_flags X t = Inr u" "a_rsp u = a_rsp s - 32" "a_rdi u = D" "a_rax u = a_rax s" "a_gs u = a_gs (entered T i s)" "a_kgs u = a_kgs (entered T i s)"
      "a_touched u = a_touched s" "a_mem u = (if as_user X then (a_mem t)(a_rsp s := a_mem t (a_rsp s) OR ERRCODE_PF_USER, a_rsp s + 16 := USER_CS, a_rsp s + 40 := USER_SS) else a_mem t)"
    using err_flags_sel[of t X] t by (auto simp: add.commute)
  have a: "apart 10 (a_rdi u - 80) (a_rsp u)" using assms(6) u(2,3) by simp
  have fl: "a_mem u (a_rsp u + 56) = (if \<not> neg (a_gs s) then f ! 3 OR RFLAGS_SWAPPED_GS else f ! 3)"
    using u(2,8) t(1) entered_sel(14)[of T i s] by (simp add: f marked_def) (simp add: add.commute)
  note l = err_leave_sel[OF a assms(4) fl]
  note w = entered_sel(7-16)[of T i s, folded t(1)]
  have "frame6 (err_leave u) = shown X f" unfolding l(10) shown_def using w u(2,8) by (simp add: f) (simp add: add.commute)
  moreover have "a_rip (err_leave u) = T ! i" "a_rsp (err_leave u) = D - 48" using l(4,5) w u(2,3,8) by simp_all
  moreover have "same_regs s (err_leave u)" using l w u(2-8) entered_sel(5,6)[of T i s] by (simp add: same_regs_def)
  ultimately show ?thesis using e u(1) by simp
qed

section \<open>Properties\<close>

text \<open>
  C31. The stubs deliver every frame. Whether or not the processor has pushed an error code, which the alignment of the stack tells, and whichever base is loaded, the stub of a vector ends in the handler that is recorded for it. All registers
  and both bases are as they were, and the stack pointer is at a copy of the frame below the stack that was in use, when that is one of the kernel, or below the top of the thread's stack. The copy is exact, except that a frame with an
  error code of an elevated task with a last faulting address of the user is shown as one of the user. The one exception is a frame with an error code from a kernel stack with a last faulting address of the kernel.\<close>

theorem ef_entry_delivers:
  assumes "gs_ok X s"
  shows "(a_rsp s = 16 * q + 8 \<and> apart 9 (dest X (frame5 s ! 3) - 72) (a_rsp s - 32) \<longrightarrow>
      (\<exists>s'. ef_entry T X i s = Inr s' \<and> a_rip s' = T ! i \<and> a_rsp s' = dest X (frame5 s ! 3) - 40 \<and> frame5 s' = frame5 s \<and> same_regs s s'))
    \<and> (a_rsp s = 16 * q \<and> apart 10 (dest X (frame6 s ! 4) - 80) (a_rsp s - 32) \<and> frame6 s ! 3 AND RFLAGS_SWAPPED_GS = 0 \<and> \<not> (neg (frame6 s ! 4) \<and> neg (x_cr2 X)) \<longrightarrow>
      (\<exists>s'. ef_entry T X i s = Inr s' \<and> a_rip s' = T ! i \<and> a_rsp s' = dest X (frame6 s ! 4) - 48 \<and> frame6 s' = shown X (frame6 s) \<and> same_regs s s'))"
proof -
  have 5: "frame5 s ! 3 = a_mem s (a_rsp s + 24)" by (simp add: frame5_words)
  have c: "neg ((x_cr2 X AND NOT 0xfff) AND w) \<Longrightarrow> neg (x_cr2 X)" for w by (simp add: neg_def bit_and_iff)
  show ?thesis
    using ef_entry_no_err[OF _ assms, of q "dest X (frame5 s ! 3)" T i] ef_entry_err[OF _ assms refl _ refl, of q T i] 5 c by metis
qed

text \<open>A machine at its first exception: a user stack in use, the user's base loaded, a frame of five words at \<open>0x1008\<close>.\<close>

definition demo_am :: am where
  "demo_am = \<lparr>a_rax = 1, a_rdi = 2, a_rsi = 3, a_rcx = 4, a_rsp = 0x1008, a_rip = 0, a_mem = (\<lambda>a. a + 1), a_gs = 0x10, a_kgs = 0x8000000000000000, a_touched = [], a_pf_cnt = 0, a_df_cnt = 0, a_gp_cnt = 0\<rparr>"

definition demo_ax :: ax where
  "demo_ax = \<lparr>x_base = 0x8000000000000000, x_sp0 = 0x9000, x_thread_size = 0x4000, x_current = 0, x_elevated = False, x_cr2 = 0, x_pf = 1, x_df = 2, x_gp = 3, x_df_location = 4\<rparr>"

lemma demo_neg: "neg 0x8000000000000000" "\<not> neg 0x10" "\<not> neg 0x1021"
  by (simp_all add: neg_def)

lemma apart_far:
  assumes "unat d + 80 \<le> 2 ^ 63" "unat e + 80 \<le> unat d" "n \<le> 10"
  shows "apart n d e"
  unfolding apart_def
proof (intro allI impI)
  fix i j assume ij: "i < n" "j < n"
  have u: "unat (w + 8 * of_nat k) = unat w + 8 * k" if "unat w + 80 \<le> 2 ^ 63" "k < 10" for w :: u64 and k
    using that by (intro of_nat_inverse) simp_all
  have "unat (e + 8 * of_nat j) < unat d" using u[of e j] assms ij by simp
  then have "unat (d + 8 * of_nat i) \<noteq> unat (e + 8 * of_nat j)" using u[of d i] assms ij by simp
  then show "d + 8 * of_nat i \<noteq> e + 8 * of_nat j" by metis
qed

theorem ef_entry_delivers_witness:
  "\<exists>s'. ef_entry [0x77] demo_ax 0 demo_am = Inr s' \<and> a_rip s' = 0x77 \<and> a_rsp s' = 0x9000 - 40 \<and> frame5 s' = frame5 demo_am \<and> same_regs demo_am s'"
proof -
  have g: "gs_ok demo_ax demo_am" using demo_neg by (simp add: gs_ok_def demo_ax_def demo_am_def)
  have d: "dest demo_ax (frame5 demo_am ! 3) = 0x9000" using demo_neg by (simp add: dest_def frame5_words demo_am_def demo_ax_def)
  have a: "apart 9 (0x9000 - 72) (a_rsp demo_am - 32)" by (rule apart_far) (simp_all add: demo_am_def)
  show ?thesis using ef_entry_delivers[OF g, of "0x100" "[0x77]" 0] d a by (simp add: demo_am_def)
qed

text \<open>
  C38. Faults of the kernel become double faults. The check whether the faulting address lies on the page below the kernel's stack takes the conjunction of the two addresses and looks at its sign, so that on a kernel stack every exception with an
  error code is handed to the double fault handler, as long as the last faulting address, wherever it is, belongs to the kernel; the frame and the registers are those that the processor left.\<close>

theorem kernel_faults_are_double_faults:
  assumes "gs_ok X s" and "neg (a_gs s)" and "a_rsp s = 16 * q" and "neg (frame6 s ! 4)" and "neg (x_cr2 X)" and "neg (x_sp0 X - (x_thread_size X + 0x1000))"
  shows "\<exists>s'. ef_entry T X i s = Inr s' \<and> a_rip s' = x_df_location X \<and> a_rsp s' = a_rsp s \<and> frame6 s' = frame6 s \<and> same_regs s s'"
proof -
  let ?s2 = "(entered T i s)\<lparr>a_rsi := x_sp0 X - (x_thread_size X + 0x1000), a_rcx := x_cr2 X AND NOT 0xfff\<rparr>"
  have "bit (NOT 0xfff :: u64) 63" by simp
  then have n: "neg ((x_cr2 X AND NOT 0xfff) AND (x_sp0 X - (x_thread_size X + 0x1000)))" using assms(5,6) unfolding neg_def bit_and_iff by blast
  have "neg (a_mem s (a_rsp s + 32))" using assms(4) by (simp add: frame6_words)
  then have e: "ef_entry T X i s = Inr (err_double_fault X ?s2)" unfolding err_path[OF assms(3,1)] Let_def using n by simp
  have "a_rip (err_double_fault X ?s2) = x_df_location X" by (simp add: err_double_fault_def jmp_def)
  moreover have "a_rsp (err_double_fault X ?s2) = a_rsp s" "a_mem (err_double_fault X ?s2) = a_mem (entered T i s)"
    by (simp_all add: err_double_fault_def jmp_def popped_def pop_rdi_def pop_rsi_def pop_rcx_def entered_sel)
  moreover have "frame6 (err_double_fault X ?s2) = frame6 s"
    using calculation(2,3) assms(2) by (simp add: frame6_words entered_sel marked_def)
  moreover have "same_regs s (err_double_fault X ?s2)"
    using assms(2) by (simp add: same_regs_def err_double_fault_def jmp_def popped_def pop_rdi_def pop_rsi_def pop_rcx_def ld_def entered_sel)
  ultimately show ?thesis using e by blast
qed

text \<open>A machine in the kernel, with an error code on the stack and a kernel stack in the frame; the last faulting address is one of the kernel, far from its stack.\<close>

definition demo_kernel :: am where
  "demo_kernel = demo_am\<lparr>a_rsp := 0x1000, a_mem := (\<lambda>a. 0x8000000000004000), a_gs := 0x8000000000000000\<rparr>"

definition demo_kernel_ax :: ax where
  "demo_kernel_ax = demo_ax\<lparr>x_sp0 := 0x800000000000a000, x_cr2 := 0x9000000000000123\<rparr>"

theorem kernel_faults_are_double_faults_witness:
  "\<exists>s'. ef_entry [0x77] demo_kernel_ax 0 demo_kernel = Inr s' \<and> a_rip s' = 4 \<and> a_rsp s' = 0x1000 \<and> frame6 s' = frame6 demo_kernel \<and> same_regs demo_kernel s'"
proof -
  have "neg 0x8000000000004000" "neg 0x8000000000005000" "neg 0x9000000000000123" by (simp_all add: neg_def)
  then show ?thesis
    using kernel_faults_are_double_faults[of demo_kernel_ax demo_kernel "0x100" "[0x77]" 0] demo_neg
    by (simp add: gs_ok_def demo_kernel_def demo_kernel_ax_def demo_am_def demo_ax_def frame6_words)
qed

text \<open>
  C18. The error code is corrected exactly for elevated tasks. With the kernel's base loaded and an elevated task the page fault handler is entered with the user bit of the error code set, and the double fault of such a task enters the page
  fault handler as a write of the user; in all other cases the error code stays and the handler of the vector is entered. The stack pointer, the rest of the frame and all registers are as they were.\<close>

theorem error_code_corrected:
  assumes "neg (a_gs s) \<Longrightarrow> a_gs s = x_base X"
  defines "e \<equiv> neg (a_gs s) \<and> x_elevated X" and "f \<equiv> frame6 s"
  shows "\<exists>u w. fix_err_code_u X s = Inr u \<and> a_rip u = x_pf X \<and> frame6 u = (if e then f[0 := f ! 0 OR 4] else f)
      \<and> fix_err_code_uw X s = Inr w \<and> a_rip w = (if e then x_pf X else x_df X) \<and> frame6 w = (if e then f[0 := f ! 0 OR 6] else f)
      \<and> (\<forall>v \<in> {u, w}. a_rsp v = a_rsp s \<and> a_rax v = a_rax s \<and> a_rdi v = a_rdi s \<and> a_rsi v = a_rsi s \<and> a_rcx v = a_rcx s \<and> a_gs v = a_gs s \<and> a_kgs v = a_kgs s)"
proof -
  have u: "\<exists>u. fix_err_code_u X s = Inr u \<and> a_rip u = x_pf X \<and> frame6 u = (if e then f[0 := f ! 0 OR 4] else f)
      \<and> a_rsp u = a_rsp s \<and> a_rax u = a_rax s \<and> a_rdi u = a_rdi s \<and> a_rsi u = a_rsi s \<and> a_rcx u = a_rcx s \<and> a_gs u = a_gs s \<and> a_kgs u = a_kgs s"
    using assms(1) by (cases "neg (a_gs s)"; cases "neg (a_rsp s)"; cases "x_elevated X")
      (simp_all add: fix_err_code_u_def Let_def touch_below_def percpu_def error_code_sel e_def f_def frame6_words ERRCODE_PF_USER_def)
  have w: "\<exists>w. fix_err_code_uw X s = Inr w \<and> a_rip w = (if e then x_pf X else x_df X) \<and> frame6 w = (if e then f[0 := f ! 0 OR 6] else f)
      \<and> a_rsp w = a_rsp s \<and> a_rax w = a_rax s \<and> a_rdi w = a_rdi s \<and> a_rsi w = a_rsi s \<and> a_rcx w = a_rcx s \<and> a_gs w = a_gs s \<and> a_kgs w = a_kgs s"
    using assms(1) by (cases "neg (a_gs s)"; cases "x_elevated X")
      (simp_all add: fix_err_code_uw_def Let_def percpu_def error_code_sel e_def f_def frame6_words ERRCODE_PF_USER_def ERRCODE_PF_WRITE_def)
  show ?thesis using u w by blast
qed

theorem error_code_corrected_witness:
  "\<exists>w. fix_err_code_uw (demo_ax\<lparr>x_elevated := True\<rparr>) demo_kernel = Inr w \<and> a_rip w = 1 \<and> frame6 w ! 0 = 0x8000000000004006"
  using error_code_corrected[of demo_kernel "demo_ax\<lparr>x_elevated := True\<rparr>"] demo_neg
  by (auto simp: demo_kernel_def demo_am_def demo_ax_def frame6_words)

end
