(* ===== verification/Adaptor_Test.thy ===== *)
theory Adaptor_Test
  imports Adaptor_Asm
begin

text \<open>
  What \<open>kcuttest/efadaptor.kc\<close> and \<open>pfadaptor.kc\<close> have for testing the adaptors: the handler that records the frame it was entered with, the counters of the handlers that correct an error code, the entries of \<open>pfasm.kS\<close> that first
  load another stack pointer, and the touching of the module's pages before the stubs are installed.

  The C function of the test handler is compiled code: the values it leaves in the registers that a call may change are an argument, and so is the return address that the call stores.
\<close>

section \<open>Operations\<close>

text \<open>\<open>touch_pages\<close>: the addresses it reads. Nothing in the loop guards against an end of the text at the end of the address space, so it is a partial function.\<close>

partial_function (option) touch_pages_loop :: "u64 \<Rightarrow> u64 \<Rightarrow> u64 list option" where
  "touch_pages_loop fin addr = (if addr < fin then Option.bind (touch_pages_loop fin (addr + 4096)) (\<lambda>l. Some (addr # l)) else Some [])"

definition touch_pages :: "u64 \<Rightarrow> u32 \<Rightarrow> u64 list option" where
  "touch_pages base len = touch_pages_loop (base + ucast len) base"

text \<open>The test handler. Its data is one array for each processor; this is the one of the processor that runs it.\<close>

definition NR_TSTHDLR_DATA :: nat where "NR_TSTHDLR_DATA = 5"

definition ef_adaptor_tsthdlr :: "ax \<Rightarrow> u64 \<times> u64 \<times> u64 \<times> u64 \<Rightarrow> am \<Rightarrow> (am \<times> u64 list) res" where
  "ef_adaptor_tsthdlr X left s =
     rbind (percpu X s (\<lambda>_. map (\<lambda>i. a_mem s (a_rdi s + 8 * of_nat (i + 1))) [0..<NR_TSTHDLR_DATA])) (\<lambda>data.
     case left of (ax, di, si, cx) \<Rightarrow> Inr (s\<lparr>a_rax := ax, a_rdi := di, a_rsi := si, a_rcx := cx\<rparr>, data))"

definition iretq :: "am \<Rightarrow> am" where
  "iretq s = s\<lparr>a_rip := ld s 0, a_rsp := ld s 24\<rparr>"

definition ef_adaptor_tsthdlr_asm :: "ax \<Rightarrow> u64 \<Rightarrow> u64 \<times> u64 \<times> u64 \<times> u64 \<Rightarrow> am \<Rightarrow> (am \<times> u64 list) res" where
  "ef_adaptor_tsthdlr_asm X ret left s =
     (let s = swapgs s;
          s = pushq (a_rdi s) s;
          s = s\<lparr>a_rdi := a_rsp s\<rparr>;
          s = pushq ret s
      in rbind (ef_adaptor_tsthdlr X left s) (\<lambda>(s, data).
         Inr (iretq (swapgs (pop_rdi (popped s))), data)))"

text \<open>The counters.\<close>

definition pf_adaptor_pf_cnt_get :: "am \<Rightarrow> u64" where "pf_adaptor_pf_cnt_get s = a_pf_cnt s"
definition pf_adaptor_df_cnt_get :: "am \<Rightarrow> u64" where "pf_adaptor_df_cnt_get s = a_df_cnt s"
definition pf_adaptor_gp_cnt_get :: "am \<Rightarrow> u64" where "pf_adaptor_gp_cnt_get s = a_gp_cnt s"

text \<open>The entries that load the stack pointer \<open>new_rsp\<close> and fall into the code behind them, and the function that uses the first of them.\<close>

definition fix_ist_err_code_stack_swing :: "ax \<Rightarrow> u64 \<Rightarrow> am \<Rightarrow> am res" where
  "fix_ist_err_code_stack_swing X new_rsp s = fix_ist_err_code X (pushq (a_rdi s) (s\<lparr>a_rsp := new_rsp\<rparr>))"

definition fix_ist_no_err_code_stack_swing :: "ax \<Rightarrow> u64 \<Rightarrow> am \<Rightarrow> am res" where
  "fix_ist_no_err_code_stack_swing X new_rsp s = fix_ist_no_err_code X (s\<lparr>a_rsp := new_rsp\<rparr>)"

definition cause_df :: "ax \<Rightarrow> am \<Rightarrow> am res" where
  "cause_df X s = rbind (percpu X s x_sp0) (\<lambda>v. fix_ist_err_code_stack_swing X (v - 0x2000) s)"

section \<open>Touching the pages\<close>

lemma touch_pages_loop_eq:
  assumes "unat base + 4096 * (k + 1) \<le> 2 ^ 64" and "unat fin \<le> unat base + 4096 * k" and "\<And>j. j < k \<Longrightarrow> unat base + 4096 * j < unat fin"
  shows "touch_pages_loop fin base = Some (map (\<lambda>i. base + 4096 * of_nat i) [0..<k])"
  using assms
proof (induction k arbitrary: base)
  case 0
  then have "\<not> base < fin" by (simp add: word_less_nat_alt)
  then show ?case by (subst touch_pages_loop.simps) simp
next
  case (Suc k)
  have u: "unat (base + 4096) = unat base + 4096" using Suc.prems(1) by (subst unat_add_lem[THEN iffD1]) simp_all
  have "touch_pages_loop fin (base + 4096) = Some (map (\<lambda>i. base + 4096 + 4096 * of_nat i) [0..<k])"
  proof (rule Suc.IH)
    show "unat (base + 4096) + 4096 * j < unat fin" if "j < k" for j using Suc.prems(3)[of "Suc j"] that u by simp
  qed (use Suc.prems(1,2) u in simp_all)
  moreover have "base < fin" using Suc.prems(3)[of 0] by (simp add: word_less_nat_alt)
  moreover have "base # map (\<lambda>i. base + 4096 + 4096 * of_nat i) [0..<k] = map (\<lambda>i. base + 4096 * of_nat i) [0..<Suc k]"
    unfolding upt_conv_Cons[OF zero_less_Suc] map_Suc_upt[symmetric] by (simp add: algebra_simps)
  ultimately show ?case by (subst touch_pages_loop.simps) simp
qed


lemma unat_widen [simp]: "unat (ucast (w :: u32) :: u64) = unat w"
proof -
  have "unat w < 2 ^ 32" using unsigned_less[of w] by simp
  then show ?thesis by (simp add: unsigned_ucast_eq take_bit_nat_eq_self)
qed

text \<open>The number of pages that the text covers.\<close>

definition pages_of :: "nat \<Rightarrow> nat" where
  "pages_of n = (n + 4095) div 4096"

lemma pages_of_bounds: "4096 * pages_of n < n + 4096" "n \<le> 4096 * pages_of n"
proof -
  have "4096 * pages_of n + (n + 4095) mod 4096 = n + 4095" by (simp add: pages_of_def)
  moreover have "(n + 4095) mod 4096 < 4096" by simp
  ultimately show "4096 * pages_of n < n + 4096" "n \<le> 4096 * pages_of n" by linarith+
qed

lemma pages_of_less: "j < pages_of n \<Longrightarrow> 4096 * j < n"
  using pages_of_bounds(1)[of n] by linarith

text \<open>
  The loop over the pages of the module ends and reads one byte of every page of the text, when the text does not reach the last page of the address space.\<close>

theorem touch_pages_covers:
  assumes "unat base + unat len + 4096 \<le> 2 ^ 64" and "4096 dvd unat base"
  shows "\<exists>l. touch_pages base len = Some l \<and> length l = pages_of (unat len)
    \<and> (\<forall>a. unat base \<le> unat a \<and> unat a < unat base + unat len \<longrightarrow> (\<exists>x \<in> set l. unat x div 4096 = unat (a :: u64) div 4096))"
proof -
  let ?k = "pages_of (unat len)"
  note k = pages_of_bounds[of "unat len"]
  have fin: "unat (base + ucast len) = unat base + unat len"
    using assms(1) by (subst unat_add_lem[THEN iffD1]) simp_all
  obtain b where b: "unat base = 4096 * b" using assms(2) by (auto elim: dvdE)
  have b2: "4096 * ?k + 4096 \<le> 2 ^ 64 - 4096 * b"
  proof -
    have "4096 * (b + ?k) < 2 ^ 64" using k(1) assms(1) b by simp
    then have "b + ?k < 2 ^ 52" by simp
    then show ?thesis by simp
  qed
  have l: "touch_pages base len = Some (map (\<lambda>i. base + 4096 * of_nat i) [0..<?k])"
    unfolding touch_pages_def
  proof (rule touch_pages_loop_eq)
    show "unat base + 4096 * (?k + 1) \<le> 2 ^ 64" using b2 b k assms(1) by simp
    show "unat base + 4096 * j < unat (base + ucast len)" if "j < ?k" for j
      using pages_of_less[OF that] fin by simp
  qed (use fin k in simp)
  have page: "unat (base + 4096 * of_nat i) = 4096 * (b + i)" if "i < ?k" for i
  proof -
    have w: "base = of_nat (4096 * b)" unfolding b[symmetric] by simp
    have "base + 4096 * of_nat i = of_nat (4096 * (b + i))" unfolding w by (simp add: algebra_simps)
    moreover have "4096 * (b + i) < 2 ^ 64" using b2 that by simp
    ultimately show ?thesis by (simp only: unat_of_nat) simp
  qed
  have "\<exists>x \<in> set (map (\<lambda>i. base + 4096 * of_nat i) [0..<?k]). unat x div 4096 = unat a div 4096"
    if a: "unat base \<le> unat a" "unat a < unat base + unat len" for a :: u64
  proof -
    define i where "i = unat a div 4096 - b"
    have "b \<le> unat a div 4096" using a(1) b by (metis div_le_mono nonzero_mult_div_cancel_left zero_neq_numeral)
    moreover have "unat a < 4096 * (b + ?k)" using a(2) b k(2) by simp
    then have "unat a div 4096 < b + ?k" by (simp add: less_mult_imp_div_less mult.commute)
    ultimately have i: "i < ?k" "b + i = unat a div 4096" by (simp_all add: i_def)
    show ?thesis using page[OF i(1)] i by (intro bexI[of _ "base + 4096 * of_nat i"]) auto
  qed
  then show ?thesis using l by simp
qed


section \<open>The test handler\<close>

text \<open>
  The test handler on a frame without an error code. Entered with the user's base loaded it records the five words of the frame and returns to the interrupted code, on its stack, with the base and one register as they were; the other
  registers that a call may change have the values that the compiled function has left in them. Entered with the kernel's base loaded it exchanges that for the other one and fails.\<close>

lemma tsthdlr_records:
  assumes "a_kgs s = x_base X"
  shows "\<exists>s'. ef_adaptor_tsthdlr_asm X ret (ax, di, si, cx) s = Inr (s', frame5 s) \<and> a_rip s' = frame5 s ! 0 \<and> a_rsp s' = frame5 s ! 3
    \<and> a_rdi s' = a_rdi s \<and> a_gs s' = a_gs s \<and> a_kgs s' = a_kgs s \<and> a_rax s' = ax \<and> a_rsi s' = si \<and> a_rcx s' = cx"
  using assms
  by (simp add: ef_adaptor_tsthdlr_asm_def ef_adaptor_tsthdlr_def Let_def swapgs_def pushq_def percpu_def popped_def pop_rdi_def ld_def iretq_def
      NR_TSTHDLR_DATA_def frame5_words upt_rec[of 0 5] upt_rec[of "Suc _" 5]) (simp add: add.commute)

lemma tsthdlr_needs_user_base:
  assumes "a_kgs s \<noteq> x_base X"
  shows "ef_adaptor_tsthdlr_asm X ret left s = Inl Out_of_bounds"
  using assms by (cases left) (simp add: ef_adaptor_tsthdlr_asm_def ef_adaptor_tsthdlr_def Let_def swapgs_def pushq_def percpu_def)

text \<open>
  An interrupt goes through the stub and the test handler and back. When a vector without an error code has the test handler recorded, and user code is interrupted, the stub followed by the handler records exactly the frame that
  the processor has pushed and returns to the interrupted instruction and stack, with the base as it was; but of the registers only \<open>rdi\<close> is saved around the C function, so that the interrupted code finds in the others what that function
  has left there.\<close>

theorem test_vector_returns:
  assumes "a_rsp s = 16 * q + 8" and "\<not> neg (a_gs s)" and "a_kgs s = x_base X" and "neg (x_base X)"
    and "apart 9 (dest X (frame5 s ! 3) - 72) (a_rsp s - 32)"
  shows "\<exists>s1 s2. ef_entry T X i s = Inr s1 \<and> a_rip s1 = T ! i \<and> ef_adaptor_tsthdlr_asm X ret (ax, di, si, cx) s1 = Inr (s2, frame5 s)
    \<and> a_rip s2 = frame5 s ! 0 \<and> a_rsp s2 = frame5 s ! 3 \<and> a_rdi s2 = a_rdi s \<and> a_gs s2 = a_gs s \<and> a_kgs s2 = a_kgs s
    \<and> a_rax s2 = ax \<and> a_rsi s2 = si \<and> a_rcx s2 = cx"
proof -
  have g: "gs_ok X s" using assms(2-4) by (simp add: gs_ok_def)
  have "frame5 s ! 3 = a_mem s (a_rsp s + 24)" by (simp add: frame5_words)
  then obtain s1 where s1: "ef_entry T X i s = Inr s1" "a_rip s1 = T ! i" "frame5 s1 = frame5 s" "same_regs s s1"
    using ef_entry_no_err[OF assms(1) g, of "dest X (frame5 s ! 3)" T i] assms(5) by auto
  have "a_kgs s1 = x_base X" using s1(4) assms(3) by (simp add: same_regs_def)
  from tsthdlr_records[OF this, of ret ax di si cx] show ?thesis using s1 by (auto simp: same_regs_def)
qed

theorem test_vector_returns_witness:
  "\<exists>s1 s2. ef_entry [0x77] demo_ax 0 demo_am = Inr s1 \<and> ef_adaptor_tsthdlr_asm demo_ax 0x99 (11, 12, 13, 14) s1 = Inr (s2, frame5 demo_am) \<and> a_rdi s2 = 2 \<and> a_rax s2 = 11"
proof -
  have d: "dest demo_ax (frame5 demo_am ! 3) = 0x9000" using demo_neg by (simp add: dest_def frame5_words demo_am_def demo_ax_def)
  have a: "apart 9 (0x9000 - 72) (a_rsp demo_am - 32)" by (rule apart_far) (simp_all add: demo_am_def)
  obtain s1 s2 where "ef_entry [0x77] demo_ax 0 demo_am = Inr s1" "ef_adaptor_tsthdlr_asm demo_ax 0x99 (11, 12, 13, 14) s1 = Inr (s2, frame5 demo_am)"
      "a_rdi s2 = a_rdi demo_am" "a_rax s2 = 11"
    using test_vector_returns[of demo_am "0x100" demo_ax "[0x77]" 0 "0x99" 11 12 13 14] d a demo_neg
    by (auto simp: demo_am_def demo_ax_def)
  then show ?thesis by (intro exI[of _ s1] exI[of _ s2]) (simp add: demo_am_def)
qed

section \<open>Counters and stack pointers\<close>

text \<open>Each handler that corrects an error code counts its own entries, and only those.\<close>

lemma handlers_count:
  assumes "neg (a_gs s) \<Longrightarrow> a_gs s = x_base X"
  shows "\<exists>u. fix_err_code_u X s = Inr u \<and> pf_adaptor_pf_cnt_get u = pf_adaptor_pf_cnt_get s + 1 \<and> pf_adaptor_df_cnt_get u = pf_adaptor_df_cnt_get s
      \<and> pf_adaptor_gp_cnt_get u = pf_adaptor_gp_cnt_get s"
    and "\<exists>u. fix_err_code_uw X s = Inr u \<and> pf_adaptor_df_cnt_get u = pf_adaptor_df_cnt_get s + 1 \<and> pf_adaptor_pf_cnt_get u = pf_adaptor_pf_cnt_get s
      \<and> pf_adaptor_gp_cnt_get u = pf_adaptor_gp_cnt_get s"
    and "pf_adaptor_gp_cnt_get (fix_err_code_gp X s) = pf_adaptor_gp_cnt_get s + 1"
  using assms
  by (auto simp: fix_err_code_u_def fix_err_code_uw_def fix_err_code_gp_def Let_def touch_below_def percpu_def error_code_sel
      pf_adaptor_pf_cnt_get_def pf_adaptor_df_cnt_get_def pf_adaptor_gp_cnt_get_def)

text \<open>
  \<open>cause_df\<close> on a stack below that of the thread ends in the double fault handler only because of a stale faulting address of the kernel and of what the stack happens to hold: the words it reads as a frame were never written.\<close>

lemma cause_df_double_fault:
  assumes "a_gs s = x_base X" and "neg (x_base X)" and "x_sp0 X = 16 * q" and "neg (a_mem s (x_sp0 X - 0x1fe0))" and "neg (x_cr2 X)"
    and "neg (x_sp0 X - (x_thread_size X + 0x1000))"
  shows "\<exists>s'. cause_df X s = Inr s' \<and> a_rip s' = x_df_location X \<and> a_rsp s' = x_sp0 X - 0x2000"
proof -
  have al: "(x_sp0 X - 0x2000 - 8) AND 8 = 8" using stub_aligned[of "q - 0x200"] assms(3) by (simp add: algebra_simps)
  have "bit (NOT 0xfff :: u64) 63" by simp
  then have n: "neg ((x_cr2 X AND NOT 0xfff) AND (x_sp0 X - (x_thread_size X + 0x1000)))" using assms(5,6) unfolding neg_def bit_and_iff by blast
  show ?thesis
    using assms al n
    by (simp add: cause_df_def percpu_def fix_ist_err_code_stack_swing_def fix_ist_err_code_def Let_def pushq_def err_enter_def ld_def
        err_double_fault_def jmp_def popped_def pop_rdi_def pop_rsi_def pop_rcx_def)
qed

end
