(* ===== verification/Adaptor_System.thy ===== *)
theory Adaptor_System
  imports Adaptor_Test
begin

text \<open>
  The exception frame adaptor from its installation to the handler: the C code of \<open>Idt_Adaptor\<close> edits the table and records the handlers, and the assembly of \<open>Adaptor_Asm\<close> runs when the processor takes an exception through an edited gate.
  What the processor does in between is the delivery of a frame: it aligns the top of the stack that the gate names, pushes five words there and goes to the gate's offset.
\<close>

definition deliver5 :: "u64 \<Rightarrow> u64 list \<Rightarrow> am \<Rightarrow> am" where
  "deliver5 ist f m =
     (let sp = (ist AND NOT 0xf) - 40
      in m\<lparr>a_rsp := sp, a_mem := (a_mem m)(sp := f ! 0, sp + 8 := f ! 1, sp + 16 := f ! 2, sp + 24 := f ! 3, sp + 32 := f ! 4)\<rparr>)"

lemma aligned_top: "(16 * q) AND NOT 0xf = (16 * q :: u64)"
proof -
  have p: "16 * q = push_bit 4 q" by (simp add: push_bit_eq_mult mult.commute)
  have m: "(0xf :: u64) = mask 4" by (simp add: mask_eq_exp_minus_1)
  show ?thesis unfolding p m by (rule bit_word_eqI) (auto simp: bit_and_iff bit_not_iff bit_push_bit_iff bit_mask_iff)
qed

lemma deliver5_sel:
  assumes "ist = 16 * q" and "length f = 5"
  shows "a_rsp (deliver5 ist f m) = 16 * (q - 3) + 8" "frame5 (deliver5 ist f m) = f" "same_regs m (deliver5 ist f m)"
    and "a_gs (deliver5 ist f m) = a_gs m" "a_kgs (deliver5 ist f m) = a_kgs m"
proof -
  have f: "f = [f ! 0, f ! 1, f ! 2, f ! 3, f ! 4]" using assms(2) by (auto simp: length_Suc_conv numeral_eq_Suc)
  show "a_rsp (deliver5 ist f m) = 16 * (q - 3) + 8" unfolding deliver5_def assms(1) aligned_top Let_def by simp
  show "frame5 (deliver5 ist f m) = f" by (subst (2) f) (simp add: deliver5_def Let_def frame5_words)
  show "same_regs m (deliver5 ist f m)" "a_gs (deliver5 ist f m) = a_gs m" "a_kgs (deliver5 ist f m) = a_kgs m"
    by (simp_all add: deliver5_def Let_def same_regs_def)
qed

text \<open>
  C16. From the installation to the handler. After \<open>extension_init\<close> an exception without an error code, on any processor and any vector whose gate had no stack of its own, enters the stub of that vector on the adaptor's stack of the
  processor, and the stub ends in the handler that was in the table before, with the frame that the processor pushed on the stack that the kernel would have used and with all registers unchanged.\<close>

theorem interrupt_reaches_handler:
  assumes "in_use s b t" and "cpu < length (cpus s)" and "page \<noteq> 0" and "tables s page = None"
    and "length (ad_ist s) = length (cpus s)" and "\<forall>c < length (cpus s). stacks c \<noteq> 0 \<and> stacks c \<noteq> - PAGE_BYTES"
    and "length (ad_orig_isrs s) = 256" and "consistent all_vectors (t, ad_orig_isrs s)"
    and "\<forall>v < 256. ie_ist (t ! v) = 0 \<longrightarrow> idt_offset (t ! v) \<noteq> stub E v"
    and "v < 256" and "ie_ist (t ! v) = 0" and "gs_ok X m" and "length f = 5"
    and "c < length (cpus s)" and "ad_ist s ! c = 0" and "stacks c + PAGE_BYTES = 16 * q" and "apart 9 (dest X (f ! 3) - 72) (16 * q - 72)"
  shows "\<exists>s' b' t'. extension_init E stacks cpu page s = Inr (0, s') \<and> in_use s' b' t' \<and> ie_ist (t' ! v) = 7 \<and> idt_offset (t' ! v) = stub E v
    \<and> ad_ist s' ! c = stacks c + PAGE_BYTES
    \<and> (\<exists>m'. ef_entry (ad_orig_isrs s') X v (deliver5 (ad_ist s' ! c) f m) = Inr m' \<and> a_rip m' = idt_offset (t ! v) \<and> a_rsp m' = dest X (f ! 3) - 40
         \<and> frame5 m' = f \<and> same_regs m m')"
proof -
  obtain s' b' t' where e: "extension_init E stacks cpu page s = Inr (0, s')" "in_use s' b' t'" "ad_ist s' = ist_after stacks (ad_ist s)"
    and h: "\<forall>v < 256. if ie_ist (t ! v) = 0 then ie_ist (t' ! v) = 7 \<and> idt_offset (t' ! v) = stub E v \<and> ad_orig_isrs s' ! v = idt_offset (t ! v)
        else t' ! v = t ! v \<and> ad_orig_isrs s' ! v = ad_orig_isrs s ! v"
    using extension_init_effect[OF assms(1-8), of E] by blast
  have g: "ie_ist (t' ! v) = 7" "idt_offset (t' ! v) = stub E v" and r: "ad_orig_isrs s' ! v = idt_offset (t ! v)"
    using h[rule_format, OF assms(10)] assms(11) by auto
  have i: "ad_ist s' ! c = stacks c + PAGE_BYTES" using e(3) assms(5,6,14,15) by (simp add: ist_after_nth)
  let ?m = "deliver5 (ad_ist s' ! c) f m"
  note d = deliver5_sel[OF i[unfolded assms(16)] assms(13), of m]
  have gs: "gs_ok X ?m" using assms(12) d(4,5) by (simp add: gs_ok_def)
  have w: "f ! 3 = a_mem ?m (a_rsp ?m + 24)" using arg_cong[OF d(2), of "\<lambda>f. f ! 3"] by (simp add: frame5_words)
  have "apart 9 (dest X (f ! 3) - 72) (a_rsp ?m - 32)" using assms(17) unfolding d(1) by (simp add: algebra_simps)
  then obtain m' where "ef_entry (ad_orig_isrs s') X v ?m = Inr m'" "a_rip m' = ad_orig_isrs s' ! v" "a_rsp m' = dest X (f ! 3) - 40"
      "frame5 m' = frame5 ?m" "same_regs ?m m'"
    using ef_entry_no_err[OF d(1) gs, of "dest X (f ! 3)" "ad_orig_isrs s'" v] w by auto
  then have "\<exists>m'. ef_entry (ad_orig_isrs s') X v ?m = Inr m' \<and> a_rip m' = idt_offset (t ! v) \<and> a_rsp m' = dest X (f ! 3) - 40 \<and> frame5 m' = f \<and> same_regs m m'"
    using d(2,3) r by (auto simp: same_regs_def)
  then show ?thesis using e(1,2) g i by blast
qed

theorem interrupt_reaches_handler_witness:
  "\<exists>s' m'. extension_init demo_code (\<lambda>_. 0x9000) 1 0x2000 (set_table 0x1000 (Some demo_gates) demo_adaptor) = Inr (0, s')
    \<and> ef_entry (ad_orig_isrs s') (demo_ax\<lparr>x_sp0 := 0x40000\<rparr>) 3 (deliver5 0xa000 [1, 2, 3, 4, 5] demo_am) = Inr m' \<and> a_rip m' = 1 \<and> frame5 m' = [1, 2, 3, 4, 5]"
proof -
  let ?s = "set_table 0x1000 (Some demo_gates) demo_adaptor" and ?X = "demo_ax\<lparr>x_sp0 := 0x40000\<rparr>"
  note p = demo_installable
  have g: "gs_ok ?X demo_am" using demo_neg by (simp add: gs_ok_def demo_ax_def demo_am_def)
  have v: "(3 :: nat) < 256" "ie_ist (demo_gates ! 3) = 0" "idt_offset (demo_gates ! 3) = 1"
    by (simp_all add: demo_gates_nth demo_gate_offset) (simp add: demo_entry_def)?
  have "\<not> neg 4" by (simp add: neg_def)
  then have d: "dest ?X ([1, 2, 3, 4, 5] ! 3) = 0x40000" by (simp add: dest_def)
  have a: "apart 9 (0x40000 - 72) (16 * 0xa00 - 72)" by (rule apart_far) simp_all
  have c: "0 < length (cpus ?s)" "ad_ist ?s ! 0 = 0" "(0x9000 :: u64) + PAGE_BYTES = 16 * 0xa00"
    using less_trans[OF zero_less_one p(2)] p(10) by (simp_all add: PAGE_BYTES_def)
  from interrupt_reaches_handler[OF p(1-9) v(1,2) g _ c, of "[1, 2, 3, 4, 5]"] d a v(3) show ?thesis by (auto simp: PAGE_BYTES_def)
qed

end
