(* ===== verification/Fs_Reach.thy ===== *)
theory Fs_Reach
  imports Fs_Props
begin

text \<open>
  The file system of \<open>fs.c\<close> as a state machine: from the root directory that \<open>fsCreate\<close> makes, by any sequence of \<open>fsCreatefile\<close>, \<open>fsCreatedir\<close> and \<open>fsRemoveitem\<close> on objects that exist. Every state that can be reached is well
  formed, and which operations return in it is decided by two facts: whether anything was ever removed, and how many objects there are. Names must be new in their directory (what a name that is taken does is \<open>fsCreatefile_duplicate\<close>).
\<close>

section \<open>Reachable states\<close>

inductive fs_reach :: "'i ino_hash \<Rightarrow> 'n name_hash \<Rightarrow> bool \<Rightarrow> ('i, 'n) fs_t \<Rightarrow> bool" for HI HN where
  reach_root: "ino_table s = [] \<Longrightarrow> ino_num s = 0 \<Longrightarrow> fs_heap s = (\<lambda>_. None) \<Longrightarrow> fsCreate_root HI HN s = Inr (d, s') \<Longrightarrow> fs_reach HI HN False s'"
| reach_file: "fs_reach HI HN r s \<Longrightarrow> fs_heap s p = Some pf \<Longrightarrow> f_type pf = DIRECTORY \<Longrightarrow> name_fresh s (f_ino pf) name \<Longrightarrow>
    fsCreatefile HI HN s (f_ino pf) name symlink ops = Inr (a, s') \<Longrightarrow> fs_reach HI HN r s'"
| reach_dir: "fs_reach HI HN r s \<Longrightarrow> fs_heap s p = Some pf \<Longrightarrow> f_type pf = DIRECTORY \<Longrightarrow> name_fresh s (f_ino pf) name \<Longrightarrow>
    fsCreatedir HI HN s (f_ino pf) name ops = Inr (a, s') \<Longrightarrow> fs_reach HI HN r s'"
| reach_remove: "fs_reach HI HN r s \<Longrightarrow> fs_heap s a = Some f \<Longrightarrow> fsRemoveitem HI HN s a purge = Inr (b, s') \<Longrightarrow> fs_reach HI HN (r \<or> b) s'"

text \<open>The invariant: until the first removal the inodes are handed out in order; from then on none can be handed out.\<close>

definition fs_phase :: "'i ino_hash \<Rightarrow> 'n name_hash \<Rightarrow> bool \<Rightarrow> ('i, 'n) fs_t \<Rightarrow> bool" where
  "fs_phase HI HN r s \<longleftrightarrow> (if r then (\<exists>is. fs_wf HI HN s is) \<and> inoalloc s = Inl Assert_failed else \<exists>k \<ge> 2. pristine HI HN s k)"

lemma create_aborts:
  assumes "inoalloc s = Inl Assert_failed"
  shows "fsCreatefile HI HN s d name symlink ops = Inl Assert_failed" "fsCreatedir HI HN s d name ops = Inl Assert_failed"
  using assms by (simp_all add: fsCreatefile_def fsCreatedir_def)

lemma fs_phase_wf: "fs_phase HI HN r s \<Longrightarrow> \<exists>is. fs_wf HI HN s is"
  by (auto simp: fs_phase_def pristine_def split: if_splits)

text \<open>A file system that only grew has as many objects as inodes in use.\<close>

lemma pristine_live:
  assumes "pristine HI HN s k"
  shows "card (live s) = k - 1"
proof -
  have wf: "fs_wf HI HN s [k..<256]" and l: "length (ino_table s) = 256" and k: "k \<le> 256" using assms by (simp_all add: pristine_def)
  let ?ino = "\<lambda>b. f_ino (the (fs_heap s b))"
  have "inj_on ?ino (live s)" by (rule inj_onI) (auto simp: live_def intro: fs_wf_ino_unique[OF wf])
  moreover have "?ino ` live s = {1..<k}"
  proof (intro equalityI subsetI)
    fix j assume "j \<in> ?ino ` live s"
    then obtain b f where b: "fs_heap s b = Some f" "f_ino f = j" by (auto simp: live_def)
    then show "j \<in> {1..<k}" using file_ok_ino[OF fs_wf_file[OF wf b(1)]] l by auto
  next
    fix j assume j: "j \<in> {1..<k}"
    then have "j < length (ino_table s)" "j \<notin> set [k..<256]" "j \<noteq> 0" using l k by simp_all
    then obtain b f where b: "fs_heap s b = Some f" "f_ino f = j" using fs_wf_alloc[OF wf] by metis
    have "b < fs_brk s" using fs_wf_file[OF wf b(1)] by (simp add: file_ok_def)
    then show "j \<in> ?ino ` live s" using b by (intro image_eqI[of _ _ b]) (simp_all add: live_def)
  qed
  ultimately have "card {1..<k} = card (live s)" by (metis card_image)
  then show ?thesis by simp
qed

lemma pristine_full: "pristine HI HN s 256 \<Longrightarrow> inoalloc s = Inl Assert_failed"
  by (intro inoalloc_exhausted) (simp add: pristine_def fs_wf_def)

section \<open>The invariant is kept\<close>

text \<open>Creation in a phase, for both kinds of objects.\<close>

lemma phase_create:
  assumes H: "uthash HI" "uthash HN" and ph: "fs_phase HI HN r s"
    and p: "fs_heap s p = Some pf" "f_type pf = DIRECTORY" and fresh: "name_fresh s (f_ino pf) name"
  shows "if r \<or> 255 \<le> card (live s)
    then fsCreatefile HI HN s (f_ino pf) name symlink ops = Inl Assert_failed \<and> fsCreatedir HI HN s (f_ino pf) name ops = Inl Assert_failed
    else (\<exists>s'. fsCreatefile HI HN s (f_ino pf) name symlink ops = Inr (fs_brk s, s') \<and> fs_phase HI HN r s')
       \<and> (\<exists>s'. fsCreatedir HI HN s (f_ino pf) name ops = Inr (fs_brk s, s') \<and> fs_phase HI HN r s')"
proof (cases r)
  case True
  then show ?thesis using ph by (simp add: fs_phase_def create_aborts)
next
  case False
  then obtain k where k: "2 \<le> k" "pristine HI HN s k" using ph by (auto simp: fs_phase_def)
  have c: "card (live s) = k - 1" using k(2) by (rule pristine_live)
  have le: "k \<le> 256" using k(2) by (simp add: pristine_def)
  show ?thesis
  proof (cases "k = 256")
    case True
    then show ?thesis using c k(2) pristine_full[of HI HN s] by (simp add: create_aborts)
  next
    case ne: False
    then have lt: "k < 256" "k \<noteq> ROOT_INO" using le k(1) by (simp_all add: ROOT_INO_def)
    have "fs_phase HI HN r s'" if "pristine HI HN s' (Suc k)" for s' using that False k(1) by (auto simp: fs_phase_def intro!: exI[of _ "Suc k"])
    then have "(\<exists>s'. fsCreatefile HI HN s (f_ino pf) name symlink ops = Inr (fs_brk s, s') \<and> fs_phase HI HN r s')"
        "(\<exists>s'. fsCreatedir HI HN s (f_ino pf) name ops = Inr (fs_brk s, s') \<and> fs_phase HI HN r s')"
      using pristine_fsCreatefile[OF H k(2) lt p fresh] pristine_fsCreatedir[OF H k(2) lt p fresh] by metis+
    moreover have "\<not> 255 \<le> card (live s)" using c lt k(1) by simp
    ultimately show ?thesis using False by simp
  qed
qed

lemma phase_remove:
  assumes H: "uthash HI" "uthash HN" and ph: "fs_phase HI HN r s" and f: "fs_heap s a = Some f"
  shows "\<exists>s'. fsRemoveitem HI HN s a purge = Inr (\<not> has_child s (f_ino f), s') \<and> fs_phase HI HN (r \<or> \<not> has_child s (f_ino f)) s'"
proof -
  obtain "is" where wf: "fs_wf HI HN s is" using fs_phase_wf[OF ph] by blast
  show ?thesis
  proof (cases "has_child s (f_ino f)")
    case True
    then show ?thesis using fsRemoveitem_nonempty[OF H wf f] ph by simp
  next
    case False
    obtain s' js where s': "fsRemoveitem HI HN s a purge = Inr (True, s')" "removed HI HN s is a purge s' js"
      using fsRemoveitem_removed[OF H wf f False] by blast
    have "inoalloc s' = Inl Assert_failed" using wf s'(2) by (rule removed_dirty)
    moreover have "fs_wf HI HN s' (js @ is)" using s'(2) by (simp add: removed_def)
    ultimately show ?thesis using s'(1) False by (auto simp: fs_phase_def)
  qed
qed

lemma fs_reach_phase:
  assumes "fs_reach HI HN r s" and H: "uthash HI" "uthash HN"
  shows "fs_phase HI HN r s"
  using assms(1)
proof (induction rule: fs_reach.induct)
  case (reach_root s d s')
  then show ?case using fsCreate_root_pristine[OF H, of s] by (auto simp: fs_phase_def intro!: exI[of _ 2])
next
  case (reach_file r s p pf name symlink ops a s')
  then show ?case using phase_create[OF H reach_file.IH reach_file(2-4), of symlink ops] by (auto split: if_splits)
next
  case (reach_dir r s p pf name ops a s')
  then show ?case using phase_create[OF H reach_dir.IH reach_dir(2-4), of None ops] by (auto split: if_splits)
next
  case (reach_remove r s a f purge b s')
  then show ?case using phase_remove[OF H reach_remove.IH reach_remove(2), of purge] by auto
qed

section \<open>Properties\<close>

text \<open>
  C3. The file system does not go wrong. Every state that creations and removals lead to is well formed, and on it the operations do exactly this: a removal returns, true if and only if the object has nothing in it; a creation returns if
  nothing was ever removed and there are fewer than 255 objects, the root included, and ends in the assertion of \<open>inoalloc\<close> otherwise. No other error is possible: no null pointer, no access outside a table, no endless recursion.\<close>

theorem fs_reach_sound:
  assumes "uthash HI" and "uthash HN" and "fs_reach HI HN r s"
  shows "(\<exists>is. fs_wf HI HN s is)
    \<and> (\<forall>a f purge. fs_heap s a = Some f \<longrightarrow> (\<exists>s'. fsRemoveitem HI HN s a purge = Inr (\<not> has_child s (f_ino f), s')))
    \<and> (\<forall>p pf name symlink ops. fs_heap s p = Some pf \<and> f_type pf = DIRECTORY \<and> name_fresh s (f_ino pf) name \<longrightarrow>
        (if r \<or> 255 \<le> card (live s)
         then fsCreatefile HI HN s (f_ino pf) name symlink ops = Inl Assert_failed \<and> fsCreatedir HI HN s (f_ino pf) name ops = Inl Assert_failed
         else (\<exists>s'. fsCreatefile HI HN s (f_ino pf) name symlink ops = Inr (fs_brk s, s')) \<and> (\<exists>s'. fsCreatedir HI HN s (f_ino pf) name ops = Inr (fs_brk s, s'))))"
proof -
  have ph: "fs_phase HI HN r s" using assms(3,1,2) by (rule fs_reach_phase)
  show ?thesis
  proof (intro conjI allI impI)
    show "\<exists>is. fs_wf HI HN s is" using ph by (rule fs_phase_wf)
    show "\<exists>s'. fsRemoveitem HI HN s a purge = Inr (\<not> has_child s (f_ino f), s')" if "fs_heap s a = Some f" for a f purge
      using phase_remove[OF assms(1,2) ph that] by blast
  next
    fix p pf name symlink ops
    assume "fs_heap s p = Some pf \<and> f_type pf = DIRECTORY \<and> name_fresh s (f_ino pf) name"
    then have "fs_heap s p = Some pf" "f_type pf = DIRECTORY" "name_fresh s (f_ino pf) name" by blast+
    from phase_create[OF assms(1,2) ph this, of symlink ops]
    show "if r \<or> 255 \<le> card (live s)
       then fsCreatefile HI HN s (f_ino pf) name symlink ops = Inl Assert_failed \<and> fsCreatedir HI HN s (f_ino pf) name ops = Inl Assert_failed
       else (\<exists>s'. fsCreatefile HI HN s (f_ino pf) name symlink ops = Inr (fs_brk s, s')) \<and> (\<exists>s'. fsCreatedir HI HN s (f_ino pf) name ops = Inr (fs_brk s, s'))"
      by (auto split: if_splits)
  qed
qed

theorem fs_reach_sound_witness:
  "\<exists>s'. fs_reach alist_uthash alist_uthash False demo_file \<and> fsRemoveitem alist_uthash alist_uthash demo_file 2 False = Inr (True, s')"
proof -
  let ?r = "created_dir alist_uthash alist_uthash 1 0 ''.'' Fs_dir_ops :: ((fs_ino_t \<times> addr) list, (string \<times> addr) list) fs_file_t"
  let ?d = "created_dir alist_uthash alist_uthash 2 1 ''d'' Fs_dir_ops :: ((fs_ino_t \<times> addr) list, (string \<times> addr) list) fs_file_t"
  let ?g = "created_file 3 2 ''f'' None Fs_libkernel_ops :: ((fs_ino_t \<times> addr) list, (string \<times> addr) list) fs_file_t"
  have r: "fs_reach alist_uthash alist_uthash False demo_root"
    by (rule reach_root[of fs_zero _ _ 1]) (simp_all add: fs_zero_def demo_root(1)[unfolded fs_zero_def])
  have d: "fs_reach alist_uthash alist_uthash False demo_dir"
    by (rule reach_dir[OF r, of 0 ?r "''d''" Fs_dir_ops 1]) (simp_all add: demo_root(4) name_fresh_def demo_dir(1) del: One_nat_def)
  have "fs_heap demo_dir 1 = Some ?d" "name_fresh demo_dir (f_ino ?d) ''f''"
    using demo_dir(4) by (auto simp: name_fresh_def split: if_splits)
  then have f: "fs_reach alist_uthash alist_uthash False demo_file"
    by (intro reach_file[OF d, of 1 ?d "''f''" None Fs_libkernel_ops 2]) (simp_all add: demo_file(1))
  have "fs_heap demo_file 2 = Some ?g" "\<not> has_child demo_file (f_ino ?g)"
    using demo_file(3) by (auto simp: has_child_def split: if_splits)
  then have "\<exists>s'. fsRemoveitem alist_uthash alist_uthash demo_file 2 False = Inr (True, s')"
    using conjunct1[OF conjunct2[OF fs_reach_sound[OF alist2 f]]] by force
  then show ?thesis using f by blast
qed

end
