(* ===== verification/Evac.thy ===== *)
theory Evac
  imports Privilege
begin

text \<open>
  Taking a processor for one task alone: the kernel extension \<open>kcuttest/evacuate.kc\<close>.

  Tasks are numbered; a state has the task of every number, the threads of every process in the order in which the kernel lists them, the processors that are online and
  the list of saved affinities. The functions of the kernel are parameters in the record \<open>kern\<close>: whether an allocation succeeds (by its number), whether
  \<open>set_cpus_allowed_ptr\<close> accepts a mask, what \<open>sched_setattr_nocheck\<close> answers, and a bound on the length of a chain of parents. The mutex makes
  the two entry points atomic with respect to each other, so that each is one function on the state.
\<close>

section \<open>Tasks\<close>

datatype sched_policy = SCHED_NORMAL | SCHED_FIFO nat

record task =
  tk_pid :: nat
  tk_kthread :: bool
  tk_parent :: "nat option"
  tk_session :: "nat option"
  tk_mask :: "nat set"
  tk_alive :: bool
  tk_refs :: nat
  tk_sched :: sched_policy

record evac =
  ev_procs :: "nat list list"
  ev_task :: "nat \<Rightarrow> task"
  ev_saved :: "(nat \<times> nat set) list"
  ev_online :: "nat set"
  ev_nr_cpu_ids :: nat
  ev_allocs :: nat
  ev_killed :: "nat list"

record kern =
  k_alloc :: "nat \<Rightarrow> bool"
  k_allow :: "nat \<Rightarrow> nat set \<Rightarrow> bool"
  k_setattr :: "evac \<Rightarrow> int"
  k_depth :: nat

definition upd_task :: "nat \<Rightarrow> (task \<Rightarrow> task) \<Rightarrow> evac \<Rightarrow> evac" where
  "upd_task t f s = s\<lparr>ev_task := (ev_task s)(t := f (ev_task s t))\<rparr>"

abbreviation mask_of :: "evac \<Rightarrow> nat \<Rightarrow> nat set" where
  "mask_of s t \<equiv> tk_mask (ev_task s t)"

section \<open>Functions of the kernel\<close>

definition kalloc :: "kern \<Rightarrow> evac \<Rightarrow> bool \<times> evac" where
  "kalloc K s = (k_alloc K (ev_allocs s), s\<lparr>ev_allocs := Suc (ev_allocs s)\<rparr>)"

definition set_cpus_allowed_ptr :: "kern \<Rightarrow> nat \<Rightarrow> nat set \<Rightarrow> evac \<Rightarrow> evac" where
  "set_cpus_allowed_ptr K t m s = (if k_allow K t m then upd_task t (tk_mask_update (\<lambda>_. m)) s else s)"

definition sched_setattr_nocheck :: "kern \<Rightarrow> nat \<Rightarrow> sched_policy \<Rightarrow> evac \<Rightarrow> int \<times> evac" where
  "sched_setattr_nocheck K t p s =
     (k_setattr K s, if k_setattr K s = 0 then upd_task t (tk_sched_update (\<lambda>_. p)) s else s)"

section \<open>Saving and restoring\<close>

definition save_task_affinity :: "kern \<Rightarrow> nat \<Rightarrow> evac \<Rightarrow> int \<times> evac" where
  "save_task_affinity K t s =
     (let (ok, s) = kalloc K s
      in if \<not> ok then (- ENOMEM, s)
         else let s = upd_task t (tk_refs_update Suc) s
              in (0, s\<lparr>ev_saved := (t, mask_of s t) # ev_saved s\<rparr>))"

primrec restore_loop :: "kern \<Rightarrow> nat \<Rightarrow> (nat \<times> nat set) list \<Rightarrow> int \<Rightarrow> evac \<Rightarrow> int \<times> evac" where
  "restore_loop K cur [] rc s = (rc, s)"
| "restore_loop K cur (ta # tas) rc s =
     (let rc = (if fst ta = cur then 0 else rc);
          s = (if tk_alive (ev_task s (fst ta)) then set_cpus_allowed_ptr K (fst ta) (snd ta) s else s);
          s = upd_task (fst ta) (tk_refs_update (\<lambda>n. n - 1)) s
      in restore_loop K cur tas rc (s\<lparr>ev_saved := tas\<rparr>))"

definition restore_saved_affinities :: "kern \<Rightarrow> nat \<Rightarrow> evac \<Rightarrow> int \<times> evac" where
  "restore_saved_affinities K cur s = restore_loop K cur (ev_saved s) (- 1) s"

section \<open>Who is left alone\<close>

fun is_ancestor :: "nat \<Rightarrow> evac \<Rightarrow> nat option \<Rightarrow> nat \<Rightarrow> bool res" where
  "is_ancestor n s None task = Inr False"
| "is_ancestor 0 s (Some t) task = Inl Out_of_fuel"
| "is_ancestor (Suc n) s (Some t) task =
     (if tk_pid (ev_task s t) > 1
      then if t = task then Inr True else is_ancestor n s (tk_parent (ev_task s t)) task
      else Inr False)"

definition should_preserve_migrate :: "nat \<Rightarrow> evac \<Rightarrow> nat \<Rightarrow> bool" where
  "should_preserve_migrate cur s t \<longleftrightarrow> tk_pid (ev_task s t) = 1 \<or> tk_kthread (ev_task s t) \<or> t = cur"

definition should_preserve_kill :: "kern \<Rightarrow> nat \<Rightarrow> evac \<Rightarrow> nat \<Rightarrow> bool res" where
  "should_preserve_kill K cur s t =
     (if should_preserve_migrate cur s t then Inr True
      else rbind (is_ancestor (k_depth K) s (Some cur) t) (\<lambda>anc.
        Inr (anc \<or> (tk_session (ev_task s t) \<noteq> None \<and> tk_session (ev_task s cur) \<noteq> None
                   \<and> tk_session (ev_task s t) = tk_session (ev_task s cur)))))"

section \<open>Killing or migrating the others\<close>

primrec kill_loop :: "kern \<Rightarrow> nat \<Rightarrow> int \<Rightarrow> nat list \<Rightarrow> nat \<Rightarrow> evac \<Rightarrow> (nat \<times> evac) res" where
  "kill_loop K cur killifneeded [] killed s = Inr (killed, s)"
| "kill_loop K cur killifneeded (t # ts) killed s =
     rbind (if killifneeded < 2 then should_preserve_kill K cur s t else Inr False) (\<lambda>keep.
     if keep then kill_loop K cur killifneeded ts killed s
     else kill_loop K cur killifneeded ts (killed + 1)
            (if killifneeded > 0 then s\<lparr>ev_killed := ev_killed s @ [t]\<rparr> else s))"

definition killothers :: "kern \<Rightarrow> nat \<Rightarrow> int \<Rightarrow> evac \<Rightarrow> (nat \<times> evac) res" where
  "killothers K cur killifneeded s = kill_loop K cur killifneeded (concat (ev_procs s)) 0 s"

definition migrate_task :: "kern \<Rightarrow> nat \<Rightarrow> nat \<Rightarrow> nat set \<Rightarrow> nat \<Rightarrow> evac \<Rightarrow> nat \<times> evac" where
  "migrate_task K cur reserved_cpu othermask t s =
     (if t = cur then (0, s)
      else if should_preserve_migrate cur s t then (0, s)
      else if reserved_cpu \<in> mask_of s t
      then let (_, s) = save_task_affinity K t s; target = othermask \<inter> mask_of s t
           in if target = {} then (0, s) else (1, set_cpus_allowed_ptr K t target s)
      else (0, s))"

primrec migrate_loop :: "kern \<Rightarrow> nat \<Rightarrow> nat \<Rightarrow> nat set \<Rightarrow> nat list \<Rightarrow> nat \<Rightarrow> evac \<Rightarrow> nat \<times> evac" where
  "migrate_loop K cur cpu other [] migrated s = (migrated, s)"
| "migrate_loop K cur cpu other (t # ts) migrated s =
     (let (n, s) = migrate_task K cur cpu other t s in migrate_loop K cur cpu other ts (migrated + n) s)"

definition migrateothers :: "kern \<Rightarrow> nat \<Rightarrow> nat \<Rightarrow> nat set \<Rightarrow> evac \<Rightarrow> nat \<times> evac" where
  "migrateothers K cur cpu other s = migrate_loop K cur cpu other (concat (ev_procs s)) 0 s"

section \<open>The entry points\<close>

text \<open>The end of \<open>acquire_exclusive_cpu\<close>: on failure everything saved is restored.\<close>

definition acquire_done :: "kern \<Rightarrow> nat \<Rightarrow> int \<Rightarrow> evac \<Rightarrow> int \<times> evac" where
  "acquire_done K cur rc s = (rc, if rc \<noteq> 0 then snd (restore_saved_affinities K cur s) else s)"

text \<open>Steps 1 to 3, with both masks allocated.\<close>

definition others_away :: "kern \<Rightarrow> nat \<Rightarrow> nat \<Rightarrow> int \<Rightarrow> evac \<Rightarrow> (int \<times> evac) res" where
  "others_away K cur cpu killifneeded s =
     (if card (ev_online s) = 1
      then rbind (killothers K cur killifneeded s) (\<lambda>(mkcnt, s).
           Inr (if killifneeded = 0 \<and> mkcnt > 0 then (- EINVAL, s) else (0, s)))
      else let (mkcnt, s) = migrateothers K cur cpu (ev_online s - {cpu}) s in Inr (0, s))"

definition acquire_masked :: "kern \<Rightarrow> nat \<Rightarrow> nat \<Rightarrow> int \<Rightarrow> evac \<Rightarrow> (int \<times> evac) res" where
  "acquire_masked K cur cpu killifneeded s =
     (let (_, s) = save_task_affinity K cur s;
          s = set_cpus_allowed_ptr K cur {cpu} s
      in rbind (others_away K cur cpu killifneeded s) (\<lambda>(rc, s).
         if rc \<noteq> 0 then Inr (rc, s) else Inr (sched_setattr_nocheck K cur (SCHED_FIFO 99) s)))"

text \<open>
  The processor is the one the task runs on: the argument is overwritten. When the second mask cannot be allocated the first one is freed twice.
\<close>

definition acquire_exclusive_cpu :: "kern \<Rightarrow> nat \<Rightarrow> nat \<Rightarrow> int \<Rightarrow> evac \<Rightarrow> (int \<times> evac) res" where
  "acquire_exclusive_cpu K cur cpu killifneeded s =
     (if ev_nr_cpu_ids s \<le> cpu then Inr (acquire_done K cur (- EINVAL) s)
      else if cpu \<notin> ev_online s then Inr (acquire_done K cur (- EINVAL) s)
      else let (ok, s) = kalloc K s
           in if \<not> ok then Inr (acquire_done K cur (- ENOMEM) s)
              else let (ok, s) = kalloc K s
                   in if \<not> ok then Inl Use_after_free
                      else rbind (acquire_masked K cur cpu killifneeded s) (\<lambda>(rc, s). Inr (acquire_done K cur rc s)))"

definition release_exclusive_cpu :: "kern \<Rightarrow> nat \<Rightarrow> evac \<Rightarrow> evac" where
  "release_exclusive_cpu K cur s =
     snd (sched_setattr_nocheck K cur SCHED_NORMAL (snd (restore_saved_affinities K cur s)))"

section \<open>The affinities that tasks had before\<close>

text \<open>
  The list has the newest entry first, and restoring goes through it from the front: the oldest entry of a task wins. \<open>orig s t\<close> is the mask that restoring would give
  to \<open>t\<close>.
\<close>

definition orig :: "evac \<Rightarrow> nat \<Rightarrow> nat set" where
  "orig s t = (case map_of (rev (ev_saved s)) t of Some m \<Rightarrow> m | None \<Rightarrow> mask_of s t)"

text \<open>How often a task is in the list, and what an operation must keep for restoring to be exact.\<close>

abbreviation saved_cnt :: "evac \<Rightarrow> nat \<Rightarrow> nat" where
  "saved_cnt s t \<equiv> count_list (map fst (ev_saved s)) t"

definition keeps :: "evac \<Rightarrow> evac \<Rightarrow> bool" where
  "keeps s s' \<longleftrightarrow> (\<forall>t. tk_alive (ev_task s' t) = tk_alive (ev_task s t)) \<and> ev_online s' = ev_online s \<and> ev_nr_cpu_ids s' = ev_nr_cpu_ids s
     \<and> (\<forall>t. tk_alive (ev_task s t) \<longrightarrow> orig s' t = orig s t)
     \<and> (\<forall>t. tk_refs (ev_task s' t) + saved_cnt s t = tk_refs (ev_task s t) + saved_cnt s' t)"

lemma keeps_refl: "keeps s s"
  by (simp add: keeps_def)

lemma keeps_trans: "keeps s s1 \<Longrightarrow> keeps s1 s2 \<Longrightarrow> keeps s s2"
proof -
  assume a: "keeps s s1" and b: "keeps s1 s2"
  have "tk_refs (ev_task s2 t) + saved_cnt s t = tk_refs (ev_task s t) + saved_cnt s2 t" for t
  proof -
    have "tk_refs (ev_task s1 t) + saved_cnt s t = tk_refs (ev_task s t) + saved_cnt s1 t"
      and "tk_refs (ev_task s2 t) + saved_cnt s1 t = tk_refs (ev_task s1 t) + saved_cnt s2 t"
      using a b by (simp_all add: keeps_def)
    then show ?thesis by linarith
  qed
  then show ?thesis using a b by (simp add: keeps_def)
qed

lemma upd_task_sel [simp]:
  "ev_task (upd_task t f s) u = (if u = t then f (ev_task s u) else ev_task s u)"
  "ev_saved (upd_task t f s) = ev_saved s" "ev_online (upd_task t f s) = ev_online s"
  "ev_procs (upd_task t f s) = ev_procs s" "ev_allocs (upd_task t f s) = ev_allocs s"
  "ev_nr_cpu_ids (upd_task t f s) = ev_nr_cpu_ids s"
  by (simp_all add: upd_task_def)

text \<open>Changes that touch neither the list nor a mask nor a reference.\<close>

lemma keeps_same:
  assumes "ev_saved s' = ev_saved s" and "ev_online s' = ev_online s" and "ev_nr_cpu_ids s' = ev_nr_cpu_ids s"
    and "\<And>t. tk_mask (ev_task s' t) = tk_mask (ev_task s t)" and "\<And>t. tk_refs (ev_task s' t) = tk_refs (ev_task s t)"
    and "\<And>t. tk_alive (ev_task s' t) = tk_alive (ev_task s t)"
  shows "keeps s s'"
proof -
  have "orig s' t = orig s t" for t
    using assms(1,4) by (cases "map_of (rev (ev_saved s)) t") (simp_all add: orig_def)
  then show ?thesis using assms by (simp add: keeps_def)
qed

lemma keeps_save:
  assumes "save_task_affinity K t s = (rc, s')" and "\<And>n. k_alloc K n"
  shows "keeps s s'" and "t \<in> fst ` set (ev_saved s')" and "\<And>u. mask_of s' u = mask_of s u" and "ev_online s' = ev_online s"
    and "\<And>u. tk_pid (ev_task s' u) = tk_pid (ev_task s u)" and "\<And>u. tk_kthread (ev_task s' u) = tk_kthread (ev_task s u)"
    and "ev_procs s' = ev_procs s"
proof -
  have s': "s' = (upd_task t (tk_refs_update Suc) (s\<lparr>ev_allocs := Suc (ev_allocs s)\<rparr>))\<lparr>ev_saved := (t, mask_of s t) # ev_saved s\<rparr>"
    using assms by (auto simp: save_task_affinity_def kalloc_def)
  show m: "mask_of s' u = mask_of s u" for u by (simp add: s')
  show "tk_pid (ev_task s' u) = tk_pid (ev_task s u)" "tk_kthread (ev_task s' u) = tk_kthread (ev_task s u)" for u by (simp_all add: s')
  show "ev_online s' = ev_online s" "t \<in> fst ` set (ev_saved s')" "ev_procs s' = ev_procs s" by (simp_all add: s')
  have "orig s' u = orig s u" for u
    by (cases "map_of (rev (ev_saved s)) u") (auto simp: orig_def s' map_add_def)
  then show "keeps s s'" by (simp add: keeps_def s')
qed

lemma map_of_rev_Some: "t \<in> fst ` set xs \<Longrightarrow> \<exists>m. map_of (rev xs) t = Some m"
  by (metis domD dom_map_of_conv_image_fst set_rev)

lemma keeps_set_mask:
  assumes "t \<in> fst ` set (ev_saved s)"
  shows "keeps s (set_cpus_allowed_ptr K t m s)"
proof -
  have "orig (set_cpus_allowed_ptr K t m s) u = orig s u" for u
    using map_of_rev_Some[OF assms]
    by (cases "map_of (rev (ev_saved s)) u"; cases "u = t") (auto simp: orig_def set_cpus_allowed_ptr_def)
  then show ?thesis by (simp add: keeps_def set_cpus_allowed_ptr_def)
qed

text \<open>What is asked of the kernel: allocations succeed, and a mask with a processor that is online is accepted.\<close>

definition kern_ok :: "kern \<Rightarrow> nat set \<Rightarrow> bool" where
  "kern_ok K online \<longleftrightarrow> (\<forall>n. k_alloc K n) \<and> (\<forall>t m. m \<inter> online \<noteq> {} \<longrightarrow> k_allow K t m)"

section \<open>Every operation keeps the saved affinities\<close>

lemma set_mask_sel [simp]:
  "ev_procs (set_cpus_allowed_ptr K t m s) = ev_procs s" "ev_online (set_cpus_allowed_ptr K t m s) = ev_online s"
  "tk_pid (ev_task (set_cpus_allowed_ptr K t m s) u) = tk_pid (ev_task s u)"
  "tk_kthread (ev_task (set_cpus_allowed_ptr K t m s) u) = tk_kthread (ev_task s u)"
  "u \<noteq> t \<Longrightarrow> mask_of (set_cpus_allowed_ptr K t m s) u = mask_of s u"
  "k_allow K t m \<Longrightarrow> mask_of (set_cpus_allowed_ptr K t m s) t = m"
  by (simp_all add: set_cpus_allowed_ptr_def)

text \<open>A task that may run on the processor can run on no other one.\<close>

definition confined :: "nat \<Rightarrow> evac \<Rightarrow> nat \<Rightarrow> bool" where
  "confined cpu s t \<longleftrightarrow> (cpu \<in> mask_of s t \<longrightarrow> (ev_online s - {cpu}) \<inter> mask_of s t = {})"

text \<open>One task: the saved affinities are kept, the task is away, and nothing else changes.\<close>

definition moved :: "nat \<Rightarrow> nat \<Rightarrow> nat \<Rightarrow> evac \<Rightarrow> evac \<Rightarrow> bool" where
  "moved cur cpu t s s' \<longleftrightarrow> keeps s s' \<and> (\<not> should_preserve_migrate cur s t \<longrightarrow> confined cpu s' t)
     \<and> (\<forall>u. u \<noteq> t \<or> u = cur \<longrightarrow> mask_of s' u = mask_of s u)
     \<and> (\<forall>u. should_preserve_migrate cur s' u = should_preserve_migrate cur s u)"

lemma migrate_task_moved:
  assumes "kern_ok K (ev_online s)"
  shows "moved cur cpu t s (snd (migrate_task K cur cpu (ev_online s - {cpu}) t s))"
proof (cases "should_preserve_migrate cur s t \<or> cpu \<notin> mask_of s t")
  case True
  then have "snd (migrate_task K cur cpu (ev_online s - {cpu}) t s) = s"
    by (auto simp: migrate_task_def)
  then show ?thesis using True by (auto simp: moved_def keeps_refl confined_def)
next
  case False
  let ?m = "(ev_online s - {cpu}) \<inter> mask_of s t"
  have a: "\<And>n. k_alloc K n" using assms by (simp add: kern_ok_def)
  have al: "k_allow K t ?m" if "?m \<noteq> {}"
  proof -
    have "?m \<inter> ev_online s \<noteq> {}" using that by blast
    then show ?thesis using assms by (simp add: kern_ok_def)
  qed
  have c: "cur \<noteq> t" using False by (auto simp: should_preserve_migrate_def)
  obtain rc s1 where s1: "save_task_affinity K t s = (rc, s1)" by fastforce
  note sv = keeps_save[OF s1 a]
  have s': "snd (migrate_task K cur cpu (ev_online s - {cpu}) t s) = (if ?m = {} then s1 else set_cpus_allowed_ptr K t ?m s1)"
    using False c s1 sv(3) by (simp add: migrate_task_def Let_def)
  show ?thesis
  proof (cases "?m = {}")
    case True
    then show ?thesis using sv c unfolding s' by (simp add: moved_def confined_def should_preserve_migrate_def)
  next
    case e: False
    have "keeps s (set_cpus_allowed_ptr K t ?m s1)" by (rule keeps_trans[OF sv(1) keeps_set_mask[OF sv(2)]])
    then show ?thesis
      using sv c al[OF e] e unfolding s' by (simp add: moved_def confined_def should_preserve_migrate_def)
  qed
qed

lemma moved_online: "moved cur cpu t s s' \<Longrightarrow> ev_online s' = ev_online s"
  by (simp add: moved_def keeps_def)

lemma migrate_loop_ok:
  assumes "kern_ok K (ev_online s)"
  shows "keeps s (snd (migrate_loop K cur cpu (ev_online s - {cpu}) ts n s))
    \<and> mask_of (snd (migrate_loop K cur cpu (ev_online s - {cpu}) ts n s)) cur = mask_of s cur
    \<and> (\<forall>t. (t \<in> set ts \<or> confined cpu s t) \<and> \<not> should_preserve_migrate cur s t \<longrightarrow>
         confined cpu (snd (migrate_loop K cur cpu (ev_online s - {cpu}) ts n s)) t)"
  using assms
proof (induction ts arbitrary: n s)
  case Nil
  then show ?case by (simp add: keeps_refl)
next
  case (Cons t ts)
  obtain k s1 where s1: "migrate_task K cur cpu (ev_online s - {cpu}) t s = (k, s1)" by fastforce
  have m: "moved cur cpu t s s1" using migrate_task_moved[OF Cons.prems, of cur cpu t] s1 by simp
  have o: "ev_online s1 = ev_online s" by (rule moved_online[OF m])
  have c: "confined cpu s1 u" if "u = t \<or> confined cpu s u" "\<not> should_preserve_migrate cur s u" for u
    using m that o by (cases "u = t") (auto simp: moved_def confined_def)
  note IH = Cons.IH[of s1 "n + k", unfolded o, OF Cons.prems]
  have k: "keeps s s1" "mask_of s1 cur = mask_of s cur" "\<And>u. should_preserve_migrate cur s1 u = should_preserve_migrate cur s u"
    using m by (simp_all add: moved_def)
  show ?case
    using IH keeps_trans[OF k(1)] k(2,3) c by (simp add: s1) blast
qed

lemma kill_loop_same: "kill_loop K cur k ts n s = Inr (n', s') \<Longrightarrow> \<exists>ks. s' = s\<lparr>ev_killed := ks\<rparr>"
proof (induction ts arbitrary: n s)
  case Nil
  then have "s' = s\<lparr>ev_killed := ev_killed s\<rparr>" by simp
  then show ?case ..
next
  case (Cons t ts)
  from Cons.prems obtain m s1 where "kill_loop K cur k ts m s1 = Inr (n', s')" and "s1 = s \<or> s1 = s\<lparr>ev_killed := ev_killed s @ [t]\<rparr>"
    by (auto simp: rbind_eq_Inr split: if_splits)
  with Cons.IH show ?case by fastforce
qed

lemma others_away_ok:
  assumes "kern_ok K (ev_online s)" and "others_away K cur cpu k s = Inr (rc, s')"
  shows "keeps s s'" and "mask_of s' cur = mask_of s cur"
    and "card (ev_online s) \<noteq> 1 \<Longrightarrow> t \<in> set (concat (ev_procs s)) \<Longrightarrow> \<not> should_preserve_migrate cur s t \<Longrightarrow> confined cpu s' t"
proof -
  let ?r = "migrate_loop K cur cpu (ev_online s - {cpu}) (concat (ev_procs s)) 0 s"
  consider ks where "card (ev_online s) = 1" "s' = s\<lparr>ev_killed := ks\<rparr>" | "card (ev_online s) \<noteq> 1" "s' = snd ?r"
    using assms(2) kill_loop_same
    by (fastforce simp: others_away_def killothers_def migrateothers_def rbind_eq_Inr split: if_splits prod.splits)
  then have "keeps s s' \<and> mask_of s' cur = mask_of s cur \<and> (card (ev_online s) \<noteq> 1 \<longrightarrow> t \<in> set (concat (ev_procs s)) \<longrightarrow>
      \<not> should_preserve_migrate cur s t \<longrightarrow> confined cpu s' t)"
  proof cases
    case 1
    then show ?thesis by (simp add: keeps_same)
  next
    case 2
    then show ?thesis using migrate_loop_ok[OF assms(1), of cur cpu "concat (ev_procs s)" 0] by simp
  qed
  then show "keeps s s'" and "mask_of s' cur = mask_of s cur"
    and "card (ev_online s) \<noteq> 1 \<Longrightarrow> t \<in> set (concat (ev_procs s)) \<Longrightarrow> \<not> should_preserve_migrate cur s t \<Longrightarrow> confined cpu s' t"
    by blast+
qed

lemma setattr_ok:
  assumes "sched_setattr_nocheck K t p s = (rc, s')"
  shows "keeps s s'" and "mask_of s' u = mask_of s u" and "rc = 0 \<Longrightarrow> tk_sched (ev_task s' t) = p" and "ev_online s' = ev_online s"
    and "ev_saved s' = ev_saved s" and "tk_alive (ev_task s' u) = tk_alive (ev_task s u)" and "tk_refs (ev_task s' u) = tk_refs (ev_task s u)"
proof -
  have s': "s' = s \<or> s' = upd_task t (tk_sched_update (\<lambda>_. p)) s" and "rc = 0 \<Longrightarrow> s' = upd_task t (tk_sched_update (\<lambda>_. p)) s"
    using assms by (auto simp: sched_setattr_nocheck_def split: if_splits)
  then show "mask_of s' u = mask_of s u" "rc = 0 \<Longrightarrow> tk_sched (ev_task s' t) = p" "ev_online s' = ev_online s"
    "ev_saved s' = ev_saved s" "tk_alive (ev_task s' u) = tk_alive (ev_task s u)" "tk_refs (ev_task s' u) = tk_refs (ev_task s u)"
    by (auto split: if_splits)
  show "keeps s s'" using s' by (elim disjE) (simp_all add: keeps_refl keeps_same)
qed

text \<open>Steps 1 to 3 keep the saved affinities; when they succeed the task has the processor for itself.\<close>

lemma acquire_masked_ok:
  assumes "kern_ok K (ev_online s)" and "cpu \<in> ev_online s" and "acquire_masked K cur cpu k s = Inr (rc, s')"
  shows "keeps s s'"
    and "rc = 0 \<Longrightarrow> mask_of s' cur = {cpu} \<and> tk_sched (ev_task s' cur) = SCHED_FIFO 99"
    and "rc = 0 \<Longrightarrow> card (ev_online s) \<noteq> 1 \<Longrightarrow> t \<in> set (concat (ev_procs s)) \<Longrightarrow> \<not> should_preserve_migrate cur s t \<Longrightarrow> confined cpu s' t"
proof -
  have a: "\<And>n. k_alloc K n" and al: "k_allow K cur {cpu}" using assms(1,2) by (simp_all add: kern_ok_def)
  obtain r1 s1 where s1: "save_task_affinity K cur s = (r1, s1)" by fastforce
  note sv = keeps_save[OF s1 a]
  let ?s2 = "set_cpus_allowed_ptr K cur {cpu} s1"
  have o: "ev_online ?s2 = ev_online s" "ev_procs ?s2 = ev_procs s"
    "\<And>u. should_preserve_migrate cur ?s2 u = should_preserve_migrate cur s u"
    using sv(4-7) by (simp_all add: should_preserve_migrate_def)
  have m: "mask_of ?s2 cur = {cpu}" by (simp add: al)
  have k2: "keeps s ?s2" by (rule keeps_trans[OF sv(1) keeps_set_mask[OF sv(2)]])
  obtain r3 s3 where s3: "others_away K cur cpu k ?s2 = Inr (r3, s3)"
    and r: "(r3 \<noteq> 0 \<and> rc = r3 \<and> s' = s3) \<or> (r3 = 0 \<and> sched_setattr_nocheck K cur (SCHED_FIFO 99) s3 = (rc, s'))"
    using assms(3) s1 by (auto simp: acquire_masked_def rbind_eq_Inr split: if_splits)
  note aw = others_away_ok[OF _ s3, unfolded o, OF assms(1)]
  have k3: "keeps s s3" by (rule keeps_trans[OF k2 aw(1)])
  show "keeps s s'" using r k3 keeps_trans[OF k3 setattr_ok(1)] by blast
  show "rc = 0 \<Longrightarrow> mask_of s' cur = {cpu} \<and> tk_sched (ev_task s' cur) = SCHED_FIFO 99"
    using r aw(2) m setattr_ok(2,3) by metis
  show "confined cpu s' t" if "rc = 0" "card (ev_online s) \<noteq> 1" "t \<in> set (concat (ev_procs s))" "\<not> should_preserve_migrate cur s t"
  proof -
    have "confined cpu s3 t" using aw(3) that(2-4) by blast
    moreover have "mask_of s' t = mask_of s3 t" "ev_online s' = ev_online s3" using r that(1) setattr_ok(2,4) by blast+
    ultimately show ?thesis by (simp add: confined_def)
  qed
qed

section \<open>Restoring\<close>

text \<open>Restoring is possible: the original masks of live tasks are accepted, and the list holds its references.\<close>

definition restorable :: "kern \<Rightarrow> evac \<Rightarrow> bool" where
  "restorable K s \<longleftrightarrow> (\<forall>t. tk_alive (ev_task s t) \<longrightarrow> k_allow K t (orig s t)) \<and> (\<forall>t. saved_cnt s t \<le> tk_refs (ev_task s t))"

lemma keeps_restorable: "keeps s s' \<Longrightarrow> restorable K s \<Longrightarrow> restorable K s'"
proof -
  assume k: "keeps s s'" and r: "restorable K s"
  have "saved_cnt s' t \<le> tk_refs (ev_task s' t)" for t
  proof -
    have "tk_refs (ev_task s' t) + saved_cnt s t = tk_refs (ev_task s t) + saved_cnt s' t" and "saved_cnt s t \<le> tk_refs (ev_task s t)"
      using k r by (simp_all add: keeps_def restorable_def)
    then show ?thesis by linarith
  qed
  then show ?thesis using k r by (simp add: keeps_def restorable_def)
qed

lemma restore_step:
  assumes "ev_saved s = ta # tas" and "restorable K s"
    and s1: "s1 = (if tk_alive (ev_task s (fst ta)) then set_cpus_allowed_ptr K (fst ta) (snd ta) s else s)"
  shows "keeps s ((upd_task (fst ta) (tk_refs_update (\<lambda>n. n - 1)) s1)\<lparr>ev_saved := tas\<rparr>)"
proof -
  let ?s = "(upd_task (fst ta) (tk_refs_update (\<lambda>n. n - 1)) s1)\<lparr>ev_saved := tas\<rparr>"
  have f: "tk_refs (ev_task s1 t) = tk_refs (ev_task s t)" "tk_alive (ev_task s1 t) = tk_alive (ev_task s t)" "ev_online s1 = ev_online s" "ev_nr_cpu_ids s1 = ev_nr_cpu_ids s" for t
    by (simp_all add: s1 set_cpus_allowed_ptr_def)
  have "0 < tk_refs (ev_task s (fst ta))"
    using assms(2) spec[of "\<lambda>t. saved_cnt s t \<le> tk_refs (ev_task s t)" "fst ta"] by (simp add: restorable_def assms(1))
  moreover have "orig ?s t = orig s t" if "tk_alive (ev_task s t)" for t
  proof (cases "map_of (rev tas) t")
    case (Some m)
    then show ?thesis by (cases ta) (simp add: orig_def assms(1) map_add_def)
  next
    case None
    show ?thesis
    proof (cases "t = fst ta")
      case True
      then have "orig s t = snd ta" using None by (cases ta) (simp add: orig_def assms(1) map_add_def)
      moreover have "k_allow K t (orig s t)" using assms(2) that by (simp add: restorable_def)
      ultimately show ?thesis using None True that by (simp add: orig_def s1)
    next
      case False
      then show ?thesis using None by (cases ta) (simp add: orig_def assms(1) map_add_def s1)
    qed
  qed
  ultimately show ?thesis by (auto simp: keeps_def f assms(1))
qed

lemma restore_loop_keeps:
  assumes "ev_saved s = tas" and "restorable K s"
  shows "keeps s (snd (restore_loop K cur tas rc s)) \<and> ev_saved (snd (restore_loop K cur tas rc s)) = []
    \<and> fst (restore_loop K cur tas rc s) = (if cur \<in> fst ` set tas then 0 else rc)"
  using assms
proof (induction tas arbitrary: s rc)
  case Nil
  then show ?case by (simp add: keeps_refl)
next
  case (Cons ta tas)
  define s1 where "s1 = (if tk_alive (ev_task s (fst ta)) then set_cpus_allowed_ptr K (fst ta) (snd ta) s else s)"
  let ?s = "(upd_task (fst ta) (tk_refs_update (\<lambda>n. n - 1)) s1)\<lparr>ev_saved := tas\<rparr>"
  have k: "keeps s ?s" using restore_step[OF Cons.prems s1_def] .
  show ?case
    using Cons.IH[of ?s "if fst ta = cur then 0 else rc"] keeps_restorable[OF k Cons.prems(2)] keeps_trans[OF k]
    by (auto simp: Let_def s1_def[symmetric])
qed

lemma restore_ok:
  assumes "restorable K s"
  shows "keeps s (snd (restore_saved_affinities K cur s))" and "ev_saved (snd (restore_saved_affinities K cur s)) = []"
    and "fst (restore_saved_affinities K cur s) = (if cur \<in> fst ` set (ev_saved s) then 0 else - 1)"
  using restore_loop_keeps[OF refl assms] by (simp_all add: restore_saved_affinities_def)

lemma acquire_done_keeps: "restorable K s \<Longrightarrow> keeps s (snd (acquire_done K cur rc s))"
  by (simp add: acquire_done_def restore_ok(1) keeps_refl)

lemma kalloc_keeps: "keeps s (snd (kalloc K s))"
  by (simp add: kalloc_def keeps_same)

lemma kalloc_sel [simp]:
  "ev_online (snd (kalloc K s)) = ev_online s" "ev_procs (snd (kalloc K s)) = ev_procs s" "ev_task (snd (kalloc K s)) = ev_task s"
  "fst (kalloc K s) = k_alloc K (ev_allocs s)"
  by (simp_all add: kalloc_def)

text \<open>The call either fails early or runs steps 1 to 3 in a state with two more allocations.\<close>

lemma acquire_eq:
  assumes "kern_ok K (ev_online s)"
  shows "acquire_exclusive_cpu K cur cpu k s =
    (if ev_nr_cpu_ids s \<le> cpu \<or> cpu \<notin> ev_online s then Inr (acquire_done K cur (- EINVAL) s)
     else rbind (acquire_masked K cur cpu k (snd (kalloc K (snd (kalloc K s))))) (\<lambda>(rc, s). Inr (acquire_done K cur rc s)))"
  using assms by (simp add: acquire_exclusive_cpu_def kern_ok_def kalloc_def)

lemma acquire_cases:
  assumes "kern_ok K (ev_online s)" and "acquire_exclusive_cpu K cur cpu k s = Inr (rc, s')"
  obtains "rc = - EINVAL" and "s' = snd (acquire_done K cur rc s)"
  | s2 where "cpu \<in> ev_online s" and "cpu < ev_nr_cpu_ids s"
      and "acquire_masked K cur cpu k (snd (kalloc K (snd (kalloc K s)))) = Inr (rc, s2)" and "s' = snd (acquire_done K cur rc s2)"
proof (cases "ev_nr_cpu_ids s \<le> cpu \<or> cpu \<notin> ev_online s")
  case True
  then have "acquire_done K cur (- EINVAL) s = (rc, s')" using assms(2) acquire_eq[OF assms(1)] by simp
  then show ?thesis using that(1) by (simp add: acquire_done_def split: if_splits)
next
  case False
  then obtain r s2 where m: "acquire_masked K cur cpu k (snd (kalloc K (snd (kalloc K s)))) = Inr (r, s2)"
      and d: "acquire_done K cur r s2 = (rc, s')"
    using assms(2) acquire_eq[OF assms(1)] by (auto simp: rbind_eq_Inr)
  then have "r = rc" by (simp add: acquire_done_def)
  then show ?thesis using that(2) False m d by simp
qed

lemma acquire_keeps:
  assumes "kern_ok K (ev_online s)" and "restorable K s" and "acquire_exclusive_cpu K cur cpu k s = Inr (rc, s')"
  shows "keeps s s'"
  using assms(1,3)
proof (cases rule: acquire_cases)
  case 1
  then show ?thesis using acquire_done_keeps[OF assms(2)] by simp
next
  case (2 s2)
  let ?s1 = "snd (kalloc K (snd (kalloc K s)))"
  have k: "keeps s ?s1" by (rule keeps_trans[OF kalloc_keeps kalloc_keeps])
  have k2: "keeps s s2" using keeps_trans[OF k acquire_masked_ok(1)[OF _ _ 2(3)]] assms(1) 2(1) by simp
  show ?thesis using keeps_trans[OF k2 acquire_done_keeps[OF keeps_restorable[OF k2 assms(2)]]] 2(4) by simp
qed

text \<open>When the answer is 0 the task has the processor for itself.\<close>

lemma acquire_zero:
  assumes "kern_ok K (ev_online s)" and "acquire_exclusive_cpu K cur cpu k s = Inr (0, s')"
  shows "mask_of s' cur = {cpu} \<and> tk_sched (ev_task s' cur) = SCHED_FIFO 99"
    and "card (ev_online s) \<noteq> 1 \<Longrightarrow> t \<in> set (concat (ev_procs s)) \<Longrightarrow> should_preserve_migrate cur s t \<or> confined cpu s' t"
proof -
  let ?s1 = "snd (kalloc K (snd (kalloc K s)))"
  obtain s2 where m: "acquire_masked K cur cpu k ?s1 = Inr (0, s2)" and c: "cpu \<in> ev_online s" and s': "s' = s2"
    using assms by (cases rule: acquire_cases) (auto simp: EINVAL_def acquire_done_def)
  note ok = acquire_masked_ok[OF _ _ m]
  show "mask_of s' cur = {cpu} \<and> tk_sched (ev_task s' cur) = SCHED_FIFO 99" using ok(2) assms(1) c s' by simp
  show "should_preserve_migrate cur s t \<or> confined cpu s' t" if "card (ev_online s) \<noteq> 1" "t \<in> set (concat (ev_procs s))"
    using ok(3)[of t] assms(1) c s' that by (simp add: should_preserve_migrate_def) blast
qed

text \<open>With several processors the call always returns, with an error number or what \<open>sched_setattr_nocheck\<close> answers.\<close>

lemma acquire_total:
  assumes "kern_ok K (ev_online s)" and "card (ev_online s) \<noteq> 1"
  shows "\<exists>rc s'. acquire_exclusive_cpu K cur cpu k s = Inr (rc, s') \<and> (rc = - EINVAL \<or> (\<exists>e. rc = k_setattr K e))
    \<and> ((\<forall>e. k_setattr K e = 0) \<and> cpu \<in> ev_online s \<and> cpu < ev_nr_cpu_ids s \<longrightarrow> rc = 0)"
proof (cases "ev_nr_cpu_ids s \<le> cpu \<or> cpu \<notin> ev_online s")
  case True
  then show ?thesis using acquire_eq[OF assms(1)] by (auto simp: acquire_done_def)
next
  case False
  let ?s1 = "snd (kalloc K (snd (kalloc K s)))"
  obtain r2 s2 where s2: "save_task_affinity K cur ?s1 = (r2, s2)" by fastforce
  have o: "ev_online s2 = ev_online s" using keeps_save(4)[OF s2] assms(1) by (simp add: kern_ok_def)
  have "\<exists>s3. others_away K cur cpu k (set_cpus_allowed_ptr K cur {cpu} s2) = Inr (0, s3)"
    using assms(2) o by (simp add: others_away_def split: prod.splits)
  then obtain s3 where "others_away K cur cpu k (set_cpus_allowed_ptr K cur {cpu} s2) = Inr (0, s3)" ..
  then have "acquire_masked K cur cpu k ?s1 = Inr (sched_setattr_nocheck K cur (SCHED_FIFO 99) s3)"
    using s2 by (simp add: acquire_masked_def)
  then show ?thesis
    using acquire_eq[OF assms(1)] False by (auto simp: acquire_done_def sched_setattr_nocheck_def)
qed

section \<open>Sequences of calls\<close>

datatype evac_op = Acquire nat nat int | Release nat | Exits nat

definition evac_opr :: "kern \<Rightarrow> evac_op \<Rightarrow> evac \<Rightarrow> evac \<Rightarrow> bool" where
  "evac_opr K x s s' \<longleftrightarrow> (case x of
     Acquire cur cpu k \<Rightarrow> (\<exists>rc. acquire_exclusive_cpu K cur cpu k s = Inr (rc, s'))
   | Release cur \<Rightarrow> s' = release_exclusive_cpu K cur s
   | Exits t \<Rightarrow> s' = upd_task t (tk_alive_update (\<lambda>_. False)) s)"

lemma release_ok:
  assumes "restorable K s"
  shows "keeps s (release_exclusive_cpu K cur s)" and "ev_saved (release_exclusive_cpu K cur s) = []"
proof -
  obtain rc s' where s': "sched_setattr_nocheck K cur SCHED_NORMAL (snd (restore_saved_affinities K cur s)) = (rc, s')" by fastforce
  show "keeps s (release_exclusive_cpu K cur s)"
    using keeps_trans[OF restore_ok(1)[OF assms] setattr_ok(1)[OF s']] s' by (simp add: release_exclusive_cpu_def)
  show "ev_saved (release_exclusive_cpu K cur s) = []"
    using restore_ok(2)[OF assms] setattr_ok(5)[OF s'] s' by (simp add: release_exclusive_cpu_def)
qed

text \<open>Relative to the tasks at the start: original masks, references, and who can still be alive.\<close>

definition evac_inv :: "kern \<Rightarrow> evac \<Rightarrow> evac \<Rightarrow> bool" where
  "evac_inv K s0 s \<longleftrightarrow> ev_online s = ev_online s0 \<and> restorable K s
     \<and> (\<forall>t. tk_alive (ev_task s t) \<longrightarrow> orig s t = mask_of s0 t)
     \<and> (\<forall>t. tk_refs (ev_task s t) = tk_refs (ev_task s0 t) + saved_cnt s t)"

lemma evac_inv_keeps: "evac_inv K s0 s \<Longrightarrow> keeps s s' \<Longrightarrow> evac_inv K s0 s'"
proof -
  assume i: "evac_inv K s0 s" and k: "keeps s s'"
  have "tk_refs (ev_task s' t) = tk_refs (ev_task s0 t) + saved_cnt s' t" for t
  proof -
    have "tk_refs (ev_task s' t) + saved_cnt s t = tk_refs (ev_task s t) + saved_cnt s' t"
      and "tk_refs (ev_task s t) = tk_refs (ev_task s0 t) + saved_cnt s t"
      using i k by (simp_all add: evac_inv_def keeps_def)
    then show ?thesis by linarith
  qed
  then show ?thesis using i k keeps_restorable[OF k] by (simp add: evac_inv_def keeps_def)
qed

lemma evac_inv_exits:
  assumes "evac_inv K s0 s"
  shows "evac_inv K s0 (upd_task t (tk_alive_update (\<lambda>_. False)) s)"
proof -
  have "orig (upd_task t (tk_alive_update (\<lambda>_. False)) s) u = orig s u" for u
    by (cases "map_of (rev (ev_saved s)) u") (simp_all add: orig_def)
  then show ?thesis using assms by (auto simp: evac_inv_def restorable_def)
qed

lemma evac_inv_step:
  assumes "kern_ok K (ev_online s0)" and "evac_inv K s0 s" and "evac_opr K x s s'"
  shows "evac_inv K s0 s'"
proof -
  have o: "ev_online s = ev_online s0" and r: "restorable K s" using assms(2) by (simp_all add: evac_inv_def)
  show ?thesis
    using assms(3) evac_inv_keeps[OF assms(2)] acquire_keeps[OF _ r, unfolded o, OF assms(1)] release_ok(1)[OF r] evac_inv_exits[OF assms(2)]
    by (cases x) (auto simp: evac_opr_def)
qed

lemma evac_inv_seq: "op_seq (evac_opr K) xs s s' \<Longrightarrow> kern_ok K (ev_online s0) \<Longrightarrow> evac_inv K s0 s \<Longrightarrow> evac_inv K s0 s'"
  by (induction rule: op_seq.induct) (auto dest: evac_inv_step)

text \<open>A machine on which every task may run somewhere, and nothing is saved yet.\<close>

definition evac_start :: "evac \<Rightarrow> bool" where
  "evac_start s \<longleftrightarrow> ev_saved s = [] \<and> (\<forall>t. mask_of s t \<inter> ev_online s \<noteq> {})"

lemma evac_inv_start: "kern_ok K (ev_online s) \<Longrightarrow> evac_start s \<Longrightarrow> evac_inv K s s"
  by (simp add: evac_inv_def restorable_def evac_start_def orig_def kern_ok_def)

section \<open>Who is killed\<close>

text \<open>The task itself and its parents, up to init.\<close>

inductive ancestor :: "evac \<Rightarrow> nat \<Rightarrow> nat \<Rightarrow> bool" for s where
  ancestor_self: "1 < tk_pid (ev_task s t) \<Longrightarrow> ancestor s t t"
| ancestor_up: "1 < tk_pid (ev_task s t) \<Longrightarrow> tk_parent (ev_task s t) = Some p \<Longrightarrow> ancestor s p u \<Longrightarrow> ancestor s t u"

inductive_cases ancestorE: "ancestor s t u"

text \<open>The bound is long enough when the parents of a task are strictly closer to the root.\<close>

definition parents_ranked :: "nat \<Rightarrow> evac \<Rightarrow> nat \<Rightarrow> bool" where
  "parents_ranked n s cur \<longleftrightarrow> (\<exists>rank. rank cur < n \<and> (\<forall>t p. tk_parent (ev_task s t) = Some p \<longrightarrow> rank p < (rank t :: nat)))"

lemma is_ancestor_iff:
  assumes "\<forall>t p. tk_parent (ev_task s t) = Some p \<longrightarrow> rank p < (rank t :: nat)"
  shows "rank t < n \<Longrightarrow> is_ancestor n s (Some t) u = Inr (ancestor s t u)"
proof (induction n arbitrary: t)
  case (Suc n)
  show ?case
  proof (cases "tk_parent (ev_task s t)")
    case None
    then show ?thesis by (auto intro: ancestor_self elim: ancestorE)
  next
    case (Some p)
    then have "rank p < n" using assms Suc.prems by fastforce
    with Suc.IH Some show ?thesis by (auto intro: ancestor.intros elim: ancestorE)
  qed
qed simp

text \<open>The threads that are spared when others are killed nicely.\<close>

definition spared :: "nat \<Rightarrow> evac \<Rightarrow> nat \<Rightarrow> bool" where
  "spared cur s t \<longleftrightarrow> should_preserve_migrate cur s t \<or> ancestor s cur t
     \<or> (tk_session (ev_task s t) \<noteq> None \<and> tk_session (ev_task s t) = tk_session (ev_task s cur))"

lemma ancestor_cong: "ev_task s' = ev_task s \<Longrightarrow> ancestor s' t u = ancestor s t u"
proof -
  have "ancestor a t u \<Longrightarrow> ev_task b = ev_task a \<Longrightarrow> ancestor b t u" for a b
    by (induction rule: ancestor.induct) (auto intro: ancestor.intros)
  then show "ev_task s' = ev_task s \<Longrightarrow> ancestor s' t u = ancestor s t u" by metis
qed

lemma spared_cong: "ev_task s' = ev_task s \<Longrightarrow> spared cur s' t = spared cur s t"
  using ancestor_cong[of s' s cur t] by (simp add: spared_def should_preserve_migrate_def)

lemma should_preserve_kill_eq:
  assumes "parents_ranked (k_depth K) s cur"
  shows "should_preserve_kill K cur s t = Inr (spared cur s t)"
proof -
  have "is_ancestor (k_depth K) s (Some cur) t = Inr (ancestor s cur t)"
    using assms is_ancestor_iff by (auto simp: parents_ranked_def)
  moreover have "(tk_session (ev_task s t) \<noteq> None \<and> tk_session (ev_task s cur) \<noteq> None \<and> tk_session (ev_task s t) = tk_session (ev_task s cur))
      = (tk_session (ev_task s t) \<noteq> None \<and> tk_session (ev_task s t) = tk_session (ev_task s cur))"
    by metis
  ultimately show ?thesis by (simp add: should_preserve_kill_def spared_def)
qed

lemma parents_ranked_cong: "ev_task s' = ev_task s \<Longrightarrow> parents_ranked n s' cur = parents_ranked n s cur"
  by (simp add: parents_ranked_def)

lemma kill_loop_exact:
  assumes "k = 1 \<Longrightarrow> parents_ranked (k_depth K) s cur" and "k = 1 \<or> k = 2"
  shows "\<exists>n'. kill_loop K cur k ts n s = Inr (n', s\<lparr>ev_killed := ev_killed s @ filter (\<lambda>t. k = 2 \<or> \<not> spared cur s t) ts\<rparr>)"
  using assms
proof (induction ts arbitrary: n s)
  case (Cons t ts)
  let ?s = "s\<lparr>ev_killed := ev_killed s @ [t]\<rparr>"
  have c: "spared cur ?s u = spared cur s u" "parents_ranked (k_depth K) ?s cur = parents_ranked (k_depth K) s cur" for u
    using spared_cong[of ?s s cur u] parents_ranked_cong[of ?s s "k_depth K" cur] by simp_all
  show ?case
  proof (cases "k = 2 \<or> \<not> spared cur s t")
    case True
    then have "kill_loop K cur k (t # ts) n s = kill_loop K cur k ts (n + 1) ?s"
      using Cons.prems should_preserve_kill_eq[of K s cur t] by auto
    then show ?thesis using Cons.IH[of ?s "n + 1"] Cons.prems True by (simp add: c del: kill_loop.simps)
  next
    case False
    then have "kill_loop K cur k (t # ts) n s = kill_loop K cur k ts n s"
      using Cons.prems should_preserve_kill_eq[of K s cur t] by auto
    then show ?thesis using Cons.IH[of s n] Cons.prems False by (simp del: kill_loop.simps)
  qed
qed simp

section \<open>Properties\<close>

text \<open>
  C13. With more than one processor online a request for the processor the task runs on succeeds when the kernel's functions do. Afterwards the task may run on that processor only and has the
  highest real-time priority, and any other thread, init and kernel threads excepted, that may still run on the processor may run on no other processor that is online.\<close>

theorem acquire_is_exclusive:
  assumes "kern_ok K (ev_online s)" and "\<forall>s. k_setattr K s = 0" and "cpu \<in> ev_online s" and "cpu < ev_nr_cpu_ids s" and "card (ev_online s) \<noteq> 1"
  shows "\<exists>s'. acquire_exclusive_cpu K cur cpu k s = Inr (0, s') \<and> mask_of s' cur = {cpu} \<and> tk_sched (ev_task s' cur) = SCHED_FIFO 99
    \<and> (\<forall>t \<in> set (concat (ev_procs s)). should_preserve_migrate cur s t \<or> confined cpu s' t)"
proof -
  obtain s' where "acquire_exclusive_cpu K cur cpu k s = Inr (0, s')"
    using acquire_total[OF assms(1,5), of cur cpu k] assms(2-4) by auto
  then show ?thesis using acquire_zero[OF assms(1)] assms(5) by blast
qed

text \<open>Two processors; task 1 is init, task 2 asks, tasks 3 and 4 are ordinary, task 4 is bound to processor 0.\<close>

definition demo_task :: "nat \<Rightarrow> nat set \<Rightarrow> task" where
  "demo_task n m = \<lparr>tk_pid = n, tk_kthread = False, tk_parent = (if n \<le> 1 then None else Some 1), tk_session = Some n,
     tk_mask = m, tk_alive = True, tk_refs = 1, tk_sched = SCHED_NORMAL\<rparr>"

definition demo_evac :: evac where
  "demo_evac = \<lparr>ev_procs = [[1], [2], [3, 4]], ev_task = (\<lambda>n. demo_task n (if n = 4 then {0} else {0, 1})), ev_saved = [],
     ev_online = {0, 1}, ev_nr_cpu_ids = 2, ev_allocs = 0, ev_killed = []\<rparr>"

definition demo_kern :: kern where
  "demo_kern = \<lparr>k_alloc = (\<lambda>_. True), k_allow = (\<lambda>_ m. m \<noteq> {}), k_setattr = (\<lambda>_. 0), k_depth = 10\<rparr>"

lemma demo_kern_ok: "kern_ok demo_kern (ev_online demo_evac)"
  by (auto simp: kern_ok_def demo_kern_def)

theorem acquire_is_exclusive_witness:
  "\<exists>s'. acquire_exclusive_cpu demo_kern 2 0 1 demo_evac = Inr (0, s') \<and> mask_of s' 2 = {0} \<and> confined 0 s' 3 \<and> confined 0 s' 4"
  using acquire_is_exclusive[OF demo_kern_ok, of 0 2 1]
  by (auto simp: demo_kern_def) (auto simp: demo_evac_def demo_task_def should_preserve_migrate_def)

text \<open>
  C12. Whatever tasks have requested and released processors before, in whatever order, with whatever result and while tasks exit: a release, and likewise a request that fails, gives every live task
  the affinity it had at the start, empties the list and gives back every reference it took to a task. In particular the exclusive use of all other processors ends with it.\<close>

theorem release_restores_affinities:
  assumes "kern_ok K (ev_online s0)" and "evac_start s0" and "op_seq (evac_opr K) xs s0 s"
    and "s' = release_exclusive_cpu K cur s \<or> (\<exists>rc. rc \<noteq> 0 \<and> acquire_exclusive_cpu K cur cpu k s = Inr (rc, s'))"
  shows "ev_saved s' = [] \<and> (\<forall>t. tk_refs (ev_task s' t) = tk_refs (ev_task s0 t))
    \<and> (\<forall>t. tk_alive (ev_task s' t) \<longrightarrow> mask_of s' t = mask_of s0 t)"
proof -
  have i: "evac_inv K s0 s" using evac_inv_seq[OF assms(3,1) evac_inv_start[OF assms(1,2)]] .
  then have r: "restorable K s" and o: "ev_online s = ev_online s0" by (simp_all add: evac_inv_def)
  have "evac_opr K (Release cur) s s' \<or> evac_opr K (Acquire cur cpu k) s s'" using assms(4) by (auto simp: evac_opr_def)
  then have i': "evac_inv K s0 s'" using evac_inv_step[OF assms(1) i] by blast
  have "ev_saved s' = []"
    using assms(4)
  proof (elim disjE exE conjE)
    assume "s' = release_exclusive_cpu K cur s"
    then show ?thesis using release_ok(2)[OF r] by simp
  next
    fix rc assume rc: "rc \<noteq> 0" and a: "acquire_exclusive_cpu K cur cpu k s = Inr (rc, s')"
    have "kern_ok K (ev_online s)" using assms(1) o by simp
    then show ?thesis
      using a
    proof (cases rule: acquire_cases)
      case 1
      then show ?thesis using rc restore_ok(2)[OF r] by (simp add: acquire_done_def)
    next
      case (2 s2)
      have "keeps s s2"
        using keeps_trans[OF keeps_trans[OF kalloc_keeps kalloc_keeps] acquire_masked_ok(1)[OF _ _ 2(3)]] assms(1) 2(1) o by simp
      then show ?thesis using 2(4) rc restore_ok(2) keeps_restorable r by (simp add: acquire_done_def)
    qed
  qed
  then show ?thesis using i' by (simp add: evac_inv_def orig_def)
qed

theorem release_restores_affinities_witness:
  "\<exists>s. op_seq (evac_opr demo_kern) [Acquire 2 0 1] demo_evac s \<and> mask_of s 3 = {1}
    \<and> ev_saved (release_exclusive_cpu demo_kern 2 s) = [] \<and> mask_of (release_exclusive_cpu demo_kern 2 s) 3 = {0, 1}"
proof -
  have "case acquire_exclusive_cpu demo_kern 2 0 1 demo_evac of Inl _ \<Rightarrow> False
      | Inr (rc, s) \<Rightarrow> mask_of s 3 = {1} \<and> tk_alive (ev_task (release_exclusive_cpu demo_kern 2 s) 3)"
    by code_simp
  then obtain rc s where s: "acquire_exclusive_cpu demo_kern 2 0 1 demo_evac = Inr (rc, s)" and m: "mask_of s 3 = {1}"
      and a: "tk_alive (ev_task (release_exclusive_cpu demo_kern 2 s) 3)"
    by (auto split: sum.splits)
  have o: "op_seq (evac_opr demo_kern) [Acquire 2 0 1] demo_evac s" using s by (auto simp: evac_opr_def)
  have st: "evac_start demo_evac" by (simp add: evac_start_def demo_evac_def demo_task_def)
  have "mask_of demo_evac 3 = {0, 1}" by (simp add: demo_evac_def demo_task_def)
  then show ?thesis using release_restores_affinities[OF demo_kern_ok st o, of _ 2] o m a by blast
qed

text \<open>
  When memory runs out the operations are not safe. If the second mask cannot be allocated the first one is freed twice, and a thread whose affinity could not be saved is moved away all the
  same, so that no later restoring gives it its affinity back.\<close>

theorem evac_out_of_memory:
  assumes "cpu \<in> ev_online s" and "cpu < ev_nr_cpu_ids s"
  shows "(k_alloc K (ev_allocs s) \<and> \<not> k_alloc K (Suc (ev_allocs s)) \<longrightarrow> acquire_exclusive_cpu K cur cpu k s = Inl Use_after_free)
    \<and> (\<not> k_alloc K (ev_allocs s) \<and> \<not> should_preserve_migrate cur s t \<and> cpu \<in> mask_of s t \<and> t \<notin> fst ` set (ev_saved s)
         \<and> mask_of s t \<inter> other \<noteq> {} \<and> k_allow K t (other \<inter> mask_of s t)
       \<longrightarrow> orig (snd (migrate_task K cur cpu other t s)) t = other \<inter> mask_of s t)"
proof -
  have "acquire_exclusive_cpu K cur cpu k s = Inl Use_after_free" if "k_alloc K (ev_allocs s)" "\<not> k_alloc K (Suc (ev_allocs s))"
    using that assms by (simp add: acquire_exclusive_cpu_def kalloc_def)
  moreover have "orig (snd (migrate_task K cur cpu other t s)) t = other \<inter> mask_of s t"
    if "\<not> k_alloc K (ev_allocs s)" "\<not> should_preserve_migrate cur s t" "cpu \<in> mask_of s t" "t \<notin> fst ` set (ev_saved s)"
      "mask_of s t \<inter> other \<noteq> {}" "k_allow K t (other \<inter> mask_of s t)"
  proof -
    have "map_of (rev (ev_saved s)) t = None" using that(4) by (simp add: map_of_eq_None_iff)
    moreover have "other \<inter> mask_of s t \<noteq> {}" "t \<noteq> cur" using that(2,5) by (auto simp: should_preserve_migrate_def)
    ultimately show ?thesis
      using that by (simp add: migrate_task_def save_task_affinity_def kalloc_def orig_def set_cpus_allowed_ptr_def)
  qed
  ultimately show ?thesis by blast
qed

theorem evac_out_of_memory_witness:
  "acquire_exclusive_cpu (demo_kern\<lparr>k_alloc := (\<lambda>n. n = 0)\<rparr>) 2 0 1 demo_evac = Inl Use_after_free"
  using evac_out_of_memory[of 0 demo_evac "demo_kern\<lparr>k_alloc := (\<lambda>n. n = 0)\<rparr>" 2 1] by (simp add: demo_evac_def demo_kern_def)

text \<open>
  Killing the others nicely terminates and sends the signal to exactly those threads that are not init, not kernel threads, not the task itself, not its ancestors and not in its session. The strongest mode,
  \<open>EVAC_KILL_ALLOTHERS\<close>, sends it to every thread there is, to the task itself, init and kernel threads as well.\<close>

theorem killothers_exact:
  assumes "parents_ranked (k_depth K) s cur"
  shows "(\<exists>n. killothers K cur 1 s = Inr (n, s\<lparr>ev_killed := ev_killed s @ filter (\<lambda>t. \<not> spared cur s t) (concat (ev_procs s))\<rparr>))
    \<and> (\<exists>n. killothers K cur 2 s = Inr (n, s\<lparr>ev_killed := ev_killed s @ concat (ev_procs s)\<rparr>))"
  using kill_loop_exact[of 1 K s cur "concat (ev_procs s)" 0] kill_loop_exact[of 2 K s cur "concat (ev_procs s)" 0] assms
  by (simp add: killothers_def)

theorem killothers_exact_witness:
  "\<exists>n s'. killothers demo_kern 2 2 demo_evac = Inr (n, s') \<and> ev_killed s' = [1, 2, 3, 4]"
proof -
  have "parents_ranked (k_depth demo_kern) demo_evac 2"
    unfolding parents_ranked_def
    by (rule exI[of _ "\<lambda>n. if n \<le> 1 then 0 else 1"]) (auto simp: demo_evac_def demo_kern_def demo_task_def split: if_splits)
  then show ?thesis using killothers_exact[of demo_kern demo_evac 2] by (auto simp: demo_evac_def)
qed

end
