(* ===== verification/Kcut_Ext.thy ===== *)
theory Kcut_Ext
  imports Kcut Evac
begin

text \<open>
  The kernel side of the shortcuts: \<open>kcuttest/kcut_tcpmsg.kc\<close>, and a whole run of a program together with the extension \<open>evacuate.kc\<close> that answers its requests for
  a processor.
\<close>

section \<open>Receiving and sending in the kernel\<close>

text \<open>
  An open file is a socket or something else. The code takes the private data of any file for a socket; for a file that is none this reads another object.
  \<open>tcp_recvmsg\<close> and \<open>tcp_sendmsg\<close> are parameters.
\<close>

datatype k_file = K_socket nat | K_other

definition kcut_tcp_recvmsg :: "(int \<Rightarrow> k_file option) \<Rightarrow> (nat \<Rightarrow> nat \<Rightarrow> int) \<Rightarrow> int \<Rightarrow> nat \<Rightarrow> int res" where
  "kcut_tcp_recvmsg files tcp_recvmsg fd iov_len =
     (case files fd of
        None \<Rightarrow> Inr 0
      | Some f \<Rightarrow> (case f of K_other \<Rightarrow> Inl Out_of_bounds | K_socket sk \<Rightarrow> Inr (tcp_recvmsg sk iov_len)))"

definition kcut_tcp_sendmsg :: "(int \<Rightarrow> k_file option) \<Rightarrow> (nat \<Rightarrow> nat \<Rightarrow> int) \<Rightarrow> int \<Rightarrow> nat \<Rightarrow> int res" where
  "kcut_tcp_sendmsg files tcp_sendmsg fd iov_len =
     (case files fd of
        None \<Rightarrow> Inr 0
      | Some f \<Rightarrow> (case f of K_other \<Rightarrow> Inl Out_of_bounds | K_socket sk \<Rightarrow> Inr (tcp_sendmsg sk iov_len)))"

section \<open>Requests for a processor\<close>

text \<open>The requests in a trace of calls, answered by the extension; \<open>kcut_evacuate\<close> asks with \<open>EVAC_KILL_NICELY\<close>.\<close>

definition EVAC_KILL_NICELY :: int where "EVAC_KILL_NICELY = 1"

fun evac_trace :: "kern \<Rightarrow> nat \<Rightarrow> nat \<Rightarrow> evac \<Rightarrow> kc_call list \<Rightarrow> evac res" where
  "evac_trace K cur cpu e [] = Inr e"
| "evac_trace K cur cpu e (K_acquire_cpu _ # cs) =
     rbind (acquire_exclusive_cpu K cur cpu EVAC_KILL_NICELY e) (\<lambda>(_, e). evac_trace K cur cpu e cs)"
| "evac_trace K cur cpu e (K_release_cpu _ # cs) = evac_trace K cur cpu (release_exclusive_cpu K cur e) cs"
| "evac_trace K cur cpu e (_ # cs) = evac_trace K cur cpu e cs"

definition is_evac :: "kc_call \<Rightarrow> bool" where
  "is_evac c = (case c of K_acquire_cpu _ \<Rightarrow> True | K_release_cpu _ \<Rightarrow> True | _ \<Rightarrow> False)"

lemma is_evac_simps [simp]:
  "\<not> is_evac K_elevate" "\<not> is_evac K_lower" "\<not> is_evac (Sys_read fd n)" "\<not> is_evac (Sys_write fd n)" "\<not> is_evac K_current_pid"
  "is_evac (K_acquire_cpu c)" "is_evac (K_release_cpu c)"
  "\<not> is_evac (kcut_tcp_recvmsg_thunk cfg fd n)" "\<not> is_evac (kcut_tcp_sendmsg_thunk cfg fd n)"
  by (simp_all add: is_evac_def kcut_tcp_recvmsg_thunk_def kcut_tcp_sendmsg_thunk_def)

lemma evac_trace_filter: "evac_trace K cur cpu e (filter is_evac cs) = evac_trace K cur cpu e cs"
proof (induction cs arbitrary: e)
  case (Cons c cs)
  then show ?case by (cases c) (simp_all add: is_evac_def)
qed simp

abbreviation evacs :: "kcut \<Rightarrow> kc_call list" where
  "evacs s \<equiv> filter is_evac (kc_trace s)"

text \<open>Reads and writes make no request.\<close>

lemma kcut_enter_evacs:
  assumes "kcut_enter cfg W c s = Inr (r, s')" and "\<not> is_evac c"
  shows "evacs s' = evacs s"
  using assms
  by (auto simp: kcut_enter_def stack_switch_kcall_def kcut_tos_offset_def kc_call_in_def ELEVATE_ME_def LOWER_ME_def Let_def rbind_eq_Inr kc_do_def
      split: if_splits prod.splits)

lemma kcut_op_evacs:
  assumes "kcut_op cfg W x s = Inr (r, s')"
  shows "evacs s' = evacs s"
  using assms
  by (cases x) (auto simp: kcut_op_def kcut_tcp_read_def kcut_tcp_write_def rbind_eq_Inr kc_call_in_def kc_do_def split: if_splits prod.splits dest!: kcut_enter_evacs)

lemma kcut_ops_evacs: "kcut_ops cfg W xs s = Inr s' \<Longrightarrow> evacs s' = evacs s"
  by (induction xs arbitrary: s) (auto simp: rbind_eq_Inr dest!: kcut_op_evacs)

lemma kcut_evacuate_evacs:
  assumes "kcut_evacuate W acq s = Inr s'"
  obtains c tr where "evacs s' = evacs s @ [if acq then K_acquire_cpu c else K_release_cpu c]" and "filter is_evac tr = evacs s"
    and "acq \<Longrightarrow> to_int (os_ret W tr (K_acquire_cpu c)) = 0"
proof -
  obtain c where c: "os_getcpu W = Some c" using assms by (auto simp: kcut_evacuate_def split: option.splits)
  let ?s = "kc_do K_elevate s" and ?c = "if acq then K_acquire_cpu c else K_release_cpu c"
  obtain r s1 where k: "stack_switch_kcall W ?c ?s = Inr (r, s1)" and e: "s' = kc_do K_lower s1" "acq \<Longrightarrow> to_int r = 0"
    using assms c by (auto simp: kcut_evacuate_def Let_def rbind_eq_Inr split: if_splits)
  then have "kc_trace s1 = kc_trace ?s @ [?c]" "r = os_ret W (kc_trace ?s) ?c"
    by (auto simp: stack_switch_kcall_def kcut_tos_offset_def kc_call_in_def Let_def rbind_eq_Inr split: if_splits prod.splits)
  then show ?thesis using e by (intro that[of c "kc_trace ?s"]) auto
qed

section \<open>A run with a processor of its own\<close>

text \<open>The kernel answers requests as the extension does.\<close>

definition answers_evac :: "kc_os \<Rightarrow> kern \<Rightarrow> nat \<Rightarrow> nat \<Rightarrow> evac \<Rightarrow> bool" where
  "answers_evac W K cur cpu e0 \<longleftrightarrow> (\<forall>tr c e rc e'. evac_trace K cur cpu e0 tr = Inr e \<longrightarrow>
     acquire_exclusive_cpu K cur cpu EVAC_KILL_NICELY e = Inr (rc, e') \<longrightarrow> os_ret W tr (K_acquire_cpu c) = rc)"

lemma to_int_small: "- (2 ^ 31) \<le> r \<Longrightarrow> r < 2 ^ 31 \<Longrightarrow> to_int r = r"
  by (simp add: to_int_def signed_of_int signed_take_bit_int_eq_self)

lemma kcut_init_evacs:
  assumes "EVACUATE cfg" and "kcut_init cfg W s = Inr s'"
  obtains s1 where "kcut_evacuate W True s = Inr s1" and "evacs s' = evacs s1"
  using assms by (auto simp: kcut_init_def Let_def rbind_eq_Inr split: if_splits option.splits)

lemma kcut_cleanup_evacs:
  assumes "EVACUATE cfg" and "kcut_cleanup cfg W s = Inr s'"
  obtains s1 where "kcut_evacuate W False s = Inr s1" and "evacs s' = evacs s1"
  using assms by (auto simp: kcut_cleanup_def rbind_eq_Inr split: if_splits)

text \<open>The request at the start is granted, or the program has stopped.\<close>

lemma kcut_init_exclusive:
  assumes "kern_ok K (ev_online e0)" and "card (ev_online e0) \<noteq> 1" and "\<forall>e. - (2 ^ 31) \<le> k_setattr K e \<and> k_setattr K e < 2 ^ 31"
    and "answers_evac W K cur cpu e0" and "EVACUATE cfg" and "kcut_init cfg W kcut_start = Inr s1"
  obtains c e1 where "evacs s1 = [K_acquire_cpu c]" and "acquire_exclusive_cpu K cur cpu EVAC_KILL_NICELY e0 = Inr (0, e1)"
proof -
  obtain s0 where s0: "kcut_evacuate W True kcut_start = Inr s0" "evacs s1 = evacs s0"
    using kcut_init_evacs[OF assms(5,6)] .
  obtain c tr where c: "evacs s0 = [K_acquire_cpu c]" "filter is_evac tr = []" "to_int (os_ret W tr (K_acquire_cpu c)) = 0"
    using kcut_evacuate_evacs[OF s0(1)] by (auto simp: kcut_start_def)
  have "evac_trace K cur cpu e0 tr = Inr e0" using evac_trace_filter[of K cur cpu e0 tr] c(2) by simp
  moreover obtain rc e1 where a: "acquire_exclusive_cpu K cur cpu EVAC_KILL_NICELY e0 = Inr (rc, e1)" "rc = - EINVAL \<or> (\<exists>e. rc = k_setattr K e)"
    using acquire_total[OF assms(1,2)] by blast
  ultimately have "to_int rc = 0" using assms(4) c(3) unfolding answers_evac_def by metis
  moreover have "to_int rc = rc" using a(2) assms(3) by (auto simp: EINVAL_def intro: to_int_small)
  ultimately show ?thesis using that a(1) s0(2) c(1) by simp
qed

text \<open>
  C14. A program that evacuates its processor, together with the extension that serves it, while no other task makes requests to the extension. When its initialisation returns, it is bound to the processor with the highest priority, and every ordinary
  thread has left the processor or can run nowhere else; the affinities stay like that after every read and write of the run, up to its cleanup. When the run is over every live task has the affinity it had before the program started and nothing is saved
  any more. (The requests of another task in between would end this: \<open>release_exclusive_cpu\<close> restores all that is saved.)\<close>

theorem kcut_session_evacuates:
  assumes "kern_ok K (ev_online e0)" and "card (ev_online e0) \<noteq> 1" and "\<forall>e. - (2 ^ 31) \<le> k_setattr K e \<and> k_setattr K e < 2 ^ 31"
    and "evac_start e0" and "answers_evac W K cur cpu e0" and "EVACUATE cfg" and "kcut_session cfg W ops = Inr s"
  shows "\<exists>s1 e1 e2. kcut_init cfg W kcut_start = Inr s1
    \<and> (\<forall>n s2. kcut_ops cfg W (take n ops) s1 = Inr s2 \<longrightarrow> evac_trace K cur cpu e0 (kc_trace s2) = Inr e1)
    \<and> mask_of e1 cur = {cpu} \<and> tk_sched (ev_task e1 cur) = SCHED_FIFO 99
    \<and> (\<forall>t \<in> set (concat (ev_procs e0)). should_preserve_migrate cur e0 t \<or> confined cpu e1 t)
    \<and> evac_trace K cur cpu e0 (kc_trace s) = Inr e2 \<and> ev_saved e2 = [] \<and> (\<forall>t. tk_alive (ev_task e0 t) \<longrightarrow> mask_of e2 t = mask_of e0 t)"
proof -
  obtain s1 s2 where i: "kcut_init cfg W kcut_start = Inr s1" and o: "kcut_ops cfg W ops s1 = Inr s2" and cl: "kcut_cleanup cfg W s2 = Inr s"
    using assms(7) by (auto simp: kcut_session_def rbind_eq_Inr)
  obtain c e1 where c: "evacs s1 = [K_acquire_cpu c]" and a: "acquire_exclusive_cpu K cur cpu EVAC_KILL_NICELY e0 = Inr (0, e1)"
    using kcut_init_exclusive[OF assms(1-3,5,6) i] .
  obtain s3 where s3: "kcut_evacuate W False s2 = Inr s3" "evacs s = evacs s3" using kcut_cleanup_evacs[OF assms(6) cl] .
  obtain c' where c': "evacs s = [K_acquire_cpu c, K_release_cpu c']"
    using kcut_evacuate_evacs[OF s3(1)] s3(2) kcut_ops_evacs[OF o] c by auto
  let ?e2 = "release_exclusive_cpu K cur e1"
  have t: "evac_trace K cur cpu e0 (kc_trace s) = Inr ?e2"
    using evac_trace_filter[of K cur cpu e0 "kc_trace s"] c' a by simp
  have m: "evac_trace K cur cpu e0 (kc_trace s2) = Inr e1" if "kcut_ops cfg W (take n ops) s1 = Inr s2" for n s2
    using evac_trace_filter[of K cur cpu e0 "kc_trace s2"] kcut_ops_evacs[OF that] c a by simp
  have r0: "restorable K e0" using evac_inv_start[OF assms(1,4)] by (simp add: evac_inv_def)
  note k1 = acquire_keeps[OF assms(1) r0 a]
  note r1 = keeps_restorable[OF k1 r0]
  have "keeps e0 ?e2" "ev_saved ?e2 = []" using keeps_trans[OF k1 release_ok(1)[OF r1]] release_ok(2)[OF r1] .
  then have "ev_saved ?e2 = [] \<and> (\<forall>t. tk_alive (ev_task e0 t) \<longrightarrow> mask_of ?e2 t = mask_of e0 t)"
    using assms(4) by (simp add: keeps_def orig_def evac_start_def)
  moreover have "\<forall>t \<in> set (concat (ev_procs e0)). should_preserve_migrate cur e0 t \<or> confined cpu e1 t"
    using acquire_zero(2)[OF assms(1) a assms(2)] by blast
  ultimately show ?thesis using i t m acquire_zero(1)[OF assms(1) a] by blast
qed

lemma evac_trace_keeps:
  "evac_trace K cur cpu e tr = Inr e' \<Longrightarrow> kern_ok K (ev_online e) \<Longrightarrow> restorable K e \<Longrightarrow> keeps e e'"
proof (induction K cur cpu e tr rule: evac_trace.induct)
  case (2 K cur cpu e c cs)
  then obtain rc e1 where a: "acquire_exclusive_cpu K cur cpu EVAC_KILL_NICELY e = Inr (rc, e1)" and t: "evac_trace K cur cpu e1 cs = Inr e'"
    by (auto simp: rbind_eq_Inr)
  have k: "keeps e e1" by (rule acquire_keeps[OF 2(3,4) a])
  then have "kern_ok K (ev_online e1)" using 2(3) by (simp add: keeps_def)
  then show ?case using keeps_trans[OF k "2.IH"[OF a refl t _ keeps_restorable[OF k 2(4)]]] by simp
next
  case (3 K cur cpu e c cs)
  have k: "keeps e (release_exclusive_cpu K cur e)" by (rule release_ok(1)[OF 3(4)])
  then have "kern_ok K (ev_online (release_exclusive_cpu K cur e))" using 3(3) by (simp add: keeps_def)
  then show ?case using keeps_trans[OF k 3(1)[OF _ _ keeps_restorable[OF k 3(4)]]] 3(2) by simp
qed (simp_all add: keeps_refl)

lemma demo_answers: "answers_evac demo_os demo_kern 2 0 demo_evac"
  unfolding answers_evac_def
proof (intro allI impI)
  fix tr c e rc e'
  assume t: "evac_trace demo_kern 2 0 demo_evac tr = Inr e" and a: "acquire_exclusive_cpu demo_kern 2 0 EVAC_KILL_NICELY e = Inr (rc, e')"
  have "restorable demo_kern demo_evac"
    using evac_inv_start[OF demo_kern_ok] by (simp add: evac_inv_def evac_start_def demo_evac_def demo_task_def)
  from evac_trace_keeps[OF t demo_kern_ok this] have k: "ev_online e = {0, 1}" "ev_nr_cpu_ids e = 2"
    by (simp_all add: keeps_def demo_evac_def)
  have "kern_ok demo_kern (ev_online e)" using demo_kern_ok k by (simp add: demo_evac_def)
  then have "rc = 0" using acquire_total[of demo_kern e 2 0 EVAC_KILL_NICELY] a k by (auto simp: demo_kern_def)
  then show "os_ret demo_os tr (K_acquire_cpu c) = rc" by (simp add: demo_os_def)
qed

theorem kcut_session_evacuates_witness:
  "\<exists>s s1 e1 e2. kcut_session demo_cfg demo_os [Op_read 5 64] = Inr s \<and> kcut_init demo_cfg demo_os kcut_start = Inr s1
    \<and> evac_trace demo_kern 2 0 demo_evac (kc_trace s1) = Inr e1 \<and> mask_of e1 2 = {0} \<and> tk_sched (ev_task e1 2) = SCHED_FIFO 99
    \<and> evac_trace demo_kern 2 0 demo_evac (kc_trace s) = Inr e2 \<and> mask_of e2 3 = {0, 1}"
proof -
  have "isl (kcut_session demo_cfg demo_os [Op_read 5 64]) = False" by code_simp
  then obtain s where s: "kcut_session demo_cfg demo_os [Op_read 5 64] = Inr s"
    by (cases "kcut_session demo_cfg demo_os [Op_read 5 64]") auto
  have st: "evac_start demo_evac" and m: "mask_of demo_evac 3 = {0, 1}" "tk_alive (ev_task demo_evac 3)" and n: "card (ev_online demo_evac) \<noteq> 1"
    by (simp_all add: evac_start_def demo_evac_def demo_task_def)
  have k: "\<forall>e. - (2 ^ 31) \<le> k_setattr demo_kern e \<and> k_setattr demo_kern e < 2 ^ 31" by (simp add: demo_kern_def)
  have ev: "EVACUATE demo_cfg" by (simp add: demo_cfg_def)
  from kcut_session_evacuates[OF demo_kern_ok n k st demo_answers ev s]
  obtain s1 e1 e2 where r: "kcut_init demo_cfg demo_os kcut_start = Inr s1" "mask_of e1 2 = {0}" "tk_sched (ev_task e1 2) = SCHED_FIFO 99"
      "\<forall>n s2. kcut_ops demo_cfg demo_os (take n [Op_read 5 64]) s1 = Inr s2 \<longrightarrow> evac_trace demo_kern 2 0 demo_evac (kc_trace s2) = Inr e1"
      "evac_trace demo_kern 2 0 demo_evac (kc_trace s) = Inr e2" "\<forall>t. tk_alive (ev_task demo_evac t) \<longrightarrow> mask_of e2 t = mask_of demo_evac t"
    by (elim exE conjE) (rule that; assumption)
  have "evac_trace demo_kern 2 0 demo_evac (kc_trace s1) = Inr e1" using r(4)[rule_format, of 0 s1] by simp
  moreover have "mask_of e2 3 = {0, 1}" using r(6) m by simp
  ultimately show ?thesis using s r(1-3,5) by blast
qed

end
