(* ===== verification/Stack_Test.thy ===== *)
theory Stack_Test
  imports Kcut
begin

text \<open>
  The double fault test of the test program (\<open>kcuttest/mmap_stack_test.c\<close>): it maps memory, looks for three pages that are not resident, makes the middle one resident, moves the stack pointer to
  its lower end and provokes an exception, whose frame then has to be written across the border of the page.

  The answers of the system are a record, and so is what the function holds and has done: resources, bytes written, the stack pointer it has loaded and the calls that need the kernel. Whether the exception ends in the
  signal handler, from where \<open>siglongjmp\<close> leads to the second return of \<open>sigsetjmp\<close>, or the program goes on, is an answer as well. What is printed is left out.
\<close>

definition PAGE_SIZE :: nat where "PAGE_SIZE = 4096"

definition map_size :: nat where "map_size = 2 * 1024 * 1024"

datatype mst_res = M_fd int | M_map u64 | M_vec | M_handler

record mst_ans =
  ma_sigaction :: int
  ma_mkstemp :: int
  ma_ftruncate :: int
  ma_mmap :: "u64 option"
  ma_malloc :: bool
  ma_mincore :: int
  ma_vec :: "u8 list"
  ma_caught :: bool

record mst =
  ms_held :: "mst_res set"
  ms_writes :: "(u64 \<times> u8) list"
  ms_rsp :: "u64 option"
  ms_calls :: "kc_call list"

definition mst_start :: mst where
  "mst_start = \<lparr>ms_held = {}, ms_writes = [], ms_rsp = None, ms_calls = []\<rparr>"

section \<open>The search\<close>

definition absent :: "u8 list \<Rightarrow> nat \<Rightarrow> bool res" where
  "absent vec i = (if i < length vec then Inr (vec ! i AND 1 = 0) else Inl Out_of_bounds)"

text \<open>\<open>absent3 vec i\<close> is the condition of the loop, evaluated from left to right.\<close>

definition absent3 :: "u8 list \<Rightarrow> nat \<Rightarrow> bool res" where
  "absent3 vec i = rbind (absent vec i) (\<lambda>a. if \<not> a then Inr False
     else rbind (absent vec (i + 1)) (\<lambda>b. if \<not> b then Inr False else absent vec (i + 2)))"

text \<open>\<open>for (size_t i = num_pages - 3; i > 0; i--)\<close>: the index of page A, when there is one.\<close>

primrec find_pages :: "u8 list \<Rightarrow> nat \<Rightarrow> nat option res" where
  "find_pages vec 0 = Inr None"
| "find_pages vec (Suc i) = rbind (absent3 vec (Suc i)) (\<lambda>f. if f then Inr (Some (Suc i)) else find_pages vec i)"

section \<open>The test\<close>

definition mst_cleanup :: "int \<Rightarrow> u64 \<Rightarrow> int \<Rightarrow> mst \<Rightarrow> int \<times> mst" where
  "mst_cleanup fd mapped_area ret s =
     (ret, s\<lparr>ms_held := ms_held s - {M_vec} - {M_map mapped_area} - (if fd \<ge> 0 then {M_fd fd} else {}) - {M_handler}\<rparr>)"

definition counters :: "kc_call list" where
  "counters = [K_kernel ''pf_adaptor_pf_cnt_get'', K_kernel ''pf_adaptor_df_cnt_get'']"

text \<open>From the pages that were found to the end of the test; \<open>operation\<close> chooses the exception and the place of the stack.\<close>

definition provoke :: "mst_ans \<Rightarrow> u32 \<Rightarrow> u64 \<Rightarrow> nat \<Rightarrow> mst \<Rightarrow> mst" where
  "provoke A operation mapped_area page_A_idx s =
     (let page_B = mapped_area + of_nat ((page_A_idx + 1) * PAGE_SIZE);
          page_C = mapped_area + of_nat ((page_A_idx + 2) * PAGE_SIZE);
          new_stack_ptr = (if operation = 2 then page_B + 0x40 else page_B + 16);
          s = s\<lparr>ms_writes := ms_writes s @ [(page_B, 0x42)], ms_calls := ms_calls s @ counters, ms_rsp := Some new_stack_ptr\<rparr>;
          s = (if operation = 0 then s else s\<lparr>ms_calls := ms_calls s @ [K_kernel ''mov %cr4'']\<rparr>)
      in if ma_caught A then s
         else s\<lparr>ms_writes := ms_writes s @ (if operation = 0 then [(page_C, 0x99)] else []), ms_calls := ms_calls s @ counters\<rparr>)"

definition mmap_stack_test :: "mst_ans \<Rightarrow> u32 \<Rightarrow> mst \<Rightarrow> (int \<times> mst) res" where
  "mmap_stack_test A operation s =
     (if ma_sigaction A = - 1 then Inr (- 1, s)
      else let s = s\<lparr>ms_held := ms_held s \<union> {M_handler}\<rparr>; fd = ma_mkstemp A in
        if fd < 0 then Inr (- 1, s)
        else let s = s\<lparr>ms_held := ms_held s \<union> {M_fd fd}\<rparr> in
          if ma_ftruncate A < 0 then Inr (- 1, s\<lparr>ms_held := ms_held s - {M_fd fd}\<rparr>)
          else case ma_mmap A of
            None \<Rightarrow> Inr (- 1, s\<lparr>ms_held := ms_held s - {M_fd fd}\<rparr>)
          | Some mapped_area \<Rightarrow>
              let s = s\<lparr>ms_held := ms_held s \<union> {M_map mapped_area}\<rparr>; num_pages = map_size div PAGE_SIZE in
              if \<not> ma_malloc A then Inr (mst_cleanup fd mapped_area (- 1) s)
              else let s = s\<lparr>ms_held := ms_held s \<union> {M_vec}\<rparr> in
                if ma_mincore A < 0 then Inr (mst_cleanup fd mapped_area (- 1) s)
                else rbind (find_pages (ma_vec A) (num_pages - 3)) (\<lambda>found.
                  case found of
                    None \<Rightarrow> Inr (mst_cleanup fd mapped_area (- 1) s)
                  | Some page_A_idx \<Rightarrow> Inr (mst_cleanup fd mapped_area 0 (provoke A operation mapped_area page_A_idx s))))"

section \<open>The pages that are found\<close>

definition gap :: "u8 list \<Rightarrow> nat \<Rightarrow> bool" where
  "gap vec i \<longleftrightarrow> vec ! i AND 1 = 0 \<and> vec ! (i + 1) AND 1 = 0 \<and> vec ! (i + 2) AND 1 = 0"

lemma absent3_gap: "i + 2 < length vec \<Longrightarrow> absent3 vec i = Inr (gap vec i)"
  by (auto simp: absent3_def absent_def gap_def)

lemma find_pages_highest:
  assumes "n + 2 < length vec"
  shows "(\<exists>i. find_pages vec n = Inr (Some i) \<and> 0 < i \<and> i \<le> n \<and> gap vec i \<and> (\<forall>j. i < j \<and> j \<le> n \<longrightarrow> \<not> gap vec j))
    \<or> find_pages vec n = Inr None \<and> (\<forall>j. 0 < j \<and> j \<le> n \<longrightarrow> \<not> gap vec j)"
  using assms
proof (induction n)
  case (Suc n)
  then have a: "absent3 vec (Suc n) = Inr (gap vec (Suc n))" by (intro absent3_gap) simp
  show ?case
  proof (cases "gap vec (Suc n)")
    case True
    then show ?thesis using a by auto
  next
    case False
    have "find_pages vec (Suc n) = find_pages vec n" using a False by simp
    then show ?thesis using Suc False by (metis le_SucE le_SucI Suc_lessD add_Suc)
  qed
qed simp

lemma find_pages_512:
  assumes "length vec = 512"
  obtains i where "find_pages vec 509 = Inr (Some i)" "0 < i" "i \<le> 509" "gap vec i" "\<forall>j. i < j \<and> j \<le> 509 \<longrightarrow> \<not> gap vec j"
  | "find_pages vec 509 = Inr None" "\<forall>j. 0 < j \<and> j \<le> 509 \<longrightarrow> \<not> gap vec j"
  using find_pages_highest[of 509 vec] assms by auto

lemma num_pages: "map_size div PAGE_SIZE - 3 = 509"
  by (simp add: map_size_def PAGE_SIZE_def)

lemma provoke_held [simp]: "ms_held (provoke A operation m i s) = ms_held s"
  by (simp add: provoke_def Let_def)

lemma provoke_rsp:
  "ms_rsp (provoke A operation m i s) = Some (m + of_nat ((i + 1) * PAGE_SIZE) + (if operation = 2 then 0x40 else 16))"
  by (simp add: provoke_def Let_def)

lemma provoke_writes:
  "ms_writes (provoke A operation m i s) = ms_writes s @ [(m + of_nat ((i + 1) * PAGE_SIZE), 0x42)] @
     (if ma_caught A \<or> operation \<noteq> 0 then [] else [(m + of_nat ((i + 2) * PAGE_SIZE), 0x99)])"
  by (simp add: provoke_def Let_def)

lemma mst_cleanup_simps [simp]:
  "fst (mst_cleanup fd m ret s) = ret" "ms_writes (snd (mst_cleanup fd m ret s)) = ms_writes s" "ms_rsp (snd (mst_cleanup fd m ret s)) = ms_rsp s"
  "ms_calls (snd (mst_cleanup fd m ret s)) = ms_calls s"
  by (simp_all add: mst_cleanup_def)

text \<open>The function always returns, with one of two values.\<close>

definition leaves_handler :: "mst_ans \<Rightarrow> bool" where
  "leaves_handler A \<longleftrightarrow> ma_sigaction A \<noteq> - 1 \<and> (ma_mkstemp A < 0 \<or> ma_ftruncate A < 0 \<or> ma_mmap A = None)"

definition mst_ready :: "mst_ans \<Rightarrow> u64 \<Rightarrow> bool" where
  "mst_ready A m \<longleftrightarrow> ma_sigaction A \<noteq> - 1 \<and> 0 \<le> ma_mkstemp A \<and> 0 \<le> ma_ftruncate A \<and> ma_mmap A = Some m \<and> ma_malloc A \<and> 0 \<le> ma_mincore A"

lemma mmap_stack_test_ready:
  fixes s :: mst
  assumes "mst_ready A m"
  defines "s' \<equiv> s\<lparr>ms_held := ms_held s \<union> {M_handler} \<union> {M_fd (ma_mkstemp A)} \<union> {M_map m} \<union> {M_vec}\<rparr>"
  shows "mmap_stack_test A operation s = rbind (find_pages (ma_vec A) 509) (\<lambda>found. case found of
      None \<Rightarrow> Inr (mst_cleanup (ma_mkstemp A) m (- 1) s')
    | Some i \<Rightarrow> Inr (mst_cleanup (ma_mkstemp A) m 0 (provoke A operation m i s')))"
  unfolding s'_def using assms(1) by (simp add: mmap_stack_test_def mst_ready_def num_pages[unfolded One_nat_def] Let_def cong: option.case_cong)

lemma mst_cleanup_held:
  "ms_held (snd (mst_cleanup fd m ret s)) = ms_held s - {M_vec, M_map m, M_handler} - (if fd \<ge> 0 then {M_fd fd} else {})"
  by (auto simp: mst_cleanup_def)

text \<open>
  The double fault test leaves nothing behind once it has mapped its memory: whatever the system answers it returns 0 or -1, without reading the residency vector out of bounds, and the file, the mapping and the vector are
  released on every path. The handler for segmentation faults is removed with them, but it stays installed when creating the file, setting its length or mapping memory fails.\<close>

theorem mmap_stack_test_releases:
  assumes "length (ma_vec A) = 512" and "ms_held s = {}"
  shows "\<exists>ret s'. mmap_stack_test A operation s = Inr (ret, s') \<and> ret \<in> {0, - 1} \<and> ms_held s' = (if leaves_handler A then {M_handler} else {})"
proof (cases "\<exists>m. mst_ready A m")
  case True
  then obtain m where m: "mst_ready A m" by blast
  then have h: "\<not> leaves_handler A" "0 \<le> ma_mkstemp A" by (auto simp: mst_ready_def leaves_handler_def)
  show ?thesis
    using assms(1)
  proof (cases rule: find_pages_512)
    case (1 i)
    then show ?thesis using h assms(2) by (auto simp: mmap_stack_test_ready[OF m] mst_cleanup_def)
  next
    case 2
    then show ?thesis using h assms(2) by (auto simp: mmap_stack_test_ready[OF m] mst_cleanup_def)
  qed
next
  case False
  then show ?thesis using assms(2)
    by (auto simp: mmap_stack_test_def mst_ready_def leaves_handler_def mst_cleanup_def Let_def split: option.splits)
qed

definition demo_mst :: mst_ans where
  "demo_mst = \<lparr>ma_sigaction = 0, ma_mkstemp = 5, ma_ftruncate = 0, ma_mmap = Some 0x10000, ma_malloc = True, ma_mincore = 0, ma_vec = replicate 512 0, ma_caught = True\<rparr>"

theorem mmap_stack_test_releases_witness:
  "(\<exists>ret s'. mmap_stack_test demo_mst 0 mst_start = Inr (ret, s') \<and> ret \<in> {0, - 1} \<and> ms_held s' = {})
   \<and> (\<exists>ret s'. mmap_stack_test (demo_mst\<lparr>ma_mmap := None\<rparr>) 0 mst_start = Inr (ret, s') \<and> ret \<in> {0, - 1} \<and> ms_held s' = {M_handler})"
  using mmap_stack_test_releases[of demo_mst mst_start 0] mmap_stack_test_releases[of "demo_mst\<lparr>ma_mmap := None\<rparr>" mst_start 0]
  by (simp add: demo_mst_def mst_start_def leaves_handler_def)

section \<open>Where the stack is\<close>

text \<open>The stack pointer as a number: nothing wraps around when the mapping lies below the end of the address space.\<close>

lemma rsp_unat:
  assumes "unat m + map_size \<le> 2 ^ 64" "i \<le> 509" "k < 4096"
  shows "unat (m + of_nat ((i + 1) * PAGE_SIZE) + of_nat k :: u64) = unat m + (i + 1) * 4096 + k"
proof -
  have "unat m + (i + 1) * 4096 + k < 2 ^ 64" using assms by (simp add: map_size_def)
  then show ?thesis by (intro of_nat_inverse) (simp_all add: PAGE_SIZE_def)
qed

lemma page_of:
  fixes m i k :: nat
  assumes "m mod 4096 = 0" "k < 4096"
  shows "(m + i * 4096 + k) div 4096 = m div 4096 + i"
  using assms by (auto elim!: dvdE simp: mod_eq_0_iff_dvd)

text \<open>
  C34. Where the double fault test puts the stack. When the system grants everything and three adjacent pages are not resident, the test takes the highest such place, makes the middle page resident and loads a stack pointer that
  lies on it; the six words of an exception frame then still fit on that page when operation 2 was asked for and otherwise reach down to the page below, which is not resident. When there is no such place it
  writes nothing and returns -1.\<close>

theorem mmap_stack_test_places:
  assumes "mst_ready A m" and "length (ma_vec A) = 512" and "unat m mod 4096 = 0" and "unat m + map_size \<le> 2 ^ 64"
  shows "(\<exists>i s' r. mmap_stack_test A operation mst_start = Inr (0, s') \<and> 0 < i \<and> i \<le> 509 \<and> gap (ma_vec A) i \<and> (\<forall>j. i < j \<and> j \<le> 509 \<longrightarrow> \<not> gap (ma_vec A) j)
      \<and> hd (ms_writes s') = (m + of_nat ((i + 1) * PAGE_SIZE), 0x42) \<and> ms_rsp s' = Some r \<and> unat r div 4096 = unat m div 4096 + (i + 1)
      \<and> (unat r - 6 * 8) div 4096 = unat m div 4096 + (if operation = 2 then i + 1 else i))
    \<or> (\<exists>s'. mmap_stack_test A operation mst_start = Inr (- 1, s') \<and> ms_writes s' = [] \<and> (\<forall>j. 0 < j \<and> j \<le> 509 \<longrightarrow> \<not> gap (ma_vec A) j))"
  using assms(2)
proof (cases rule: find_pages_512)
  case (1 i)
  define s1 where "s1 = mst_start\<lparr>ms_held := ms_held mst_start \<union> {M_handler} \<union> {M_fd (ma_mkstemp A)} \<union> {M_map m} \<union> {M_vec}\<rparr>"
  define s' where "s' = snd (mst_cleanup (ma_mkstemp A) m 0 (provoke A operation m i s1))"
  define k :: nat where "k = (if operation = 2 then 0x40 else 16)"
  define r :: u64 where "r = m + of_nat ((i + 1) * PAGE_SIZE) + of_nat k"
  have e: "mmap_stack_test A operation mst_start = Inr (0, s')"
    unfolding mmap_stack_test_ready[OF assms(1)] s1_def[symmetric] s'_def by (simp add: 1(1) mst_cleanup_def)
  have w: "hd (ms_writes s') = (m + of_nat ((i + 1) * PAGE_SIZE), 0x42)" by (simp add: s'_def provoke_writes s1_def mst_start_def)
  have p: "ms_rsp s' = Some r" by (simp add: s'_def provoke_rsp r_def k_def)
  have u: "unat r = unat m + (i + 1) * 4096 + k" unfolding r_def using rsp_unat[OF assms(4) 1(3), of k] by (simp add: k_def)
  have b: "unat r div 4096 = unat m div 4096 + (i + 1)" unfolding u by (rule page_of[OF assms(3)]) (simp add: k_def)
  have "unat r - 6 * 8 = unat m + (if operation = 2 then i + 1 else i) * 4096 + (if operation = 2 then 16 else 4064)" unfolding u by (simp add: k_def)
  then have f: "(unat r - 6 * 8) div 4096 = unat m div 4096 + (if operation = 2 then i + 1 else i)"
    using page_of[OF assms(3), of "if operation = 2 then 16 else 4064"] by (simp split: if_splits)
  show ?thesis using e w p b f 1(2-5) by blast
next
  case 2
  then show ?thesis by (simp add: mmap_stack_test_ready[OF assms(1)] mst_cleanup_def mst_start_def)
qed

theorem mmap_stack_test_places_witness:
  "\<exists>i s' r. mmap_stack_test demo_mst 2 mst_start = Inr (0, s') \<and> i = 509 \<and> hd (ms_writes s') = (0x10000 + of_nat ((i + 1) * PAGE_SIZE), 0x42)
    \<and> ms_rsp s' = Some r \<and> unat r div 4096 = 16 + 510 \<and> (unat r - 6 * 8) div 4096 = 16 + 510"
proof -
  have "gap (ma_vec demo_mst) 509" by (simp add: gap_def demo_mst_def)
  moreover have "mst_ready demo_mst 0x10000" by (simp add: mst_ready_def demo_mst_def)
  ultimately show ?thesis
    using mmap_stack_test_places[where A = demo_mst and m = "0x10000" and operation = 2] by (auto simp: demo_mst_def map_size_def dest: le_neq_implies_less)
qed

section \<open>The calls of the test\<close>

lemma mst_calls:
  assumes "length (ma_vec A) = 512"
  obtains ret s' where "mmap_stack_test A operation mst_start = Inr (ret, s')" "set (ms_calls s') \<subseteq> {K_kernel ''mov %cr4''} \<union> set counters"
proof (cases "\<exists>m. mst_ready A m")
  case True
  then obtain m where m: "mst_ready A m" by blast
  have *: "set (ms_calls (provoke A operation m i (mst_start\<lparr>ms_held := h\<rparr>))) \<subseteq> {K_kernel ''mov %cr4''} \<union> set counters" for i h
    by (auto simp: provoke_def Let_def mst_start_def)
  show ?thesis
    using assms
  proof (cases rule: find_pages_512)
    case (1 i)
    show ?thesis
      by (rule that[of 0 "snd (mst_cleanup (ma_mkstemp A) m 0 (provoke A operation m i (mst_start\<lparr>ms_held := ms_held mst_start \<union> {M_handler} \<union> {M_fd (ma_mkstemp A)} \<union> {M_map m} \<union> {M_vec}\<rparr>)))"])
        (use 1(1) * in \<open>simp_all add: mmap_stack_test_ready[OF m] prod_eq_iff\<close>)
  next
    case 2
    have "\<exists>s'. mmap_stack_test A operation mst_start = Inr (- 1, s') \<and> ms_calls s' = []"
      using 2(1) by (simp add: mmap_stack_test_ready[OF m] mst_cleanup_def mst_start_def)
    then show ?thesis using that by fastforce
  qed
next
  case False
  then have "\<exists>ret s'. mmap_stack_test A operation mst_start = Inr (ret, s') \<and> ms_calls s' = []"
    by (auto simp: mmap_stack_test_def mst_ready_def mst_cleanup_def Let_def mst_start_def split: option.splits)
  then show ?thesis using that by fastforce
qed

end
