(* ===== verification/Kcut_Test.thy ===== *)
theory Kcut_Test
  imports Kcut_Threads Clib Stack_Test
begin

text \<open>
  The test program \<open>kcuttest/main.c\<close>: its arguments, the functions that touch memory page by page, the loops that yield, spin and fork, and the whole run between taking a processor and
  giving it back. The thread test in the middle is \<open>Kcut_Threads\<close>; here it is the value that the counter has after it. Lines that are only printed are left out.
\<close>

section \<open>Touching memory\<close>

definition PGSIZE :: nat where "PGSIZE = 4096"

text \<open>One byte of every page is set to \<open>0xff\<close>, which is \<open>-1\<close> as a \<open>char\<close>, and added up.\<close>

function touch_loop :: "nat \<Rightarrow> nat \<Rightarrow> u8 list \<Rightarrow> int \<Rightarrow> (u8 list \<times> int) res" where
  "touch_loop n i data acc =
     (if i < n
      then if length data \<le> i then Inl Out_of_bounds
           else let data = data[i := 0xff] in touch_loop n (i + 4096) data (acc + sint (data ! i))
      else Inr (data, acc))"
  by pat_completeness auto
termination by (relation "measure (\<lambda>(n, i, _). n - i)") auto

declare touch_loop.simps [simp del]

definition stacktouch :: "u8 list \<Rightarrow> (u8 list \<times> int) res" where
  "stacktouch data = (let n = PGSIZE * 8 in touch_loop n 0 data 0)"

text \<open>The same on a block from \<open>malloc\<close>, or in the kernel from \<open>vmalloc\<close>; \<open>None\<close> is NULL.\<close>

definition heaptouch :: "u8 list option \<Rightarrow> int res" where
  "heaptouch blk = (case blk of None \<Rightarrow> Inl Null_deref | Some data \<Rightarrow> rbind (touch_loop (PGSIZE * 8) 0 data 0) (\<lambda>(_, acc). Inr acc))"

definition k_heaptouch :: "u8 list option \<Rightarrow> int res" where
  "k_heaptouch blk = (case blk of None \<Rightarrow> Inl Null_deref | Some data \<Rightarrow> rbind (touch_loop (PGSIZE * 8) 0 data 0) (\<lambda>(_, acc). Inr acc))"

section \<open>Arguments\<close>

definition isdigit :: "char \<Rightarrow> bool" where
  "isdigit c \<longleftrightarrow> 48 \<le> (of_char c :: nat) \<and> (of_char c :: nat) \<le> 57"

definition digits_val :: "string \<Rightarrow> int" where
  "digits_val s = foldl (\<lambda>n c. 10 * n + (of_char c - 48)) 0 (takeWhile isdigit s)"

definition atol :: "string \<Rightarrow> int" where
  "atol s = (let s = dropWhile isspace s;
                 v = (case s of c # r \<Rightarrow> if c = CHR ''-'' then - digits_val r else if c = CHR ''+'' then digits_val r else digits_val s | [] \<Rightarrow> 0)
             in max LONG_MIN (min LONG_MAX v))"

definition atoi :: "string \<Rightarrow> int" where
  "atoi s = to_int (atol s)"

record kct_args =
  ka_ssec :: int
  ka_bloop :: int
  ka_yieldcnt :: int
  ka_evac :: int
  ka_num_forks :: u32
  ka_num_spawns :: u32
  ka_num_increments :: u32
  ka_stack_df :: u32
  ka_do_test_interrupt :: u32

text \<open>\<open>argv\<close> without the name of the program; \<open>arg k f d\<close> is \<open>if (argc > k) x = f(argv[k])\<close> for a variable that starts as \<open>d\<close>.\<close>

definition arg :: "string list \<Rightarrow> nat \<Rightarrow> (string \<Rightarrow> 'a) \<Rightarrow> 'a \<Rightarrow> 'a" where
  "arg argv k f d = (if k \<le> length argv then f (argv ! (k - 1)) else d)"

definition parse_kct_args :: "string list \<Rightarrow> kct_args" where
  "parse_kct_args argv =
     \<lparr>ka_ssec = arg argv 1 atoi 1, ka_bloop = arg argv 2 atol 1000000000, ka_yieldcnt = arg argv 3 atol 10, ka_evac = arg argv 4 atoi 1,
      ka_num_forks = arg argv 5 (of_int \<circ> atoi) 1000, ka_num_spawns = arg argv 6 (of_int \<circ> atoi) 1000,
      ka_num_increments = arg argv 7 (of_int \<circ> atoi) 1000, ka_stack_df = arg argv 8 (of_int \<circ> atoi) 1,
      ka_do_test_interrupt = arg argv 9 (of_int \<circ> atoi) 0\<rparr>"

section \<open>Loops\<close>

text \<open>\<open>for (int i=0; i<yieldcnt; i++) sched_yield();\<close> with a \<open>long\<close> bound.\<close>

function user_yields :: "int \<Rightarrow> int \<Rightarrow> kcut \<Rightarrow> kcut res" where
  "user_yields i yieldcnt s =
     (if i < yieldcnt
      then let s = kc_do (K_user ''sched_yield'') s in if i = INT_MAX then Inl Int_overflow else user_yields (i + 1) yieldcnt s
      else Inr s)"
  by pat_completeness auto
termination by (relation "measure (\<lambda>(i, y, _). nat (y - i))") auto

declare user_yields.simps [simp del]

text \<open>\<open>while (yieldcnt) { __x64_sys_sched_yield(); yieldcnt--; }\<close>.\<close>

function kernel_yields :: "int \<Rightarrow> kcut \<Rightarrow> kcut res" where
  "kernel_yields yieldcnt s =
     (if yieldcnt \<noteq> 0
      then let s = kc_do (K_kernel ''__x64_sys_sched_yield'') s in if yieldcnt \<le> LONG_MIN then Inl Int_overflow else kernel_yields (yieldcnt - 1) s
      else Inr s)"
  by pat_completeness auto
termination by (relation "measure (\<lambda>(y, _). nat (if 0 \<le> y then y else y - LONG_MIN))") (auto simp: LONG_MIN_def)

declare kernel_yields.simps [simp del]

text \<open>\<open>while (bloop) { bloop--; }\<close>.\<close>

function busy_loop :: "int \<Rightarrow> unit res" where
  "busy_loop bloop = (if bloop \<noteq> 0 then if bloop \<le> LONG_MIN then Inl Int_overflow else busy_loop (bloop - 1) else Inr ())"
  by pat_completeness auto
termination by (relation "measure (\<lambda>y. nat (if 0 \<le> y then y else y - LONG_MIN))") (auto simp: LONG_MIN_def)

declare busy_loop.simps [simp del]

text \<open>
  The parent's side of the fork loop, with the answers of \<open>fork\<close> by iteration, and the number of children; a child runs \<open>fork_child\<close> at the privilege it inherits.
\<close>

definition fork_child :: "kc_call list" where
  "fork_child = [K_current_pid, K_user ''stacktouch'', K_user ''exit'']"

primrec fork_loop :: "(nat \<Rightarrow> int) \<Rightarrow> nat \<Rightarrow> nat \<Rightarrow> kcut \<Rightarrow> nat \<times> kcut" where
  "fork_loop fork i 0 s = (0, s)"
| "fork_loop fork i (Suc k) s =
     (let s = kc_do (K_user ''fork'') s
      in if fork i < 0 then (0, s) else let (n, s) = fork_loop fork (Suc i) k s in (Suc n, s))"

section \<open>The run\<close>

record kct_out =
  ko_ss :: int
  ko_kss :: int
  ko_sum :: int
  ko_children :: nat
  ko_counter :: u32
  ko_expected :: u64
  ko_ret :: int

text \<open>
  What the surroundings decide: the stack blocks that are touched, the answers of \<open>fork\<close>, the counter that the threads leave (\<open>Kcut_Threads\<close>), and the answers to the double fault test (\<open>Stack_Test\<close>).
\<close>

record kct_env =
  ke_stack :: "u8 list"
  ke_kstack :: "u8 list"
  ke_fork :: "nat \<Rightarrow> int"
  ke_threads :: "nat \<Rightarrow> nat \<Rightarrow> u32"
  ke_mst :: mst_ans

definition kc_dos :: "kc_call list \<Rightarrow> kcut \<Rightarrow> kcut" where
  "kc_dos cs s = foldl (\<lambda>s c. kc_do c s) s cs"

lemma kc_dos_trace [simp]: "kc_trace (kc_dos cs s) = kc_trace s @ cs"
  by (induction cs arbitrary: s) (simp_all add: kc_dos_def)

text \<open>Functions of the kernel extension that the program calls.\<close>

definition greeter_kernel_add :: "int \<Rightarrow> int \<Rightarrow> int res" where
  "greeter_kernel_add a b = int_add a b"

definition greeter_k_stacktouch :: "u8 list \<Rightarrow> int res" where
  "greeter_k_stacktouch data = (let n = PGSIZE * 8 in rbind (touch_loop n 0 data 0) (\<lambda>(_, acc). Inr acc))"

text \<open>The calls before the yields, while the program is elevated.\<close>

definition elevated_tests :: "kct_env \<Rightarrow> kcut \<Rightarrow> (int \<times> int \<times> int \<times> kcut) res" where
  "elevated_tests V s =
     (let s = kc_do (K_kernel ''movq %cr3'') s
      in rbind (stacktouch (ke_stack V)) (\<lambda>(_, ss).
         let s = kc_do (K_kernel ''greeter_k_stacktouch'') s
         in rbind (greeter_k_stacktouch (ke_kstack V)) (\<lambda>kss.
            let s = kc_dos [K_kernel ''overflowuid'', K_kernel ''_printk'', K_kernel ''kernel_add''] s
            in rbind (greeter_kernel_add 3 4) (\<lambda>ks.
               let s = kc_dos [K_current_pid, K_kernel ''pf_adaptor_pf_cnt_get'', K_kernel ''pf_adaptor_df_cnt_get''] s
               in Inr (ss, kss, ks, s)))))"

text \<open>The tests after the yields: sleep, spin, fork, threads, double fault and interrupt.\<close>

definition later_tests :: "kct_env \<Rightarrow> kct_args \<Rightarrow> kcut \<Rightarrow> (nat \<times> u32 \<times> int \<times> kcut) res" where
  "later_tests V a s =
     (let s = (if ka_ssec a \<noteq> 0 then kc_do (K_user ''sleep'') s else s)
      in rbind (busy_loop (ka_bloop a)) (\<lambda>_.
         let (children, s) = fork_loop (ke_fork V) 0 (unat (ka_num_forks a)) s;
             counter = (if ka_num_spawns a \<noteq> 0 then ke_threads V (unat (ka_num_spawns a)) (unat (ka_num_increments a)) else 0)
         in rbind (if ka_stack_df a \<noteq> 0
                   then rbind (mmap_stack_test (ke_mst V) (ka_stack_df a - 1) mst_start) (\<lambda>(ret, m). Inr (ret, kc_dos (ms_calls m) s))
                   else Inr (0, s)) (\<lambda>(ret, s).
            let s = (if ka_do_test_interrupt a \<noteq> 0 then kc_do (K_kernel ''int $0xE0'') s else s)
            in Inr (children, counter, ret, s))))"

definition kct_main :: "kc_os \<Rightarrow> kct_env \<Rightarrow> string list \<Rightarrow> (kct_out \<times> kcut) res" where
  "kct_main W V argv =
     (let a = parse_kct_args argv
      in rbind (if ka_evac a \<noteq> 0 then kcut_evacuate W True kcut_start else Inr kcut_start) (\<lambda>s.
         rbind (elevated_tests V (kc_do K_elevate s)) (\<lambda>(ss, kss, ks, s).
         rbind (user_yields 0 (ka_yieldcnt a) s) (\<lambda>s.
         rbind (kernel_yields (ka_yieldcnt a) s) (\<lambda>s.
         rbind (later_tests V a s) (\<lambda>(children, counter, ret, s).
         rbind (let s = kc_do K_lower s in if ka_evac a \<noteq> 0 then kcut_evacuate W False s else Inr s) (\<lambda>s.
         Inr (\<lparr>ko_ss = ss, ko_kss = kss, ko_sum = ks, ko_children = children, ko_counter = counter,
               ko_expected = ucast (ka_num_spawns a) * ucast (ka_num_increments a), ko_ret = ret\<rparr>, s))))))))"

section \<open>Every page is touched\<close>

lemma touch_loop_pages:
  "k = j + m \<Longrightarrow> length data = 4096 * k \<Longrightarrow> \<exists>data'. touch_loop (4096 * k) (4096 * j) data acc = Inr (data', acc - int m) \<and> length data' = length data
    \<and> (\<forall>p < length data. data' ! p = (if 4096 dvd p \<and> 4096 * j \<le> p then 0xff else data ! p))"
proof (induction m arbitrary: j data acc)
  case 0
  then show ?case by (auto simp: touch_loop.simps)
next
  case (Suc m)
  let ?d = "data[4096 * j := 0xff]"
  have j: "4096 * j < 4096 * k" "4096 * j < length data" using Suc.prems by simp_all
  have s: "touch_loop (4096 * k) (4096 * j) data acc = touch_loop (4096 * k) (4096 * Suc j) ?d (acc - 1)"
    using j by (subst touch_loop.simps) (simp add: algebra_simps)
  obtain d' where d': "touch_loop (4096 * k) (4096 * Suc j) ?d (acc - 1) = Inr (d', acc - 1 - int m)" "length d' = length ?d"
      "\<forall>p < length ?d. d' ! p = (if 4096 dvd p \<and> 4096 * Suc j \<le> p then 0xff else ?d ! p)"
    using Suc.IH[of "Suc j" ?d "acc - 1"] Suc.prems by auto
  have "4096 dvd p \<and> 4096 * j \<le> p \<longleftrightarrow> p = 4096 * j \<or> 4096 dvd p \<and> 4096 * Suc j \<le> p" for p by (auto elim!: dvdE)
  then show ?case using s d' j by (auto simp: nth_list_update)
qed

text \<open>
  Touching a block of eight pages sets one byte of every page, leaves all other bytes alone, never leaves the block and returns \<open>-8\<close>, on the stack, on the heap and in the kernel alike; without a block the functions
  for the heap dereference NULL.\<close>

theorem stacktouch_touches_pages:
  assumes "length data = 32768"
  shows "\<exists>data'. stacktouch data = Inr (data', - 8) \<and> length data' = 32768
      \<and> (\<forall>p < 32768. data' ! p = (if 4096 dvd p then 0xff else data ! p))
    \<and> heaptouch (Some data) = Inr (- 8) \<and> k_heaptouch (Some data) = Inr (- 8) \<and> heaptouch None = Inl Null_deref \<and> k_heaptouch None = Inl Null_deref"
  using touch_loop_pages[of 8 0 8 data 0] assms
  by (auto simp: stacktouch_def heaptouch_def k_heaptouch_def PGSIZE_def)

theorem stacktouch_touches_pages_witness: "\<exists>d. stacktouch (replicate 32768 0) = Inr (d, - 8)"
  using stacktouch_touches_pages[of "replicate 32768 0"] by auto

section \<open>The loops\<close>

lemma user_yields_ok:
  "0 \<le> i \<Longrightarrow> i \<le> y \<Longrightarrow> y \<le> INT_MAX \<Longrightarrow> \<exists>s'. user_yields i y s = Inr s' \<and> kc_trace s' = kc_trace s @ replicate (nat (y - i)) (K_user ''sched_yield'')"
proof (induction i y s rule: user_yields.induct)
  case (1 i y s)
  show ?case
  proof (cases "i < y")
    case True
    have n: "nat (y - i) = Suc (nat (y - (i + 1)))" using True by simp
    show ?thesis using 1 True by (subst user_yields.simps) (auto simp: n)
  next
    case False
    then show ?thesis using 1 by (subst user_yields.simps) simp
  qed
qed

lemma user_yields_overflow: "0 \<le> i \<Longrightarrow> i \<le> INT_MAX \<Longrightarrow> INT_MAX < y \<Longrightarrow> user_yields i y s = Inl Int_overflow"
proof (induction i y s rule: user_yields.induct)
  case (1 i y s)
  then show ?case by (subst user_yields.simps) auto
qed

lemma kernel_yields_ok:
  "0 \<le> y \<Longrightarrow> \<exists>s'. kernel_yields y s = Inr s' \<and> kc_trace s' = kc_trace s @ replicate (nat y) (K_kernel ''__x64_sys_sched_yield'')"
proof (induction y s rule: kernel_yields.induct)
  case (1 y s)
  show ?case
  proof (cases "y = 0")
    case True
    then show ?thesis by (subst kernel_yields.simps) simp
  next
    case False
    then have n: "nat y = Suc (nat (y - 1))" "\<not> y \<le> LONG_MIN" using 1 by (simp_all add: LONG_MIN_def)
    show ?thesis using 1 False by (subst kernel_yields.simps) (auto simp: n)
  qed
qed

lemma kernel_yields_negative: "y < 0 \<Longrightarrow> kernel_yields y s = Inl Int_overflow"
proof (induction y s rule: kernel_yields.induct)
  case (1 y s)
  then show ?case by (subst kernel_yields.simps) auto
qed

lemma busy_loop_ok: "0 \<le> n \<Longrightarrow> busy_loop n = Inr ()"
proof (induction n rule: busy_loop.induct)
  case (1 n)
  then show ?case by (subst busy_loop.simps) (auto simp: LONG_MIN_def)
qed

lemma busy_loop_negative: "n < 0 \<Longrightarrow> busy_loop n = Inl Int_overflow"
proof (induction n rule: busy_loop.induct)
  case (1 n)
  then show ?case by (subst busy_loop.simps) auto
qed

text \<open>All forks, or those before the first that failed.\<close>

lemma fork_loop_trace:
  "\<exists>m \<le> k. kc_trace (snd (fork_loop f i k s)) = kc_trace s @ replicate m (K_user ''fork'')"
proof (induction k arbitrary: i s)
  case (Suc k)
  then obtain m where "m \<le> k" "kc_trace (snd (fork_loop f (Suc i) k (kc_do (K_user ''fork'') s))) = kc_trace (kc_do (K_user ''fork'') s) @ replicate m (K_user ''fork'')"
    by blast
  then show ?case
    by (cases "f i < 0") (auto split: prod.splits intro: exI[of _ 1] exI[of _ "Suc m"])
qed simp

lemma fork_loop_children:
  "(\<forall>j < k. 0 \<le> f (i + j)) \<Longrightarrow> fst (fork_loop f i k s) = k"
proof (induction k arbitrary: i s)
  case (Suc k)
  have "\<forall>j < k. 0 \<le> f (Suc i + j)" using Suc.prems by (auto dest: spec[of _ "Suc _"])
  then show ?case using Suc.IH[of "Suc i" "kc_do (K_user ''fork'') s"] Suc.prems by (auto simp: Let_def split: prod.splits dest: spec[of _ 0])
qed simp

section \<open>The whole run\<close>

text \<open>Calls that may be made with raised privilege and keep it, and how the test's parts extend the trace by such calls.\<close>

definition stays_up :: "kc_call list \<Rightarrow> bool" where
  "stays_up cs \<longleftrightarrow> priv_run kc_rule True cs = Some True"

lemma stays_up_simps [simp]:
  "stays_up []" "stays_up (K_user f # cs) = stays_up cs" "stays_up (K_kernel f # cs) = stays_up cs" "stays_up (K_current_pid # cs) = stays_up cs"
  by (simp_all add: stays_up_def)

lemma stays_up_append: "stays_up xs \<Longrightarrow> stays_up ys \<Longrightarrow> stays_up (xs @ ys)"
  by (simp add: stays_up_def)

lemma stays_up_replicate: "stays_up [c] \<Longrightarrow> stays_up (replicate n c)"
proof (induction n)
  case (Suc n)
  then show ?case using stays_up_append[of "[c]" "replicate n c"] by simp
qed simp

lemma kc_priv_stays: "kc_priv s True \<Longrightarrow> kc_trace s' = kc_trace s @ cs \<Longrightarrow> stays_up cs \<Longrightarrow> kc_priv s' True"
  by (simp add: stays_up_def)

definition kct_env_ok :: "kct_env \<Rightarrow> bool" where
  "kct_env_ok V \<longleftrightarrow> length (ke_stack V) = 32768 \<and> length (ke_kstack V) = 32768 \<and> length (ma_vec (ke_mst V)) = 512"

lemma elevated_tests_ok:
  assumes "kct_env_ok V"
  shows "\<exists>s' cs. elevated_tests V s = Inr (- 8, - 8, 7, s') \<and> kc_trace s' = kc_trace s @ cs \<and> stays_up cs
    \<and> K_user ''sched_yield'' \<notin> set cs \<and> K_kernel ''__x64_sys_sched_yield'' \<notin> set cs"
proof -
  obtain d d' where "stacktouch (ke_stack V) = Inr (d, - 8)" "stacktouch (ke_kstack V) = Inr (d', - 8)"
    using touch_loop_pages[of 8 0 8 "ke_stack V" 0] touch_loop_pages[of 8 0 8 "ke_kstack V" 0] assms
    by (auto simp: stacktouch_def PGSIZE_def kct_env_ok_def)
  moreover from this have "greeter_k_stacktouch (ke_kstack V) = Inr (- 8)" by (simp add: greeter_k_stacktouch_def stacktouch_def)
  moreover have "greeter_kernel_add 3 4 = Inr 7" by (simp add: greeter_kernel_add_def int_add_def INT_MIN_def INT_MAX_def)
  ultimately show ?thesis by (simp add: elevated_tests_def)
qed

lemma stays_up_set: "set cs \<subseteq> {K_kernel ''mov %cr4''} \<union> set counters \<Longrightarrow> stays_up cs"
  by (induction cs) (auto simp: counters_def)

text \<open>The double fault test, when it is asked for, makes only calls that need the privilege and keep it.\<close>

lemma stack_test_calls:
  assumes "kct_env_ok V"
  obtains ret cs where "(if d \<noteq> 0 then rbind (mmap_stack_test (ke_mst V) (d - 1) mst_start) (\<lambda>(ret, m). Inr (ret, kc_dos (ms_calls m) s)) else Inr (0, s)) = Inr (ret, kc_dos cs s)"
    "set cs \<subseteq> {K_kernel ''mov %cr4''} \<union> set counters"
proof (cases "d = 0")
  case True
  then show ?thesis using that[of 0 "[]"] by (simp add: kc_dos_def)
next
  case False
  have "length (ma_vec (ke_mst V)) = 512" using assms by (simp add: kct_env_ok_def)
  then show ?thesis by (rule mst_calls[of _ "d - 1"]) (use False in \<open>simp add: that\<close>)
qed

lemma later_tests_ok:
  assumes "0 \<le> ka_bloop a" and "kct_env_ok V"
  shows "\<exists>n ret s' cs. later_tests V a s = Inr (n, if ka_num_spawns a \<noteq> 0 then ke_threads V (unat (ka_num_spawns a)) (unat (ka_num_increments a)) else 0, ret, s')
    \<and> kc_trace s' = kc_trace s @ cs \<and> stays_up cs \<and> K_user ''sched_yield'' \<notin> set cs \<and> K_kernel ''__x64_sys_sched_yield'' \<notin> set cs
    \<and> ((\<forall>i. 0 \<le> ke_fork V i) \<longrightarrow> n = unat (ka_num_forks a))"
proof -
  define s1 where "s1 = (if ka_ssec a \<noteq> 0 then kc_do (K_user ''sleep'') s else s)"
  let ?k = "unat (ka_num_forks a)"
  obtain m where m: "kc_trace (snd (fork_loop (ke_fork V) 0 ?k s1)) = kc_trace s1 @ replicate m (K_user ''fork'')"
    using fork_loop_trace by blast
  have c: "(\<forall>i. 0 \<le> ke_fork V i) \<Longrightarrow> fst (fork_loop (ke_fork V) 0 ?k s1) = ?k" by (simp add: fork_loop_children)
  obtain n s2 where f: "fork_loop (ke_fork V) 0 ?k s1 = (n, s2)" by fastforce
  obtain ret ts where t: "(if ka_stack_df a \<noteq> 0 then rbind (mmap_stack_test (ke_mst V) (ka_stack_df a - 1) mst_start) (\<lambda>(ret, m). Inr (ret, kc_dos (ms_calls m) s2)) else Inr (0, s2)) = Inr (ret, kc_dos ts s2)"
      "set ts \<subseteq> {K_kernel ''mov %cr4''} \<union> set counters"
    by (rule stack_test_calls[OF assms(2)])
  define cs where "cs = (if ka_ssec a \<noteq> 0 then [K_user ''sleep''] else []) @ replicate m (K_user ''fork'')
    @ ts @ (if ka_do_test_interrupt a \<noteq> 0 then [K_kernel ''int $0xE0''] else [])"
  have u: "stays_up cs" unfolding cs_def by (intro stays_up_append stays_up_replicate stays_up_set[OF t(2)]) simp_all
  have y: "K_user ''sched_yield'' \<notin> set cs" "K_kernel ''__x64_sys_sched_yield'' \<notin> set cs" using t(2) by (auto simp: cs_def counters_def)
  have n: "(\<forall>i. 0 \<le> ke_fork V i) \<longrightarrow> n = ?k" using c f by simp
  have "\<exists>s'. later_tests V a s = Inr (n, if ka_num_spawns a \<noteq> 0 then ke_threads V (unat (ka_num_spawns a)) (unat (ka_num_increments a)) else 0, ret, s')
      \<and> kc_trace s' = kc_trace s @ cs"
    unfolding later_tests_def Let_def s1_def[symmetric] f busy_loop_ok[OF assms(1)] rbind_Inr prod.case t(1) cs_def
    using m f by (simp add: s1_def)
  then show ?thesis using u y n by blast
qed

definition kct_cfg :: kcut_cfg where
  "kct_cfg = \<lparr>BRACKET_PRIV = False, BRACKET_STACK = False, SHORTCUT = False, EVACUATE = True\<rparr>"

text \<open>The counter is the one of a thread test that has come to its end.\<close>

definition threads_finished :: "kct_env \<Rightarrow> nat \<Rightarrow> nat \<Rightarrow> bool" where
  "threads_finished V n inc \<longleftrightarrow> (\<exists>k s. kt_reach n inc k s \<and> kt_main s = Joined \<and> ke_threads V n inc = kt_counter s)"

lemma threads_counter: "threads_finished V n inc \<Longrightarrow> ke_threads V n inc = of_nat (n * inc)"
  unfolding threads_finished_def by (metis joined_total kt_inv_def kt_reach_inv lock_inv_def)

text \<open>Taking the processor, or giving it back, adds three calls and leaves the privilege lowered.\<close>

lemma evac_calls:
  assumes "kc_os_ok kct_cfg W" and "kc_priv s False"
  shows "\<exists>s' cs. (if e then kcut_evacuate W acq s else Inr s) = Inr s' \<and> kc_trace s' = kc_trace s @ cs \<and> kc_priv s' False
    \<and> K_user ''sched_yield'' \<notin> set cs \<and> K_kernel ''__x64_sys_sched_yield'' \<notin> set cs"
proof (cases e)
  case True
  have "EVACUATE kct_cfg" by (simp add: kct_cfg_def)
  then obtain v c where k: "kcut_evacuate W acq s = Inr (kc_do K_lower (kc_do (if acq then K_acquire_cpu c else K_release_cpu c) ((kc_do K_elevate s)\<lparr>kc_tos := v\<rparr>)))"
    using kcut_evacuate_ok[OF assms(1)] by blast
  from kcut_evacuate_priv[OF k assms(2)] show ?thesis using k True
    by (auto simp: intro!: exI[of _ "[K_elevate, if acq then K_acquire_cpu c else K_release_cpu c, K_lower]"])
next
  case False
  then show ?thesis using assms(2) by auto
qed

lemma count_absent: "x \<notin> set cs \<Longrightarrow> count_list cs x = 0"
  by (simp add: count_list_0_iff)

lemma count_replicate: "count_list (replicate n x) y = (if x = y then n else 0)"
  by (induction n) auto

text \<open>The counter and the number it is compared with: equal as long as the product fits into 32 bits.\<close>

lemma expected_counter:
  fixes n i :: u32
  shows "(ucast (of_nat (unat n * unat i) :: u32) = (ucast n * ucast i :: u64)) \<longleftrightarrow> unat n * unat i < 2 ^ 32"
proof -
  have b: "unat n < 2 ^ 32" "unat i < 2 ^ 32" using unsigned_less[where 'a = nat, of n] unsigned_less[where 'a = nat, of i] by simp_all
  have p: "unat n * unat i < 2 ^ 64"
    using mult_strict_mono[OF b] by simp
  have w: "unat (ucast w :: u64) = unat w" for w :: u32
    using unsigned_less[where 'a = nat, of w] by (simp add: unsigned_ucast_eq take_bit_nat_eq_self)
  have e: "unat (ucast n * ucast i :: u64) = unat n * unat i"
    using p unat_mult_lem[of "ucast n :: u64" "ucast i :: u64"] by (simp add: w)
  have c: "unat (ucast (of_nat (unat n * unat i) :: u32) :: u64) = (unat n * unat i) mod 2 ^ 32"
    unfolding w by (simp only: unat_of_nat take_bit_nat_def) simp
  show ?thesis
  proof
    assume "ucast (of_nat (unat n * unat i) :: u32) = (ucast n * ucast i :: u64)"
    then have "(unat n * unat i) mod 2 ^ 32 = unat n * unat i" using c e by metis
    then show "unat n * unat i < 2 ^ 32" by (metis mod_less_divisor zero_less_power zero_less_numeral)
  next
    assume "unat n * unat i < 2 ^ 32"
    then show "ucast (of_nat (unat n * unat i) :: u32) = (ucast n * ucast i :: u64)"
      using c e by (intro unsigned_word_eqI[where 'a = nat]) (simp add: mod_less)
  qed
qed

text \<open>
  C33. The test program runs through. With counts that are not negative, a processor to take and threads that end, it returns with its privilege lowered, having called the kernel only while it was raised; touching memory has given \<open>-8\<close> both times, the
  sum is 7, it has yielded exactly as often as asked, as a system call and directly in the kernel, it has made all its children when no fork failed, and the counter equals the number it is compared with exactly when
  the product of threads and increments is below \<open>2 ^ 32\<close>.\<close>

theorem kct_main_runs:
  assumes "kc_os_ok kct_cfg W" and "kct_env_ok V" and "a = parse_kct_args argv" and "0 \<le> ka_yieldcnt a" and "ka_yieldcnt a \<le> INT_MAX" and "0 \<le> ka_bloop a"
    and "ka_num_spawns a \<noteq> 0 \<longrightarrow> threads_finished V (unat (ka_num_spawns a)) (unat (ka_num_increments a))"
  shows "\<exists>out s. kct_main W V argv = Inr (out, s) \<and> priv_run kc_rule False (kc_trace s) = Some False \<and> ko_ss out = - 8 \<and> ko_kss out = - 8 \<and> ko_sum out = 7
    \<and> count_list (kc_trace s) (K_user ''sched_yield'') = nat (ka_yieldcnt a) \<and> count_list (kc_trace s) (K_kernel ''__x64_sys_sched_yield'') = nat (ka_yieldcnt a)
    \<and> ((\<forall>i. 0 \<le> ke_fork V i) \<longrightarrow> ko_children out = unat (ka_num_forks a))
    \<and> (ucast (ko_counter out) = ko_expected out \<longleftrightarrow> unat (ka_num_spawns a) * unat (ka_num_increments a) < 2 ^ 32)"
proof -
  let ?u = "K_user ''sched_yield''" and ?k = "K_kernel ''__x64_sys_sched_yield''"
  have p0: "kc_priv kcut_start False" "kc_trace kcut_start = []" by (simp_all add: kcut_start_def)
  obtain s1 c1 where 1: "(if ka_evac a \<noteq> 0 then kcut_evacuate W True kcut_start else Inr kcut_start) = Inr s1" "kc_trace s1 = c1" "kc_priv s1 False" "?u \<notin> set c1" "?k \<notin> set c1"
    using evac_calls[OF assms(1) p0(1), of "ka_evac a \<noteq> 0" True] p0(2) by auto
  obtain s2 c2 where 2: "elevated_tests V (kc_do K_elevate s1) = Inr (- 8, - 8, 7, s2)" "kc_trace s2 = kc_trace (kc_do K_elevate s1) @ c2" "stays_up c2" "?u \<notin> set c2" "?k \<notin> set c2"
    using elevated_tests_ok[OF assms(2)] by blast
  have p2: "kc_priv s2 True" using 1(3) kc_priv_stays[OF _ 2(2,3)] by simp
  obtain s3 where 3: "user_yields 0 (ka_yieldcnt a) s2 = Inr s3" "kc_trace s3 = kc_trace s2 @ replicate (nat (ka_yieldcnt a)) ?u"
    using user_yields_ok[of 0 "ka_yieldcnt a" s2] assms(4,5) by auto
  obtain s4 where 4: "kernel_yields (ka_yieldcnt a) s3 = Inr s4" "kc_trace s4 = kc_trace s3 @ replicate (nat (ka_yieldcnt a)) ?k"
    using kernel_yields_ok[OF assms(4)] by blast
  let ?c = "if ka_num_spawns a \<noteq> 0 then ke_threads V (unat (ka_num_spawns a)) (unat (ka_num_increments a)) else 0"
  obtain n ret s5 c5 where 5: "later_tests V a s4 = Inr (n, ?c, ret, s5)" "kc_trace s5 = kc_trace s4 @ c5" "stays_up c5" "?u \<notin> set c5" "?k \<notin> set c5"
      "(\<forall>i. 0 \<le> ke_fork V i) \<longrightarrow> n = unat (ka_num_forks a)"
    using later_tests_ok[OF assms(6,2)] by blast
  have p5: "kc_priv s5 True"
    using kc_priv_stays[OF kc_priv_stays[OF kc_priv_stays[OF p2 3(2)] 4(2)] 5(2)] 5(3) by (simp add: stays_up_replicate)
  then have "kc_priv (kc_do K_lower s5) False" by simp
  then obtain s6 c6 where 6: "(if ka_evac a \<noteq> 0 then kcut_evacuate W False (kc_do K_lower s5) else Inr (kc_do K_lower s5)) = Inr s6"
      "kc_trace s6 = kc_trace (kc_do K_lower s5) @ c6" "kc_priv s6 False" "?u \<notin> set c6" "?k \<notin> set c6"
    using evac_calls[OF assms(1), of _ "ka_evac a \<noteq> 0" False] by blast
  have c: "?c = of_nat (unat (ka_num_spawns a) * unat (ka_num_increments a))"
    using assms(7) threads_counter by auto
  have m: "kct_main W V argv = Inr (\<lparr>ko_ss = - 8, ko_kss = - 8, ko_sum = 7, ko_children = n, ko_counter = ?c,
      ko_expected = ucast (ka_num_spawns a) * ucast (ka_num_increments a), ko_ret = ret\<rparr>, s6)"
    unfolding kct_main_def Let_def assms(3)[symmetric] 1(1) rbind_Inr 2(1) prod.case 3(1) 4(1) 5(1) 6(1) by simp
  have t: "kc_trace s6 = c1 @ [K_elevate] @ c2 @ replicate (nat (ka_yieldcnt a)) ?u @ replicate (nat (ka_yieldcnt a)) ?k @ c5 @ [K_lower] @ c6"
    using 1(2) 2(2) 3(2) 4(2) 5(2) 6(2) by simp
  have y: "count_list (kc_trace s6) ?u = nat (ka_yieldcnt a)" "count_list (kc_trace s6) ?k = nat (ka_yieldcnt a)"
    unfolding t by (simp_all add: count_replicate count_absent 1(4,5) 2(4,5) 5(4,5) 6(4,5))
  show ?thesis
    using m 6(3) y 5(6) expected_counter[of "ka_num_spawns a" "ka_num_increments a"] by (simp only: c) simp
qed

text \<open>
  Counts are not checked. A negative number of yields or of iterations of the busy loop, and a number of yields above \<open>INT_MAX\<close>, ends in a signed overflow.\<close>

theorem kct_loops_overflow:
  "(y < 0 \<longrightarrow> kernel_yields y s = Inl Int_overflow \<and> user_yields 0 y s = Inr s) \<and> (n < 0 \<longrightarrow> busy_loop n = Inl Int_overflow)
   \<and> (INT_MAX < y \<longrightarrow> user_yields 0 y s = Inl Int_overflow)"
proof -
  have "user_yields 0 y s = Inr s" if "y < 0" using that by (subst user_yields.simps) simp
  then show ?thesis using kernel_yields_negative busy_loop_negative user_yields_overflow[of 0 y s] by (auto simp: INT_MAX_def)
qed

theorem kct_loops_overflow_witness: "kernel_yields (- 1) kcut_start = Inl Int_overflow \<and> busy_loop (- 5) = Inl Int_overflow"
  using kct_loops_overflow[of "- 1" kcut_start "- 5"] by simp

definition demo_argv :: "string list" where
  "demo_argv = [''0'', ''0'', ''2'', ''1'', ''3'', ''1'', ''1'', ''0'']"

definition demo_kct :: kct_env where
  "demo_kct = \<lparr>ke_stack = replicate 32768 0, ke_kstack = replicate 32768 0, ke_fork = (\<lambda>_. 7), ke_threads = (\<lambda>n i. of_nat (n * i)), ke_mst = demo_mst\<rparr>"

lemma demo_args:
  "parse_kct_args demo_argv = \<lparr>ka_ssec = 0, ka_bloop = 0, ka_yieldcnt = 2, ka_evac = 1, ka_num_forks = 3, ka_num_spawns = 1, ka_num_increments = 1,
     ka_stack_df = 0, ka_do_test_interrupt = 0\<rparr>"
proof -
  have a: "atol ''0'' = 0" "atol ''1'' = 1" "atol ''2'' = 2" "atol ''3'' = 3" by code_simp+
  show ?thesis by (simp add: parse_kct_args_def demo_argv_def arg_def atoi_def a to_int_def)
qed

theorem kct_main_runs_witness:
  "\<exists>out s. kct_main demo_os demo_kct demo_argv = Inr (out, s) \<and> ko_ss out = - 8 \<and> ko_children out = 3
    \<and> count_list (kc_trace s) (K_user ''sched_yield'') = 2"
proof -
  have w: "kc_os_ok kct_cfg demo_os" by (simp add: kc_os_ok_def kct_cfg_def demo_os_def)
  have v: "kct_env_ok demo_kct" by (simp add: kct_env_ok_def demo_kct_def demo_mst_def)
  have "kt_counter (kt_demo [Done] Joined None 1) = 1" "kt_main (kt_demo [Done] Joined None 1) = Joined" by (simp_all add: kt_demo_def)
  then have t: "threads_finished demo_kct 1 1"
    unfolding threads_finished_def using kt_demo_run by (intro exI[of _ 10] exI[of _ "kt_demo [Done] Joined None 1"]) (simp add: demo_kct_def)
  show ?thesis
    using kct_main_runs[OF w v refl, of demo_argv] t unfolding demo_args by (auto simp: INT_MAX_def demo_kct_def)
qed

end
