(* ===== verification/New_Main.thy ===== *)
theory New_Main
  imports Complex_Main Kcut_Test
begin

text \<open>
  The successor of the test program (\<open>kcuttest/newmain.c\<close>), which is not finished: the file does not compile because of \<open>sruct\<close> in line 205, read here as \<open>struct\<close>. Functions that it shares word for word
  with \<open>main.c\<close> are those of \<open>Kcut_Test\<close>; its own are the options, the search for the kernel's stack, the evacuation and the stability test.

  \<open>SYM_ON_KERN_STACK_DYNSYM_DO\<close> belongs to Symlib and is a parameter: it gets the address of the stack, the function and the state and returns the value of the function and the state. The options are a list, as
  \<open>getopt\<close> returns them; \<open>strtod\<close> is a parameter, too, and gives the number and the rest of the string.
\<close>

section \<open>Options and arguments\<close>

record CLArgs =
  cl_usflg :: int
  cl_usdelay :: real
  cl_ssec :: int
  cl_bloop :: int
  cl_yieldcnt :: int
  cl_evac :: int
  cl_num_forks :: u32
  cl_num_spawns :: u32
  cl_num_increments :: u32
  cl_stack_df :: u32
  cl_do_test_pfasm :: u32
  cl_do_test_interrupt :: u32

definition CLArgsDefaults :: CLArgs where
  "CLArgsDefaults = \<lparr>cl_usflg = 0, cl_usdelay = 0, cl_ssec = 1, cl_bloop = 1000000000, cl_yieldcnt = 10, cl_evac = 1, cl_num_forks = 1000,
     cl_num_spawns = 1000, cl_num_increments = 1000, cl_stack_df = 1, cl_do_test_pfasm = 0, cl_do_test_interrupt = 0\<rparr>"

definition CLArgs_zero :: CLArgs where
  "CLArgs_zero = \<lparr>cl_usflg = 0, cl_usdelay = 0, cl_ssec = 0, cl_bloop = 0, cl_yieldcnt = 0, cl_evac = 0, cl_num_forks = 0,
     cl_num_spawns = 0, cl_num_increments = 0, cl_stack_df = 0, cl_do_test_pfasm = 0, cl_do_test_interrupt = 0\<rparr>"

datatype nopt = Nopt_I | Nopt_U string | Nopt_S | Nopt_b | Nopt_other char

fun new_opts :: "(string \<Rightarrow> real \<times> string) \<Rightarrow> nopt list \<Rightarrow> CLArgs \<Rightarrow> CLArgs res" where
  "new_opts strtod [] a = Inr a"
| "new_opts strtod (Nopt_I # os) a = new_opts strtod os (a\<lparr>cl_num_increments := cl_num_increments CLArgsDefaults\<rparr>)"
| "new_opts strtod (Nopt_U optarg # os) a =
     (let (d, rest) = strtod optarg
      in if rest = optarg \<or> rest \<noteq> [] then Inl (Exit_process (- 1))
         else new_opts strtod os (a\<lparr>cl_usdelay := d, cl_usflg := 1\<rparr>))"
| "new_opts strtod (Nopt_S # os) a = new_opts strtod os (a\<lparr>cl_num_increments := cl_num_spawns CLArgsDefaults\<rparr>)"
| "new_opts strtod (Nopt_b # os) a = new_opts strtod os (a\<lparr>cl_bloop := cl_bloop CLArgsDefaults\<rparr>)"
| "new_opts strtod (Nopt_other _ # os) a = Inl (Exit_process (- 1))"

text \<open>\<open>argv\<close> are the arguments after the options; \<open>arg argv (k + 1)\<close> is the test \<open>carg > k\<close>.\<close>

definition processArgs :: "(string \<Rightarrow> real \<times> string) \<Rightarrow> nopt list \<Rightarrow> string list \<Rightarrow> CLArgs \<Rightarrow> CLArgs res" where
  "processArgs strtod os argv a =
     rbind (new_opts strtod os a) (\<lambda>a.
     Inr (a\<lparr>cl_ssec := arg argv 1 atoi (cl_ssec a), cl_bloop := arg argv 2 atol (cl_bloop a), cl_yieldcnt := arg argv 3 atol (cl_yieldcnt a),
            cl_evac := arg argv 4 atoi (cl_evac a), cl_num_forks := arg argv 5 (of_int \<circ> atoi) (cl_num_forks a),
            cl_num_spawns := arg argv 6 (of_int \<circ> atoi) (cl_num_spawns a), cl_num_increments := arg argv 7 (of_int \<circ> atoi) (cl_num_increments a),
            cl_stack_df := arg argv 8 (of_int \<circ> atoi) (cl_stack_df a), cl_do_test_pfasm := arg argv 9 (of_int \<circ> atoi) (cl_do_test_pfasm a),
            cl_do_test_interrupt := arg argv 10 (of_int \<circ> atoi) (cl_do_test_interrupt a)\<rparr>))"

section \<open>Evacuation\<close>

text \<open>\<open>found\<close> is what \<open>dlsym\<close> finds for the kernel's stack; 0 stands for an address that has not been looked up.\<close>

definition new_ktos :: "u64 option \<Rightarrow> u64 \<Rightarrow> u64 res" where
  "new_ktos found myktos = (if myktos = 0 then case found of None \<Rightarrow> Inl Assert_failed | Some v \<Rightarrow> Inr v else Inr myktos)"

type_synonym on_stack = "u64 \<Rightarrow> kc_call \<Rightarrow> kcut \<Rightarrow> int \<times> kcut"

text \<open>\<open>rc\<close> is set in the first branch only, and read after both.\<close>

definition new_evacuate :: "on_stack \<Rightarrow> kc_os \<Rightarrow> bool \<Rightarrow> u64 \<times> kcut \<Rightarrow> (u64 \<times> kcut) res" where
  "new_evacuate S W acquire = (\<lambda>(myktos, s).
     case os_getcpu W of
       None \<Rightarrow> Inl Assert_failed
     | Some cpu \<Rightarrow>
         rbind (new_ktos (os_tos W) myktos) (\<lambda>k.
         if acquire
         then let (ret, s) = S k (K_acquire_cpu cpu) s; rc = to_int ret in if rc = 0 then Inr (k, s) else Inl Assert_failed
         else let (_, s) = S k (K_release_cpu cpu) s in Inl Uninit_read))"

section \<open>The stability test\<close>

text \<open>
  Two nested loops on a local variable that nothing sets; the calculation of the delay before them and the sleep after the inner loop are left out. \<open>None\<close> is a loop that does not end.
\<close>

partial_function (option) us_inner :: "int \<Rightarrow> unit option" where
  "us_inner val = (if val = 0 then us_inner val else Some ())"

partial_function (option) us_outer :: "int \<Rightarrow> unit option" where
  "us_outer val = (if val = 0 then Option.bind (us_inner val) (\<lambda>_. us_outer val) else Some ())"

definition userstab_test :: "unit option" where
  "userstab_test = us_outer 0"

section \<open>The run\<close>

definition new_elevated :: "kct_env \<Rightarrow> kcut \<Rightarrow> (int \<times> int \<times> kcut) res" where
  "new_elevated V s =
     (let s = kc_do (K_kernel ''movq %cr3'') s
      in rbind (stacktouch (ke_stack V)) (\<lambda>(_, ss).
         let s = kc_dos [K_kernel ''overflowuid'', K_kernel ''_printk'', K_kernel ''kernel_add''] s
         in rbind (greeter_kernel_add 3 4) (\<lambda>ks.
            Inr (ss, ks, kc_dos [K_current_pid, K_kernel ''pf_adaptor_pf_cnt_get'', K_kernel ''pf_adaptor_df_cnt_get''] s))))"

text \<open>The tests from the sleep to the double fault are those of \<open>main.c\<close>.\<close>

definition shared_args :: "CLArgs \<Rightarrow> kct_args" where
  "shared_args a =
     \<lparr>ka_ssec = cl_ssec a, ka_bloop = cl_bloop a, ka_yieldcnt = cl_yieldcnt a, ka_evac = cl_evac a, ka_num_forks = cl_num_forks a,
      ka_num_spawns = cl_num_spawns a, ka_num_increments = cl_num_increments a, ka_stack_df = cl_stack_df a, ka_do_test_interrupt = 0\<rparr>"

definition new_later :: "kct_env \<Rightarrow> CLArgs \<Rightarrow> kcut \<Rightarrow> (nat \<times> u32 \<times> int \<times> kcut) res" where
  "new_later V a s =
     rbind (later_tests V (shared_args a) s) (\<lambda>(children, counter, ret, s).
     let s = (if cl_do_test_pfasm a \<noteq> 0
              then kc_dos [K_kernel ''test_pfasm(1,1)'', K_kernel ''test_pfasm(1,0)'', K_kernel ''test_pfasm(0,1)'', K_kernel ''test_pfasm(0,0)''] s else s);
         s = (if cl_do_test_interrupt a \<noteq> 0 then kc_do (K_kernel ''int $0xE0'') s else s)
     in Inr (children, counter, ret, s))"

definition new_run :: "on_stack \<Rightarrow> kc_os \<Rightarrow> kct_env \<Rightarrow> CLArgs \<Rightarrow> kcut res" where
  "new_run S W V a =
     rbind (if cl_evac a \<noteq> 0 then new_evacuate S W True (0, kcut_start) else Inr (0, kcut_start)) (\<lambda>(k, s).
     rbind (new_elevated V (kc_do K_elevate s)) (\<lambda>(ss, ks, s).
     rbind (user_yields 0 (cl_yieldcnt a) s) (\<lambda>s.
     rbind (kernel_yields (cl_yieldcnt a) s) (\<lambda>s.
     rbind (new_later V a s) (\<lambda>(children, counter, ret, s).
     let s = kc_do K_lower s
     in if cl_evac a \<noteq> 0 then rbind (new_evacuate S W False (k, s)) (\<lambda>(k, s). Inr s) else Inr s)))))"

text \<open>The outer \<open>None\<close> is a run that does not end.\<close>

definition new_main :: "on_stack \<Rightarrow> (string \<Rightarrow> real \<times> string) \<Rightarrow> kc_os \<Rightarrow> kct_env \<Rightarrow> nopt list \<Rightarrow> string list \<Rightarrow> kcut res option" where
  "new_main S strtod W V os argv =
     (case processArgs strtod os argv CLArgs_zero of
        Inl e \<Rightarrow> Some (Inl e)
      | Inr a \<Rightarrow> Option.bind (if cl_usflg a \<noteq> 0 then userstab_test else Some ()) (\<lambda>_. Some (new_run S W V a)))"

section \<open>What the unfinished program does\<close>

lemma us_inner_never: "us_inner v = Some y \<Longrightarrow> v \<noteq> 0"
  by (rule us_inner.raw_induct[where P = "\<lambda>v y. v \<noteq> 0"]) (auto split: if_splits)

lemma userstab_never: "userstab_test = None"
proof -
  have "us_inner 0 = None" using us_inner_never by (cases "us_inner 0") auto
  then show ?thesis unfolding userstab_test_def by (subst us_outer.simps) simp
qed

lemma new_elevated_ok:
  assumes "kct_env_ok V"
  shows "\<exists>s' cs. new_elevated V s = Inr (- 8, 7, s') \<and> kc_trace s' = kc_trace s @ cs \<and> stays_up cs"
proof -
  obtain d where "stacktouch (ke_stack V) = Inr (d, - 8)"
    using touch_loop_pages[of 8 0 8 "ke_stack V" 0] assms by (auto simp: stacktouch_def PGSIZE_def kct_env_ok_def)
  moreover have "greeter_kernel_add 3 4 = Inr 7" by (simp add: greeter_kernel_add_def int_add_def INT_MIN_def INT_MAX_def)
  ultimately show ?thesis by (simp add: new_elevated_def)
qed

lemma new_later_ok:
  assumes "0 \<le> cl_bloop a" "kct_env_ok V"
  shows "\<exists>n c ret s' cs. new_later V a s = Inr (n, c, ret, s') \<and> kc_trace s' = kc_trace s @ cs \<and> stays_up cs"
proof -
  have "0 \<le> ka_bloop (shared_args a)" using assms(1) by (simp add: shared_args_def)
  then obtain n c ret s1 cs where l: "later_tests V (shared_args a) s = Inr (n, c, ret, s1)" "kc_trace s1 = kc_trace s @ cs" "stays_up cs"
    using later_tests_ok[OF _ assms(2)] by blast
  define ds where "ds = (if cl_do_test_pfasm a \<noteq> 0
      then [K_kernel ''test_pfasm(1,1)'', K_kernel ''test_pfasm(1,0)'', K_kernel ''test_pfasm(0,1)'', K_kernel ''test_pfasm(0,0)''] else [])
    @ (if cl_do_test_interrupt a \<noteq> 0 then [K_kernel ''int $0xE0''] else [])"
  have "stays_up (cs @ ds)" using l(3) by (intro stays_up_append) (simp_all add: ds_def)
  moreover have "\<exists>s'. new_later V a s = Inr (n, c, ret, s') \<and> kc_trace s' = kc_trace s @ cs @ ds"
    using l(1,2) by (simp add: new_later_def ds_def)
  ultimately show ?thesis by blast
qed

text \<open>What Symlib promises of a call on the kernel's stack: afterwards the privilege is lowered again.\<close>

definition on_stack_ok :: "on_stack \<Rightarrow> bool" where
  "on_stack_ok S \<longleftrightarrow> (\<forall>k c s. kc_priv s False \<and> kernel_call c \<longrightarrow> kc_priv (snd (S k c s)) False)"

lemma middle_ok:
  assumes "kct_env_ok V" "0 \<le> cl_yieldcnt a" "cl_yieldcnt a \<le> INT_MAX" "0 \<le> cl_bloop a" "kc_priv s False"
  shows "\<exists>s'. kc_priv s' True \<and> (\<forall>f. rbind (new_elevated V (kc_do K_elevate s)) (\<lambda>(ss, ks, s).
     rbind (user_yields 0 (cl_yieldcnt a) s) (\<lambda>s.
     rbind (kernel_yields (cl_yieldcnt a) s) (\<lambda>s.
     rbind (new_later V a s) (\<lambda>(children, counter, ret, s). f s)))) = (f s' :: kcut res))"
proof -
  obtain s1 c1 where 1: "new_elevated V (kc_do K_elevate s) = Inr (- 8, 7, s1)" "kc_trace s1 = kc_trace (kc_do K_elevate s) @ c1" "stays_up c1"
    using new_elevated_ok[OF assms(1)] by blast
  obtain s2 where 2: "user_yields 0 (cl_yieldcnt a) s1 = Inr s2" "kc_trace s2 = kc_trace s1 @ replicate (nat (cl_yieldcnt a)) (K_user ''sched_yield'')"
    using user_yields_ok[of 0 "cl_yieldcnt a" s1] assms(2,3) by auto
  obtain s3 where 3: "kernel_yields (cl_yieldcnt a) s2 = Inr s3" "kc_trace s3 = kc_trace s2 @ replicate (nat (cl_yieldcnt a)) (K_kernel ''__x64_sys_sched_yield'')"
    using kernel_yields_ok[OF assms(2)] by blast
  obtain n c ret s4 c4 where 4: "new_later V a s3 = Inr (n, c, ret, s4)" "kc_trace s4 = kc_trace s3 @ c4" "stays_up c4"
    using new_later_ok[OF assms(4,1)] by blast
  have "kc_priv (kc_do K_elevate s) True" using assms(5) by simp
  from kc_priv_stays[OF kc_priv_stays[OF kc_priv_stays[OF kc_priv_stays[OF this 1(2,3)] 2(2)] 3(2)] 4(2,3)]
  have "kc_priv s4 True" by (simp add: stays_up_replicate)
  then show ?thesis using 1(1) 2(1) 3(1) 4(1) by auto
qed

text \<open>
  What the unfinished test program does when its counts are not negative and the system grants its requests. With the stability test it never ends. Without it and with evacuation it reads a variable
  that was never set, after all tests have been run and the processor was given back; without evacuation it returns, with its privilege lowered and after calling the kernel only while it was raised.\<close>

theorem new_main_ends:
  assumes "kct_env_ok V" and "on_stack_ok S" and "processArgs strtod opts argv CLArgs_zero = Inr a" and "0 \<le> cl_yieldcnt a" and "cl_yieldcnt a \<le> INT_MAX" and "0 \<le> cl_bloop a"
    and "os_getcpu W = Some cpu" and "os_tos W = Some tos" and "\<forall>k s. fst (S k (K_acquire_cpu cpu) s) = 0"
  shows "(cl_usflg a \<noteq> 0 \<longrightarrow> new_main S strtod W V opts argv = None)
    \<and> (cl_usflg a = 0 \<and> cl_evac a \<noteq> 0 \<longrightarrow> new_main S strtod W V opts argv = Some (Inl Uninit_read))
    \<and> (cl_usflg a = 0 \<and> cl_evac a = 0 \<longrightarrow> (\<exists>s. new_main S strtod W V opts argv = Some (Inr s) \<and> priv_run kc_rule False (kc_trace s) = Some False))"
proof -
  have p0: "kc_priv kcut_start False" by (simp add: kcut_start_def)
  have e: "\<exists>k s. new_evacuate S W True (0, kcut_start) = Inr (k, s) \<and> kc_priv s False"
  proof -
    have "kernel_call (K_acquire_cpu cpu)" by (simp add: kernel_call_def kc_rule_def)
    then have "kc_priv (snd (S tos (K_acquire_cpu cpu) kcut_start)) False" using assms(2) p0 unfolding on_stack_ok_def by blast
    moreover have "fst (S tos (K_acquire_cpu cpu) kcut_start) = 0" using assms(9) by blast
    ultimately show ?thesis using assms(7,8)
      by (cases "S tos (K_acquire_cpu cpu) kcut_start") (simp add: new_evacuate_def new_ktos_def to_int_def)
  qed
  have r: "\<exists>x. new_evacuate S W False (k, s) = (Inl Uninit_read :: (u64 \<times> kcut) res)" for k s
    using assms(7,8) by (simp add: new_evacuate_def new_ktos_def split: prod.splits)
  have 1: "new_run S W V a = Inl Uninit_read" if "cl_evac a \<noteq> 0"
  proof -
    obtain k s where ks: "new_evacuate S W True (0, kcut_start) = Inr (k, s)" "kc_priv s False" using e by blast
    show ?thesis using middle_ok[OF assms(1,4-6) ks(2)] that ks(1) r by (auto simp: new_run_def Let_def)
  qed
  have 2: "\<exists>s. new_run S W V a = Inr s \<and> priv_run kc_rule False (kc_trace s) = Some False" if "cl_evac a = 0"
  proof -
    obtain s' where s': "kc_priv s' True" "rbind (new_elevated V (kc_do K_elevate kcut_start)) (\<lambda>(ss, ks, s).
        rbind (user_yields 0 (cl_yieldcnt a) s) (\<lambda>s. rbind (kernel_yields (cl_yieldcnt a) s) (\<lambda>s.
        rbind (new_later V a s) (\<lambda>(children, counter, ret, s). Inr (kc_do K_lower s))))) = Inr (kc_do K_lower s')"
      using middle_ok[OF assms(1,4-6) p0] by metis
    have "new_run S W V a = Inr (kc_do K_lower s')" using s'(2) that by (simp add: new_run_def Let_def)
    then show ?thesis using s'(1) by simp
  qed
  show ?thesis using 1 2 assms(3) userstab_never by (simp add: new_main_def)
qed

definition demo_on_stack :: on_stack where
  "demo_on_stack k c s = (0, kc_do K_lower (kc_do c (kc_do K_elevate s)))"

lemma demo_on_stack_ok: "on_stack_ok demo_on_stack"
  by (simp add: on_stack_ok_def demo_on_stack_def kc_rule_kernel)

theorem new_main_ends_witness:
  "new_main demo_on_stack (\<lambda>s. (0, s)) demo_os demo_kct [] [''0'', ''0'', ''2'', ''1''] = Some (Inl Uninit_read)
   \<and> (\<exists>s. new_main demo_on_stack (\<lambda>s. (0, s)) demo_os demo_kct [] [] = Some (Inr s))
   \<and> new_main demo_on_stack (\<lambda>s. (0, [])) demo_os demo_kct [Nopt_U ''1''] [] = None"
proof -
  have v: "kct_env_ok demo_kct" by (simp add: kct_env_ok_def demo_kct_def demo_mst_def)
  have w: "os_getcpu demo_os = Some 3" "os_tos demo_os = Some 0x20" by (simp_all add: demo_os_def)
  have f: "\<forall>k s. fst (demo_on_stack k (K_acquire_cpu 3) s) = 0" by (simp add: demo_on_stack_def)
  have a: "atol ''0'' = 0" "atol ''1'' = 1" "atol ''2'' = 2" by code_simp+
  have 1: "processArgs (\<lambda>s. (0, s)) [] [''0'', ''0'', ''2'', ''1''] CLArgs_zero = Inr (CLArgs_zero\<lparr>cl_yieldcnt := 2, cl_evac := 1\<rparr>)"
    by (simp add: processArgs_def arg_def atoi_def a to_int_def CLArgs_zero_def)
  have 2: "processArgs (\<lambda>s. (0, s)) [] [] CLArgs_zero = Inr CLArgs_zero" by (simp add: processArgs_def arg_def CLArgs_zero_def)
  have 3: "processArgs (\<lambda>s. (0, [])) [Nopt_U ''1''] [] CLArgs_zero = Inr (CLArgs_zero\<lparr>cl_usflg := 1\<rparr>)" by (simp add: processArgs_def arg_def CLArgs_zero_def)
  note n = new_main_ends[OF v demo_on_stack_ok]
  show ?thesis
    using n[OF 1 _ _ _ w f] n[OF 2 _ _ _ w f] n[OF 3 _ _ _ w f] by (auto simp: CLArgs_zero_def INT_MAX_def)
qed

text \<open>
  Options of the unfinished test program: without any, nothing is tested, since all counts start at zero and not at their defaults; the option for the number of threads sets the number of increments, and
  an argument overrides what an option has set.\<close>

theorem processArgs_defaults:
  "processArgs strtod [] [] CLArgs_zero = Inr CLArgs_zero
   \<and> processArgs strtod [Nopt_S] [] CLArgs_zero = Inr (CLArgs_zero\<lparr>cl_num_increments := 1000\<rparr>)
   \<and> processArgs strtod [Nopt_b] (x # y # []) CLArgs_zero = Inr (CLArgs_zero\<lparr>cl_ssec := atoi x, cl_bloop := atol y\<rparr>)"
  by (simp add: processArgs_def arg_def CLArgs_zero_def CLArgsDefaults_def)

end
