(* ===== verification/Echo_Stats.thy ===== *)
theory Echo_Stats
  imports Complex_Main Echo_Client
begin

text \<open>
  The statistics of the benchmark client (\<open>kcuttcp/eclnt.c\<close>: \<open>cmp_dbl\<close>, \<open>pct\<close> and \<open>print_stats\<close>).

  A finite \<open>double\<close> is a real number, and an operation on doubles is the operation on reals followed by the rounding of the machine, \<open>rnd\<close>, a parameter:
  the source fixes neither its mode nor its precision. \<open>ieee_rounding\<close> is what IEEE 754 promises for binary64: rounding is monotone and keeps
  every integer up to \<open>2 ^ 53\<close>. A quotient by zero is not finite and is \<open>None\<close>. The array of samples is a list, a read outside it is a fault. What
  \<open>print_stats\<close> prints is a list of lines with the numbers in them; the formats and the rules between the groups are left out.
\<close>

section \<open>Sorting\<close>

definition cmp_dbl :: "real \<Rightarrow> real \<Rightarrow> int" where
  "cmp_dbl x y = of_bool (x > y) - of_bool (x < y)"

text \<open>\<open>qsort\<close> of the C library, for a comparison function that is a total preorder.\<close>

fun qsort_insert :: "('a \<Rightarrow> 'a \<Rightarrow> int) \<Rightarrow> 'a \<Rightarrow> 'a list \<Rightarrow> 'a list" where
  "qsort_insert cmp x [] = [x]"
| "qsort_insert cmp x (y # ys) = (if cmp x y \<le> 0 then x # y # ys else y # qsort_insert cmp x ys)"

definition qsort :: "('a \<Rightarrow> 'a \<Rightarrow> int) \<Rightarrow> 'a list \<Rightarrow> 'a list" where
  "qsort cmp xs = foldr (qsort_insert cmp) xs []"

section \<open>Percentiles\<close>

definition dbl_at :: "real list \<Rightarrow> int \<Rightarrow> real res" where
  "dbl_at s i = (if 0 \<le> i \<and> i < int (length s) then Inr (s ! nat i) else Inl Out_of_bounds)"

text \<open>The conversion of a double to \<open>long\<close> cuts the fraction off; outside the range of \<open>long\<close> it is undefined.\<close>

definition dbl_to_long :: "real \<Rightarrow> int res" where
  "dbl_to_long x = (let i = (if x < 0 then \<lceil>x\<rceil> else \<lfloor>x\<rfloor>) in if LONG_MIN \<le> i \<and> i \<le> LONG_MAX then Inr i else Inl Int_overflow)"

definition pct :: "(real \<Rightarrow> real) \<Rightarrow> real list \<Rightarrow> int \<Rightarrow> real \<Rightarrow> real res" where
  "pct rnd s n p =
     (if n = 1 then dbl_at s 0
      else let idx = rnd (rnd (p * rnd (1 / 100)) * rnd (of_int (n - 1))) in
        rbind (dbl_to_long idx) (\<lambda>lo.
        let frac = rnd (idx - rnd (of_int lo)) in
        if lo + 1 \<ge> n then dbl_at s (n - 1)
        else rbind (dbl_at s lo) (\<lambda>a. rbind (dbl_at s (lo + 1)) (\<lambda>b.
          Inr (rnd (rnd (a * rnd (1 - frac)) + rnd (b * frac)))))))"

section \<open>The report\<close>

datatype stat_line =
    No_samples
  | Transactions int real
  | Target_rate int
  | Achieved_rate "real option"
  | Throughput "real option"
  | Latency string real

primrec sum_up :: "(real \<Rightarrow> real) \<Rightarrow> (real \<Rightarrow> real) \<Rightarrow> real \<Rightarrow> real list \<Rightarrow> real" where
  "sum_up rnd g acc [] = acc"
| "sum_up rnd g acc (x # xs) = sum_up rnd g (rnd (acc + g x)) xs"

definition dbl_div :: "(real \<Rightarrow> real) \<Rightarrow> real \<Rightarrow> real \<Rightarrow> real option" where
  "dbl_div rnd x y = (if y = 0 then None else Some (rnd (x / y)))"

text \<open>The six percentiles are printed in a row of calls; \<open>pct_rows\<close> is that row.\<close>

definition pct_table :: "(string \<times> real) list" where
  "pct_table = [(''p50'', 50), (''p75'', 75), (''p90'', 90), (''p95'', 95), (''p99'', 99), (''p99.9'', 999 / 10)]"

primrec pct_rows :: "(real \<Rightarrow> real) \<Rightarrow> real list \<Rightarrow> int \<Rightarrow> (string \<times> real) list \<Rightarrow> stat_line list res" where
  "pct_rows rnd s n [] = Inr []"
| "pct_rows rnd s n (r # rs) =
     rbind (pct rnd s n (rnd (snd r))) (\<lambda>v. rbind (pct_rows rnd s n rs) (\<lambda>ls. Inr (Latency (fst r) (rnd (v * 10 ^ 6)) # ls)))"

definition dbl_mean :: "(real \<Rightarrow> real) \<Rightarrow> real list \<Rightarrow> int \<Rightarrow> real" where
  "dbl_mean rnd lat n = rnd (sum_up rnd (\<lambda>x. x) 0 (take (nat n) lat) / rnd (of_int n))"

definition dbl_stddev :: "(real \<Rightarrow> real) \<Rightarrow> real list \<Rightarrow> int \<Rightarrow> real \<Rightarrow> real" where
  "dbl_stddev rnd lat n mean =
     rnd (sqrt (rnd (sum_up rnd (\<lambda>x. let d = rnd (x - mean) in rnd (d * d)) 0 (take (nat n) lat) / rnd (of_int n))))"

definition print_stats :: "(real \<Rightarrow> real) \<Rightarrow> real list \<Rightarrow> int \<Rightarrow> real \<Rightarrow> int \<Rightarrow> int \<Rightarrow> stat_line list res" where
  "print_stats rnd lat n elapsed pkt_size rate =
     (if n \<le> 0 then Inr [No_samples]
      else if int (length lat) < n then Inl Out_of_bounds
      else let lat = qsort cmp_dbl (take (nat n) lat) @ drop (nat n) lat;
               mean = dbl_mean rnd lat n;
               stddev = dbl_stddev rnd lat n mean;
               tps = dbl_div rnd (rnd (of_int n)) elapsed;
               mbps = map_option (\<lambda>t. rnd (rnd (rnd (t * rnd (of_int pkt_size)) * 2) / rnd (1024 * 1024))) tps
        in rbind (dbl_at lat 0) (\<lambda>mn.
           rbind (pct_rows rnd lat n pct_table) (\<lambda>rows.
           rbind (dbl_at lat (n - 1)) (\<lambda>mx.
           Inr ([Transactions n elapsed, Target_rate rate, Achieved_rate tps, Throughput mbps,
                 Latency ''min'' (rnd (mn * 10 ^ 6)), Latency ''mean'' (rnd (mean * 10 ^ 6)), Latency ''stddev'' (rnd (stddev * 10 ^ 6))] @
                rows @ [Latency ''max'' (rnd (mx * 10 ^ 6))])))))"

section \<open>The sorted samples\<close>

lemma cmp_dbl_le: "cmp_dbl x y \<le> 0 \<longleftrightarrow> x \<le> y"
  by (auto simp: cmp_dbl_def)

lemma qsort_insert_insort: "qsort_insert cmp_dbl x ys = insort x ys"
  by (induction ys) (auto simp: cmp_dbl_le)

lemma qsort_sort: "qsort cmp_dbl xs = sort xs"
  by (simp add: qsort_def sort_key_def qsort_insert_insort[abs_def])

lemma sort_first: "xs \<noteq> [] \<Longrightarrow> sort xs ! 0 = Min (set xs)"
  for xs :: "real list"
  by (rule Min_eqI[symmetric]) (metis finite_set set_sort in_set_conv_nth sorted_sort sorted_nth_mono length_sort le0 nth_mem length_greater_0_conv)+

lemma sort_last: "xs \<noteq> [] \<Longrightarrow> sort xs ! (length xs - 1) = Max (set xs)"
  for xs :: "real list"
  by (rule Max_eqI[symmetric])
    (metis finite_set set_sort in_set_conv_nth sorted_sort sorted_nth_mono length_sort nth_mem length_greater_0_conv diff_less zero_less_one less_Suc_eq_le Suc_diff_1)+

section \<open>Every rounding: the report is complete\<close>

definition ieee_rounding :: "(real \<Rightarrow> real) \<Rightarrow> bool" where
  "ieee_rounding rnd \<longleftrightarrow> mono rnd \<and> (\<forall>i. \<bar>i\<bar> \<le> 2 ^ 53 \<longrightarrow> rnd (of_int i) = of_int i)"

lemma rounding_int: "ieee_rounding rnd \<Longrightarrow> \<bar>i\<bar> \<le> 2 ^ 53 \<Longrightarrow> rnd (of_int i) = of_int i"
  by (simp add: ieee_rounding_def)

lemma rounding_between:
  assumes "ieee_rounding rnd" "of_int a \<le> x" "x \<le> of_int b" "\<bar>a\<bar> \<le> 2 ^ 53" "\<bar>b\<bar> \<le> 2 ^ 53"
  shows "of_int a \<le> rnd x \<and> rnd x \<le> of_int b"
  using assms monoD[of rnd "of_int a" x] monoD[of rnd x "of_int b"] by (auto simp: ieee_rounding_def)

lemma dbl_to_long_ok: "0 \<le> x \<Longrightarrow> x \<le> of_int b \<Longrightarrow> b \<le> LONG_MAX \<Longrightarrow> \<exists>lo. dbl_to_long x = Inr lo \<and> 0 \<le> lo"
  by (auto simp: dbl_to_long_def LONG_MIN_def Let_def) linarith

text \<open>The index of a percentile is never negative and never overflows, whatever the rounding.\<close>

lemma pct_index:
  assumes "ieee_rounding rnd" "0 \<le> p" "p \<le> 100" "1 \<le> n" "n \<le> MAX_SAMPLES"
  shows "\<exists>lo. dbl_to_long (rnd (rnd (p * rnd (1 / 100)) * rnd (of_int (n - 1)))) = Inr lo \<and> 0 \<le> lo"
proof -
  have n: "rnd (of_int (n - 1)) = of_int (n - 1)"
    using assms by (intro rounding_int) (auto simp: MAX_SAMPLES_def)
  have c: "0 \<le> rnd (1 / 100)" "rnd (1 / 100) \<le> 1" using rounding_between[OF assms(1), of 0 "1 / 100" 1] by auto
  have "p * rnd (1 / 100) \<le> 100 * 1" using assms c by (intro mult_mono) auto
  then have q: "0 \<le> rnd (p * rnd (1 / 100))" "rnd (p * rnd (1 / 100)) \<le> 100"
    using rounding_between[OF assms(1), of 0 "p * rnd (1 / 100)" 100] assms(2) c by auto
  have "rnd (p * rnd (1 / 100)) * of_int (n - 1) \<le> 100 * of_int MAX_SAMPLES"
    using q assms by (intro mult_mono) (auto simp: MAX_SAMPLES_def)
  then have "0 \<le> rnd (rnd (p * rnd (1 / 100)) * of_int (n - 1)) \<and> rnd (rnd (p * rnd (1 / 100)) * of_int (n - 1)) \<le> of_int (100 * MAX_SAMPLES)"
    using rounding_between[OF assms(1), of 0 "rnd (p * rnd (1 / 100)) * of_int (n - 1)" "100 * MAX_SAMPLES"] q assms
    by (auto simp: MAX_SAMPLES_def)
  then show ?thesis unfolding n by (intro dbl_to_long_ok) (auto simp: MAX_SAMPLES_def LONG_MAX_def)
qed

lemma pct_ok:
  assumes "ieee_rounding rnd" "0 \<le> p" "p \<le> 100" "1 \<le> n" "n \<le> MAX_SAMPLES" "n \<le> int (length s)"
  shows "\<exists>v. pct rnd s n p = Inr v"
  using pct_index[OF assms(1-5)] assms(4,6) by (auto simp: pct_def Let_def dbl_at_def)

lemma pct_rows_ok:
  assumes "ieee_rounding rnd" "1 \<le> n" "n \<le> MAX_SAMPLES" "n \<le> int (length s)" "\<forall>r \<in> set rs. 0 \<le> snd r \<and> snd r \<le> 100"
  shows "\<exists>vs. length vs = length rs \<and> pct_rows rnd s n rs = Inr (map2 Latency (map fst rs) vs)"
  using assms(5)
proof (induction rs)
  case (Cons r rs)
  then obtain vs where vs: "length vs = length rs" "pct_rows rnd s n rs = Inr (map2 Latency (map fst rs) vs)" by auto
  have "0 \<le> rnd (snd r) \<and> rnd (snd r) \<le> 100" using rounding_between[OF assms(1), of 0 "snd r" 100] Cons.prems by auto
  then obtain v where "pct rnd s n (rnd (snd r)) = Inr v" using pct_ok[OF assms(1) _ _ assms(2-4)] by blast
  then show ?case using vs by (intro exI[of _ "rnd (v * 10 ^ 6) # vs"]) simp
qed simp

lemma pct_table_range: "\<forall>r \<in> set pct_table. 0 \<le> snd r \<and> snd r \<le> 100"
  by (simp add: pct_table_def)

lemma sorted_samples:
  assumes "0 < n" "n \<le> int (length lat)" "s = qsort cmp_dbl (take (nat n) lat) @ drop (nat n) lat"
  shows "n \<le> int (length s)" "dbl_at s 0 = Inr (Min (set (take (nat n) lat)))" "dbl_at s (n - 1) = Inr (Max (set (take (nat n) lat)))"
    "sorted (take (nat n) s)" "set (take (nat n) s) = set (take (nat n) lat)"
proof -
  let ?t = "take (nat n) lat"
  have t: "length ?t = nat n" "?t \<noteq> []" using assms by auto
  show "n \<le> int (length s)" using assms by (simp add: qsort_sort)
  show "dbl_at s 0 = Inr (Min (set ?t))"
    using assms t sort_first[of ?t] by (simp add: qsort_sort dbl_at_def nth_append)
  show "dbl_at s (n - 1) = Inr (Max (set ?t))"
    using assms t sort_last[of ?t] by (simp add: qsort_sort dbl_at_def nth_append nat_diff_distrib)
  show "sorted (take (nat n) s)" "set (take (nat n) s) = set ?t" using assms t by (simp_all add: qsort_sort)
qed

text \<open>
  The report of the client is complete for every number of samples the client can have taken and for every rounding of
  the machine: no percentile is read outside the samples and no index overflows; the line of the smallest latency shows the minimum
  of the samples, the last line their maximum, and between them are the mean, the deviation and the six percentiles, in
  this order.
\<close>

theorem print_stats_complete:
  assumes "ieee_rounding rnd" "0 < n" "n \<le> MAX_SAMPLES" "n \<le> int (length lat)"
  shows "\<exists>tps mbps mean stddev vs. length vs = length pct_table \<and>
    print_stats rnd lat n elapsed pkt_size rate =
      Inr ([Transactions n elapsed, Target_rate rate, Achieved_rate tps, Throughput mbps,
            Latency ''min'' (rnd (Min (set (take (nat n) lat)) * 10 ^ 6)), Latency ''mean'' mean, Latency ''stddev'' stddev] @
           map2 Latency (map fst pct_table) vs @ [Latency ''max'' (rnd (Max (set (take (nat n) lat)) * 10 ^ 6))])"
proof -
  define s where "s = qsort cmp_dbl (take (nat n) lat) @ drop (nat n) lat"
  note s = sorted_samples[OF assms(2,4) s_def]
  obtain vs where "length vs = length pct_table" "pct_rows rnd s n pct_table = Inr (map2 Latency (map fst pct_table) vs)"
    using pct_rows_ok[OF assms(1) _ assms(3) s(1) pct_table_range] assms(2) by auto
  then show ?thesis
    using assms(2,4) s(2,3) by (auto simp: print_stats_def Let_def s_def[symmetric])
qed

lemma rounding_id: "ieee_rounding (\<lambda>x. x)"
  by (simp add: ieee_rounding_def mono_def)

theorem print_stats_complete_witness:
  "\<exists>tps mbps mean stddev vs. length vs = length pct_table \<and>
    print_stats (\<lambda>x. x) [3, 1, 2] 3 2 64 100 =
      Inr ([Transactions 3 2, Target_rate 100, Achieved_rate tps, Throughput mbps,
            Latency ''min'' (1 * 10 ^ 6), Latency ''mean'' mean, Latency ''stddev'' stddev] @
           map2 Latency (map fst pct_table) vs @ [Latency ''max'' (3 * 10 ^ 6)])"
  using print_stats_complete[OF rounding_id, of 3 "[3, 1, 2]" 2 64 100] by (simp add: MAX_SAMPLES_def)

section \<open>Exact arithmetic: the report is ordered\<close>

text \<open>Without rounding, a percentile is the value at a position of the piecewise linear function through the sorted samples.\<close>

definition interp :: "real list \<Rightarrow> int \<Rightarrow> real \<Rightarrow> real" where
  "interp s n x =
     (let lo = \<lfloor>x\<rfloor> in if lo + 1 \<ge> n then s ! nat (n - 1) else s ! nat lo * (1 - (x - of_int lo)) + s ! nat (lo + 1) * (x - of_int lo))"

lemma pct_exact:
  assumes "0 \<le> p" "p \<le> 100" "1 \<le> n" "n \<le> MAX_SAMPLES" "n \<le> int (length s)"
  shows "pct (\<lambda>x. x) s n p = Inr (interp s n (p * (1 / 100) * of_int (n - 1)))"
proof -
  define x where "x = p * (1 / 100) * of_int (n - 1)"
  obtain lo where lo: "dbl_to_long x = Inr lo" "0 \<le> lo" using pct_index[OF rounding_id assms(1-4)] by (auto simp: x_def)
  have "0 \<le> x" using assms by (simp add: x_def)
  then have "lo = \<lfloor>x\<rfloor>" using lo by (auto simp: dbl_to_long_def Let_def split: if_splits)
  moreover have "n = 1 \<Longrightarrow> x = 0" by (simp add: x_def)
  ultimately show ?thesis
    unfolding pct_def interp_def Let_def x_def[symmetric] using assms(3,5) lo by (auto simp: dbl_at_def)
qed

lemma between_mix: "0 \<le> f \<Longrightarrow> f \<le> 1 \<Longrightarrow> a \<le> b \<Longrightarrow> a \<le> a * (1 - f) + b * f \<and> a * (1 - f) + b * f \<le> b"
  for a b f :: real
proof -
  assume f: "0 \<le> f" "f \<le> 1" and ab: "a \<le> b"
  have "0 \<le> (b - a) * f" "0 \<le> (b - a) * (1 - f)" using f ab by simp_all
  then show ?thesis by (simp add: algebra_simps)
qed

lemma sorted_at:
  assumes "sorted (take (nat n) s)" "n \<le> int (length s)" "0 \<le> i" "i \<le> j" "j < n"
  shows "s ! nat i \<le> s ! nat j"
  using sorted_nth_mono[OF assms(1), of "nat i" "nat j"] assms(2-5) by (simp add: nat_mono nat_less_iff)

lemma interp_cell:
  assumes "sorted (take (nat n) s)" "n \<le> int (length s)" "0 \<le> x" "\<lfloor>x\<rfloor> + 1 < n"
  shows "s ! nat \<lfloor>x\<rfloor> \<le> interp s n x \<and> interp s n x \<le> s ! nat (\<lfloor>x\<rfloor> + 1)"
proof -
  have "s ! nat \<lfloor>x\<rfloor> \<le> s ! nat (\<lfloor>x\<rfloor> + 1)" by (rule sorted_at[OF assms(1,2)]) (use assms(3,4) in auto)
  moreover have "0 \<le> x - of_int \<lfloor>x\<rfloor>" "x - of_int \<lfloor>x\<rfloor> \<le> 1" by linarith+
  ultimately show ?thesis
    using assms(4) between_mix[of "x - of_int \<lfloor>x\<rfloor>"] by (simp add: interp_def Let_def)
qed

lemma interp_mono:
  assumes "sorted (take (nat n) s)" "n \<le> int (length s)" "0 \<le> x" "x \<le> y"
  shows "interp s n x \<le> interp s n y"
proof -
  note le = sorted_at[OF assms(1,2)]
  have fl: "0 \<le> \<lfloor>x\<rfloor>" "\<lfloor>x\<rfloor> \<le> \<lfloor>y\<rfloor>" using assms(3,4) by (simp_all add: floor_mono)
  consider "n \<le> \<lfloor>x\<rfloor> + 1" | "\<lfloor>x\<rfloor> + 1 < n" "n \<le> \<lfloor>y\<rfloor> + 1" | "\<lfloor>y\<rfloor> + 1 < n" "\<lfloor>x\<rfloor> < \<lfloor>y\<rfloor>" | "\<lfloor>y\<rfloor> + 1 < n" "\<lfloor>x\<rfloor> = \<lfloor>y\<rfloor>"
    using fl by linarith
  then show ?thesis
  proof cases
    case 1
    then show ?thesis using fl by (simp add: interp_def Let_def)
  next
    case 2
    then have "interp s n y = s ! nat (n - 1)" by (simp add: interp_def Let_def)
    then show ?thesis using interp_cell[OF assms(1-3) 2(1)] le[of "\<lfloor>x\<rfloor> + 1" "n - 1"] fl 2 by linarith
  next
    case 3
    have "0 \<le> y" "\<lfloor>x\<rfloor> + 1 < n" using assms(3,4) 3 by linarith+
    then show ?thesis
      using interp_cell[OF assms(1-3)] interp_cell[OF assms(1,2) _ 3(1)] le[of "\<lfloor>x\<rfloor> + 1" "\<lfloor>y\<rfloor>"] fl 3 by force
  next
    case 4
    have "0 \<le> (s ! nat (\<lfloor>y\<rfloor> + 1) - s ! nat \<lfloor>y\<rfloor>) * (y - x)"
      using le[of "\<lfloor>y\<rfloor>" "\<lfloor>y\<rfloor> + 1"] fl 4 assms(4) by (intro mult_nonneg_nonneg) auto
    then show ?thesis using 4 by (simp add: interp_def Let_def algebra_simps)
  qed
qed

lemma interp_ends: "1 \<le> n \<Longrightarrow> interp s n 0 = s ! 0" "interp s n (of_int (n - 1)) = s ! nat (n - 1)"
  by (auto simp: interp_def Let_def)

lemma pct_rows_exact:
  assumes "1 \<le> n" "n \<le> MAX_SAMPLES" "n \<le> int (length s)" "\<forall>r \<in> set rs. 0 \<le> snd r \<and> snd r \<le> 100"
  shows "pct_rows (\<lambda>x. x) s n rs =
    Inr (map2 Latency (map fst rs) (map (\<lambda>r. interp s n (snd r * (1 / 100) * of_int (n - 1)) * 10 ^ 6) rs))"
  using assms(4) by (induction rs) (simp_all add: pct_exact[OF _ _ assms(1-3)])

lemma sum_up_exact: "sum_up (\<lambda>x. x) g acc xs = acc + sum_list (map g xs)"
  by (induction xs arbitrary: acc) simp_all

lemma mean_between:
  assumes "0 < n" "n \<le> int (length s)" "\<forall>x \<in> set (take (nat n) s). a \<le> x \<and> x \<le> b"
  shows "a \<le> dbl_mean (\<lambda>x. x) s n \<and> dbl_mean (\<lambda>x. x) s n \<le> b"
proof -
  let ?t = "take (nat n) s"
  have l: "real (length ?t) = of_int n" using assms by simp
  have "sum_list (map (\<lambda>_. a) ?t) \<le> sum_list (map (\<lambda>x. x) ?t)" "sum_list (map (\<lambda>x. x) ?t) \<le> sum_list (map (\<lambda>_. b) ?t)"
    using assms(3) by (intro sum_list_mono; simp)+
  then show ?thesis using assms(1) l
    by (simp add: dbl_mean_def sum_up_exact sum_list_triv le_divide_eq divide_le_eq mult.commute)
qed

lemma percentiles_sorted:
  assumes "sorted (take (nat n) s)" "n \<le> int (length s)" "1 \<le> n"
  defines "row \<equiv> (\<lambda>r. interp s n (snd r * (1 / 100) * of_int (n - 1)) * 10 ^ 6)"
  shows "sorted (s ! 0 * 10 ^ 6 # map row pct_table @ [s ! nat (n - 1) * 10 ^ 6])"
proof -
  define g where "g = (\<lambda>p :: real. interp s n (p * (1 / 100) * of_int (n - 1)) * 10 ^ 6)"
  have m: "g p \<le> g q" if "0 \<le> p" "p \<le> q" for p q
    unfolding g_def using that assms(3) by (intro mult_right_mono interp_mono[OF assms(1,2)]) auto
  have "sorted_wrt (\<lambda>p q. 0 \<le> p \<and> p \<le> q) (0 # map snd pct_table @ [100])" by (simp add: pct_table_def)
  then have "sorted (map g (0 # map snd pct_table @ [100]))"
    unfolding sorted_map by (rule sorted_wrt_mono_rel[rotated]) (use m in blast)
  moreover have "g 0 = s ! 0 * 10 ^ 6" "g 100 = s ! nat (n - 1) * 10 ^ 6"
    using interp_ends(1)[of n s] interp_ends(2)[of s n] assms(3) by (simp_all add: g_def diff_divide_distrib)
  ultimately show ?thesis by (simp add: row_def g_def comp_def)
qed

text \<open>
  C36. Up to the rounding of the machine the report of the client is ordered: in exact arithmetic the smallest latency is at most
  the median, the median at most the percentile for 75, and so on up to the largest latency, and the mean lies between the
  smallest and the largest.
\<close>

theorem print_stats_ordered:
  assumes "0 < n" "n \<le> MAX_SAMPLES" "n \<le> int (length lat)"
  shows "\<exists>front mn mean stddev vs mx. print_stats (\<lambda>x. x) lat n elapsed pkt_size rate =
      Inr (front @ [Latency ''min'' mn, Latency ''mean'' mean, Latency ''stddev'' stddev] @ map2 Latency (map fst pct_table) vs @ [Latency ''max'' mx]) \<and>
    length vs = length pct_table \<and> sorted (mn # vs @ [mx]) \<and> mn \<le> mean \<and> mean \<le> mx"
proof -
  define s where "s = qsort cmp_dbl (take (nat n) lat) @ drop (nat n) lat"
  note s = sorted_samples[OF assms(1,3) s_def]
  define tps where "tps = dbl_div (\<lambda>x. x) (of_int n) elapsed"
  define mbps where "mbps = map_option (\<lambda>t. t * of_int pkt_size * 2 / (1024 * 1024)) tps"
  define row where "row = (\<lambda>r :: string \<times> real. interp s n (snd r * (1 / 100) * of_int (n - 1)) * 10 ^ 6)"
  have ends: "dbl_at s 0 = Inr (s ! 0)" "dbl_at s (n - 1) = Inr (s ! nat (n - 1))" using s(1) assms(1) by (auto simp: dbl_at_def)
  have rows: "pct_rows (\<lambda>x. x) s n pct_table = Inr (map2 Latency (map fst pct_table) (map row pct_table))"
    using pct_rows_exact[OF _ assms(2) s(1) pct_table_range] assms(1) by (simp add: row_def)
  have srt: "sorted (s ! 0 * 10 ^ 6 # map row pct_table @ [s ! nat (n - 1) * 10 ^ 6])"
    unfolding row_def using percentiles_sorted[OF s(4,1)] assms(1) by simp
  have mean: "s ! 0 \<le> dbl_mean (\<lambda>x. x) s n" "dbl_mean (\<lambda>x. x) s n \<le> s ! nat (n - 1)"
    using mean_between[OF assms(1) s(1), of "s ! 0" "s ! nat (n - 1)"] s(2,3,5) ends by auto
  show ?thesis
    by (rule exI[of _ "[Transactions n elapsed, Target_rate rate, Achieved_rate tps, Throughput mbps]"], (rule exI)+, rule conjI)
      (use assms(1,3) ends rows srt mean in \<open>auto simp: print_stats_def Let_def s_def[symmetric] tps_def mbps_def\<close>)
qed

theorem print_stats_ordered_witness:
  "\<exists>front mn mean stddev vs mx. print_stats (\<lambda>x. x) [3, 1, 2, 7] 3 2 64 100 =
      Inr (front @ [Latency ''min'' mn, Latency ''mean'' mean, Latency ''stddev'' stddev] @ map2 Latency (map fst pct_table) vs @ [Latency ''max'' mx]) \<and>
    length vs = length pct_table \<and> sorted (mn # vs @ [mx]) \<and> mn \<le> mean \<and> mean \<le> mx"
  by (rule print_stats_ordered) (simp_all add: MAX_SAMPLES_def)

section \<open>The whole client\<close>

text \<open>What the system answers before the measurement: the calls of \<open>tcp_connect\<close>, and whether memory for the two buffers and for the samples is there.\<close>

record econn =
  ec_sock :: int
  ec_pton :: int
  ec_conn :: int
  ec_bufs :: bool
  ec_lat :: bool

text \<open>\<open>main\<close>: the value returned, the report and the descriptors left open; \<open>elapsed\<close> is the time between two readings of the clock.\<close>

definition eclnt_main :: "(real \<Rightarrow> real) \<Rightarrow> eopt list \<Rightarrow> econn \<Rightarrow> real \<Rightarrow> timespec \<Rightarrow> timespec \<Rightarrow> real tick list \<Rightarrow> real tick list \<Rightarrow>
    wr_ans list \<Rightarrow> rd_ans list \<Rightarrow> real \<Rightarrow> (int \<times> stat_line list \<times> int list) res" where
  "eclnt_main rnd opts E junk t0 t1 warm ticks wrs rds elapsed =
     (case eclnt_config opts of
        Inl rc \<Rightarrow> Inr (rc, [], [])
      | Inr c \<Rightarrow>
          let (fd, opened) = tcp_connect (ec_sock E) (ec_pton E) (ec_conn E) []
          in if fd < 0 then Inr (1, [], opened)
             else if \<not> ec_bufs E then Inr (1, [], opened)
             else rbind (sample_cap c) (\<lambda>_.
                  if \<not> ec_lat E then Inr (1, [], opened)
                  else rbind (run_bench c junk t0 t1 warm ticks wrs rds) (\<lambda>b.
                       rbind (print_stats rnd (b_lat b) (b_n b) elapsed (c_pkt_size c) (c_rate c)) (\<lambda>ls.
                       Inr (0, ls, remove1 fd opened)))))"

text \<open>A report of the samples \<open>xs\<close>.\<close>

definition reports :: "(real \<Rightarrow> real) \<Rightarrow> real list \<Rightarrow> stat_line list \<Rightarrow> bool" where
  "reports rnd xs ls \<longleftrightarrow> (if xs = [] then ls = [No_samples]
     else (\<exists>e. hd ls = Transactions (int (length xs)) e) \<and>
          Latency ''min'' (rnd (Min (set xs) * 10 ^ 6)) \<in> set ls \<and> last ls = Latency ''max'' (rnd (Max (set xs) * 10 ^ 6)))"

lemma print_stats_reports:
  assumes "ieee_rounding rnd" "0 \<le> n" "n \<le> MAX_SAMPLES" "n \<le> int (length lat)"
  shows "\<exists>ls. print_stats rnd lat n elapsed pkt_size rate = Inr ls \<and> reports rnd (take (nat n) lat) ls"
proof (cases "n = 0")
  case True
  then show ?thesis by (simp add: print_stats_def reports_def)
next
  case False
  then have n: "0 < n" "take (nat n) lat \<noteq> []" "int (length (take (nat n) lat)) = n" using assms by auto
  define s where "s = qsort cmp_dbl (take (nat n) lat) @ drop (nat n) lat"
  note s = sorted_samples[OF n(1) assms(4) s_def]
  obtain vs where "pct_rows rnd s n pct_table = Inr (map2 Latency (map fst pct_table) vs)"
    using pct_rows_ok[OF assms(1) _ assms(3) s(1) pct_table_range] n(1) by auto
  then show ?thesis using n assms(4) s(2,3) by (auto simp: print_stats_def Let_def s_def[symmetric] reports_def)
qed

text \<open>The client on any answers: no access outside the array, and a report of the measured times.\<close>

lemma eclnt_main_sound:
  assumes "ieee_rounding rnd" and "ts_wf t1" and "eclnt_config opts = Inr c"
  shows "eclnt_main rnd opts E junk t0 t1 warm ticks wrs rds elapsed \<noteq> Inl Out_of_bounds \<and>
    (\<forall>b. run_bench c junk t0 t1 warm ticks wrs rds = Inr b \<and> 0 \<le> ec_sock E \<and> ec_pton E = 1 \<and> ec_conn E = 0 \<and> ec_bufs E \<and> ec_lat E \<longrightarrow>
      (\<exists>ls. eclnt_main rnd opts E junk t0 t1 warm ticks wrs rds elapsed = Inr (0, ls, []) \<and> reports rnd (map tk_rtt (take (nat (b_n b)) ticks)) ls))"
proof -
  have bench: "run_bench c junk t0 t1 warm ticks wrs rds \<noteq> Inl Out_of_bounds" by (rule conjunct1[OF run_bench_in_bounds[OF assms(2)]])
  have rep: "\<exists>ls. print_stats rnd (b_lat b) (b_n b) elapsed (c_pkt_size c) (c_rate c) = Inr ls \<and> reports rnd (map tk_rtt (take (nat (b_n b)) ticks)) ls"
    if "run_bench c junk t0 t1 warm ticks wrs rds = Inr b" for b
  proof -
    have b: "0 \<le> b_n b" "b_n b \<le> int (length (b_lat b))" "length (b_lat b) \<le> 4000000" "take (nat (b_n b)) (b_lat b) = map tk_rtt (take (nat (b_n b)) ticks)"
      using run_bench_in_bounds[OF assms(2), of c junk t0 warm ticks wrs rds] that by blast+
    show ?thesis using print_stats_reports[OF assms(1) b(1) _ b(2)] b(2-4) by (auto simp: MAX_SAMPLES_def)
  qed
  have cap: "\<exists>n. sample_cap c = Inr n" if "run_bench c junk t0 t1 warm ticks wrs rds = Inr b" for b
    using that by (auto simp: run_bench_def rbind_eq_Inr)
  have "eclnt_main rnd opts E junk t0 t1 warm ticks wrs rds elapsed \<noteq> Inl Out_of_bounds"
  proof (cases "run_bench c junk t0 t1 warm ticks wrs rds")
    case (Inl e)
    then show ?thesis using bench sample_cap_no_oob[of c] by (simp add: eclnt_main_def assms(3) rbind_eq_Inl split: prod.splits)
  next
    case (Inr b)
    then show ?thesis using rep[OF Inr] sample_cap_no_oob[of c] by (auto simp: eclnt_main_def assms(3) rbind_eq_Inl split: prod.splits)
  qed
  moreover have "\<exists>ls. eclnt_main rnd opts E junk t0 t1 warm ticks wrs rds elapsed = Inr (0, ls, []) \<and> reports rnd (map tk_rtt (take (nat (b_n b)) ticks)) ls"
    if b: "run_bench c junk t0 t1 warm ticks wrs rds = Inr b" "0 \<le> ec_sock E" "ec_pton E = 1" "ec_conn E = 0" "ec_bufs E" "ec_lat E" for b
    using rep[OF b(1)] cap[OF b(1)] b by (auto simp: eclnt_main_def assms(3) tcp_connect_def)
  ultimately show ?thesis by blast
qed

text \<open>
  C35. The client as a whole. Whatever its options, the answers of the system and the rounding of the machine, it never leaves its array of samples, neither when it stores them nor when it prints the statistics; when its benchmark
  has ended it returns 0 with its connection closed, and the report is about exactly the round trip times that were measured: their number, their smallest and their largest value, or that there are none.
\<close>

theorem eclnt_main_reports:
  assumes "ieee_rounding rnd" and "ts_wf t1" and "eclnt_config opts = Inr c"
  shows "eclnt_main rnd opts E junk t0 t1 warm ticks wrs rds elapsed \<noteq> Inl Out_of_bounds \<and>
    (\<forall>b. run_bench c junk t0 t1 warm ticks wrs rds = Inr b \<and> 0 \<le> ec_sock E \<and> ec_pton E = 1 \<and> ec_conn E = 0 \<and> ec_bufs E \<and> ec_lat E \<longrightarrow>
      (\<exists>ls. eclnt_main rnd opts E junk t0 t1 warm ticks wrs rds elapsed = Inr (0, ls, []) \<and> reports rnd (map tk_rtt (take (nat (b_n b)) ticks)) ls))"
  using assms by (rule eclnt_main_sound)

definition demo_rtts :: "real tick list" where
  "demo_rtts = map (\<lambda>r. \<lparr>tk_stop = False, tk_time_up = False, tk_rtt = r\<rparr>) [3, 1, 2]"

theorem eclnt_main_reports_witness:
  "\<exists>ls. eclnt_main (\<lambda>x. x) [Opt_s 1, Opt_n 2, Opt_w 0] \<lparr>ec_sock = 4, ec_pton = 1, ec_conn = 0, ec_bufs = True, ec_lat = True\<rparr> 0 \<lparr>tv_sec = 0, tv_nsec = 0\<rparr>
      \<lparr>tv_sec = 0, tv_nsec = 0\<rparr> [] demo_rtts [W_take 0, W_take 0] [R_data ''BB''] 1 = Inr (0, ls, [])
    \<and> last ls = Latency ''max'' (3 * 10 ^ 6)"
proof -
  let ?c = "ecfg_default\<lparr>c_pkt_size := 1, c_max_txns := 2, c_warmup := 0\<rparr>"
  have c: "eclnt_config [Opt_s 1, Opt_n 2, Opt_w 0] = Inr ?c" by (simp add: eclnt_config_def ecfg_default_def)
  obtain b where b: "run_bench ?c 0 \<lparr>tv_sec = 0, tv_nsec = 0\<rparr> \<lparr>tv_sec = 0, tv_nsec = 0\<rparr> [] demo_rtts [W_take 0, W_take 0] [R_data ''BB''] = Inr b" "b_n b = 2"
    by (simp add: run_bench_def sample_cap_def ecfg_default_def MAX_SAMPLES_def demo_rtts_def transaction_def sndbuf_def sys_write_def period_ns_def)
  show ?thesis
    using eclnt_main_reports[OF rounding_id ts_wf_0 c, of "\<lparr>ec_sock = 4, ec_pton = 1, ec_conn = 0, ec_bufs = True, ec_lat = True\<rparr>" 0
        "\<lparr>tv_sec = 0, tv_nsec = 0\<rparr>" "[]" demo_rtts "[W_take 0, W_take 0]" "[R_data ''BB'']" 1] b
    by (auto simp: reports_def demo_rtts_def)
qed

end
