(* ===== verification/Echo_Clock.thy ===== *)
theory Echo_Clock
  imports Echo_Stats
begin

text \<open>
  The clock of the client (\<open>mono_sec\<close> and \<open>mono_ts\<close> of \<open>kcuttcp/eclnt.c\<close>). \<open>Echo_Client\<close> takes what its loops learn from the clock as an answer of the system; here the answers are computed from readings, as \<open>main\<close> does it, so that the
  times in the report can be compared with the readings. Readings are ordered by seconds and then nanoseconds, the order that \<open>timespec\<close> is given as a type.
\<close>

section \<open>The order of readings\<close>

instantiation timespec_ext :: (linorder) linorder
begin

definition less_eq_timespec_ext :: "'a timespec_ext \<Rightarrow> 'a timespec_ext \<Rightarrow> bool" where
  "less_eq_timespec_ext a b \<longleftrightarrow> tv_sec a < tv_sec b \<or> tv_sec a = tv_sec b \<and> (tv_nsec a < tv_nsec b \<or> tv_nsec a = tv_nsec b \<and> timespec.more a \<le> timespec.more b)"

definition less_timespec_ext :: "'a timespec_ext \<Rightarrow> 'a timespec_ext \<Rightarrow> bool" where
  "less_timespec_ext a b \<longleftrightarrow> a \<le> b \<and> \<not> b \<le> (a :: 'a timespec_ext)"

instance
  by intro_classes (auto simp: less_eq_timespec_ext_def less_timespec_ext_def intro: timespec.equality)

end

lemma timespec_le: "a \<le> b \<longleftrightarrow> tv_sec a < tv_sec b \<or> tv_sec a = tv_sec b \<and> tv_nsec a \<le> tv_nsec b"
  for a b :: timespec
  by (auto simp: less_eq_timespec_ext_def)

text \<open>On well-formed readings it is the order of the times in nanoseconds.\<close>

lemma timespec_le_ns: "ts_wf a \<Longrightarrow> ts_wf b \<Longrightarrow> a \<le> b \<longleftrightarrow> ts_ns a \<le> ts_ns b"
  for a b :: timespec
  by (auto simp: timespec_le ts_wf_def ts_ns_def)


section \<open>Readings\<close>

definition mono_sec :: "(real \<Rightarrow> real) \<Rightarrow> timespec \<Rightarrow> real" where
  "mono_sec rnd ts = rnd (rnd (of_int (tv_sec ts)) + rnd (rnd (of_int (tv_nsec ts)) * rnd (1 / 10 ^ 9)))"

definition mono_ts :: "timespec \<Rightarrow> timespec" where
  "mono_ts ts = ts"

text \<open>One round of a loop: the flag of the signal handler, the reading at the stopping condition, and those before and after the packet.\<close>

record eround =
  er_stop :: bool
  er_now :: timespec
  er_t0 :: timespec
  er_t1 :: timespec

definition round_tick :: "(real \<Rightarrow> real) \<Rightarrow> real \<Rightarrow> eround \<Rightarrow> real tick" where
  "round_tick rnd t_end r =
     \<lparr>tk_stop = er_stop r, tk_time_up = (mono_sec rnd (er_now r) \<ge> t_end), tk_rtt = rnd (mono_sec rnd (er_t1 r) - mono_sec rnd (er_t0 r))\<rparr>"

text \<open>The readings of a whole run: at the start of the warm-up and of the measurement each one for the end of the phase and one for the first slot, those of the rounds, and the last one.\<close>

record eclock =
  ek_warm :: timespec
  ek_warm_nxt :: timespec
  ek_warm_rounds :: "eround list"
  ek_start :: timespec
  ek_nxt :: timespec
  ek_rounds :: "eround list"
  ek_fin :: timespec

definition warm_end :: "(real \<Rightarrow> real) \<Rightarrow> ecfg \<Rightarrow> eclock \<Rightarrow> real" where
  "warm_end rnd c k = rnd (mono_sec rnd (ek_warm k) + rnd (of_int (c_warmup c)))"

definition t_end :: "(real \<Rightarrow> real) \<Rightarrow> ecfg \<Rightarrow> eclock \<Rightarrow> real" where
  "t_end rnd c k = rnd (mono_sec rnd (ek_start k) + rnd (of_int (c_duration c)))"

definition elapsed_time :: "(real \<Rightarrow> real) \<Rightarrow> eclock \<Rightarrow> real" where
  "elapsed_time rnd k = rnd (mono_sec rnd (ek_fin k) - mono_sec rnd (ek_start k))"

definition eclnt_main_clock :: "(real \<Rightarrow> real) \<Rightarrow> eopt list \<Rightarrow> econn \<Rightarrow> real \<Rightarrow> eclock \<Rightarrow> wr_ans list \<Rightarrow> rd_ans list \<Rightarrow> (int \<times> stat_line list \<times> int list) res" where
  "eclnt_main_clock rnd opts E junk k wrs rds =
     (let c = (case eclnt_config opts of Inr c \<Rightarrow> c | Inl _ \<Rightarrow> ecfg_default)
      in eclnt_main rnd opts E junk (mono_ts (ek_warm_nxt k)) (mono_ts (ek_nxt k)) (map (round_tick rnd (warm_end rnd c k)) (ek_warm_rounds k))
           (map (round_tick rnd (t_end rnd c k)) (ek_rounds k)) wrs rds (elapsed_time rnd k))"

section \<open>Rounded readings keep their order\<close>

text \<open>What binary64 promises of the two constants involved: the rounded nanosecond is positive and so close that a fraction stays below one second.\<close>

definition clock_rounding :: "(real \<Rightarrow> real) \<Rightarrow> bool" where
  "clock_rounding rnd \<longleftrightarrow> ieee_rounding rnd \<and> 0 \<le> rnd (1 / 10 ^ 9) \<and> 999999999 * rnd (1 / 10 ^ 9) \<le> 1"

definition reading_ok :: "timespec \<Rightarrow> bool" where
  "reading_ok ts \<longleftrightarrow> ts_wf ts \<and> 0 \<le> tv_sec ts \<and> tv_sec ts \<le> 2 ^ 53"

lemma rounding_mono: "ieee_rounding rnd \<Longrightarrow> x \<le> y \<Longrightarrow> rnd x \<le> rnd y"
  by (simp add: ieee_rounding_def monoD)

lemma rounding_nonneg: "ieee_rounding rnd \<Longrightarrow> 0 \<le> x \<Longrightarrow> 0 \<le> rnd x"
  using rounding_mono[of rnd 0 x] rounding_int[of rnd 0] by simp

lemma fraction_bounds:
  assumes "clock_rounding rnd" and "0 \<le> n" and "n < 1000000000"
  shows "0 \<le> rnd (rnd (of_int n) * rnd (1 / 10 ^ 9))" and "rnd (rnd (of_int n) * rnd (1 / 10 ^ 9)) \<le> 1"
proof -
  have r: "ieee_rounding rnd" and e: "0 \<le> rnd (1 / 10 ^ 9)" "999999999 * rnd (1 / 10 ^ 9) \<le> 1" using assms(1) by (simp_all add: clock_rounding_def)
  have n: "rnd (of_int n) = of_int n" using rounding_int[OF r, of n] assms(2,3) by simp
  have "of_int n * rnd (1 / 10 ^ 9) \<le> 999999999 * rnd (1 / 10 ^ 9)" using assms(3) e(1) by (intro mult_right_mono) simp_all
  then have "of_int n * rnd (1 / 10 ^ 9) \<le> 1" using e(2) by linarith
  then show "rnd (rnd (of_int n) * rnd (1 / 10 ^ 9)) \<le> 1" using rounding_mono[OF r] rounding_int[OF r, of 1] unfolding n by fastforce
  show "0 \<le> rnd (rnd (of_int n) * rnd (1 / 10 ^ 9))" unfolding n using e(1) assms(2) by (intro rounding_nonneg[OF r]) simp
qed

lemma mono_sec_mono:
  assumes "clock_rounding rnd" and "reading_ok a" and "reading_ok b" and "a \<le> b"
  shows "mono_sec rnd a \<le> mono_sec rnd b"
proof -
  have r: "ieee_rounding rnd" and e: "0 \<le> rnd (1 / 10 ^ 9)" using assms(1) by (simp_all add: clock_rounding_def)
  have s: "rnd (of_int (tv_sec a)) = of_int (tv_sec a)" "rnd (of_int (tv_sec b)) = of_int (tv_sec b)"
    using assms(2,3) by (auto simp: reading_ok_def intro!: rounding_int[OF r])
  have fa: "rnd (rnd (of_int (tv_nsec a)) * rnd (1 / 10 ^ 9)) \<le> 1" and fb: "0 \<le> rnd (rnd (of_int (tv_nsec b)) * rnd (1 / 10 ^ 9))"
    using fraction_bounds[OF assms(1)] assms(2,3) by (simp_all add: reading_ok_def ts_wf_def)
  have "rnd (of_int (tv_sec a)) + rnd (rnd (of_int (tv_nsec a)) * rnd (1 / 10 ^ 9)) \<le> rnd (of_int (tv_sec b)) + rnd (rnd (of_int (tv_nsec b)) * rnd (1 / 10 ^ 9))"
  proof (cases "tv_sec a < tv_sec b")
    case True
    then have "of_int (tv_sec a) + 1 \<le> (of_int (tv_sec b) :: real)" by (metis of_int_1 of_int_add of_int_le_iff zless_imp_add1_zle)
    then show ?thesis unfolding s using fa fb by linarith
  next
    case False
    then have eq: "tv_sec a = tv_sec b" and le: "tv_nsec a \<le> tv_nsec b" using assms(4) by (auto simp: timespec_le)
    have "rnd (of_int (tv_nsec a)) * rnd (1 / 10 ^ 9) \<le> rnd (of_int (tv_nsec b)) * rnd (1 / 10 ^ 9)"
      using rounding_mono[OF r] le e by (intro mult_right_mono) simp_all
    then show ?thesis unfolding eq using rounding_mono[OF r] by simp
  qed
  then show ?thesis unfolding mono_sec_def by (rule rounding_mono[OF r])
qed


section \<open>Which rounds are measured\<close>

text \<open>Every measured round was entered: no signal, and the end of the measurement not reached when that is what stops it.\<close>

lemma measure_loop_entered:
  assumes "measure_loop c cap ts b = Inr b'" and "i < nat (b_n b' - b_n b)"
  shows "i < length ts \<and> \<not> tk_stop (ts ! i) \<and> (c_max_txns c \<le> 0 \<longrightarrow> \<not> tk_time_up (ts ! i))"
  using assms
proof (induction ts arbitrary: b i)
  case (Cons t ts)
  let ?b = "if period_ns c > 0 then b\<lparr>b_nxt := ts_add_ns (period_ns c) (b_nxt b)\<rparr> else b"
  let ?stop = "tk_stop t \<or> (if c_max_txns c > 0 then b_n b \<ge> c_max_txns c else tk_time_up t) \<or> b_n b \<ge> cap"
  show ?case
  proof (cases ?stop)
    case True
    then have "measure_loop c cap (t # ts) b = Inr b" by auto
    then have "b' = b" using Cons.prems(1) by simp
    then show ?thesis using Cons.prems(2) by simp
  next
    case False
    obtain rc b1 where t: "transaction c ?b = Inr (rc, b1)" using Cons.prems(1) False by (auto simp: rbind_eq_Inr Let_def split: if_splits)
    have n: "b_n b1 = b_n b" using transaction_frame[OF t] by (simp split: if_splits)
    show ?thesis
    proof (cases "rc < 0")
      case True
      then have "b' = b1" using Cons.prems(1) False t by (auto simp: Let_def)
      then show ?thesis using Cons.prems(2) n by simp
    next
      case rc: False
      let ?b2 = "b1\<lparr>b_lat := (b_lat b1)[nat (b_n b1) := tk_rtt t], b_n := b_n b1 + 1\<rparr>"
      have m: "measure_loop c cap ts ?b2 = Inr b'" using Cons.prems(1) False t rc by (auto simp: Let_def split: if_splits)
      show ?thesis
      proof (cases i)
        case 0
        then show ?thesis using False by auto
      next
        case (Suc j)
        then have "j < nat (b_n b' - b_n ?b2)" using Cons.prems(2) n by simp
        from Cons.IH[OF m this] show ?thesis using Suc by simp
      qed
    qed
  qed
qed simp

lemma run_bench_entered:
  assumes "run_bench c junk t0 t1 warm ticks wrs rds = Inr b" and "i < nat (b_n b)"
  shows "i < length ticks \<and> \<not> tk_stop (ticks ! i) \<and> (c_max_txns c \<le> 0 \<longrightarrow> \<not> tk_time_up (ticks ! i))"
proof -
  obtain cap p where p: "(case p of (ok, b1) \<Rightarrow> if ok then measure_loop c cap ticks (b1\<lparr>b_n := 0, b_nxt := t1\<rparr>) else Inr (b1\<lparr>b_n := 0, b_nxt := t1\<rparr>)) = Inr b"
    using assms(1) unfolding run_bench_def rbind_eq_Inr Let_def by blast
  obtain ok b1 where r: "(if ok then measure_loop c cap ticks (b1\<lparr>b_n := 0, b_nxt := t1\<rparr>) else Inr (b1\<lparr>b_n := 0, b_nxt := t1\<rparr>)) = Inr b"
    using that[of "fst p" "snd p"] p by (simp only: split_beta)
  have "ok" using r assms(2) by (auto split: if_splits)
  then show ?thesis using measure_loop_entered[of c cap ticks "b1\<lparr>b_n := 0, b_nxt := t1\<rparr>" b i] r assms(2) by simp
qed

section \<open>Properties\<close>

definition clock_ok :: "eclock \<Rightarrow> bool" where
  "clock_ok k \<longleftrightarrow> (\<forall>t \<in> {ek_start k, ek_fin k}. reading_ok t) \<and> ek_start k \<le> ek_fin k \<and> ts_wf (ek_nxt k) \<and>
     (\<forall>r \<in> set (ek_rounds k). reading_ok (er_t0 r) \<and> reading_ok (er_t1 r) \<and> er_t0 r \<le> er_t1 r)"

lemma round_trip_nonneg:
  assumes "clock_rounding rnd" and "reading_ok (er_t0 r)" and "reading_ok (er_t1 r)" and "er_t0 r \<le> er_t1 r"
  shows "0 \<le> tk_rtt (round_tick rnd e r)"
proof -
  have "ieee_rounding rnd" using assms(1) by (simp add: clock_rounding_def)
  moreover have "0 \<le> mono_sec rnd (er_t1 r) - mono_sec rnd (er_t0 r)" using mono_sec_mono[OF assms] by simp
  ultimately show ?thesis by (simp add: round_tick_def rounding_nonneg)
qed

text \<open>
  C40. The client on a clock that never goes back. When the benchmark ends, the client returns 0 and reports one time for each of the first \<open>n\<close> rounds, the difference of its two rounded readings. In spite of the rounding none of these is
  negative, nor is the elapsed time; in none of the rounds had a signal arrived, and when a duration ends the measurement, each of them was entered before that end.\<close>

theorem client_times_nonneg:
  assumes "clock_rounding rnd" and "clock_ok k" and "eclnt_config opts = Inr c"
    and "run_bench c junk (ek_warm_nxt k) (ek_nxt k) (map (round_tick rnd (warm_end rnd c k)) (ek_warm_rounds k))
          (map (round_tick rnd (t_end rnd c k)) (ek_rounds k)) wrs rds = Inr b"
    and "0 \<le> ec_sock E \<and> ec_pton E = 1 \<and> ec_conn E = 0 \<and> ec_bufs E \<and> ec_lat E"
  shows "\<exists>ls xs. eclnt_main_clock rnd opts E junk k wrs rds = Inr (0, ls, []) \<and> reports rnd xs ls \<and> 0 \<le> elapsed_time rnd k \<and> (\<forall>x \<in> set xs. 0 \<le> x)
    \<and> xs = map (\<lambda>r. rnd (mono_sec rnd (er_t1 r) - mono_sec rnd (er_t0 r))) (take (nat (b_n b)) (ek_rounds k))
    \<and> (\<forall>i < nat (b_n b). i < length (ek_rounds k) \<and> \<not> er_stop (ek_rounds k ! i) \<and> (c_max_txns c \<le> 0 \<longrightarrow> mono_sec rnd (er_now (ek_rounds k ! i)) < t_end rnd c k))"
proof -
  let ?ticks = "map (round_tick rnd (t_end rnd c k)) (ek_rounds k)"
  have r: "ieee_rounding rnd" using assms(1) by (simp add: clock_rounding_def)
  have wf: "ts_wf (ek_nxt k)" and le: "mono_sec rnd (ek_start k) \<le> mono_sec rnd (ek_fin k)"
    using assms(2) mono_sec_mono[OF assms(1)] by (auto simp: clock_ok_def)
  obtain ls where ls: "eclnt_main_clock rnd opts E junk k wrs rds = Inr (0, ls, [])" "reports rnd (map tk_rtt (take (nat (b_n b)) ?ticks)) ls"
    using eclnt_main_sound[OF r wf assms(3), of E junk "ek_warm_nxt k" "map (round_tick rnd (warm_end rnd c k)) (ek_warm_rounds k)" ?ticks wrs rds "elapsed_time rnd k"]
      assms(3-5) by (auto simp: eclnt_main_clock_def mono_ts_def)
  have xs: "map tk_rtt (take (nat (b_n b)) ?ticks) = map (\<lambda>r. rnd (mono_sec rnd (er_t1 r) - mono_sec rnd (er_t0 r))) (take (nat (b_n b)) (ek_rounds k))"
    by (simp add: round_tick_def take_map)
  have "0 \<le> x" if "x \<in> set (map tk_rtt (take (nat (b_n b)) ?ticks))" for x
    using that round_trip_nonneg[OF assms(1)] assms(2) by (auto simp: take_map clock_ok_def dest: in_set_takeD)
  moreover have "0 \<le> elapsed_time rnd k" using le by (simp add: elapsed_time_def rounding_nonneg[OF r])
  moreover have "i < length (ek_rounds k) \<and> \<not> er_stop (ek_rounds k ! i) \<and> (c_max_txns c \<le> 0 \<longrightarrow> mono_sec rnd (er_now (ek_rounds k ! i)) < t_end rnd c k)"
    if "i < nat (b_n b)" for i
    using run_bench_entered[OF assms(4) that] by (auto simp: round_tick_def)
  ultimately show ?thesis using ls unfolding xs by blast
qed


text \<open>Two packets of one byte on a clock that counts nanoseconds, in exact arithmetic.\<close>

definition demo_round :: "int \<Rightarrow> int \<Rightarrow> eround" where
  "demo_round a d = \<lparr>er_stop = False, er_now = \<lparr>tv_sec = 5, tv_nsec = a\<rparr>, er_t0 = \<lparr>tv_sec = 5, tv_nsec = a\<rparr>, er_t1 = \<lparr>tv_sec = 5, tv_nsec = a + d\<rparr>\<rparr>"

definition demo_clock :: eclock where
  "demo_clock = \<lparr>ek_warm = \<lparr>tv_sec = 5, tv_nsec = 0\<rparr>, ek_warm_nxt = \<lparr>tv_sec = 5, tv_nsec = 0\<rparr>, ek_warm_rounds = [], ek_start = \<lparr>tv_sec = 5, tv_nsec = 0\<rparr>,
     ek_nxt = \<lparr>tv_sec = 5, tv_nsec = 0\<rparr>, ek_rounds = [demo_round 10 30, demo_round 50 20, demo_round 90 1], ek_fin = \<lparr>tv_sec = 6, tv_nsec = 0\<rparr>\<rparr>"

theorem client_times_nonneg_witness:
  "\<exists>ls. eclnt_main_clock (\<lambda>x. x) [Opt_s 1, Opt_n 2, Opt_w 0] \<lparr>ec_sock = 4, ec_pton = 1, ec_conn = 0, ec_bufs = True, ec_lat = True\<rparr> 0 demo_clock
      [W_take 0, W_take 0] [R_data ''BB''] = Inr (0, ls, []) \<and> 0 \<le> elapsed_time (\<lambda>x. x) demo_clock"
proof -
  let ?c = "ecfg_default\<lparr>c_pkt_size := 1, c_max_txns := 2, c_warmup := 0\<rparr>"
  have r: "clock_rounding (\<lambda>x. x)" using rounding_id by (simp add: clock_rounding_def)
  have k: "clock_ok demo_clock" by (simp add: clock_ok_def demo_clock_def demo_round_def reading_ok_def ts_wf_def timespec_le)
  have c: "eclnt_config [Opt_s 1, Opt_n 2, Opt_w 0] = Inr ?c" by (simp add: eclnt_config_def ecfg_default_def)
  obtain b where b: "run_bench ?c 0 (ek_warm_nxt demo_clock) (ek_nxt demo_clock) (map (round_tick (\<lambda>x. x) (warm_end (\<lambda>x. x) ?c demo_clock)) (ek_warm_rounds demo_clock))
      (map (round_tick (\<lambda>x. x) (t_end (\<lambda>x. x) ?c demo_clock)) (ek_rounds demo_clock)) [W_take 0, W_take 0] [R_data ''BB''] = Inr b"
    by (simp add: run_bench_def sample_cap_def ecfg_default_def MAX_SAMPLES_def demo_clock_def demo_round_def round_tick_def transaction_def sndbuf_def sys_write_def period_ns_def)
  show ?thesis
    using client_times_nonneg[OF r k c b, of "\<lparr>ec_sock = 4, ec_pton = 1, ec_conn = 0, ec_bufs = True, ec_lat = True\<rparr>"] by auto
qed

end
