(* ===== verification/Spec2Isabelle.thy ===== *)
theory Spec2Isabelle
  imports Fs_Props Kld_Main_Props Elf_Tools Idt_Table Idt_Handlers Dpld Kcut Kcut_Threads Echo_Client Findlib Kldso Load_Mod
    Pages Cpu_Migration Demos Read_Idtr Adaptor_System Fs_Reach Kcut_Ext New_Main Echo_Clock
begin

text \<open>
  Symbi-OS lets ordinary programs run with the privilege of the kernel. The repository holds the tools and examples around
  it (\<open>src/examples\<close>); the privileged kernel itself and the library \<open>Symlib\<close> are elsewhere. This development models
  the C code of those tools and examples as HOL functions and transition systems and proves that it is correct, or states exactly
  where it is not.

  \<^bold>\<open>The program and its parts.\<close>
  \<^item> \<open>kld\<close> (\<open>tools/src/kld\<close>), a loader that makes the symbols of the kernel and of kernel modules available as shared objects. It reads
    its command line into a table of objects, turns \<open>/proc/kallsyms\<close> into generated ELF objects, and serves a synthetic file
    system through libfuse until a signal arrives.
  \<^item> \<open>dpld\<close> (\<open>tools/src/dpld.c\<close>) and \<open>load_mod.c\<close>, which load the kernel modules that a program carries and resolve its symbols in the kernel;
    \<open>kld.so\<close> (\<open>tools/src/kldso\<close>), the program interpreter that starts the loader script.
  \<^item> \<open>idtr_interposer\<close>, a kernel module that redirects interrupt vectors to its own handlers.
  \<^item> \<open>kcuttest\<close>, shortcuts from a program into the kernel's TCP functions, with the kernel extensions behind them: one gives a task a processor for itself, two adapt the interrupt table to programs that run on user
    memory with the privilege of the kernel. Two test programs exercise all this.
  \<^item> \<open>kcuttcp\<close>, an echo server that uses the shortcuts and a client that measures it; \<open>findlibkallsyms\<close>, which finds a library in the address space.
  \<^item> Demonstrations: \<open>swap_phys_pages\<close> exchanges two pages, \<open>cpu_migration\<close> reports where it runs, \<open>printk\<close>, \<open>back_linkage\<close> and \<open>read_idtr\<close> call functions of kernel modules.

  \<^bold>\<open>Conventions.\<close> A C function is a HOL function on an explicit state. It has the type \<open>'a res\<close> when it can stop the
  process: \<open>Inl\<close> of a \<open>fault\<close> for a failed assertion, a NULL dereference, a use after free, an access out of bounds, a signed overflow and so on, \<open>Inr\<close> otherwise
  (theory \<open>Prelude\<close>). Integers whose width matters are words. Everything outside \<open>src/\<close>, that is the kernel, libfuse, libelf, the dynamic linker and uthash, is a
  parameter: a function that answers, a list of answers consumed in the order of the calls, or the operations of a locale. In user programs \<open>malloc\<close> and its relatives are taken to succeed.

  \<^bold>\<open>Theories, in the order of the components.\<close>
  \<^item> \<open>Prelude\<close>, \<open>Clib\<close>, \<open>Uthash\<close>: results, words, strings, buffers; the functions of the C library; the contract of the hash tables (locale \<open>uthash\<close>, interpreted on
    association lists).
  \<^item> \<open>Fs_Types\<close>, \<open>Fs_Inode\<close>, \<open>Fs_Tree\<close>, \<open>Fs_Mount\<close>, \<open>Fs_Fuse\<close>: \<open>fs.h\<close>, \<open>fs.c\<close> and \<open>kldfs.c\<close>. The inode table with its free list (locale
    \<open>ino_stack\<close>), directories as two hash tables over a heap of objects, creation, removal, mount point, start-up and cleanup, the libfuse callbacks.
    \<open>Fs_Inv\<close> is the invariant, \<open>Fs_Create\<close> and \<open>Fs_Remove\<close> show that the operations keep it, \<open>Fs_Spec\<close> is the abstract file system, a set of
    entries, and \<open>Fs_Props\<close> has the refinement: create, remove, look up, list, read, the purge of empty parents, the life cycle, and the
    two defects found. \<open>Fs_Reach\<close> has the reachable states and which operation returns in which of them.
  \<^item> \<open>Events\<close>: \<open>sigproc.c\<close>, \<open>event.h\<close> and the loop of \<open>kldfs.c\<close>; every event is served, in order, until a terminating signal.
  \<^item> \<open>Elf\<close>, \<open>Elf_Props\<close>, \<open>Elf_Tools\<close>: \<open>elf.c\<close>, \<open>readsymtbl.c\<close>, \<open>listlibs.c\<close>. A generated object holds its symbols in two tables, from each of which names and addresses are read back; string tables
    have the exact size, and the counters of type \<open>int\<close> are bounded. The locale \<open>elf_lib\<close> is what libelf promises.
  \<^item> \<open>Kld_Objects\<close>, \<open>Kld_Kallsyms\<close>, \<open>Kallsyms_Props\<close>, \<open>Kld_Main\<close>, \<open>Kld_Main_Props\<close>: \<open>main.c\<close> and \<open>globals.h\<close>. Options and the table of objects with their
    descriptors, the distribution of kernel symbols over modules, a whole run of the program. The contents of the files are part of the state (\<open>files\<close> in \<open>Clib\<close>, with the locale \<open>file_steps\<close> for a sequence of writes): what \<open>open\<close> and \<open>write\<close>
    answer, which the code ignores, decides what a file holds in the end.
  \<^item> \<open>Idt_Table\<close>, \<open>Idt_Handlers\<close>: \<open>idtr_interposer/kmod\<close>. Descriptors and their copy on all processors; the assembly of the handlers as
    instructions on registers and a stack, and their C functions.
  \<^item> \<open>Privilege\<close>: traces of calls with a rule for the privilege; the locales \<open>balanced_calls\<close> and \<open>balanced_session\<close>, interpreted in \<open>Kcut\<close>, \<open>Load_Mod\<close> and \<open>Dpld\<close>.
  \<^item> \<open>Dpld\<close>, \<open>Load_Mod\<close>: \<open>dpld.c\<close> and the two versions of \<open>load_mod.c\<close>. \<open>Kldso\<close>: \<open>kldso/main.c\<close>. \<open>Findlib\<close>: \<open>misc/findlibkallsyms.c\<close>.
  \<^item> \<open>Kcut\<close>: \<open>kcut_tcpmsg.h\<close>, \<open>kcut.h\<close>, \<open>evacuate.h\<close>, \<open>ktos.h\<close>, with the compile-time switches as a record. Privilege of every run, and
    how often a plain system call is made.
  \<^item> \<open>Kcut_Threads\<close>: the thread test of \<open>kcuttest/main.c\<close> as inductive step relations. Mutual exclusion, no lost increment, a bound on every run, no
    deadlock, and what a failed thread creation does.
  \<^item> \<open>Evac\<close>, \<open>Kcut_Ext\<close>: \<open>evacuate.kc\<close>, \<open>evacuate.kh\<close> and \<open>kcut_tcpmsg.kc\<close>. Tasks with their affinities and the list of saved ones; whoever may still use the processor after a request, restoring after any history, whom
    the modes kill. \<open>Kcut_Ext\<close> composes the shortcuts of \<open>Kcut\<close> with the extension.
  \<^item> \<open>Idt_Adaptor\<close>: \<open>idtadaptor.kc\<close>, \<open>pfadaptor.kc\<close>, \<open>efadaptor.kc\<close>. Both adaptors edit a copy of the table and load it everywhere; what they share is the locale \<open>idt_edit\<close>, interpreted for each of them. Refinement to an
    update of one table; which gates lead to which stub, and what is recorded for the stubs.
  \<^item> \<open>Adaptor_Asm\<close>, \<open>Adaptor_Test\<close>: \<open>pfasm.kS\<close>, \<open>efasm.kS\<close> and the test handler of \<open>efadaptor.kc\<close>, instruction by instruction on registers, stack and the two bases of \<open>swapgs\<close>. Frames are delivered intact to the recorded handler, error codes are corrected for elevated tasks only. \<open>Adaptor_System\<close> composes installation, delivery by the processor and stub: an exception reaches the handler that was in the table before.
  \<^item> \<open>Stack_Test\<close>, \<open>Kcut_Test\<close>, \<open>New_Main\<close>: \<open>mmap_stack_test.c\<close>, the rest of \<open>kcuttest/main.c\<close>, and \<open>newmain.c\<close>, its unfinished successor. Whole runs: privilege, yields, children, counters, resources.
  \<^item> \<open>Echo_Server\<close>, \<open>Echo_Client\<close>, \<open>Echo_Stats\<close>, \<open>Echo_Clock\<close>: \<open>esrv.c\<close> and \<open>eclnt.c\<close>. What is received is sent back, no connection is forgotten, no sample is stored out
    of bounds, pacing is exact; the statistics are complete for every rounding of doubles and ordered in exact arithmetic, and the whole client reports what it measured. \<open>Echo_Clock\<close> computes the times from readings of the clock; they are ordered as a type, and rounding keeps that order. The round trip between client and server is below.
  \<^item> \<open>Pages\<close>, \<open>Cpu_Migration\<close>, \<open>Demos\<close>, \<open>Read_Idtr\<close>: the demonstrations. \<open>Pages\<close> has memory behind page table entries and a translation buffer for each processor; every walk of the page table finds an entry, permissions are left out.

  \<^bold>\<open>Bounds and fuel.\<close> Loops are recursive functions that are shown to terminate, except where the surroundings decide: those recurse over the list of
  answers, and \<open>Out_of_fuel\<close> means that the list is too short; the theorems that such a loop returns say how long a list is enough. \<open>fsRemoveitem\<close>
  recurses to the parent with fuel, one more than the number of objects ever allocated, and \<open>fsRemoveitem_purges\<close> shows that this is enough.

  \<^bold>\<open>Not modelled.\<close> Usage texts, progress lines and debugging output; \<open>pfdemo\<close>, which jumps into the assembly of the adaptors with a stack that the compiler has laid out; what single privileged instructions do; \<open>module_param\<close> and the
  greetings of the modules; \<open>modlogger.bpf.c\<close>, which prints names; tests, notebooks, scripts, patches and generated files. Concurrency is modelled for the thread test only; all other programs of the
  repository have one thread, and the extensions serialise their work with a lock.
\<close>

section \<open>The echo server and its client\<close>

text \<open>
  C26. A packet survives the round trip between the benchmark client and the echo server. The client's stream is cut into writes, the server
  gets it in any number of readiness events, each of which holds any number of pieces and ends with \<open>EAGAIN\<close>, it sends in writes that may be cut or put off, and the client reads what comes back in any pieces.
  \<open>write_all\<close> sends the whole packet, the server's loop sends exactly its bytes back, in their order, and keeps the connection, and \<open>read_all\<close> returns the packet.
\<close>

theorem echo_round_trip:
  assumes client: "willing cw" "\<forall>e. W_fail e \<notin> set cw" "length p \<le> length cw"
    and server: "fd \<noteq> lfd" "es_rds s = concat (map (\<lambda>ds. map R_data ds @ [R_fail EAGAIN]) dss) @ rds"
      "\<forall>d \<in> set (concat dss). d \<noteq> [] \<and> length d \<le> BUF_SIZE" "willing (es_wrs s)" "length p \<le> takes (es_wrs s)"
    and network: "concat (concat dss) = p" "[] \<notin> set es" "concat es = p"
  shows "\<exists>ps cw' s' out. write_all p cw = Inr (0, ps, cw') \<and> concat ps = concat (concat dss) \<and>
    server_loop lfd (map (\<lambda>_. E_events [(fd, EPOLLIN)]) dss) s = Inr (False, s') \<and> es_open s' = es_open s \<and>
    es_sent s' = es_sent s @ map (Pair fd) out \<and> concat out = concat es \<and>
    read_all (length p) (map R_data es @ later) = Inr (0, p, later)"
proof -
  obtain ps cw' where "write_all p cw = Inr (0, ps, cw')" "concat ps = p"
    using write_all_sends[OF client] by blast
  moreover obtain s' where "server_loop lfd (map (\<lambda>_. E_events [(fd, EPOLLIN)]) dss) s = Inr (False, s')"
      "es_sent s' = es_sent s @ map (Pair fd) (map concat dss)" "es_open s' = es_open s"
    using server_loop_echoes[OF server(1-4)] server(5) network(1) by (auto simp: comp_def)
  moreover have "concat (map concat dss) = concat es" using network(1,3) by (induction dss arbitrary: p es) auto
  moreover have "read_all (length p) (map R_data es @ later) = Inr (0, p, later)"
    using read_all_receives[OF network(2), of "length p" later] network(3) by simp
  moreover have "concat ps = concat (concat dss)" if "concat ps = p" for ps using that network(1) by simp
  ultimately show ?thesis by blast
qed

theorem echo_round_trip_witness:
  "\<exists>ps cw' s' out. write_all ''abcde'' (replicate 5 (W_take 2)) = Inr (0, ps, cw') \<and>
    server_loop 3 [E_events [(7, EPOLLIN)], E_events [(7, EPOLLIN)]]
      (demo_esrv\<lparr>es_rds := [R_data ''ab'', R_fail EAGAIN, R_data ''c'', R_data ''de'', R_fail EAGAIN]\<rparr>) = Inr (False, s') \<and>
    es_sent s' = map (Pair 7) out \<and> concat out = ''abcde'' \<and>
    read_all 5 (map R_data [''a'', ''bcde''] @ []) = Inr (0, ''abcde'', [])"
proof -
  let ?s = "demo_esrv\<lparr>es_rds := [R_data ''ab'', R_fail EAGAIN, R_data ''c'', R_data ''de'', R_fail EAGAIN]\<rparr>"
  have "\<exists>ps cw' s' out. write_all ''abcde'' (replicate 5 (W_take 2)) = Inr (0, ps, cw') \<and> concat ps = concat (concat [[''ab''], [''c'', ''de'']]) \<and>
    server_loop 3 (map (\<lambda>_. E_events [(7, EPOLLIN)]) [[''ab''], [''c'', ''de'']]) ?s = Inr (False, s') \<and> es_open s' = es_open ?s \<and>
    es_sent s' = es_sent ?s @ map (Pair 7) out \<and> concat out = concat [''a'', ''bcde''] \<and>
    read_all (length ''abcde'') (map R_data [''a'', ''bcde''] @ []) = Inr (0, ''abcde'', [])"
    by (rule echo_round_trip[where rds="[]"]) (simp_all add: willing_def demo_esrv_def BUF_SIZE_def EAGAIN_def)
  then show ?thesis by (auto simp: demo_esrv_def simp del: server_loop.simps)
qed

end
